(* ===== verification/Otx_Prelude.thy ===== *)
theory Otx_Prelude
  imports Main "HOL-Library.Word" "HOL-Library.Multiset"
begin

text \<open>
  Shared vocabulary of the development: the fixed width integers of the server, the images of
  values in memory (the host is little endian, and the sources copy values with
  \<^verbatim>\<open>memcpy\<close>), checked reads and writes of a byte array, and the generic list, map and word
  facts that the component theories use.

  A result of type \<^typ>\<open>'a option\<close> that is \<^const>\<open>None\<close> stands for undefined behaviour of
  the C++ program (an access outside an array, a failed assertion). The component theories prove
  where it cannot happen.
\<close>

unbundle bit_operations_syntax

named_theorems mem_simps "rewriting of checked array accesses"
named_theorems codec_simps "rewriting of memory images of integers"

type_synonym u8 = "8 word"
type_synonym u16 = "16 word"
type_synonym u32 = "32 word"
type_synonym u64 = "64 word"

type_synonym bytes = "u8 list"

lemma unat_lt2p: "unat (w :: 'a::len word) < 2 ^ LENGTH('a)"
  by (rule unsigned_less)

subsection \<open>Arrays of bytes\<close>

definition read_at :: "nat \<Rightarrow> nat \<Rightarrow> 'a list \<Rightarrow> 'a list option" where
  "read_at pos n buf = (if pos + n \<le> length buf then Some (take n (drop pos buf)) else None)"

definition write_at :: "nat \<Rightarrow> 'a list \<Rightarrow> 'a list \<Rightarrow> 'a list option" where
  "write_at pos bs buf =
     (if pos + length bs \<le> length buf
      then Some (take pos buf @ bs @ drop (pos + length bs) buf) else None)"

lemma read_at_Some [mem_simps]:
  "pos + n \<le> length buf \<Longrightarrow> read_at pos n buf = Some (take n (drop pos buf))"
  by (simp add: read_at_def)

lemma write_at_Some [mem_simps]:
  "pos + length bs \<le> length buf \<Longrightarrow>
   write_at pos bs buf = Some (take pos buf @ bs @ drop (pos + length bs) buf)"
  by (simp add: write_at_def)

lemma write_at_length:
  "write_at pos bs buf = Some buf' \<Longrightarrow> length buf' = length buf"
  by (auto simp: write_at_def split: if_splits)

lemma read_at_length: "read_at pos n buf = Some bs \<Longrightarrow> length bs = n"
  by (auto simp: read_at_def split: if_splits)

lemma write_at_same:
  assumes "write_at pos bs buf = Some buf'"
  shows "read_at pos (length bs) buf' = Some bs"
  using assms by (auto simp: write_at_def read_at_def split: if_splits)

lemma write_at_disjoint:
  assumes "write_at pos bs buf = Some buf'"
    and "p + n \<le> pos \<or> pos + length bs \<le> p"
  shows "read_at p n buf' = read_at p n buf"
proof -
  have le: "pos + length bs \<le> length buf"
    and b': "buf' = take pos buf @ bs @ drop (pos + length bs) buf"
    using assms(1) by (auto simp: write_at_def split: if_splits)
  from assms(2) show ?thesis
  proof
    assume "p + n \<le> pos"
    then have "take n (drop p buf') = take n (drop p (take pos buf))"
      using le by (simp add: b' drop_append)
    also have "\<dots> = take n (drop p buf)"
      using \<open>p + n \<le> pos\<close> by (simp add: drop_take min_def)
    finally show ?thesis
      using le \<open>p + n \<le> pos\<close> by (simp add: read_at_def b')
  next
    assume h: "pos + length bs \<le> p"
    have "drop p buf' = drop p buf"
      using h le by (simp add: b' add.commute)
    moreover have "length buf' = length buf" using le by (simp add: b')
    ultimately show ?thesis by (simp add: read_at_def)
  qed
qed

lemma read_at_mid:
  "length pre = p \<Longrightarrow> length xs = n \<Longrightarrow> read_at p n (pre @ xs @ post) = Some xs"
  by (auto simp: read_at_def)

lemma write_at_mid:
  "length pre = p \<Longrightarrow> length ys = length xs \<Longrightarrow>
   write_at p ys (pre @ xs @ post) = Some (pre @ ys @ post)"
  by (auto simp: write_at_def)

lemma write_at_nil [simp]: "write_at pos [] buf = (if pos \<le> length buf then Some buf else None)"
  by (simp add: write_at_def)

text \<open>Two adjacent writes are one write of the concatenation.\<close>

lemma write_at_append:
  "write_at pos (as @ bs) buf =
     Option.bind (write_at pos as buf) (write_at (pos + length as) bs)"
proof (cases "pos + length as \<le> length buf")
  case True
  have "take (pos + length as) (take pos buf @ as @ drop (pos + length as) buf)
      = take pos buf @ as"
    using True by simp
  with True show ?thesis
    by (auto simp: write_at_def add.assoc add.commute [of "length bs"])
next
  case False
  then show ?thesis by (simp add: write_at_def)
qed

text \<open>Two adjacent reads are one read.\<close>

lemma read_at_add:
  assumes "read_at pos (m + n) buf = Some bs"
  shows "read_at pos m buf = Some (take m bs)" "read_at (pos + m) n buf = Some (drop m bs)"
  using assms by (auto simp: read_at_def drop_take add.commute split: if_splits)

lemma read_at_append:
  assumes "read_at pos (length as) buf = Some as" "read_at (pos + length as) (length bs) buf = Some bs"
  shows "read_at pos (length as + length bs) buf = Some (as @ bs)"
proof -
  have le: "pos + length as + length bs \<le> length buf" and a: "take (length as) (drop pos buf) = as"
    and b: "take (length bs) (drop (pos + length as) buf) = bs"
    using assms by (auto simp: read_at_def split: if_splits)
  have "take (length as + length bs) (drop pos buf) = as @ bs"
    using a b by (simp add: take_add add.commute)
  with le show ?thesis by (simp add: read_at_def)
qed

subsection \<open>Little endian images of integers\<close>

primrec le_bytes :: "nat \<Rightarrow> nat \<Rightarrow> bytes" where
  "le_bytes 0 v = []"
| "le_bytes (Suc n) v = of_nat (v mod 256) # le_bytes n (v div 256)"

primrec le_val :: "bytes \<Rightarrow> nat" where
  "le_val [] = 0"
| "le_val (b # bs) = unat b + 256 * le_val bs"

lemma length_le_bytes [simp]: "length (le_bytes n v) = n"
  by (induction n arbitrary: v) auto

lemma le_val_le_bytes: "le_val (le_bytes n v) = v mod 256 ^ n"
proof (induction n arbitrary: v)
  case 0
  then show ?case by simp
next
  case (Suc n)
  have "unat (of_nat (v mod 256) :: u8) = v mod 256"
    by (simp add: unat_of_nat take_bit_eq_mod)
  then show ?case
    by (simp add: Suc.IH mod_mult2_eq)
qed

lemma le_val_bound: "le_val bs < 256 ^ length bs"
proof (induction bs)
  case Nil
  then show ?case by simp
next
  case (Cons b bs)
  have "unat b < 256" using unat_lt2p [of b] by simp
  with Cons show ?case by simp
qed

lemma le_bytes_le_val: "le_bytes (length bs) (le_val bs) = bs"
proof (induction bs)
  case Nil
  then show ?case by simp
next
  case (Cons b bs)
  have b: "unat b < 256" using unat_lt2p [of b] by simp
  have "of_nat ((unat b + 256 * le_val bs) mod 256) = b"
    using b by (simp add: mod_mult_self2 of_nat_take_bit flip: take_bit_eq_mod)
  with Cons b show ?case by simp
qed

definition enc_u8 :: "u8 \<Rightarrow> bytes" where "enc_u8 w = [w]"
definition enc_u16 :: "u16 \<Rightarrow> bytes" where "enc_u16 w = le_bytes 2 (unat w)"
definition enc_u32 :: "u32 \<Rightarrow> bytes" where "enc_u32 w = le_bytes 4 (unat w)"
definition enc_u64 :: "u64 \<Rightarrow> bytes" where "enc_u64 w = le_bytes 8 (unat w)"

definition dec_u8 :: "bytes \<Rightarrow> u8" where "dec_u8 bs = of_nat (le_val bs)"
definition dec_u16 :: "bytes \<Rightarrow> u16" where "dec_u16 bs = of_nat (le_val bs)"
definition dec_u32 :: "bytes \<Rightarrow> u32" where "dec_u32 bs = of_nat (le_val bs)"
definition dec_u64 :: "bytes \<Rightarrow> u64" where "dec_u64 bs = of_nat (le_val bs)"

lemma unat_u16_bound: "unat (w :: u16) < 65536"
  using unat_lt2p [of w] by simp

lemma unat_u32_bound: "unat (w :: u32) < 4294967296"
  using unat_lt2p [of w] by simp

lemma unat_u64_bound: "unat (w :: u64) < 18446744073709551616"
  using unat_lt2p [of w] by simp

lemma unat_u8_bound: "unat (w :: u8) < 256"
  using unat_lt2p [of w] by simp

lemmas unat_bounds = unat_u8_bound unat_u16_bound unat_u32_bound unat_u64_bound

text \<open>
  The interface of a value that has an image of fixed width: the networking code and the
  property streams only rely on these two laws of \<^verbatim>\<open>memcpy\<close> from and to an integer.
\<close>

locale byte_codec =
  fixes width :: nat
    and enc :: "'a \<Rightarrow> bytes"
    and dec :: "bytes \<Rightarrow> 'a"
  assumes length_enc: "length (enc x) = width"
    and dec_enc: "dec (enc x) = x"
begin

lemma enc_inject: "enc x = enc y \<longleftrightarrow> x = y"
  by (metis dec_enc)

lemma write_read:
  "write_at pos (enc x) buf = Some buf' \<Longrightarrow> map_option dec (read_at pos width buf') = Some x"
  using write_at_same [of pos "enc x" buf buf'] by (simp add: length_enc dec_enc)

text \<open>A sequence of values of one width, laid out one after the other, can be taken apart.\<close>

lemma concat_enc_inject:
  "concat (map enc xs) = concat (map enc ys) \<Longrightarrow> length xs = length ys \<Longrightarrow> xs = ys"
proof (induction xs arbitrary: ys)
  case Nil
  then show ?case by simp
next
  case (Cons x xs)
  then obtain y ys' where ys: "ys = y # ys'" by (cases ys) auto
  with Cons.prems have "enc x = enc y \<and> concat (map enc xs) = concat (map enc ys')"
    by (simp add: length_enc)
  with Cons.IH Cons.prems ys show ?case by (simp add: enc_inject)
qed

end

interpretation u8c: byte_codec 1 enc_u8 dec_u8
  by unfold_locales (simp_all add: enc_u8_def dec_u8_def)

interpretation u16c: byte_codec 2 enc_u16 dec_u16
  by unfold_locales
    (simp_all add: enc_u16_def dec_u16_def le_val_le_bytes unat_u16_bound mod_less)

interpretation u32c: byte_codec 4 enc_u32 dec_u32
  by unfold_locales
    (simp_all add: enc_u32_def dec_u32_def le_val_le_bytes unat_u32_bound mod_less)

interpretation u64c: byte_codec 8 enc_u64 dec_u64
  by unfold_locales
    (simp_all add: enc_u64_def dec_u64_def le_val_le_bytes unat_u64_bound mod_less)

lemmas codec_lengths [simp, codec_simps] =
  u8c.length_enc u16c.length_enc u32c.length_enc u64c.length_enc

lemmas codec_roundtrips [simp, codec_simps] =
  u8c.dec_enc u16c.dec_enc u32c.dec_enc u64c.dec_enc

lemma dec_enc_u16: "length bs = 2 \<Longrightarrow> enc_u16 (dec_u16 bs) = bs"
  using le_bytes_le_val [of bs] le_val_bound [of bs]
  by (simp add: enc_u16_def dec_u16_def unat_of_nat mod_less)

lemma dec_enc_u32: "length bs = 4 \<Longrightarrow> enc_u32 (dec_u32 bs) = bs"
  using le_bytes_le_val [of bs] le_val_bound [of bs]
  by (simp add: enc_u32_def dec_u32_def unat_of_nat mod_less)

subsection \<open>C++ integer conversions\<close>

text \<open>Division and remainder of C++ truncate towards zero.\<close>

definition c_div :: "int \<Rightarrow> int \<Rightarrow> int" where
  "c_div a b = sgn a * sgn b * (\<bar>a\<bar> div \<bar>b\<bar>)"

lemma c_div_nonneg: "0 \<le> a \<Longrightarrow> 0 < b \<Longrightarrow> c_div a b = a div b"
  by (cases "a = 0") (auto simp: c_div_def)

text \<open>Conversion of an int to an unsigned type of width w is reduction modulo \<open>2 ^ w\<close>.\<close>

definition in_int32 :: "int \<Rightarrow> bool" where
  "in_int32 x \<longleftrightarrow> - 2147483648 \<le> x \<and> x \<le> 2147483647"

subsection \<open>Erasing by value and by position\<close>

text \<open>\<^verbatim>\<open>std::find\<close> followed by \<^verbatim>\<open>erase\<close>: the first occurrence goes, the rest keeps its
  order. This is \<^const>\<open>remove1\<close> of the library.\<close>

lemma distinct_remove1_set: "distinct xs \<Longrightarrow> set (remove1 x xs) = set xs - {x}"
  by (rule set_remove1_eq)

text \<open>\<^verbatim>\<open>std::find\<close> as an index, and the swap with the last element that erases in
  constant time (\<^verbatim>\<open>*it = v.back(); v.pop_back()\<close>).\<close>

fun index_of :: "'a \<Rightarrow> 'a list \<Rightarrow> nat option" where
  "index_of x [] = None"
| "index_of x (y # ys) = (if x = y then Some 0 else map_option Suc (index_of x ys))"

definition swap_erase_at :: "nat \<Rightarrow> 'a list \<Rightarrow> 'a list" where
  "swap_erase_at i xs = butlast (xs[i := last xs])"

lemma index_of_None: "index_of x xs = None \<longleftrightarrow> x \<notin> set xs"
  by (induction xs) auto

lemma index_of_Some: "index_of x xs = Some i \<Longrightarrow> i < length xs \<and> xs ! i = x"
  by (induction xs arbitrary: i) (auto split: if_splits)

lemma mset_swap_erase_at:
  assumes "i < length xs"
  shows "mset (swap_erase_at i xs) = mset xs - {#xs ! i#}"
proof -
  from assms have ne: "xs \<noteq> []" by auto
  have len: "length (xs[i := last xs]) = length xs" by simp
  have last: "last (xs[i := last xs]) = last xs"
    using ne assms by (simp add: last_list_update)
  have "mset (xs[i := last xs]) = add_mset (last xs) (mset xs - {#xs ! i#})"
    using assms by (simp add: mset_update)
  moreover have "mset (xs[i := last xs]) = add_mset (last xs) (mset (butlast (xs[i := last xs])))"
    using ne last by (metis append_butlast_last_id list_update_nonempty mset_append mset.simps add_mset_add_single)
  ultimately show ?thesis by (simp add: swap_erase_at_def)
qed

end
