(* ===== verification/Positions.thy ===== *)
theory Positions
  imports Otx_Prelude
begin

text \<open>
  Map coordinates and directions: \<^verbatim>\<open>struct Position\<close> of \<^verbatim>\<open>src/src/position.h\<close> and the
  direction functions of \<^verbatim>\<open>src/src/tools.cpp\<close>. Coordinates keep their widths, offsets are
  computed on the promoted integers as in the code. The order of positions
  (\<^verbatim>\<open>operator<\<close>, the key order of the spectator caches) is an instance of the library's
  linear orders.
\<close>

subsection \<open>Positions\<close>

datatype position = Position (px: u16) (py: u16) (pz: u8)

definition getOffsetX :: "position \<Rightarrow> position \<Rightarrow> int" where
  "getOffsetX p1 p2 = uint (px p1) - uint (px p2)"

definition getOffsetY :: "position \<Rightarrow> position \<Rightarrow> int" where
  "getOffsetY p1 p2 = uint (py p1) - uint (py p2)"

definition getOffsetZ :: "position \<Rightarrow> position \<Rightarrow> int" where
  "getOffsetZ p1 p2 = uint (pz p1) - uint (pz p2)"

definition getDistanceX :: "position \<Rightarrow> position \<Rightarrow> int" where
  "getDistanceX p1 p2 = \<bar>getOffsetX p1 p2\<bar>"

definition getDistanceY :: "position \<Rightarrow> position \<Rightarrow> int" where
  "getDistanceY p1 p2 = \<bar>getOffsetY p1 p2\<bar>"

definition getDistanceZ :: "position \<Rightarrow> position \<Rightarrow> int" where
  "getDistanceZ p1 p2 = \<bar>getOffsetZ p1 p2\<bar>"

definition areInRange2 :: "int \<Rightarrow> int \<Rightarrow> position \<Rightarrow> position \<Rightarrow> bool" where
  "areInRange2 deltax deltay p1 p2 \<longleftrightarrow>
     getDistanceX p1 p2 \<le> deltax \<and> getDistanceY p1 p2 \<le> deltay"

definition areInRange3 :: "int \<Rightarrow> int \<Rightarrow> int \<Rightarrow> position \<Rightarrow> position \<Rightarrow> bool" where
  "areInRange3 deltax deltay deltaz p1 p2 \<longleftrightarrow>
     getDistanceX p1 p2 \<le> deltax \<and> getDistanceY p1 p2 \<le> deltay \<and> getDistanceZ p1 p2 \<le> deltaz"

lemmas distance_defs =
  getDistanceX_def getDistanceY_def getDistanceZ_def getOffsetX_def getOffsetY_def getOffsetZ_def

lemma distance_sym:
  "getDistanceX p q = getDistanceX q p"
  "getDistanceY p q = getDistanceY q p"
  "getDistanceZ p q = getDistanceZ q p"
  by (simp_all add: distance_defs)

lemma areInRange_sym:
  "areInRange2 dx dy p q = areInRange2 dx dy q p"
  "areInRange3 dx dy dz p q = areInRange3 dx dy dz q p"
  by (simp_all add: areInRange2_def areInRange3_def distance_sym [of p q])

definition position_less :: "position \<Rightarrow> position \<Rightarrow> bool" where
  "position_less p q =
     (if pz p < pz q then True
      else if pz p > pz q then False
      else if py p < py q then True
      else if py p > py q then False
      else if px p < px q then True
      else if px p > px q then False
      else False)"

definition position_greater :: "position \<Rightarrow> position \<Rightarrow> bool" where
  "position_greater p q \<longleftrightarrow> \<not> position_less p q"

definition position_add :: "position \<Rightarrow> position \<Rightarrow> position" where
  "position_add p q = Position (px p + px q) (py p + py q) (pz p + pz q)"

definition position_sub :: "position \<Rightarrow> position \<Rightarrow> position" where
  "position_sub p q = Position (px p - px q) (py p - py q) (pz p - pz q)"

lemma position_sub_add: "position_add (position_sub p q) q = p"
  by (cases p) (simp add: position_add_def position_sub_def)

instantiation position :: linorder
begin

definition less_position :: "position \<Rightarrow> position \<Rightarrow> bool" where
  "less_position p q \<longleftrightarrow> position_less p q"

definition less_eq_position :: "position \<Rightarrow> position \<Rightarrow> bool" where
  "less_eq_position p q \<longleftrightarrow> position_less p q \<or> p = q"

instance
proof
  fix p q r :: position
  show "p < q \<longleftrightarrow> p \<le> q \<and> \<not> q \<le> p"
    by (cases p; cases q) (auto simp: less_position_def less_eq_position_def position_less_def)
  show "p \<le> p" by (simp add: less_eq_position_def)
  show "p \<le> q \<Longrightarrow> q \<le> r \<Longrightarrow> p \<le> r"
    by (cases p; cases q; cases r)
      (auto simp: less_eq_position_def position_less_def split: if_splits)
  show "p \<le> q \<Longrightarrow> q \<le> p \<Longrightarrow> p = q"
    by (cases p; cases q) (auto simp: less_eq_position_def position_less_def split: if_splits)
  show "p \<le> q \<or> q \<le> p"
    by (cases p; cases q) (auto simp: less_eq_position_def position_less_def)
qed

end

subsection \<open>Directions\<close>

datatype direction =
  DIRECTION_NORTH | DIRECTION_EAST | DIRECTION_SOUTH | DIRECTION_WEST
| DIRECTION_SOUTHWEST | DIRECTION_SOUTHEAST | DIRECTION_NORTHWEST | DIRECTION_NORTHEAST
| DIRECTION_NONE

fun direction_value :: "direction \<Rightarrow> u8" where
  "direction_value DIRECTION_NORTH = 0"
| "direction_value DIRECTION_EAST = 1"
| "direction_value DIRECTION_SOUTH = 2"
| "direction_value DIRECTION_WEST = 3"
| "direction_value DIRECTION_SOUTHWEST = 4 OR 0"
| "direction_value DIRECTION_SOUTHEAST = 4 OR 1"
| "direction_value DIRECTION_NORTHWEST = 4 OR 2"
| "direction_value DIRECTION_NORTHEAST = 4 OR 3"
| "direction_value DIRECTION_NONE = 8"

fun getNextPosition :: "direction \<Rightarrow> position \<Rightarrow> position" where
  "getNextPosition DIRECTION_NORTH (Position x y z) = Position x (y - 1) z"
| "getNextPosition DIRECTION_SOUTH (Position x y z) = Position x (y + 1) z"
| "getNextPosition DIRECTION_WEST (Position x y z) = Position (x - 1) y z"
| "getNextPosition DIRECTION_EAST (Position x y z) = Position (x + 1) y z"
| "getNextPosition DIRECTION_SOUTHWEST (Position x y z) = Position (x - 1) (y + 1) z"
| "getNextPosition DIRECTION_NORTHWEST (Position x y z) = Position (x - 1) (y - 1) z"
| "getNextPosition DIRECTION_NORTHEAST (Position x y z) = Position (x + 1) (y - 1) z"
| "getNextPosition DIRECTION_SOUTHEAST (Position x y z) = Position (x + 1) (y + 1) z"
| "getNextPosition DIRECTION_NONE p = p"

definition getDirectionTo :: "position \<Rightarrow> position \<Rightarrow> direction" where
  "getDirectionTo from to =
     (let x0 = getOffsetX from to;
          dir = (if x0 < 0 then DIRECTION_EAST else DIRECTION_WEST);
          x_offset = (if x0 < 0 then \<bar>x0\<bar> else x0);
          y0 = getOffsetY from to
      in if y0 \<ge> 0 then
           if y0 > x_offset then DIRECTION_NORTH
           else if y0 = x_offset then
             (if dir = DIRECTION_EAST then DIRECTION_NORTHEAST else DIRECTION_NORTHWEST)
           else dir
         else
           (let y_offset = \<bar>y0\<bar> in
            if y_offset > x_offset then DIRECTION_SOUTH
            else if y_offset = x_offset then
              (if dir = DIRECTION_EAST then DIRECTION_SOUTHEAST else DIRECTION_SOUTHWEST)
            else dir))"

definition opposite :: "direction \<Rightarrow> direction" where
  "opposite d = (case d of
     DIRECTION_NORTH \<Rightarrow> DIRECTION_SOUTH | DIRECTION_SOUTH \<Rightarrow> DIRECTION_NORTH
   | DIRECTION_EAST \<Rightarrow> DIRECTION_WEST | DIRECTION_WEST \<Rightarrow> DIRECTION_EAST
   | DIRECTION_SOUTHWEST \<Rightarrow> DIRECTION_NORTHEAST | DIRECTION_NORTHEAST \<Rightarrow> DIRECTION_SOUTHWEST
   | DIRECTION_SOUTHEAST \<Rightarrow> DIRECTION_NORTHWEST | DIRECTION_NORTHWEST \<Rightarrow> DIRECTION_SOUTHEAST
   | DIRECTION_NONE \<Rightarrow> DIRECTION_NONE)"

lemma getNextPosition_opposite [simp]: "getNextPosition (opposite d) (getNextPosition d p) = p"
  by (cases p; cases d) (simp_all add: opposite_def)

lemma getNextPosition_z [simp]: "pz (getNextPosition d p) = pz p"
  by (cases p; cases d) simp_all

lemma getNextPosition_NONE [simp]: "getNextPosition d p = p \<longleftrightarrow> d = DIRECTION_NONE"
  by (cases p; cases d) simp_all

lemma word_offset:
  fixes a b :: "'a::len word"
  shows "uint a - uint b = -1 \<Longrightarrow> a = b - 1"
    and "uint a - uint b = 0 \<Longrightarrow> a = b"
    and "uint a - uint b = 1 \<Longrightarrow> a = b + 1"
proof -
  have e: "a = b + word_of_int (uint a - uint b)" by simp
  show "uint a - uint b = -1 \<Longrightarrow> a = b - 1" using e by (metis add_uminus_conv_diff of_int_1 of_int_minus)
  show "uint a - uint b = 0 \<Longrightarrow> a = b" using e by (metis add.right_neutral of_int_0)
  show "uint a - uint b = 1 \<Longrightarrow> a = b + 1" using e by (metis of_int_1)
qed

text \<open>The step functions agree: one step in the direction of a neighbour reaches it.\<close>

lemma getNextPosition_getDirectionTo:
  assumes ne: "from \<noteq> to" and z: "pz from = pz to"
    and adj: "areInRange2 1 1 from to"
  shows "getNextPosition (getDirectionTo from to) from = to"
proof -
  obtain x y k where f: "from = Position x y k" by (cases "from")
  obtain x' y' k' where t: "to = Position x' y' k'" by (cases to)
  define dx where "dx = uint x' - uint x"
  define dy where "dy = uint y' - uint y"
  have dx: "dx = -1 \<or> dx = 0 \<or> dx = 1" and dy: "dy = -1 \<or> dy = 0 \<or> dy = 1"
    using adj by (auto simp: areInRange2_def distance_defs f t dx_def dy_def)
  have X: "dx = -1 \<Longrightarrow> x' = x - 1" "dx = 0 \<Longrightarrow> x' = x" "dx = 1 \<Longrightarrow> x' = x + 1"
    using word_offset [of x' x] by (simp_all add: dx_def)
  have Y: "dy = -1 \<Longrightarrow> y' = y - 1" "dy = 0 \<Longrightarrow> y' = y" "dy = 1 \<Longrightarrow> y' = y + 1"
    using word_offset [of y' y] by (simp_all add: dy_def)
  have offs: "getOffsetX from to = - dx" "getOffsetY from to = - dy"
    by (simp_all add: getOffsetX_def getOffsetY_def f t dx_def dy_def)
  have nz: "dx \<noteq> 0 \<or> dy \<noteq> 0" using ne z X(2) Y(2) by (auto simp: f t)
  have dir: "getDirectionTo from to =
    (if dy = 0 then (if dx = 1 then DIRECTION_EAST else DIRECTION_WEST)
     else if dy = 1 then
       (if dx = 0 then DIRECTION_SOUTH
        else if dx = 1 then DIRECTION_SOUTHEAST else DIRECTION_SOUTHWEST)
     else (if dx = 0 then DIRECTION_NORTH
        else if dx = 1 then DIRECTION_NORTHEAST else DIRECTION_NORTHWEST))"
    unfolding getDirectionTo_def offs Let_def using dx dy nz by auto
  show ?thesis
    unfolding dir using dx dy nz z
    by (elim disjE) (simp_all add: X Y f t del: word_uint_eq_iff)
qed

end
