(* ===== verification/Net_Message.thy ===== *)
theory Net_Message
  imports Positions
begin

text \<open>
  The message buffers of the network layer, \<^verbatim>\<open>src/src/networkmessage.h\<close>,
  \<^verbatim>\<open>networkmessage.cpp\<close> and \<^verbatim>\<open>outputmessage.h\<close>: a fixed array of bytes with a length, a
  position and an overrun flag. Reads are guarded by \<open>canRead\<close>, writes by \<open>canAdd\<close>. The
  lemmas show that the guards keep every access inside the array, that a written value is read
  back, and what a refused operation leaves unchanged.
\<close>

subsection \<open>State\<close>

definition NETWORKMESSAGE_MAXSIZE :: nat where "NETWORKMESSAGE_MAXSIZE = 24590"
definition HEADER_LENGTH :: nat where "HEADER_LENGTH = 2"
definition CHECKSUM_LENGTH :: nat where "CHECKSUM_LENGTH = 4"
definition XTEA_MULTIPLE :: nat where "XTEA_MULTIPLE = 8"
definition INITIAL_BUFFER_POSITION :: u16 where "INITIAL_BUFFER_POSITION = 8"

definition MAX_BODY_LENGTH :: nat where
  "MAX_BODY_LENGTH = NETWORKMESSAGE_MAXSIZE - HEADER_LENGTH - CHECKSUM_LENGTH - XTEA_MULTIPLE"

lemma MAX_BODY_LENGTH_val [simp]: "MAX_BODY_LENGTH = 24576"
  by (simp add: MAX_BODY_LENGTH_def NETWORKMESSAGE_MAXSIZE_def HEADER_LENGTH_def
      CHECKSUM_LENGTH_def XTEA_MULTIPLE_def)

declare NETWORKMESSAGE_MAXSIZE_def [simp] HEADER_LENGTH_def [simp]

record netmsg =
  nm_length :: u16
  nm_position :: u16
  nm_overrun :: bool
  nm_buffer :: bytes

record outmsg = netmsg +
  om_start :: u16

text \<open>The array type of the buffer fixes its size.\<close>

definition nm_wf :: "'a netmsg_scheme \<Rightarrow> bool" where
  "nm_wf m \<longleftrightarrow> length (nm_buffer m) = NETWORKMESSAGE_MAXSIZE"

lemma nm_wf_update [simp]:
  "nm_wf (m\<lparr>nm_position := p\<rparr>) = nm_wf m" "nm_wf (m\<lparr>nm_length := n\<rparr>) = nm_wf m"
  "nm_wf (m\<lparr>nm_overrun := b\<rparr>) = nm_wf m"
  by (simp_all add: nm_wf_def)

definition nm_reset :: "'a netmsg_scheme \<Rightarrow> 'a netmsg_scheme" where
  "nm_reset m = m\<lparr>nm_length := 0, nm_position := INITIAL_BUFFER_POSITION, nm_overrun := False\<rparr>"

subsection \<open>Guards\<close>

definition canAdd :: "nat \<Rightarrow> 'a netmsg_scheme \<Rightarrow> bool" where
  "canAdd sz m \<longleftrightarrow> sz + unat (nm_position m) < MAX_BODY_LENGTH"

definition canRead :: "int \<Rightarrow> 'a netmsg_scheme \<Rightarrow> bool \<times> 'a netmsg_scheme" where
  "canRead sz m =
     (if uint (nm_position m) + sz > uint (nm_length m) + 8
         \<or> sz \<ge> int NETWORKMESSAGE_MAXSIZE - uint (nm_position m)
      then (False, m\<lparr>nm_overrun := True\<rparr>)
      else (True, m))"

subsection \<open>Reading\<close>

definition getByte :: "'a netmsg_scheme \<Rightarrow> (u8 \<times> 'a netmsg_scheme) option" where
  "getByte m =
     (case canRead 1 m of
        (False, m1) \<Rightarrow> Some (0, m1)
      | (True, m1) \<Rightarrow>
          (case read_at (unat (nm_position m1)) 1 (nm_buffer m1) of
             Some [b] \<Rightarrow> Some (b, m1\<lparr>nm_position := nm_position m1 + 1\<rparr>)
           | _ \<Rightarrow> None))"

definition getPreviousByte :: "'a netmsg_scheme \<Rightarrow> (u8 \<times> 'a netmsg_scheme) option" where
  "getPreviousByte m =
     (let m1 = m\<lparr>nm_position := nm_position m - 1\<rparr> in
      (case read_at (unat (nm_position m1)) 1 (nm_buffer m1) of
         Some [b] \<Rightarrow> Some (b, m1)
       | _ \<Rightarrow> None))"

text \<open>
  The template \<^verbatim>\<open>get<T>\<close>: the size of the type and the decoding of its image are the
  arguments; a refused read returns the zero of the type.
\<close>

definition get_val ::
    "nat \<Rightarrow> (bytes \<Rightarrow> 'v::zero) \<Rightarrow> 'a netmsg_scheme \<Rightarrow> ('v \<times> 'a netmsg_scheme) option" where
  "get_val sz dec m =
     (case canRead (int sz) m of
        (False, m1) \<Rightarrow> Some (0, m1)
      | (True, m1) \<Rightarrow>
          (case read_at (unat (nm_position m1)) sz (nm_buffer m1) of
             None \<Rightarrow> None
           | Some bs \<Rightarrow> Some (dec bs, m1\<lparr>nm_position := nm_position m1 + of_nat sz\<rparr>)))"

definition get_u16 :: "'a netmsg_scheme \<Rightarrow> (u16 \<times> 'a netmsg_scheme) option" where
  "get_u16 = get_val 2 dec_u16"

definition get_u32 :: "'a netmsg_scheme \<Rightarrow> (u32 \<times> 'a netmsg_scheme) option" where
  "get_u32 = get_val 4 dec_u32"

definition get_u64 :: "'a netmsg_scheme \<Rightarrow> (u64 \<times> 'a netmsg_scheme) option" where
  "get_u64 = get_val 8 dec_u64"

definition getString :: "u16 \<Rightarrow> 'a netmsg_scheme \<Rightarrow> (bytes \<times> 'a netmsg_scheme) option" where
  "getString stringLen m =
     (case (if stringLen = 0 then get_u16 m else Some (stringLen, m)) of
        None \<Rightarrow> None
      | Some (len, m1) \<Rightarrow>
          (case canRead (uint len) m1 of
             (False, m2) \<Rightarrow> Some ([], m2)
           | (True, m2) \<Rightarrow>
               (case read_at (unat (nm_position m2)) (unat len) (nm_buffer m2) of
                  None \<Rightarrow> None
                | Some v \<Rightarrow> Some (v, m2\<lparr>nm_position := nm_position m2 + len\<rparr>))))"

definition getPosition :: "'a netmsg_scheme \<Rightarrow> (position \<times> 'a netmsg_scheme) option" where
  "getPosition m =
     (case get_u16 m of None \<Rightarrow> None | Some (x, m1) \<Rightarrow>
      (case get_u16 m1 of None \<Rightarrow> None | Some (y, m2) \<Rightarrow>
       (case getByte m2 of None \<Rightarrow> None | Some (z, m3) \<Rightarrow> Some (Position x y z, m3))))"

text \<open>The \<^verbatim>\<open>int16_t\<close> count is sign extended and added to the 16 bit position.\<close>

definition skipBytes :: "16 word \<Rightarrow> 'a netmsg_scheme \<Rightarrow> 'a netmsg_scheme" where
  "skipBytes cnt m = m\<lparr>nm_position := nm_position m + word_of_int (sint cnt)\<rparr>"

definition setBufferPosition :: "u16 \<Rightarrow> 'a netmsg_scheme \<Rightarrow> 'a netmsg_scheme" where
  "setBufferPosition p m = m\<lparr>nm_position := p\<rparr>"

definition setLength :: "u16 \<Rightarrow> 'a netmsg_scheme \<Rightarrow> 'a netmsg_scheme" where
  "setLength n m = m\<lparr>nm_length := n\<rparr>"

text \<open>The two bytes of the header, little endian, become the length.\<close>

definition decodeHeader :: "'a netmsg_scheme \<Rightarrow> (int \<times> 'a netmsg_scheme) option" where
  "decodeHeader m =
     (case read_at 0 2 (nm_buffer m) of
        Some [b0, b1] \<Rightarrow>
          (let newSize = uint b0 OR push_bit 8 (uint b1);
               m1 = m\<lparr>nm_length := word_of_int newSize\<rparr>
           in Some (uint (nm_length m1), m1))
      | _ \<Rightarrow> None)"

subsection \<open>Writing\<close>

definition addByte :: "u8 \<Rightarrow> 'a netmsg_scheme \<Rightarrow> 'a netmsg_scheme option" where
  "addByte v m =
     (if \<not> canAdd 1 m then Some m
      else (case write_at (unat (nm_position m)) [v] (nm_buffer m) of
              None \<Rightarrow> None
            | Some b \<Rightarrow> Some (m\<lparr>nm_buffer := b, nm_position := nm_position m + 1,
                               nm_length := nm_length m + 1\<rparr>)))"

text \<open>The template \<^verbatim>\<open>add<T>\<close>: its argument is the image of the value.\<close>

definition add_val :: "bytes \<Rightarrow> 'a netmsg_scheme \<Rightarrow> 'a netmsg_scheme option" where
  "add_val img m =
     (if \<not> canAdd (length img) m then Some m
      else (case write_at (unat (nm_position m)) img (nm_buffer m) of
              None \<Rightarrow> None
            | Some b \<Rightarrow> Some (m\<lparr>nm_buffer := b,
                               nm_position := nm_position m + of_nat (length img),
                               nm_length := nm_length m + of_nat (length img)\<rparr>)))"

definition add_u16 :: "u16 \<Rightarrow> 'a netmsg_scheme \<Rightarrow> 'a netmsg_scheme option" where
  "add_u16 v = add_val (enc_u16 v)"

definition add_u32 :: "u32 \<Rightarrow> 'a netmsg_scheme \<Rightarrow> 'a netmsg_scheme option" where
  "add_u32 v = add_val (enc_u32 v)"

definition add_u64 :: "u64 \<Rightarrow> 'a netmsg_scheme \<Rightarrow> 'a netmsg_scheme option" where
  "add_u64 v = add_val (enc_u64 v)"

definition addString :: "bytes \<Rightarrow> 'a netmsg_scheme \<Rightarrow> 'a netmsg_scheme option" where
  "addString value m =
     (let stringLen = length value in
      if \<not> canAdd (stringLen + 2) m \<or> stringLen > 8192 then Some m
      else (case add_u16 (of_nat stringLen) m of
              None \<Rightarrow> None
            | Some m1 \<Rightarrow>
                (case write_at (unat (nm_position m1)) value (nm_buffer m1) of
                   None \<Rightarrow> None
                 | Some b \<Rightarrow> Some (m1\<lparr>nm_buffer := b,
                                    nm_position := nm_position m1 + of_nat stringLen,
                                    nm_length := nm_length m1 + of_nat stringLen\<rparr>))))"

definition addBytes :: "bytes \<Rightarrow> 'a netmsg_scheme \<Rightarrow> 'a netmsg_scheme option" where
  "addBytes bs m =
     (if \<not> canAdd (length bs) m \<or> length bs > 8192 then Some m
      else (case write_at (unat (nm_position m)) bs (nm_buffer m) of
              None \<Rightarrow> None
            | Some b \<Rightarrow> Some (m\<lparr>nm_buffer := b,
                               nm_position := nm_position m + of_nat (length bs),
                               nm_length := nm_length m + of_nat (length bs)\<rparr>)))"

text \<open>Padding grows the length only: the position stays where it was.\<close>

definition addPaddingBytes :: "nat \<Rightarrow> 'a netmsg_scheme \<Rightarrow> 'a netmsg_scheme option" where
  "addPaddingBytes n m =
     (if \<not> canAdd n m then Some m
      else (case write_at (unat (nm_position m)) (replicate n 0x33) (nm_buffer m) of
              None \<Rightarrow> None
            | Some b \<Rightarrow> Some (m\<lparr>nm_buffer := b, nm_length := nm_length m + of_nat n\<rparr>)))"

definition addPosition :: "position \<Rightarrow> 'a netmsg_scheme \<Rightarrow> 'a netmsg_scheme option" where
  "addPosition pos m =
     Option.bind (add_u16 (px pos) m) (\<lambda>m1.
     Option.bind (add_u16 (py pos) m1) (\<lambda>m2. addByte (pz pos) m2))"

text \<open>
  The item types are loaded from the data files; the network layer reads four of their fields.
\<close>

record net_itemtype =
  it_clientId :: u16
  it_stackable :: bool
  it_isSplash :: bool
  it_isFluidContainer :: bool

definition fluidMap :: "u8 list" where "fluidMap = [0, 1, 2, 3, 4, 5, 6, 7]"

definition addItem_id ::
    "(u16 \<Rightarrow> net_itemtype) \<Rightarrow> u16 \<Rightarrow> u8 \<Rightarrow> 'a netmsg_scheme \<Rightarrow> 'a netmsg_scheme option" where
  "addItem_id items i cnt m =
     (let it = items i in
      Option.bind (add_u16 (it_clientId it) m) (\<lambda>m1.
        if it_stackable it then addByte cnt m1
        else if it_isSplash it \<or> it_isFluidContainer it
        then addByte (fluidMap ! unat (cnt mod 8)) m1
        else Some m1))"

definition addItem ::
    "(u16 \<Rightarrow> net_itemtype) \<Rightarrow> u16 \<Rightarrow> u16 \<Rightarrow> u16 \<Rightarrow> 'a netmsg_scheme \<Rightarrow> 'a netmsg_scheme option" where
  "addItem items itemID itemCount fluidType m =
     (let it = items itemID in
      Option.bind (add_u16 (it_clientId it) m) (\<lambda>m1.
        if it_stackable it then addByte (ucast (min 0xFF itemCount)) m1
        else if it_isSplash it \<or> it_isFluidContainer it
        then addByte (fluidMap ! unat (fluidType mod 8)) m1
        else Some m1))"

definition addItemId ::
    "(u16 \<Rightarrow> net_itemtype) \<Rightarrow> u16 \<Rightarrow> 'a netmsg_scheme \<Rightarrow> 'a netmsg_scheme option" where
  "addItemId items itemId m = add_u16 (it_clientId (items itemId)) m"

subsection \<open>Output messages\<close>

text \<open>A new output message; the array is not initialised, so its contents are an argument.\<close>

definition new_outmsg :: "bytes \<Rightarrow> outmsg" where
  "new_outmsg mem = \<lparr>nm_length = 0, nm_position = INITIAL_BUFFER_POSITION, nm_overrun = False,
     nm_buffer = mem, om_start = INITIAL_BUFFER_POSITION\<rparr>"

definition add_header :: "bytes \<Rightarrow> outmsg \<Rightarrow> outmsg option" where
  "add_header img m =
     (if unat (om_start m) < length img then None
      else (let start = om_start m - of_nat (length img) in
            (case write_at (unat start) img (nm_buffer m) of
               None \<Rightarrow> None
             | Some b \<Rightarrow> Some (m\<lparr>nm_buffer := b, om_start := start,
                                nm_length := nm_length m + of_nat (length img)\<rparr>))))"

definition writeMessageLength :: "outmsg \<Rightarrow> outmsg option" where
  "writeMessageLength m = add_header (enc_u16 (nm_length m)) m"

definition addCryptoHeader :: "outmsg \<Rightarrow> outmsg option" where
  "addCryptoHeader m = writeMessageLength m"

definition om_append :: "'a netmsg_scheme \<Rightarrow> outmsg \<Rightarrow> outmsg option" where
  "om_append msg m =
     (let msgLen = nm_length msg in
      (case read_at 8 (unat msgLen) (nm_buffer msg) of
         None \<Rightarrow> None
       | Some src \<Rightarrow>
           (case write_at (unat (nm_position m)) src (nm_buffer m) of
              None \<Rightarrow> None
            | Some b \<Rightarrow> Some (m\<lparr>nm_buffer := b, nm_length := nm_length m + msgLen,
                               nm_position := nm_position m + msgLen\<rparr>))))"

text \<open>The bytes that are sent: \<open>getLength()\<close> bytes from \<open>getOutputBuffer()\<close>.\<close>

definition om_output :: "outmsg \<Rightarrow> bytes option" where
  "om_output m = read_at (unat (om_start m)) (unat (nm_length m)) (nm_buffer m)"

subsection \<open>The guards keep accesses inside the array\<close>

lemma canRead_True:
  assumes "canRead sz m = (True, m')"
  shows "m' = m" and "uint (nm_position m) + sz \<le> uint (nm_length m) + 8"
    and "uint (nm_position m) + sz < int NETWORKMESSAGE_MAXSIZE"
  using assms by (auto simp: canRead_def split: if_splits)

lemma canRead_False:
  "canRead sz m = (False, m') \<Longrightarrow> m' = m\<lparr>nm_overrun := True\<rparr>"
  by (auto simp: canRead_def split: if_splits)

lemma canRead_read:
  assumes "canRead (int n) m = (True, m')" and "nm_wf m"
  shows "\<exists>bs. read_at (unat (nm_position m)) n (nm_buffer m) = Some bs \<and> length bs = n"
proof -
  from canRead_True(3) [OF assms(1)] have "unat (nm_position m) + n \<le> length (nm_buffer m)"
    using assms(2) uint_nat [of "nm_position m"] by (simp add: nm_wf_def del: of_nat_unat)
  then show ?thesis by (auto simp: read_at_def)
qed

lemma canAdd_write:
  assumes "canAdd (length bs) m" and "nm_wf m"
  shows "unat (nm_position m) + length bs \<le> length (nm_buffer m)"
  using assms by (simp add: canAdd_def nm_wf_def)

text \<open>What a successful write does: the image goes to the position, both counters advance.\<close>

definition put_img :: "bytes \<Rightarrow> 'a netmsg_scheme \<Rightarrow> 'a netmsg_scheme" where
  "put_img img m = m\<lparr>nm_buffer := take (unat (nm_position m)) (nm_buffer m) @ img
       @ drop (unat (nm_position m) + length img) (nm_buffer m),
     nm_position := nm_position m + of_nat (length img),
     nm_length := nm_length m + of_nat (length img)\<rparr>"

lemma put_img_wf:
  "canAdd (length img) m \<Longrightarrow> nm_wf m \<Longrightarrow> nm_wf (put_img img m)"
  using canAdd_write [of img m] by (simp add: nm_wf_def put_img_def)

lemma put_img_Nil [simp]: "put_img [] m = m"
  by (simp add: put_img_def)

lemma put_img_sel [simp]:
  "nm_position (put_img img m) = nm_position m + of_nat (length img)"
  "nm_length (put_img img m) = nm_length m + of_nat (length img)"
  "nm_overrun (put_img img m) = nm_overrun m"
  by (simp_all add: put_img_def)

lemma unat_add_small:
  fixes w :: u16
  assumes "unat w + n < 65536"
  shows "unat (w + of_nat n) = unat w + n"
proof -
  have "unat (of_nat n :: u16) = n"
    using assms by (simp add: unat_of_nat)
  then show ?thesis using assms by (simp add: unat_word_ariths)
qed

lemma put_img_append:
  assumes "canAdd (length as + length bs) m" and "nm_wf m"
  shows "put_img bs (put_img as m) = put_img (as @ bs) m"
proof -
  let ?p = "unat (nm_position m)"
  have small: "?p + (length as + length bs) < 24576"
    using assms(1) by (simp add: canAdd_def)
  have len: "length (nm_buffer m) = 24590" using assms(2) by (simp add: nm_wf_def)
  have p: "unat (nm_position m + of_nat (length as)) = ?p + length as"
    using small by (intro unat_add_small) simp
  show ?thesis
    using small len
    by (simp add: put_img_def p ac_simps)
qed

lemma add_val_ok:
  "canAdd (length img) m \<Longrightarrow> nm_wf m \<Longrightarrow> add_val img m = Some (put_img img m)"
  using canAdd_write [of img m] by (simp add: add_val_def put_img_def mem_simps)

lemma add_val_refused: "\<not> canAdd (length img) m \<Longrightarrow> add_val img m = Some m"
  by (simp add: add_val_def)

lemma addByte_is_add_val: "addByte v m = add_val [v] m"
  by (simp add: addByte_def add_val_def cong: option.case_cong)

lemma canAdd_put_img:
  assumes "canAdd (length as + n) m"
  shows "canAdd n (put_img as m)"
proof -
  have "unat (nm_position m + of_nat (length as)) = unat (nm_position m) + length as"
    using assms by (intro unat_add_small) (simp add: canAdd_def)
  with assms show ?thesis by (simp add: canAdd_def)
qed

lemma addString_ok:
  assumes "canAdd (length s + 2) m" "length s \<le> 8192" "nm_wf m"
  shows "addString s m = Some (put_img (enc_u16 (of_nat (length s)) @ s) m)"
proof -
  let ?h = "enc_u16 (of_nat (length s))"
  have c1: "canAdd (length ?h) m" using assms(1) by (simp add: canAdd_def)
  have c2: "canAdd (length s) (put_img ?h m)"
    using assms(1) by (intro canAdd_put_img) (simp add: add.commute)
  have w: "unat (nm_position (put_img ?h m)) + length s \<le> length (nm_buffer (put_img ?h m))"
    using canAdd_write [OF c2 put_img_wf [OF c1 assms(3)]] by simp
  have "addString s m = Some (put_img s (put_img ?h m))"
    unfolding addString_def Let_def add_u16_def
    using assms(1,2) w by (simp add: add_val_ok [OF c1 assms(3)] mem_simps) (simp add: put_img_def)
  also have "put_img s (put_img ?h m) = put_img (?h @ s) m"
    using assms by (intro put_img_append) (simp_all add: add.commute)
  finally show ?thesis .
qed

lemma addBytes_ok:
  "canAdd (length bs) m \<Longrightarrow> length bs \<le> 8192 \<Longrightarrow> nm_wf m \<Longrightarrow> addBytes bs m = Some (put_img bs m)"
  using canAdd_write [of bs m] by (simp add: addBytes_def put_img_def mem_simps)

subsection \<open>Every guarded operation is defined\<close>

text \<open>
  A client of the buffer, as a sequence of operations. \<open>getPreviousByte\<close> and \<open>append\<close> are not
  among them: they have no guard of their own.
\<close>

datatype msg_op =
  GetByte | GetU16 | GetU32 | GetU64 | GetString u16 | GetPosition
| SkipBytes "16 word" | SetBufferPosition u16 | SetLength u16 | DecodeHeader | Reset
| AddByte u8 | AddU16 u16 | AddU32 u32 | AddU64 u64 | AddString bytes | AddBytes bytes
| AddPaddingBytes nat | AddPosition position

fun run_op :: "msg_op \<Rightarrow> 'a netmsg_scheme \<Rightarrow> 'a netmsg_scheme option" where
  "run_op GetByte m = map_option snd (getByte m)"
| "run_op GetU16 m = map_option snd (get_u16 m)"
| "run_op GetU32 m = map_option snd (get_u32 m)"
| "run_op GetU64 m = map_option snd (get_u64 m)"
| "run_op (GetString n) m = map_option snd (getString n m)"
| "run_op GetPosition m = map_option snd (getPosition m)"
| "run_op (SkipBytes n) m = Some (skipBytes n m)"
| "run_op (SetBufferPosition p) m = Some (setBufferPosition p m)"
| "run_op (SetLength n) m = Some (setLength n m)"
| "run_op DecodeHeader m = map_option snd (decodeHeader m)"
| "run_op Reset m = Some (nm_reset m)"
| "run_op (AddByte b) m = addByte b m"
| "run_op (AddU16 v) m = add_u16 v m"
| "run_op (AddU32 v) m = add_u32 v m"
| "run_op (AddU64 v) m = add_u64 v m"
| "run_op (AddString s) m = addString s m"
| "run_op (AddBytes bs) m = addBytes bs m"
| "run_op (AddPaddingBytes n) m = addPaddingBytes n m"
| "run_op (AddPosition p) m = addPosition p m"

fun run_ops :: "msg_op list \<Rightarrow> 'a netmsg_scheme \<Rightarrow> 'a netmsg_scheme option" where
  "run_ops [] m = Some m"
| "run_ops (x # xs) m = Option.bind (run_op x m) (run_ops xs)"

lemma get_val_defined:
  assumes "nm_wf m" shows "\<exists>v m'. get_val sz dec m = Some (v, m') \<and> nm_wf m'"
proof (cases "canRead (int sz) m")
  case (Pair ok m1)
  show ?thesis
  proof (cases ok)
    case True
    with Pair have c: "canRead (int sz) m = (True, m1)" by simp
    from canRead_read [OF c assms] canRead_True(1) [OF c] assms show ?thesis
      by (auto simp: get_val_def c nm_wf_def)
  next
    case False
    with Pair have c: "canRead (int sz) m = (False, m1)" by simp
    with canRead_False [OF c] assms show ?thesis by (auto simp: get_val_def c nm_wf_def)
  qed
qed

lemma read_one_byte:
  "(case read_at p 1 buf of Some [b] \<Rightarrow> Some (b, x) | _ \<Rightarrow> None) =
   (case read_at p 1 buf of None \<Rightarrow> None | Some bs \<Rightarrow> Some (dec_u8 bs, x))"
proof (cases "read_at p 1 buf")
  case None
  then show ?thesis by simp
next
  case (Some bs)
  with read_at_length [OF Some] obtain b where "bs = [b]" by (cases bs) auto
  with Some show ?thesis by (simp add: dec_u8_def)
qed

lemma getByte_is_get_val: "getByte m = get_val 1 dec_u8 m"
  by (simp only: getByte_def get_val_def read_one_byte of_nat_1)

lemma getString_defined:
  assumes "nm_wf m" shows "\<exists>v m'. getString n m = Some (v, m') \<and> nm_wf m'"
proof -
  obtain len m1 where g: "(if n = 0 then get_u16 m else Some (n, m)) = Some (len, m1)" and w: "nm_wf m1"
  proof (cases "n = 0")
    case True
    with get_val_defined [OF assms, of 2 dec_u16] that show thesis by (auto simp: get_u16_def)
  next
    case False
    with that assms show thesis by simp
  qed
  have ul: "int (unat len) = uint len" by simp
  show ?thesis
  proof (cases "canRead (uint len) m1")
    case (Pair ok m2)
    show ?thesis
    proof (cases ok)
      case True
      with Pair ul have c: "canRead (int (unat len)) m1 = (True, m2)" by simp
      with canRead_read [OF c w] canRead_True(1) [OF c] w Pair True show ?thesis
        by (auto simp: getString_def g nm_wf_def)
    next
      case False
      with Pair canRead_False [of "uint len" m1 m2] w show ?thesis
        by (auto simp: getString_def g nm_wf_def)
    qed
  qed
qed

lemma add_val_defined:
  assumes "nm_wf m" shows "\<exists>m'. add_val img m = Some m' \<and> nm_wf m'"
  using assms add_val_ok [of img m] put_img_wf [of img m] add_val_refused [of img m]
  by (cases "canAdd (length img) m") auto

lemma addString_defined:
  assumes "nm_wf m" shows "\<exists>m'. addString s m = Some m' \<and> nm_wf m'"
proof (cases "canAdd (length s + 2) m \<and> length s \<le> 8192")
  case True
  with assms show ?thesis
    using addString_ok [of s m] put_img_wf [of "enc_u16 (of_nat (length s)) @ s" m]
    by (auto simp: add.commute)
next
  case False
  with assms show ?thesis by (auto simp: addString_def Let_def)
qed

lemma addPaddingBytes_defined:
  assumes "nm_wf m" shows "\<exists>m'. addPaddingBytes n m = Some m' \<and> nm_wf m'"
proof (cases "canAdd n m")
  case True
  then show ?thesis
    using canAdd_write [of "replicate n 0x33" m] assms
    by (auto simp: addPaddingBytes_def mem_simps nm_wf_def)
next
  case False
  with assms show ?thesis by (auto simp: addPaddingBytes_def)
qed

lemma addPosition_defined:
  assumes "nm_wf m" shows "\<exists>m'. addPosition p m = Some m' \<and> nm_wf m'"
  using assms unfolding addPosition_def add_u16_def addByte_is_add_val
  by (metis add_val_defined bind.bind_lunit)

lemma getPosition_defined:
  assumes "nm_wf m" shows "\<exists>v m'. getPosition m = Some (v, m') \<and> nm_wf m'"
proof -
  obtain x m1 where 1: "get_u16 m = Some (x, m1)" "nm_wf m1"
    using get_val_defined [OF assms] by (fastforce simp: get_u16_def)
  obtain y m2 where 2: "get_u16 m1 = Some (y, m2)" "nm_wf m2"
    using get_val_defined [OF 1(2)] by (fastforce simp: get_u16_def)
  obtain z m3 where 3: "getByte m2 = Some (z, m3)" "nm_wf m3"
    using get_val_defined [OF 2(2)] by (fastforce simp: getByte_is_get_val)
  show ?thesis by (simp add: getPosition_def 1 2 3)
qed

lemma decodeHeader_defined:
  assumes "nm_wf m" shows "\<exists>v m'. decodeHeader m = Some (v, m') \<and> nm_wf m'"
proof -
  obtain b0 b1 r where "nm_buffer m = b0 # b1 # r"
    using assms by (cases "nm_buffer m"; cases "tl (nm_buffer m)") (auto simp: nm_wf_def)
  with assms show ?thesis by (auto simp: decodeHeader_def read_at_def nm_wf_def Let_def)
qed

lemma map_snd_defined:
  "\<exists>v m'. f = Some (v, m') \<and> nm_wf m' \<Longrightarrow> \<exists>m'. map_option snd f = Some m' \<and> nm_wf m'"
  by auto

lemmas read_defined = getByte_is_get_val get_u16_def get_u32_def get_u64_def
lemmas write_defined = add_u16_def add_u32_def add_u64_def addByte_is_add_val

lemma addBytes_defined:
  assumes "nm_wf m" shows "\<exists>m'. addBytes bs m = Some m' \<and> nm_wf m'"
  using assms addBytes_ok [of bs m] put_img_wf [of bs m]
  by (cases "canAdd (length bs) m \<and> length bs \<le> 8192") (auto simp: addBytes_def)

lemma run_op_defined:
  assumes "nm_wf m" shows "\<exists>m'. run_op x m = Some m' \<and> nm_wf m'"
  using assms
  by (cases x)
    (simp_all only: run_op.simps read_defined write_defined,
     auto simp: skipBytes_def setBufferPosition_def setLength_def nm_reset_def
       simp del: map_option_eq_Some
       intro!: map_snd_defined get_val_defined getString_defined getPosition_defined
         decodeHeader_defined add_val_defined addString_defined addBytes_defined
         addPaddingBytes_defined addPosition_defined)



subsection \<open>Written values are read back\<close>

datatype field =
  FU8 u8 | FU16 u16 | FU32 u32 | FU64 u64 | FString bytes | FPos position

fun field_bytes :: "field \<Rightarrow> bytes" where
  "field_bytes (FU8 v) = enc_u8 v"
| "field_bytes (FU16 v) = enc_u16 v"
| "field_bytes (FU32 v) = enc_u32 v"
| "field_bytes (FU64 v) = enc_u64 v"
| "field_bytes (FString s) = enc_u16 (of_nat (length s)) @ s"
| "field_bytes (FPos p) = enc_u16 (px p) @ enc_u16 (py p) @ enc_u8 (pz p)"

fun field_ok :: "field \<Rightarrow> bool" where
  "field_ok (FString s) = (length s \<le> 8192)"
| "field_ok _ = True"

fun write_field :: "field \<Rightarrow> 'a netmsg_scheme \<Rightarrow> 'a netmsg_scheme option" where
  "write_field (FU8 v) m = addByte v m"
| "write_field (FU16 v) m = add_u16 v m"
| "write_field (FU32 v) m = add_u32 v m"
| "write_field (FU64 v) m = add_u64 v m"
| "write_field (FString s) m = addString s m"
| "write_field (FPos p) m = addPosition p m"

text \<open>Reading follows the kinds of the fields; the values in its first argument are not used.\<close>

fun read_like :: "field \<Rightarrow> 'a netmsg_scheme \<Rightarrow> (field \<times> 'a netmsg_scheme) option" where
  "read_like (FU8 _) m = map_option (map_prod FU8 id) (getByte m)"
| "read_like (FU16 _) m = map_option (map_prod FU16 id) (get_u16 m)"
| "read_like (FU32 _) m = map_option (map_prod FU32 id) (get_u32 m)"
| "read_like (FU64 _) m = map_option (map_prod FU64 id) (get_u64 m)"
| "read_like (FString _) m = map_option (map_prod FString id) (getString 0 m)"
| "read_like (FPos _) m = map_option (map_prod FPos id) (getPosition m)"

fun write_fields :: "field list \<Rightarrow> 'a netmsg_scheme \<Rightarrow> 'a netmsg_scheme option" where
  "write_fields [] m = Some m"
| "write_fields (f # fs) m = Option.bind (write_field f m) (write_fields fs)"

fun read_fields :: "field list \<Rightarrow> 'a netmsg_scheme \<Rightarrow> (field list \<times> 'a netmsg_scheme) option" where
  "read_fields [] m = Some ([], m)"
| "read_fields (f # fs) m =
     Option.bind (read_like f m) (\<lambda>(v, m1).
       map_option (\<lambda>(vs, m2). (v # vs, m2)) (read_fields fs m1))"

definition fields_size :: "field list \<Rightarrow> nat" where
  "fields_size fs = length (concat (map field_bytes fs))"

lemma write_field_put:
  assumes "canAdd (length (field_bytes f)) m" "field_ok f" "nm_wf m"
  shows "write_field f m = Some (put_img (field_bytes f) m)"
proof (cases f)
  case (FString s)
  with assms addString_ok [of s m] show ?thesis by (simp add: add.commute)
next
  case (FPos p)
  let ?x = "enc_u16 (px p)" and ?y = "enc_u16 (py p)" and ?z = "enc_u8 (pz p)"
  have c: "canAdd 5 m" using assms(1) FPos by simp
  have c1: "canAdd (length ?x) m" and c12: "canAdd (length (?x @ ?y)) m"
    using c by (simp_all add: canAdd_def)
  have c2: "canAdd (length ?y) (put_img ?x m)"
    using c by (intro canAdd_put_img) (simp add: canAdd_def)
  have c3: "canAdd (length ?z) (put_img (?x @ ?y) m)"
    using c by (intro canAdd_put_img) (simp add: canAdd_def)
  have j1: "put_img ?y (put_img ?x m) = put_img (?x @ ?y) m"
    using c assms(3) by (intro put_img_append) (simp_all add: canAdd_def)
  have j2: "put_img ?z (put_img (?x @ ?y) m) = put_img (?x @ ?y @ ?z) m"
    using c assms(3) put_img_append [of "?x @ ?y" ?z m] by (simp add: canAdd_def)
  have b: "[pz p] = ?z" by (simp add: enc_u8_def)
  show ?thesis
    using add_val_ok [OF c1 assms(3)] add_val_ok [OF c2 put_img_wf [OF c1 assms(3)]]
      add_val_ok [OF c3 put_img_wf [OF c12 assms(3)]]
    by (simp add: FPos addPosition_def add_u16_def addByte_is_add_val b j1 j2)
qed (use assms add_val_ok [of "field_bytes f" m] in
      \<open>simp_all add: addByte_is_add_val add_u16_def add_u32_def add_u64_def enc_u8_def\<close>)

lemma write_fields_put:
  assumes "canAdd (fields_size fs) m" "\<forall>f \<in> set fs. field_ok f" "nm_wf m"
  shows "write_fields fs m = Some (put_img (concat (map field_bytes fs)) m)"
  using assms
proof (induction fs arbitrary: m)
  case Nil
  then show ?case by simp
next
  case (Cons f fs)
  let ?b = "field_bytes f" and ?r = "concat (map field_bytes fs)"
  have c: "canAdd (length ?b + length ?r) m" using Cons.prems(1) by (simp add: fields_size_def)
  have c1: "canAdd (length ?b) m" using c by (simp add: canAdd_def)
  have c2: "canAdd (fields_size fs) (put_img ?b m)"
    using c by (simp add: fields_size_def canAdd_put_img)
  have "write_fields fs (put_img ?b m) = Some (put_img ?r (put_img ?b m))"
    using Cons.prems c2 put_img_wf [OF c1 Cons.prems(3)] by (intro Cons.IH) auto
  then show ?case
    using Cons.prems write_field_put [OF c1 _ Cons.prems(3)] put_img_append [OF c Cons.prems(3)]
    by simp
qed

text \<open>The image \<open>bs\<close> lies at the read position, inside what \<open>canRead\<close> admits.\<close>

definition img_at :: "bytes \<Rightarrow> 'a netmsg_scheme \<Rightarrow> bool" where
  "img_at bs m \<longleftrightarrow> read_at (unat (nm_position m)) (length bs) (nm_buffer m) = Some bs
     \<and> unat (nm_position m) + length bs \<le> unat (nm_length m) + 8
     \<and> unat (nm_position m) + length bs < NETWORKMESSAGE_MAXSIZE"

definition advance :: "nat \<Rightarrow> 'a netmsg_scheme \<Rightarrow> 'a netmsg_scheme" where
  "advance n m = m\<lparr>nm_position := nm_position m + of_nat n\<rparr>"

lemma advance_advance: "advance k (advance n m) = advance (n + k) m"
  by (simp add: advance_def add.assoc)

lemma canRead_img_at:
  assumes "img_at bs m" shows "canRead (int (length bs)) m = (True, m)"
  using assms uint_nat [of "nm_position m"] uint_nat [of "nm_length m"]
  by (auto simp: canRead_def img_at_def simp del: of_nat_unat)

lemma img_at_append:
  assumes "img_at (as @ bs) m"
  shows "img_at as m" "img_at bs (advance (length as) m)"
proof -
  have r: "read_at (unat (nm_position m)) (length as + length bs) (nm_buffer m) = Some (as @ bs)"
    and le: "unat (nm_position m) + (length as + length bs) \<le> unat (nm_length m) + 8"
      "unat (nm_position m) + (length as + length bs) < 24590"
    using assms by (auto simp: img_at_def)
  have p: "unat (nm_position m + of_nat (length as)) = unat (nm_position m) + length as"
    using le by (intro unat_add_small) simp
  show "img_at as m" "img_at bs (advance (length as) m)"
    using read_at_add [OF r] le by (auto simp: img_at_def advance_def p)
qed

lemma get_val_img:
  assumes "img_at bs m" "length bs = sz"
  shows "get_val sz dec m = Some (dec bs, advance sz m)"
  using assms canRead_img_at [OF assms(1)]
  by (simp add: get_val_def img_at_def advance_def)

lemma getString_img:
  assumes "img_at (enc_u16 (of_nat (length s)) @ s) m" "length s \<le> 8192"
  shows "getString 0 m = Some (s, advance (2 + length s) m)"
proof -
  note split = img_at_append [OF assms(1)]
  have n: "dec_u16 (enc_u16 (of_nat (length s))) = of_nat (length s)" by simp
  have ul: "unat (of_nat (length s) :: u16) = length s"
    using assms(2) by (simp add: unat_of_nat)
  then have il: "uint (of_nat (length s) :: u16) = int (length s)"
    by (metis uint_nat)
  have g: "get_u16 m = Some (of_nat (length s), advance 2 m)"
    using get_val_img [OF split(1), of 2 dec_u16] by (simp add: get_u16_def)
  have a: "img_at s (advance 2 m)" using split(2) by simp
  show ?thesis
    using canRead_img_at [OF a] a advance_advance [of "length s" 2 m]
    by (simp add: getString_def g il ul img_at_def) (simp add: advance_def)
qed

lemma read_like_img:
  assumes "img_at (field_bytes f) m" "field_ok f"
  shows "read_like f m = Some (f, advance (length (field_bytes f)) m)"
proof (cases f)
  case (FString s)
  with assms getString_img [of s m] show ?thesis by simp
next
  case (FPos p)
  let ?x = "enc_u16 (px p)" and ?y = "enc_u16 (py p)" and ?z = "enc_u8 (pz p)"
  have i: "img_at (?x @ ?y @ ?z) m" using assms(1) FPos by simp
  note i1 = img_at_append [OF i]
  note i2 = img_at_append [OF i1(2)]
  have "get_u16 m = Some (px p, advance 2 m)"
    using get_val_img [OF i1(1), of 2 dec_u16] by (simp add: get_u16_def)
  moreover have "get_u16 (advance 2 m) = Some (py p, advance 4 m)"
    using get_val_img [OF i2(1), of 2 dec_u16] advance_advance [of 2 2 m]
    by (simp add: get_u16_def)
  moreover have "getByte (advance 4 m) = Some (pz p, advance 5 m)"
    using get_val_img [OF i2(2), of 1 dec_u8] advance_advance [of 2 2 m] advance_advance [of 1 4 m]
    by (simp add: getByte_is_get_val)
  ultimately show ?thesis by (simp add: FPos getPosition_def)
next
  case (FU8 v)
  with assms get_val_img [of "enc_u8 v" m 1 dec_u8] show ?thesis
    by (simp add: getByte_is_get_val)
qed (use assms in \<open>simp_all add: get_u16_def get_u32_def get_u64_def
      get_val_img [of "enc_u16 _"] get_val_img [of "enc_u32 _"] get_val_img [of "enc_u64 _"]\<close>)

lemma read_fields_img:
  assumes "img_at (concat (map field_bytes fs)) m" "\<forall>f \<in> set fs. field_ok f"
  shows "read_fields fs m = Some (fs, advance (fields_size fs) m)"
  using assms
proof (induction fs arbitrary: m)
  case Nil
  then show ?case by (simp add: fields_size_def advance_def)
next
  case (Cons f fs)
  from Cons.prems(1) have i: "img_at (field_bytes f @ concat (map field_bytes fs)) m" by simp
  note i2 = img_at_append [OF i]
  have "read_like f m = Some (f, advance (length (field_bytes f)) m)"
    using i2(1) Cons.prems(2) by (simp add: read_like_img)
  with Cons.IH [OF i2(2)] Cons.prems(2) show ?case
    by (simp add: fields_size_def advance_advance)
qed

lemma img_at_put_img:
  assumes "canAdd (length bs) m" "nm_wf m" "unat (nm_position m) \<le> unat (nm_length m) + 8"
    "unat (nm_length m) + length bs < 65536"
  shows "img_at bs ((put_img bs m)\<lparr>nm_position := nm_position m\<rparr>)"
proof -
  have "unat (nm_length m + of_nat (length bs)) = unat (nm_length m) + length bs"
    using assms(4) by (rule unat_add_small)
  then show ?thesis
    using assms canAdd_write [OF assms(1,2)]
    by (simp add: img_at_def put_img_def read_at_def canAdd_def nm_wf_def)
qed

text \<open>
  Round trip of the message fields: fields written one after the other to a message with room
  for them, read back from the position where the writing began, are the fields that were written,
  and no read reports an overrun. The room is the strict bound of \<open>canAdd\<close>, strings are at most
  8192 bytes long.
\<close>

theorem message_fields_roundtrip:
  assumes "nm_wf m" "canAdd (fields_size fs) m" "\<forall>f \<in> set fs. field_ok f"
    and "unat (nm_position m) \<le> unat (nm_length m) + 8"
    and "unat (nm_length m) + fields_size fs < 65536" "\<not> nm_overrun m"
  shows "\<exists>m1 m2. write_fields fs m = Some m1
    \<and> read_fields fs (setBufferPosition (nm_position m) m1) = Some (fs, m2) \<and> \<not> nm_overrun m2"
proof -
  let ?m1 = "put_img (concat (map field_bytes fs)) m"
  have "write_fields fs m = Some ?m1" using assms(2,3,1) by (rule write_fields_put)
  moreover have "img_at (concat (map field_bytes fs)) (setBufferPosition (nm_position m) ?m1)"
    unfolding setBufferPosition_def
    using assms by (intro img_at_put_img) (simp_all add: fields_size_def)
  then have "read_fields fs (setBufferPosition (nm_position m) ?m1)
      = Some (fs, advance (fields_size fs) (setBufferPosition (nm_position m) ?m1))"
    using assms(3) by (rule read_fields_img)
  moreover have "\<not> nm_overrun (advance (fields_size fs) (setBufferPosition (nm_position m) ?m1))"
    using assms(6) by (simp add: setBufferPosition_def advance_def)
  ultimately show ?thesis by blast
qed

theorem message_fields_roundtrip_witness:
  "\<exists>m1 m2. write_fields [FU8 7, FString [72, 105], FPos (Position 100 200 7)]
      (new_outmsg (replicate 24590 0)) = Some m1
    \<and> read_fields [FU8 7, FString [72, 105], FPos (Position 100 200 7)]
        (setBufferPosition (nm_position (new_outmsg (replicate 24590 0))) m1)
      = Some ([FU8 7, FString [72, 105], FPos (Position 100 200 7)], m2) \<and> \<not> nm_overrun m2"
  by (rule message_fields_roundtrip)
    (simp_all add: nm_wf_def new_outmsg_def canAdd_def fields_size_def INITIAL_BUFFER_POSITION_def)

end
