(* ===== verification/Protocol_Crypto.thy ===== *)
theory Protocol_Crypto
  imports Net_Message
begin

text \<open>
  Encryption of the protocol layer, \<^verbatim>\<open>src/src/protocol.cpp\<close> and \<^verbatim>\<open>protocol.h\<close>: XTEA over
  the blocks of a message buffer, the padding and the two headers that \<open>onSendMessage\<close> adds, and
  what \<open>onRecvMessage\<close> accepts. A locale states what the buffer code needs of a block cipher (that
  decryption of a block inverts encryption); XTEA interprets it.
\<close>

subsection \<open>The cipher on one block\<close>

type_synonym xtea_key = "u32 list"
type_synonym block = "u32 \<times> u32"

definition xtea_delta :: u32 where "xtea_delta = 0x61C88647"

definition xtea_mix :: "u32 \<Rightarrow> u32" where
  "xtea_mix v = (push_bit 4 v XOR drop_bit 5 v) + v"

definition key_low :: "xtea_key \<Rightarrow> u32 \<Rightarrow> u32" where
  "key_low k s = k ! unat (s AND 3)"

definition key_high :: "xtea_key \<Rightarrow> u32 \<Rightarrow> u32" where
  "key_high k s = k ! unat (drop_bit 11 s AND 3)"

text \<open>One iteration of the loops, on \<open>(v0, v1, sum)\<close>.\<close>

definition xtea_enc_step :: "xtea_key \<Rightarrow> u32 \<times> u32 \<times> u32 \<Rightarrow> u32 \<times> u32 \<times> u32" where
  "xtea_enc_step k = (\<lambda>(v0, v1, s).
     let v0' = v0 + (xtea_mix v1 XOR (s + key_low k s));
         s' = s - xtea_delta;
         v1' = v1 + (xtea_mix v0' XOR (s' + key_high k s'))
     in (v0', v1', s'))"

definition xtea_dec_step :: "xtea_key \<Rightarrow> u32 \<times> u32 \<times> u32 \<Rightarrow> u32 \<times> u32 \<times> u32" where
  "xtea_dec_step k = (\<lambda>(v0, v1, s).
     let v1' = v1 - (xtea_mix v0 XOR (s + key_high k s));
         s' = s + xtea_delta;
         v0' = v0 - (xtea_mix v1' XOR (s' + key_low k s'))
     in (v0', v1', s'))"

text \<open>The array \<^verbatim>\<open>key\<close> has four elements and both indices are below four.\<close>

lemma key_index_bound: "unat (s AND (3 :: u32)) < 4"
proof -
  have "unat (s AND 3) \<le> unat (3 :: u32)"
    by (rule word_and_le1 [THEN word_le_nat_alt [THEN iffD1]])
  then show ?thesis by simp
qed

definition xtea_enc_block :: "xtea_key \<Rightarrow> block \<Rightarrow> block" where
  "xtea_enc_block k b =
     (case (xtea_enc_step k ^^ 32) (fst b, snd b, 0) of (v0, v1, _) \<Rightarrow> (v0, v1))"

definition xtea_dec_block :: "xtea_key \<Rightarrow> block \<Rightarrow> block" where
  "xtea_dec_block k b =
     (case (xtea_dec_step k ^^ 32) (fst b, snd b, 0xC6EF3720) of (v0, v1, _) \<Rightarrow> (v0, v1))"

lemma xtea_dec_enc_step [simp]: "xtea_dec_step k (xtea_enc_step k s) = s"
  by (cases s) (simp add: xtea_enc_step_def xtea_dec_step_def Let_def)

lemma xtea_enc_dec_step [simp]: "xtea_enc_step k (xtea_dec_step k s) = s"
  by (cases s) (simp add: xtea_enc_step_def xtea_dec_step_def Let_def)

lemma funpow_inverse:
  fixes f g :: "'a \<Rightarrow> 'a"
  assumes "\<And>x. g (f x) = x" shows "(g ^^ n) ((f ^^ n) x) = x"
proof (induction n arbitrary: x)
  case 0
  then show ?case by simp
next
  case (Suc n)
  have "(g ^^ Suc n) ((f ^^ Suc n) x) = (g ^^ n) (g (f ((f ^^ n) x)))"
    by (simp add: funpow_swap1)
  with Suc assms show ?case by simp
qed

lemma xtea_sum_after:
  "snd (snd ((xtea_enc_step k ^^ n) (v0, v1, s))) = s - of_nat n * xtea_delta"
  by (induction n)
    (simp_all add: xtea_enc_step_def Let_def split_def algebra_simps)

lemma xtea_sum_back:
  "snd (snd ((xtea_dec_step k ^^ n) (v0, v1, s))) = s + of_nat n * xtea_delta"
  by (induction n)
    (simp_all add: xtea_dec_step_def Let_def split_def algebra_simps)

text \<open>The constant from which decryption starts is the value at which encryption stops.\<close>

lemma xtea_final_sum: "0 - of_nat 32 * xtea_delta = (0xC6EF3720 :: u32)"
  by (simp add: xtea_delta_def)

lemma xtea_dec_enc_block: "xtea_dec_block k (xtea_enc_block k b) = b"
proof -
  obtain v0 v1 s where e: "(xtea_enc_step k ^^ 32) (fst b, snd b, 0) = (v0, v1, s)"
    by (metis prod_cases3)
  then have s: "s = 0xC6EF3720"
    using xtea_sum_after [of 32 k "fst b" "snd b" 0] xtea_final_sum by simp
  have "(xtea_dec_step k ^^ 32) (v0, v1, s) = (fst b, snd b, 0)"
    unfolding e [symmetric] by (rule funpow_inverse) simp
  then show ?thesis
    unfolding xtea_dec_block_def xtea_enc_block_def e by (simp add: s)
qed

lemma xtea_enc_dec_block: "xtea_enc_block k (xtea_dec_block k b) = b"
proof -
  obtain v0 v1 s where e: "(xtea_dec_step k ^^ 32) (fst b, snd b, 0xC6EF3720) = (v0, v1, s)"
    by (metis prod_cases3)
  then have "s = 0xC6EF3720 + of_nat 32 * xtea_delta"
    using xtea_sum_back [of 32 k "fst b" "snd b" "0xC6EF3720"] by simp
  then have s: "s = 0" by (simp add: xtea_delta_def)
  have "(xtea_enc_step k ^^ 32) (v0, v1, s) = (fst b, snd b, 0xC6EF3720)"
    unfolding e [symmetric] by (rule funpow_inverse) simp
  then show ?thesis
    unfolding xtea_dec_block_def xtea_enc_block_def e by (simp add: s)
qed

subsection \<open>The loop over a buffer\<close>

text \<open>
  The loops of \<open>XTEA_encrypt\<close> and \<open>XTEA_decrypt\<close> differ in the block function only. \<open>base\<close> is the
  offset of the first byte, \<open>readPos\<close> runs from 0 to \<open>messageLength\<close> in steps of eight.
\<close>

function crypt_loop :: "(block \<Rightarrow> block) \<Rightarrow> nat \<Rightarrow> nat \<Rightarrow> nat \<Rightarrow> bytes \<Rightarrow> bytes option" where
  "crypt_loop f base readPos messageLength buf =
     (if readPos < messageLength then
        (case (read_at (base + readPos) 4 buf, read_at (base + readPos + 4) 4 buf) of
           (Some a, Some b) \<Rightarrow>
             (let (v0, v1) = f (dec_u32 a, dec_u32 b) in
              Option.bind (write_at (base + readPos) (enc_u32 v0) buf) (\<lambda>buf1.
              Option.bind (write_at (base + readPos + 4) (enc_u32 v1) buf1) (\<lambda>buf2.
                crypt_loop f base (readPos + 8) messageLength buf2)))
         | _ \<Rightarrow> None)
      else Some buf)"
  by pat_completeness auto
termination
  by (relation "measure (\<lambda>(f, base, readPos, messageLength, buf). messageLength - readPos)") auto

declare crypt_loop.simps [simp del]

text \<open>What the loop computes: the bytes taken eight at a time.\<close>

fun map_blocks :: "(block \<Rightarrow> block) \<Rightarrow> bytes \<Rightarrow> bytes" where
  "map_blocks f (a0 # a1 # a2 # a3 # b0 # b1 # b2 # b3 # rest) =
     enc_u32 (fst (f (dec_u32 [a0, a1, a2, a3], dec_u32 [b0, b1, b2, b3])))
     @ enc_u32 (snd (f (dec_u32 [a0, a1, a2, a3], dec_u32 [b0, b1, b2, b3])))
     @ map_blocks f rest"
| "map_blocks f bs = bs"

lemma map_blocks_8:
  assumes "length a = 4" "length b = 4"
  shows "map_blocks f (a @ b @ rest) =
    enc_u32 (fst (f (dec_u32 a, dec_u32 b))) @ enc_u32 (snd (f (dec_u32 a, dec_u32 b)))
    @ map_blocks f rest"
proof -
  obtain a0 a1 a2 a3 where "a = [a0, a1, a2, a3]"
    using assms(1) by (auto simp: numeral_eq_Suc length_Suc_conv)
  moreover obtain b0 b1 b2 b3 where "b = [b0, b1, b2, b3]"
    using assms(2) by (auto simp: numeral_eq_Suc length_Suc_conv)
  ultimately show ?thesis by simp
qed

lemma length_map_blocks [simp]: "length (map_blocks f bs) = length bs"
  by (induction f bs rule: map_blocks.induct) auto

lemma map_blocks_inverse:
  assumes "\<And>b. g (f b) = b"
  shows "map_blocks g (map_blocks f bs) = bs"
  using assms
proof (induction f bs rule: map_blocks.induct)
  case (1 f a0 a1 a2 a3 b0 b1 b2 b3 rest)
  let ?b = "(dec_u32 [a0, a1, a2, a3], dec_u32 [b0, b1, b2, b3])"
  obtain v0 v1 where v: "f ?b = (v0, v1)" by (cases "f ?b")
  have g: "g (v0, v1) = ?b" using "1.prems" v by metis
  have "map_blocks g (enc_u32 v0 @ enc_u32 v1 @ map_blocks f rest) =
      enc_u32 (dec_u32 [a0, a1, a2, a3]) @ enc_u32 (dec_u32 [b0, b1, b2, b3]) @ rest"
    using "1.IH" [OF "1.prems"] by (simp add: map_blocks_8 g v)
  then show ?case by (simp add: v dec_enc_u32)
qed simp_all

text \<open>The loop writes exactly the image of the region, and only there.\<close>

lemma crypt_loop_map_blocks:
  assumes "8 dvd length rg" "length pre' = base + r"
  shows "crypt_loop f base r (r + length rg) (pre' @ rg @ post) =
    Some (pre' @ map_blocks f rg @ post)"
  using assms
proof (induction "length rg" arbitrary: rg r pre' rule: less_induct)
  case less
  show ?case
  proof (cases "rg = []")
    case True
    then show ?thesis by (simp add: crypt_loop.simps)
  next
    case False
    define a b rest where abr: "a = take 4 rg" "b = take 4 (drop 4 rg)" "rest = drop 8 rg"
    have "8 \<le> length rg" using less.prems(1) False by (intro dvd_imp_le) auto
    then have la: "length a = 4" and lb: "length b = 4" and lr: "length rest = length rg - 8"
      by (auto simp: abr)
    have rg: "rg = a @ b @ rest"
      unfolding abr by (metis append_take_drop_id drop_drop numeral_plus_numeral
          semiring_norm(2,6))
    obtain v0 v1 where v: "f (dec_u32 a, dec_u32 b) = (v0, v1)" by (cases "f (dec_u32 a, dec_u32 b)")
    let ?e0 = "enc_u32 v0" and ?e1 = "enc_u32 v1"
    have IH: "crypt_loop f base (r + 8) (r + 8 + length rest)
        ((pre' @ ?e0 @ ?e1) @ rest @ post)
      = Some ((pre' @ ?e0 @ ?e1) @ map_blocks f rest @ post)"
    proof (rule less.hyps)
      show "length rest < length rg" using \<open>8 \<le> length rg\<close> lr by simp
      show "8 dvd length rest" using less.prems(1) lr \<open>8 \<le> length rg\<close> by simp
      show "length (pre' @ ?e0 @ ?e1) = base + (r + 8)" using less.prems(2) by simp
    qed
    have len: "r + length rg = r + 8 + length rest" using lr \<open>8 \<le> length rg\<close> by simp
    have R1: "read_at (base + r) 4 (pre' @ rg @ post) = Some a"
      using read_at_mid [of pre' "base + r" a 4 "b @ rest @ post"] less.prems(2) la by (simp add: rg)
    have R2: "read_at (base + r + 4) 4 (pre' @ rg @ post) = Some b"
      using read_at_mid [of "pre' @ a" "base + r + 4" b 4 "rest @ post"] less.prems(2) la lb
      by (simp add: rg)
    have W1: "write_at (base + r) ?e0 (pre' @ rg @ post) = Some (pre' @ ?e0 @ b @ rest @ post)"
      using write_at_mid [of pre' "base + r" ?e0 a "b @ rest @ post"] less.prems(2) la
      by (simp add: rg)
    have W2: "write_at (base + r + 4) ?e1 (pre' @ ?e0 @ b @ rest @ post)
        = Some ((pre' @ ?e0 @ ?e1) @ rest @ post)"
      using write_at_mid [of "pre' @ ?e0" "base + r + 4" ?e1 b "rest @ post"] less.prems(2) lb
      by simp
    have mb: "map_blocks f rg = ?e0 @ ?e1 @ map_blocks f rest"
      unfolding rg map_blocks_8 [OF la lb] by (simp add: v)
    have "crypt_loop f base r (r + length rg) (pre' @ rg @ post)
        = crypt_loop f base (r + 8) (r + length rg) ((pre' @ ?e0 @ ?e1) @ rest @ post)"
      using \<open>8 \<le> length rg\<close> False
      by (subst crypt_loop.simps) (simp add: R1 R2 W1 v W2 del: append_assoc)
    also have "\<dots> = Some (pre' @ map_blocks f rg @ post)"
      unfolding len IH by (simp add: mb)
    finally show ?thesis .
  qed
qed

subsection \<open>What the buffer code needs of the cipher\<close>

locale block_cipher =
  fixes encb :: "block \<Rightarrow> block"
    and decb :: "block \<Rightarrow> block"
  assumes decb_encb: "decb (encb b) = b"
begin

lemma map_blocks_dec_enc: "map_blocks decb (map_blocks encb bs) = bs"
  by (rule map_blocks_inverse) (rule decb_encb)

text \<open>Running the two loops over the same region of a buffer restores the buffer.\<close>

lemma crypt_loop_dec_enc:
  assumes "8 dvd length rg" "length pre = base"
  shows "Option.bind (crypt_loop encb base 0 (length rg) (pre @ rg @ post))
      (crypt_loop decb base 0 (length rg)) = Some (pre @ rg @ post)"
  using crypt_loop_map_blocks [of rg pre base 0 encb post] assms
    crypt_loop_map_blocks [of "map_blocks encb rg" pre base 0 decb post]
  by (simp add: map_blocks_dec_enc)

end

interpretation xtea: block_cipher "xtea_enc_block k" "xtea_dec_block k" for k
  by unfold_locales (rule xtea_dec_enc_block)

interpretation xtea_rev: block_cipher "xtea_dec_block k" "xtea_enc_block k" for k
  by unfold_locales (rule xtea_enc_dec_block)

subsection \<open>The protocol object\<close>

record protocol =
  pr_key :: xtea_key
  pr_encryptionEnabled :: bool
  pr_rawMessages :: bool
  pr_outputBuffer :: "outmsg option"

definition XTEA_encrypt :: "xtea_key \<Rightarrow> outmsg \<Rightarrow> outmsg option" where
  "XTEA_encrypt k msg =
     (let paddingBytes = unat (nm_length msg) mod 8 in
      Option.bind (if paddingBytes \<noteq> 0 then addPaddingBytes (8 - paddingBytes) msg else Some msg)
        (\<lambda>m1. map_option (\<lambda>b. m1\<lparr>nm_buffer := b\<rparr>)
           (crypt_loop (xtea_enc_block k) (unat (om_start m1)) 0 (unat (nm_length m1)) (nm_buffer m1))))"

definition XTEA_decrypt :: "xtea_key \<Rightarrow> 'a netmsg_scheme \<Rightarrow> (bool \<times> 'a netmsg_scheme) option" where
  "XTEA_decrypt k msg =
     (if (uint (nm_length msg) - 2) AND 7 \<noteq> 0 then Some (False, msg)
      else
        (case crypt_loop (xtea_dec_block k) (unat (nm_position msg)) 0
                (nat (uint (nm_length msg) - 2)) (nm_buffer msg) of
           None \<Rightarrow> None
         | Some b \<Rightarrow>
             (case get_u16 (msg\<lparr>nm_buffer := b\<rparr>) of
                None \<Rightarrow> None
              | Some (innerLength, m2) \<Rightarrow>
                  if uint innerLength > uint (nm_length m2) - 4 then Some (False, m2)
                  else Some (True, setLength innerLength m2))))"

definition onSendMessage :: "protocol \<Rightarrow> outmsg \<Rightarrow> outmsg option" where
  "onSendMessage p msg =
     (if \<not> pr_rawMessages p then
        Option.bind (writeMessageLength msg) (\<lambda>m1.
          if pr_encryptionEnabled p
          then Option.bind (XTEA_encrypt (pr_key p) m1) addCryptoHeader
          else Some m1)
      else Some msg)"

text \<open>The second component is the message handed to \<open>parsePacket\<close>, if it is called.\<close>

definition onRecvMessage ::
    "protocol \<Rightarrow> 'a netmsg_scheme \<Rightarrow> ('a netmsg_scheme \<times> 'a netmsg_scheme option) option" where
  "onRecvMessage p msg =
     (if pr_encryptionEnabled p then
        (case XTEA_decrypt (pr_key p) msg of
           None \<Rightarrow> None
         | Some (ok, m1) \<Rightarrow> if \<not> ok then Some (m1, None) else Some (m1, Some m1))
      else Some (msg, Some msg))"

definition getOutputBuffer :: "int \<Rightarrow> bytes \<Rightarrow> protocol \<Rightarrow> outmsg \<times> protocol" where
  "getOutputBuffer sz mem p =
     (case pr_outputBuffer p of
        Some ob \<Rightarrow>
          if int MAX_BODY_LENGTH \<ge> uint (nm_length ob) + sz then (ob, p)
          else (new_outmsg mem, p\<lparr>pr_outputBuffer := Some (new_outmsg mem)\<rparr>)
      | None \<Rightarrow> (new_outmsg mem, p\<lparr>pr_outputBuffer := Some (new_outmsg mem)\<rparr>))"

subsection \<open>The frame of an encrypted message\<close>

text \<open>
  The plain text that is encrypted: the length of the body, the body, and padding up to a multiple
  of eight.
\<close>

definition pad_length :: "nat \<Rightarrow> nat" where
  "pad_length n = (if (n + 2) mod 8 = 0 then 0 else 8 - (n + 2) mod 8)"

definition frame_plain :: "bytes \<Rightarrow> bytes" where
  "frame_plain body =
     enc_u16 (of_nat (length body)) @ body @ replicate (pad_length (length body)) 0x33"

definition frame_wire :: "xtea_key \<Rightarrow> bytes \<Rightarrow> bytes" where
  "frame_wire k body =
     enc_u16 (of_nat (length (frame_plain body))) @ map_blocks (xtea_enc_block k) (frame_plain body)"

lemma length_frame_plain: "length (frame_plain body) = length body + 2 + pad_length (length body)"
  by (simp add: frame_plain_def)

lemma frame_plain_dvd: "8 dvd length (frame_plain body)"
  unfolding length_frame_plain pad_length_def by presburger

lemma pad_length_less: "pad_length n < 8"
  by (simp add: pad_length_def)

text \<open>A message that holds the given body and no header yet.\<close>

definition holds_body :: "bytes \<Rightarrow> outmsg \<Rightarrow> bool" where
  "holds_body body m \<longleftrightarrow> nm_wf m \<and> om_start m = 8 \<and> nm_position m = of_nat (8 + length body)
     \<and> nm_length m = of_nat (length body) \<and> length body \<le> 24582
     \<and> read_at 8 (length body) (nm_buffer m) = Some body"

lemma new_outmsg_holds: "length mem = NETWORKMESSAGE_MAXSIZE \<Longrightarrow> holds_body [] (new_outmsg mem)"
  by (simp add: holds_body_def new_outmsg_def nm_wf_def INITIAL_BUFFER_POSITION_def read_at_def)

lemma holds_bodyE:
  assumes "holds_body body m"
  obtains p4 h2 l2 post where "nm_buffer m = p4 @ h2 @ l2 @ body @ post" "length p4 = 4"
    "length h2 = 2" "length l2 = 2" "length body + length post = 24582"
proof
  let ?b = "nm_buffer m"
  let ?n = "length body"
  have len: "length ?b = 24590" and n: "?n \<le> 24582" and bd: "take ?n (drop 8 ?b) = body"
    using assms by (auto simp: holds_body_def nm_wf_def read_at_def split: if_splits)
  have "?b = take 4 ?b @ take 2 (drop 4 ?b) @ take 2 (drop 6 ?b) @ drop 8 ?b"
    using append_take_drop_id [of 4 ?b] append_take_drop_id [of 2 "drop 4 ?b"]
      append_take_drop_id [of 2 "drop 6 ?b"] by (metis drop_drop numeral_plus_numeral semiring_norm(2,3,4,5,6,8))
  also have "drop 8 ?b = body @ drop ?n (drop 8 ?b)"
    using append_take_drop_id [of ?n "drop 8 ?b"] bd by simp
  finally show "?b = take 4 ?b @ take 2 (drop 4 ?b) @ take 2 (drop 6 ?b) @ body @ drop ?n (drop 8 ?b)" .
qed (use assms in \<open>auto simp: holds_body_def nm_wf_def\<close>)

lemma put_img_holds:
  assumes "holds_body body m" "canAdd (length bs) m"
  shows "holds_body (body @ bs) (put_img bs m)"
proof -
  obtain p4 h2 l2 post where b: "nm_buffer m = p4 @ h2 @ l2 @ body @ post" "length p4 = 4"
    "length h2 = 2" "length l2 = 2" "length body + length post = 24582"
    by (rule holds_bodyE [OF assms(1)])
  have p: "unat (nm_position m) = 8 + length body"
    using assms(1) b(5) by (simp add: holds_body_def unat_of_nat del: of_nat_add)
  have fit: "length body + length bs < 24568" using assms(2) by (simp add: canAdd_def p)
  have B: "nm_buffer (put_img bs m) = p4 @ h2 @ l2 @ (body @ bs) @ drop (length bs) post"
    using b by (simp add: put_img_def p)
  have "read_at 8 (length (body @ bs)) (nm_buffer (put_img bs m)) = Some (body @ bs)"
    unfolding B using read_at_mid [of "p4 @ h2 @ l2" 8 "body @ bs"] b by simp
  moreover have "nm_wf (put_img bs m)"
    using assms by (intro put_img_wf) (auto simp: holds_body_def)
  ultimately show ?thesis
    using assms(1) fit by (simp add: holds_body_def) (simp add: put_img_def)
qed

text \<open>Building a message from fields gives a message that holds their images.\<close>

lemma write_fields_holds:
  assumes "length mem = NETWORKMESSAGE_MAXSIZE" "\<forall>f \<in> set fs. field_ok f" "fields_size fs < 24568"
  shows "\<exists>m. write_fields fs (new_outmsg mem) = Some m \<and> holds_body (concat (map field_bytes fs)) m"
proof -
  have h: "holds_body [] (new_outmsg mem)" using assms(1) by (rule new_outmsg_holds)
  have c: "canAdd (fields_size fs) (new_outmsg mem)"
    using assms(3) by (simp add: canAdd_def new_outmsg_def INITIAL_BUFFER_POSITION_def)
  have "write_fields fs (new_outmsg mem) = Some (put_img (concat (map field_bytes fs)) (new_outmsg mem))"
    using c assms(2) h by (intro write_fields_put) (simp_all add: holds_body_def)
  with put_img_holds [OF h] c show ?thesis by (simp add: fields_size_def)
qed

lemma u16_of_nat_small: "n < 65536 \<Longrightarrow> unat (of_nat n :: u16) = n"
  by (simp add: unat_of_nat)

lemma writeMessageLength_ok:
  assumes "holds_body body m" "nm_buffer m = p4 @ h2 @ l2 @ body @ post" "length p4 = 4"
    "length h2 = 2" "length l2 = 2"
  shows "writeMessageLength m = Some (m\<lparr>
     nm_buffer := p4 @ h2 @ enc_u16 (of_nat (length body)) @ body @ post,
     om_start := 6, nm_length := of_nat (length body + 2)\<rparr>)"
proof -
  have w: "write_at 6 (enc_u16 (of_nat (length body))) (nm_buffer m)
      = Some (p4 @ h2 @ enc_u16 (of_nat (length body)) @ body @ post)"
    using write_at_mid [of "p4 @ h2" 6 "enc_u16 (of_nat (length body))" l2 "body @ post"] assms
    by simp
  show ?thesis
    using assms(1) w
    by (simp add: writeMessageLength_def add_header_def holds_body_def Let_def)
qed

lemma XTEA_encrypt_ok:
  assumes "om_start m = 6" "nm_length m = of_nat (length body + 2)"
    "nm_position m = of_nat (8 + length body)"
    "nm_buffer m = p6 @ enc_u16 (of_nat (length body)) @ body @ post" "length p6 = 6"
    "length body + length post = 24582" "length body \<le> 24566"
  shows "XTEA_encrypt k m = Some (m\<lparr>
     nm_buffer := p6 @ map_blocks (xtea_enc_block k) (frame_plain body)
       @ drop (pad_length (length body)) post,
     nm_length := of_nat (length (frame_plain body))\<rparr>)"
proof -
  let ?n = "length body" and ?pad = "pad_length (length body)"
  let ?h = "enc_u16 (of_nat (length body))"
  let ?post = "drop (pad_length (length body)) post"
  have ul: "unat (nm_length m) = ?n + 2" and up: "unat (nm_position m) = 8 + ?n"
    using assms(2,3,7) by (simp_all only: u16_of_nat_small)
  have fits: "?pad + (8 + ?n) < 24576"
    using assms(7) unfolding pad_length_def by presburger
  have wr: "write_at (8 + ?n) (replicate ?pad 0x33) (nm_buffer m)
      = Some (p6 @ frame_plain body @ ?post)"
    using write_at_mid [of "p6 @ ?h @ body" "8 + ?n" "replicate ?pad 0x33" "take ?pad post" ?post]
      assms fits by (simp add: frame_plain_def)
  have pad: "(if unat (nm_length m) mod 8 \<noteq> 0
      then addPaddingBytes (8 - unat (nm_length m) mod 8) m else Some m)
    = Some (m\<lparr>nm_buffer := p6 @ frame_plain body @ ?post,
        nm_length := of_nat (length (frame_plain body))\<rparr>)"
  proof (cases "(?n + 2) mod 8 = 0")
    case True
    then have "?pad = 0" by (simp add: pad_length_def)
    with True ul assms show ?thesis by (simp add: frame_plain_def)
  next
    case False
    then have p: "8 - (?n + 2) mod 8 = ?pad" by (simp add: pad_length_def)
    have "addPaddingBytes ?pad m = Some (m\<lparr>nm_buffer := p6 @ frame_plain body @ ?post,
        nm_length := of_nat (length (frame_plain body))\<rparr>)"
      unfolding addPaddingBytes_def canAdd_def up wr using fits
      by (simp add: length_frame_plain assms(2))
    then show ?thesis unfolding ul p using False by simp
  qed
  have L: "unat (of_nat (length (frame_plain body)) :: u16) = length (frame_plain body)"
    using fits by (intro u16_of_nat_small) (simp add: length_frame_plain)
  have loop: "crypt_loop (xtea_enc_block k) 6 0 (length (frame_plain body)) (p6 @ frame_plain body @ ?post)
      = Some (p6 @ map_blocks (xtea_enc_block k) (frame_plain body) @ ?post)"
    using crypt_loop_map_blocks [of "frame_plain body" p6 6 0 "xtea_enc_block k" ?post] assms(5)
      frame_plain_dvd [of body] by simp
  show ?thesis
    unfolding XTEA_encrypt_def Let_def pad by (simp add: assms(1) L loop)
qed

lemma onSendMessage_frame:
  assumes "holds_body body m" "length body \<le> 24566" "\<not> pr_rawMessages p" "pr_encryptionEnabled p"
  shows "\<exists>m'. onSendMessage p m = Some m' \<and> om_output m' = Some (frame_wire (pr_key p) body)"
proof -
  obtain p4 h2 l2 post where b: "nm_buffer m = p4 @ h2 @ l2 @ body @ post" "length p4 = 4"
    "length h2 = 2" "length l2 = 2" "length body + length post = 24582"
    by (rule holds_bodyE [OF assms(1)])
  let ?L = "length (frame_plain body)"
  let ?post = "drop (pad_length (length body)) post"
  let ?C = "map_blocks (xtea_enc_block (pr_key p)) (frame_plain body)"
  have L: "?L \<le> 24575" using pad_length_less [of "length body"] assms(2)
    by (simp add: length_frame_plain)
  define m1 where "m1 = m\<lparr>nm_buffer := p4 @ h2 @ enc_u16 (of_nat (length body)) @ body @ post,
     om_start := 6, nm_length := of_nat (length body + 2)\<rparr>"
  define m2 where "m2 = m1\<lparr>nm_buffer := (p4 @ h2) @ ?C @ ?post, nm_length := of_nat ?L\<rparr>"
  have 1: "writeMessageLength m = Some m1"
    unfolding m1_def by (rule writeMessageLength_ok [OF assms(1) b(1-4)])
  have 2: "XTEA_encrypt (pr_key p) m1 = Some m2"
    unfolding m2_def
    by (rule XTEA_encrypt_ok)
      (use assms(1,2) b in \<open>simp_all add: m1_def holds_body_def\<close>)
  have w: "write_at 4 (enc_u16 (of_nat ?L)) (nm_buffer m2) = Some (p4 @ (enc_u16 (of_nat ?L) @ ?C) @ ?post)"
    using write_at_mid [of p4 4 "enc_u16 (of_nat ?L)" h2 "?C @ ?post"] b(2,3) by (simp add: m2_def)
  have 3: "addCryptoHeader m2 = Some (m2\<lparr>nm_buffer := p4 @ (enc_u16 (of_nat ?L) @ ?C) @ ?post,
      om_start := 4, nm_length := of_nat (?L + 2)\<rparr>)"
    using w by (simp add: addCryptoHeader_def writeMessageLength_def add_header_def)
      (simp add: m2_def m1_def)
  have u: "unat (of_nat (?L + 2) :: u16) = ?L + 2" using L by (intro u16_of_nat_small) simp
  have "read_at 4 (?L + 2) (p4 @ (enc_u16 (of_nat ?L) @ ?C) @ ?post)
      = Some (enc_u16 (of_nat ?L) @ ?C)"
    by (rule read_at_mid) (use b in simp_all)
  then show ?thesis
    using assms(3,4) u by (auto simp: onSendMessage_def 1 2 3 om_output_def frame_wire_def simp del: of_nat_add append_assoc)
qed

subsection \<open>Receiving\<close>

lemma XTEA_decrypt_frame:
  assumes buf: "nm_buffer m = h @ map_blocks (xtea_enc_block k) (frame_plain body) @ post"
    and "length h = 2" "nm_position m = 2" "nm_wf m"
    and "nm_length m = of_nat (length (frame_plain body) + 2)" "length body \<le> 24566"
  shows "\<exists>m'. XTEA_decrypt k m = Some (True, m') \<and> nm_length m' = of_nat (length body)
    \<and> nm_position m' = 4 \<and> read_at 4 (length body) (nm_buffer m') = Some body \<and> nm_wf m'
    \<and> nm_overrun m' = nm_overrun m"
proof -
  let ?L = "length (frame_plain body)" and ?n = "length body"
  have L: "?L \<le> 24575" using pad_length_less [of ?n] assms(6) by (simp add: length_frame_plain)
  have ul: "unat (nm_length m) = ?L + 2" unfolding assms(5) using L by (intro u16_of_nat_small) simp
  then have il: "uint (nm_length m) = int ?L + 2" by (simp add: uint_nat del: of_nat_unat)
  have "mask 3 = (7 :: int)" by (simp add: mask_eq_exp_minus_1)
  then have "(int ?L) AND 7 = int ?L mod 8"
    using take_bit_eq_mask [of 3 "int ?L"] by (simp add: take_bit_eq_mod)
  then have and0: "(uint (nm_length m) - 2) AND 7 = 0"
    using frame_plain_dvd [of body] il zmod_int [of ?L 8] by (simp add: dvd_eq_mod_eq_0)
  define m1 where "m1 = m\<lparr>nm_buffer := h @ frame_plain body @ post\<rparr>"
  have dec: "crypt_loop (xtea_dec_block k) 2 0 ?L (nm_buffer m) = Some (h @ frame_plain body @ post)"
    using crypt_loop_map_blocks [of "map_blocks (xtea_enc_block k) (frame_plain body)" h 2 0
        "xtea_dec_block k" post] frame_plain_dvd [of body] assms(2)
    by (simp add: buf xtea.map_blocks_dec_enc)
  have len: "?L + length post = 24588" using assms(1,2,4) by (simp add: nm_wf_def)
  have img: "img_at (enc_u16 (of_nat ?n)) m1"
    using L assms(2,3) ul len read_at_mid [of h 2 "enc_u16 (of_nat ?n)" 2]
    by (simp add: img_at_def m1_def frame_plain_def)
  have get: "get_u16 m1 = Some (of_nat ?n, advance 2 m1)"
    using get_val_img [OF img, of 2 dec_u16] by (simp add: get_u16_def)
  have un: "unat (of_nat ?n :: u16) = ?n" using assms(6) by (intro u16_of_nat_small) simp
  then have inn: "uint (of_nat ?n :: u16) = int ?n" by (metis uint_nat)
  have small: "\<not> uint (of_nat ?n :: u16) > uint (nm_length (advance 2 m1)) - 4"
    using inn il by (simp add: advance_def m1_def length_frame_plain)
  have "XTEA_decrypt k m = Some (True, setLength (of_nat ?n) (advance 2 m1))"
    unfolding XTEA_decrypt_def using and0 dec get small il assms(3)
    by (simp flip: m1_def)
  moreover have "read_at 4 ?n (nm_buffer (setLength (of_nat ?n) (advance 2 m1))) = Some body"
    using read_at_mid [of "h @ enc_u16 (of_nat ?n)" 4 body ?n] assms(2)
    by (simp add: setLength_def advance_def m1_def frame_plain_def)
  ultimately show ?thesis
    using assms(3,4) len assms(2)
    by (simp add: setLength_def advance_def m1_def nm_wf_def)
qed

subsection \<open>The limits of the padding\<close>

text \<open>Decryption refuses a length that does not fit the block size, before it touches the buffer.\<close>

lemma XTEA_decrypt_refuses:
  assumes "(uint (nm_length msg) - 2) mod 8 \<noteq> 0"
  shows "XTEA_decrypt k msg = Some (False, msg)"
proof -
  have "mask 3 = (7 :: int)" by (simp add: mask_eq_exp_minus_1)
  then have "(uint (nm_length msg) - 2) AND 7 = (uint (nm_length msg) - 2) mod 8"
    using take_bit_eq_mask [of 3 "uint (nm_length msg) - 2"] by (simp add: take_bit_eq_mod)
  with assms show ?thesis by (simp add: XTEA_decrypt_def)
qed

lemma crypt_loop_length:
  "crypt_loop f base r n buf = Some buf' \<Longrightarrow> length buf = k \<Longrightarrow> length buf' = k"
proof (induction "n - r" arbitrary: r buf rule: less_induct)
  case less
  show ?case
  proof (cases "r < n")
    case True
    with less.prems(1) obtain b1 b2 v0 v1 where
      "write_at (base + r) (enc_u32 v0) buf = Some b1"
      "write_at (base + r + 4) (enc_u32 v1) b1 = Some b2"
      "crypt_loop f base (r + 8) n b2 = Some buf'"
      by (subst (asm) crypt_loop.simps)
        (auto simp: bind_eq_Some_conv Let_def split: option.splits prod.splits)
    with less.hyps [of "r + 8" b2] less.prems(2) True show ?thesis
      using write_at_length by (metis diff_less_mono2 less_add_same_cancel1 zero_less_numeral)
  next
    case False
    with less.prems show ?thesis by (subst (asm) crypt_loop.simps) simp
  qed
qed

lemma crypt_loop_long:
  assumes "length buf = 24590"
  shows "crypt_loop f 6 r 24569 buf \<noteq> None"
  using assms
proof (induction "24569 - r" arbitrary: r buf rule: less_induct)
  case (less r buf)
  show ?case
  proof (cases "r < 24569")
    case False
    then show ?thesis by (simp add: crypt_loop.simps)
  next
    case True
    obtain a where a: "read_at (6 + r) 4 buf = Some a" using True less.prems by (simp add: read_at_def)
    obtain b where b: "read_at (6 + r + 4) 4 buf = Some b" using True less.prems by (simp add: read_at_def)
    obtain v0 v1 where v: "(v0, v1) = f (dec_u32 a, dec_u32 b)" by (metis surj_pair)
    obtain b1 where b1: "write_at (6 + r) (enc_u32 v0) buf = Some b1" "length b1 = 24590"
      using True less.prems by (simp add: write_at_def)
    obtain b2 where b2: "write_at (6 + r + 4) (enc_u32 v1) b1 = Some b2" "length b2 = 24590"
      using True b1(2) by (simp add: write_at_def)
    have "crypt_loop f 6 (r + 8) 24569 b2 \<noteq> None"
      by (rule less.hyps) (use True b2 in simp_all)
    with True a b b1 b2 v show ?thesis
      by (subst crypt_loop.simps) (simp add: v [symmetric])
  qed
qed

text \<open>
  C31. The limit of the padding: a message whose body has 24567 bytes, which the write guards still
  admit, is completed and encrypted without padding. The ciphertext it announces has 24569 bytes,
  not a multiple of the block size, and \<open>XTEA_decrypt\<close> refuses every message announced so.
\<close>

theorem long_message_not_padded:
  assumes "holds_body body m" "length body = 24567" "\<not> pr_rawMessages p" "pr_encryptionEnabled p"
  shows "(\<exists>m'. onSendMessage p m = Some m' \<and> nm_length m' = of_nat (2 + 24569))
    \<and> (\<forall>r :: netmsg. nm_length r = of_nat (2 + 24569)
         \<longrightarrow> XTEA_decrypt (pr_key p) r = Some (False, r))"
proof
  obtain p4 h2 l2 post where b: "nm_buffer m = p4 @ h2 @ l2 @ body @ post" "length p4 = 4"
    "length h2 = 2" "length l2 = 2" "length body + length post = 24582"
    by (rule holds_bodyE [OF assms(1)])
  define m1 where "m1 = m\<lparr>nm_buffer := p4 @ h2 @ enc_u16 (of_nat (length body)) @ body @ post,
     om_start := 6, nm_length := of_nat (length body + 2)\<rparr>"
  have 1: "writeMessageLength m = Some m1"
    unfolding m1_def by (rule writeMessageLength_ok [OF assms(1) b(1-4)])
  have ul: "unat (nm_length m1) = 24569" by (simp add: m1_def assms(2))
  have up: "unat (nm_position m1) = 24575"
    using assms(1,2) by (simp add: m1_def holds_body_def)
  have pad: "addPaddingBytes 7 m1 = Some m1" by (simp add: addPaddingBytes_def canAdd_def up)
  have lb: "length (nm_buffer m1) = 24590" using b assms(2) by (simp add: m1_def)
  obtain buf where c: "crypt_loop (xtea_enc_block (pr_key p)) 6 0 24569 (nm_buffer m1) = Some buf"
    using crypt_loop_long [OF lb] by blast
  have 2: "XTEA_encrypt (pr_key p) m1 = Some (m1\<lparr>nm_buffer := buf\<rparr>)"
    using pad c by (simp add: XTEA_encrypt_def ul) (simp add: m1_def)
  have "length buf = 24590" using c lb by (rule crypt_loop_length)
  then have "\<exists>m2. addCryptoHeader (m1\<lparr>nm_buffer := buf\<rparr>) = Some m2 \<and> nm_length m2 = of_nat (2 + 24569)"
    by (simp add: addCryptoHeader_def writeMessageLength_def add_header_def write_at_def)
      (simp add: m1_def assms(2))
  with 1 2 assms(3,4) show "\<exists>m'. onSendMessage p m = Some m' \<and> nm_length m' = of_nat (2 + 24569)"
    by (simp add: onSendMessage_def)
  show "\<forall>r :: netmsg. nm_length r = of_nat (2 + 24569) \<longrightarrow> XTEA_decrypt (pr_key p) r = Some (False, r)"
    by (auto intro!: XTEA_decrypt_refuses)
qed

definition example_protocol :: protocol where
  "example_protocol = \<lparr>pr_key = [1, 2, 3, 4], pr_encryptionEnabled = True, pr_rawMessages = False,
     pr_outputBuffer = None\<rparr>"

theorem long_message_not_padded_witness:
  "\<exists>m body. holds_body body m \<and> length body = 24567
    \<and> (\<exists>m'. onSendMessage example_protocol m = Some m' \<and> nm_length m' = of_nat (2 + 24569))
    \<and> (\<forall>r :: netmsg. nm_length r = of_nat (2 + 24569)
         \<longrightarrow> XTEA_decrypt (pr_key example_protocol) r = Some (False, r))"
proof -
  let ?body = "replicate 24567 (0 :: u8)"
  let ?m = "(new_outmsg (replicate 24590 0))\<lparr>nm_position := of_nat (8 + 24567), nm_length := of_nat 24567\<rparr>"
  have h: "holds_body ?body ?m"
    by (simp add: holds_body_def nm_wf_def new_outmsg_def read_at_def INITIAL_BUFFER_POSITION_def)
  have l: "length ?body = 24567" by simp
  have p: "\<not> pr_rawMessages example_protocol" "pr_encryptionEnabled example_protocol"
    by (simp_all add: example_protocol_def)
  from long_message_not_padded [OF h l p] h l show ?thesis by blast
qed

end
