(* ===== verification/Connection_Flow.thy ===== *)
theory Connection_Flow
  imports Protocol_Crypto "HOL-Library.Sublist"
begin

text \<open>
  A client connection, \<^verbatim>\<open>src/src/connection.cpp\<close>: the read cycle (two header bytes, then a
  body of the announced size), the packet rate limit, the queue of outgoing messages and the two
  ways of closing. The asynchronous calls into the socket library are the actions that a handler
  returns; the library calls the handlers back. Handlers are the events of a step relation. Timers
  and the exceptions of the socket library are not modelled.
\<close>

datatype net_action =
  AsyncReadHeader | AsyncReadBody nat | AsyncWrite bytes | CloseSocket
| ReleaseConnection | DispatchRelease

record connection =
  cn_msg :: netmsg
  cn_messageQueue :: "outmsg list"
  cn_protocol :: "protocol option"
  cn_timeConnected :: int
  cn_packetsSent :: u32
  cn_open :: bool
  cn_receivedFirst :: bool
  cn_socketOpen :: bool

type_synonym conn_result = "(connection \<times> net_action list) option"

definition closeSocket :: "connection \<Rightarrow> connection \<times> net_action list" where
  "closeSocket c = (if cn_socketOpen c then (c\<lparr>cn_socketOpen := False\<rparr>, [CloseSocket]) else (c, []))"

definition conn_close :: "bool \<Rightarrow> connection \<Rightarrow> connection \<times> net_action list" where
  "conn_close force c =
     (if \<not> cn_open c then (c, [ReleaseConnection])
      else
        (let c1 = c\<lparr>cn_open := False\<rparr>;
             rel = (case cn_protocol c of None \<Rightarrow> [] | Some _ \<Rightarrow> [DispatchRelease])
         in if cn_messageQueue c1 = [] \<or> force
            then (let (c2, acts) = closeSocket c1 in (c2, ReleaseConnection # rel @ acts))
            else (c1, ReleaseConnection # rel)))"

text \<open>
  The size that a header announces is accepted when it is positive and leaves room in the array;
  otherwise the connection is closed. \<open>now\<close> is the clock, \<open>max_pps\<close> the configured limit.
\<close>

definition parseHeader :: "int \<Rightarrow> u32 \<Rightarrow> bool \<Rightarrow> connection \<Rightarrow> conn_result" where
  "parseHeader now max_pps error c =
     (case decodeHeader (cn_msg c) of
        None \<Rightarrow> None
      | Some (sz, m1) \<Rightarrow>
          (let c0 = c\<lparr>cn_msg := m1\<rparr>;
               (c1, acts) =
                 (if error \<or> sz \<le> 0 \<or> sz \<ge> int NETWORKMESSAGE_MAXSIZE - 16
                  then conn_close True c0 else (c0, []))
           in if \<not> cn_open c1 then Some (c1, acts)
              else
                (let timePassed = max 1 (word_of_int ((now - cn_timeConnected c1) + 1) :: u32);
                     c2 = c1\<lparr>cn_packetsSent := cn_packetsSent c1 + 1\<rparr>
                 in if cn_packetsSent c2 div timePassed > max_pps then Some (c2, acts)
                    else
                      (let c3 = (if timePassed > 2
                                 then c2\<lparr>cn_timeConnected := now, cn_packetsSent := 0\<rparr> else c2);
                           m2 = setLength (word_of_int (sz + int HEADER_LENGTH)) (cn_msg c3);
                           m3 = setBufferPosition 2 m2
                       in Some (c3\<lparr>cn_msg := m3\<rparr>, acts @ [AsyncReadBody (nat sz)])))))"

text \<open>The socket library stores what it read.\<close>

definition store_header :: "bytes \<Rightarrow> connection \<Rightarrow> connection option" where
  "store_header bs c = map_option (\<lambda>b. c\<lparr>cn_msg := (cn_msg c)\<lparr>nm_buffer := b\<rparr>\<rparr>)
     (write_at 0 bs (nm_buffer (cn_msg c)))"

definition store_body :: "bytes \<Rightarrow> connection \<Rightarrow> connection option" where
  "store_body bs c = map_option (\<lambda>b. c\<lparr>cn_msg := (cn_msg c)\<lparr>nm_buffer := b\<rparr>\<rparr>)
     (write_at HEADER_LENGTH bs (nm_buffer (cn_msg c)))"

text \<open>
  \<open>make_protocol\<close>, \<open>onRecvFirst\<close> and \<open>parse\<close> are the virtual functions of the protocol classes
  and of the service port that the handler calls.
\<close>

definition parsePacket ::
    "(netmsg \<Rightarrow> protocol option \<times> netmsg) \<Rightarrow> (protocol \<Rightarrow> netmsg \<Rightarrow> protocol \<times> netmsg)
     \<Rightarrow> (protocol \<Rightarrow> netmsg \<Rightarrow> protocol \<times> netmsg) \<Rightarrow> bool \<Rightarrow> connection \<Rightarrow> conn_result" where
  "parsePacket make_protocol onRecvFirst parse error c =
     (let (c1, acts) = (if error then conn_close True c else (c, []))
      in if \<not> cn_open c1 then Some (c1, acts)
         else if \<not> cn_receivedFirst c1 then
           (let c2 = c1\<lparr>cn_receivedFirst := True\<rparr> in
            (case cn_protocol c2 of
               None \<Rightarrow>
                 (case make_protocol (cn_msg c2) of
                    (None, m) \<Rightarrow>
                      (let (c3, acts3) = conn_close True (c2\<lparr>cn_msg := m\<rparr>) in Some (c3, acts @ acts3))
                  | (Some p, m) \<Rightarrow>
                      (let (p', m') = onRecvFirst p m
                       in Some (c2\<lparr>cn_protocol := Some p', cn_msg := m'\<rparr>, acts @ [AsyncReadHeader])))
             | Some p \<Rightarrow>
                 (let (p', m') = onRecvFirst p (skipBytes 1 (cn_msg c2))
                  in Some (c2\<lparr>cn_protocol := Some p', cn_msg := m'\<rparr>, acts @ [AsyncReadHeader]))))
         else
           (case cn_protocol c1 of
              None \<Rightarrow> None
            | Some p \<Rightarrow>
                (case onRecvMessage p (cn_msg c1) of
                   None \<Rightarrow> None
                 | Some (m, None) \<Rightarrow> Some (c1\<lparr>cn_msg := m\<rparr>, acts @ [AsyncReadHeader])
                 | Some (_, Some m) \<Rightarrow>
                     (let (p', m') = parse p m
                      in Some (c1\<lparr>cn_protocol := Some p', cn_msg := m'\<rparr>, acts @ [AsyncReadHeader])))))"

text \<open>
  \<open>internalSend\<close> completes the message at the front of the queue (both callers pass it that one)
  and starts the write.
\<close>

definition internalSend :: "connection \<Rightarrow> conn_result" where
  "internalSend c =
     (case (cn_protocol c, cn_messageQueue c) of
        (Some p, m # q) \<Rightarrow>
          Option.bind (onSendMessage p m) (\<lambda>m'.
          Option.bind (om_output m') (\<lambda>out.
            Some (c\<lparr>cn_messageQueue := m' # q\<rparr>, [AsyncWrite out])))
      | _ \<Rightarrow> None)"

definition conn_send :: "outmsg \<Rightarrow> connection \<Rightarrow> conn_result" where
  "conn_send m c =
     (if \<not> cn_open c then Some (c, [])
      else
        (let noPendingWrite = (cn_messageQueue c = []);
             c1 = c\<lparr>cn_messageQueue := cn_messageQueue c @ [m]\<rparr>
         in if noPendingWrite then internalSend c1 else Some (c1, [])))"

definition onWriteOperation :: "bool \<Rightarrow> connection \<Rightarrow> conn_result" where
  "onWriteOperation error c =
     (case cn_messageQueue c of
        [] \<Rightarrow> None
      | _ # q \<Rightarrow>
          (let c1 = c\<lparr>cn_messageQueue := q\<rparr>
           in if error then Some (conn_close True (c1\<lparr>cn_messageQueue := []\<rparr>))
              else if q \<noteq> [] then internalSend c1
              else if \<not> cn_open c1 then Some (closeSocket c1)
              else Some (c1, [])))"

subsection \<open>Reading stays inside the buffer\<close>

lemma conn_close_closed: "\<not> cn_open (fst (conn_close f c))"
  by (simp add: conn_close_def closeSocket_def split_def Let_def)

lemma decodeHeader_cases:
  assumes "nm_wf m"
  obtains sz where "decodeHeader m = Some (sz, m\<lparr>nm_length := word_of_int sz\<rparr>)" "0 \<le> sz" "sz < 65536"
proof -
  obtain v m' where d: "decodeHeader m = Some (v, m')" using decodeHeader_defined [OF assms] by blast
  then have "m' = m\<lparr>nm_length := word_of_int v\<rparr>" and v: "v = uint (nm_length m')"
    by (auto simp: decodeHeader_def Let_def split: option.splits list.splits)
  moreover have "0 \<le> v" "v < 65536" using uint_lt2p [of "nm_length m'"] by (simp_all add: v)
  ultimately show ?thesis using d that by blast
qed

lemma parseHeader_read_bound:
  assumes wf: "nm_wf (cn_msg c)" and r: "parseHeader now mx err c = Some (c', acts)"
    and a: "AsyncReadBody n \<in> set acts"
  shows "HEADER_LENGTH + n \<le> length (nm_buffer (cn_msg c')) \<and> 0 < n \<and> nm_wf (cn_msg c')"
    and "nm_position (cn_msg c') = 2" and "nm_length (cn_msg c') = of_nat (n + 2)"
proof -
  obtain sz where d: "decodeHeader (cn_msg c) = Some (sz, (cn_msg c)\<lparr>nm_length := word_of_int sz\<rparr>)"
    by (rule decodeHeader_cases [OF wf])
  have ok: "\<not> (err \<or> sz \<le> 0 \<or> sz \<ge> 24574)"
    using r a conn_close_closed [of True "c\<lparr>cn_msg := (cn_msg c)\<lparr>nm_length := word_of_int sz\<rparr>\<rparr>"]
    by (auto simp: parseHeader_def d Let_def split_def conn_close_def closeSocket_def
        split: if_splits option.splits)
  have w: "word_of_int (sz + 2) = (of_nat (nat sz + 2) :: u16)"
    using ok by (subst of_int_of_nat_eq [symmetric]) simp
  have n: "n = nat sz" and m: "cn_msg c' = (cn_msg c)\<lparr>nm_length := word_of_int (sz + 2), nm_position := 2\<rparr>"
    using r a ok
    by (auto simp: parseHeader_def d Let_def setLength_def setBufferPosition_def split: if_splits)
  then show "HEADER_LENGTH + n \<le> length (nm_buffer (cn_msg c')) \<and> 0 < n \<and> nm_wf (cn_msg c')"
    "nm_position (cn_msg c') = 2" "nm_length (cn_msg c') = of_nat (n + 2)"
    using ok wf w nat_le_iff [of sz 24588] by (simp_all add: nm_wf_def)
qed

text \<open>
  The asynchronous read of a body that \<open>parseHeader\<close> starts never leaves the array, whatever
  header the client sent and in whatever state the connection is: two plus the announced size is
  at most the size of the buffer, the size is positive, and the message is set to read behind the
  header with a length that counts the header.
\<close>

theorem parseHeader_body_read_safe:
  assumes "nm_wf (cn_msg c)" "parseHeader now max_pps error c = Some (c', acts)"
    "AsyncReadBody n \<in> set acts"
  shows "HEADER_LENGTH + n \<le> length (nm_buffer (cn_msg c')) \<and> 0 < n
    \<and> nm_position (cn_msg c') = 2 \<and> nm_length (cn_msg c') = of_nat (n + 2)"
  using parseHeader_read_bound [OF assms] by blast

definition idle_connection :: "protocol option \<Rightarrow> bytes \<Rightarrow> connection" where
  "idle_connection p mem = \<lparr>cn_msg = \<lparr>nm_length = 0, nm_position = INITIAL_BUFFER_POSITION,
       nm_overrun = False, nm_buffer = mem\<rparr>,
     cn_messageQueue = [], cn_protocol = p, cn_timeConnected = 0, cn_packetsSent = 0,
     cn_open = True, cn_receivedFirst = True, cn_socketOpen = True\<rparr>"

theorem parseHeader_body_read_safe_witness:
  "\<exists>c' acts. parseHeader 0 25 False (idle_connection None ([18, 1] @ replicate 24588 0)) = Some (c', acts)
    \<and> AsyncReadBody 274 \<in> set acts
    \<and> HEADER_LENGTH + 274 \<le> length (nm_buffer (cn_msg c')) \<and> (0::nat) < 274
    \<and> nm_position (cn_msg c') = 2 \<and> nm_length (cn_msg c') = of_nat (274 + 2)"
proof -
  let ?c = "idle_connection None ([18, 1] @ replicate 24588 0)"
  have wf: "nm_wf (cn_msg ?c)" by (simp add: idle_connection_def nm_wf_def)
  have n274: "replicate 24588 x = x # replicate 24587 x" for x :: u8
    by (simp flip: replicate_Suc)
  have "decodeHeader (cn_msg ?c) = Some (274, (cn_msg ?c)\<lparr>nm_length := 274\<rparr>)"
    by (simp add: decodeHeader_def idle_connection_def read_at_def)
  then have "\<exists>c' acts. parseHeader 0 25 False ?c = Some (c', acts) \<and> AsyncReadBody 274 \<in> set acts"
    by (simp add: parseHeader_def Let_def) (simp add: idle_connection_def)
  then show ?thesis using parseHeader_body_read_safe [OF wf] by blast
qed

subsection \<open>The write queue\<close>

text \<open>
  What the network side of a connection with protocol object \<open>p\<close> can do, with three histories: the
  number of writes the socket library has in progress, the messages accepted by \<open>send\<close> and the
  byte strings passed to the socket.
\<close>

fun writes_of :: "net_action list \<Rightarrow> bytes list" where
  "writes_of [] = []"
| "writes_of (AsyncWrite b # acts) = b # writes_of acts"
| "writes_of (_ # acts) = writes_of acts"

lemma writes_of_append [simp]: "writes_of (xs @ ys) = writes_of xs @ writes_of ys"
  by (induction xs rule: writes_of.induct) simp_all

definition wire :: "protocol \<Rightarrow> outmsg \<Rightarrow> bytes option" where
  "wire p m = Option.bind (onSendMessage p m) om_output"

inductive conn_reach :: "protocol \<Rightarrow> connection \<Rightarrow> nat \<Rightarrow> outmsg list \<Rightarrow> bytes list \<Rightarrow> bool"
  for p :: protocol where
  start: "cn_protocol c = Some p \<Longrightarrow> cn_messageQueue c = [] \<Longrightarrow> cn_open c \<Longrightarrow>
    conn_reach p c 0 [] []"
| send: "conn_reach p c n sent out \<Longrightarrow> conn_send m c = Some (c', acts) \<Longrightarrow>
    conn_reach p c' (n + length (writes_of acts)) (if cn_open c then sent @ [m] else sent)
      (out @ writes_of acts)"
| written: "conn_reach p c n sent out \<Longrightarrow> 0 < n \<Longrightarrow> onWriteOperation err c = Some (c', acts) \<Longrightarrow>
    conn_reach p c' (n - 1 + length (writes_of acts)) sent (out @ writes_of acts)"
| close: "conn_reach p c n sent out \<Longrightarrow> conn_close force c = (c', acts) \<Longrightarrow>
    conn_reach p c' (n + length (writes_of acts)) sent (out @ writes_of acts)"

definition conn_inv :: "protocol \<Rightarrow> connection \<Rightarrow> nat \<Rightarrow> outmsg list \<Rightarrow> bytes list \<Rightarrow> bool" where
  "conn_inv p c n sent out \<longleftrightarrow>
     cn_protocol c = Some p
   \<and> n = (if cn_messageQueue c = [] then 0 else 1)
   \<and> length out \<le> length sent
   \<and> map Some out = map (wire p) (take (length out) sent)
   \<and> (cn_messageQueue c \<noteq> [] \<longrightarrow> tl (cn_messageQueue c) = drop (length out) sent)
   \<and> (cn_messageQueue c = [] \<and> cn_open c \<longrightarrow> length out = length sent)"

lemma internalSend_cases:
  assumes "internalSend c = Some (c', acts)"
  obtains p m q m' w where "cn_protocol c = Some p" "cn_messageQueue c = m # q"
    "wire p m = Some w" "c' = c\<lparr>cn_messageQueue := m' # q\<rparr>" "acts = [AsyncWrite w]"
  using assms
  by (auto simp: internalSend_def wire_def bind_eq_Some_conv split: option.splits list.splits)

lemma conn_close_frame:
  assumes "conn_close f c = (c', acts)"
  shows "writes_of acts = []" "cn_protocol c' = cn_protocol c" "cn_messageQueue c' = cn_messageQueue c"
    "\<not> cn_open c'"
  using assms
  by (auto simp: conn_close_def closeSocket_def Let_def split: if_splits option.splits)

lemma conn_inv_close:
  "conn_inv p c n sent out \<Longrightarrow> conn_close f c = (c', acts) \<Longrightarrow>
   conn_inv p c' (n + length (writes_of acts)) sent (out @ writes_of acts)"
  using conn_close_frame [of f c c' acts] by (simp add: conn_inv_def)

lemma conn_inv_send:
  assumes inv: "conn_inv p c n sent out" and s: "conn_send m c = Some (c', acts)"
  shows "conn_inv p c' (n + length (writes_of acts)) (if cn_open c then sent @ [m] else sent)
    (out @ writes_of acts)"
proof (cases "cn_open c")
  case False
  with inv s show ?thesis by (simp add: conn_send_def)
next
  case op: True
  show ?thesis
  proof (cases "cn_messageQueue c = []")
    case True
    with op s have "internalSend (c\<lparr>cn_messageQueue := [m]\<rparr>) = Some (c', acts)"
      by (simp add: conn_send_def Let_def)
    then obtain w m' where "wire p m = Some w" "c' = c\<lparr>cn_messageQueue := [m']\<rparr>" "acts = [AsyncWrite w]"
      using inv by (elim internalSend_cases) (auto simp: conn_inv_def)
    with inv True op show ?thesis by (simp add: conn_inv_def)
  next
    case False
    with op s have "c' = c\<lparr>cn_messageQueue := cn_messageQueue c @ [m]\<rparr>" "acts = []"
      by (auto simp: conn_send_def Let_def)
    with inv False op show ?thesis by (simp add: conn_inv_def)
  qed
qed

lemma conn_inv_written:
  assumes inv: "conn_inv p c n sent out" and n: "0 < n"
    and s: "onWriteOperation err c = Some (c', acts)"
  shows "conn_inv p c' (n - 1 + length (writes_of acts)) sent (out @ writes_of acts)"
proof -
  obtain m q where q: "cn_messageQueue c = m # q" and n1: "n = 1"
    using inv n by (cases "cn_messageQueue c") (auto simp: conn_inv_def)
  consider "err" | "\<not> err" "q \<noteq> []" | "\<not> err" "q = []" by blast
  then show ?thesis
  proof cases
    case 1
    with s q have "conn_close True (c\<lparr>cn_messageQueue := []\<rparr>) = (c', acts)"
      by (simp add: onWriteOperation_def Let_def)
    with inv n1 q show ?thesis
      using conn_close_frame [of True "c\<lparr>cn_messageQueue := []\<rparr>" c' acts] by (simp add: conn_inv_def)
  next
    case 2
    with s q have "internalSend (c\<lparr>cn_messageQueue := q\<rparr>) = Some (c', acts)"
      by (simp add: onWriteOperation_def Let_def)
    then obtain x xs w m' where x: "q = x # xs" "wire p x = Some w"
        "c' = c\<lparr>cn_messageQueue := m' # xs\<rparr>" "acts = [AsyncWrite w]"
      using inv by (elim internalSend_cases) (auto simp: conn_inv_def)
    have d: "x # xs = drop (length out) sent" using inv q x(1) by (simp add: conn_inv_def)
    then have lt: "length out < length sent" by (metis drop_all list.distinct(1) not_le)
    have dd: "drop (length out) sent = sent ! length out # drop (Suc (length out)) sent"
      using lt by (rule Cons_nth_drop_Suc [symmetric])
    then have e: "sent ! length out = x" "drop (Suc (length out)) sent = xs"
      using d [unfolded dd] by blast+
    have t: "take (Suc (length out)) sent = take (length out) sent @ [x]"
      using take_Suc_conv_app_nth [OF lt] e(1) by simp
    have mo: "map Some (out @ [w]) = map (wire p) (take (Suc (length out)) sent)"
      using inv x(2) unfolding t conn_inv_def by simp
    have "cn_protocol c = Some p" using inv by (simp add: conn_inv_def)
    then show ?thesis
      using n1 lt mo e(2) by (simp add: x(3,4) conn_inv_def del: map_append take_Suc_conv_app_nth)
  next
    case 3
    with s q have "c' = c\<lparr>cn_messageQueue := []\<rparr> \<or>
        (\<not> cn_open c \<and> c' = c\<lparr>cn_messageQueue := [], cn_socketOpen := False\<rparr>)" "writes_of acts = []"
      by (auto simp: onWriteOperation_def closeSocket_def Let_def split: if_splits)
    with inv q n1 3 show ?thesis by (auto simp: conn_inv_def)
  qed
qed

lemma conn_reach_inv: "conn_reach p c n sent out \<Longrightarrow> conn_inv p c n sent out"
proof (induction rule: conn_reach.induct)
  case (start c)
  then show ?case by (simp add: conn_inv_def)
next
  case (send c n sent out m c' acts)
  then show ?case by (intro conn_inv_send)
next
  case (written c n sent out err c' acts)
  then show ?case by (intro conn_inv_written)
next
  case (close c n sent out force c' acts)
  then show ?case by (intro conn_inv_close)
qed

text \<open>
  C29. Write discipline of a connection, for every interleaving of sends, write completions (with
  or without an error) and closings: the socket never has more than one write in progress, it has
  one exactly while the queue is not empty, and the byte strings written so far are the wire images
  of a prefix of the accepted messages, in order, each message completed and encrypted once.
\<close>

theorem connection_writes_in_order:
  assumes "conn_reach p c n sent out"
  shows "n \<le> 1 \<and> (n = 1 \<longleftrightarrow> cn_messageQueue c \<noteq> [])
    \<and> prefix (map Some out) (map (wire p) sent)"
proof -
  have inv: "conn_inv p c n sent out" using assms by (rule conn_reach_inv)
  have "map (wire p) sent = map Some out @ map (wire p) (drop (length out) sent)"
    using inv by (metis append_take_drop_id conn_inv_def map_append)
  with inv show ?thesis by (auto simp: conn_inv_def prefix_def)
qed

definition raw_protocol :: protocol where
  "raw_protocol = \<lparr>pr_key = [1, 2, 3, 4], pr_encryptionEnabled = False, pr_rawMessages = True,
     pr_outputBuffer = None\<rparr>"

theorem connection_writes_in_order_witness:
  "\<exists>c. conn_reach raw_protocol c 1 [new_outmsg (replicate 24590 0)] [[]]
    \<and> (1::nat) \<le> 1 \<and> ((1::nat) = 1 \<longleftrightarrow> cn_messageQueue c \<noteq> [])
    \<and> prefix (map Some [[]]) (map (wire raw_protocol) [new_outmsg (replicate 24590 0)])"
proof -
  let ?m = "new_outmsg (replicate 24590 0)"
  let ?c = "idle_connection (Some raw_protocol) (replicate 24590 0)"
  have s: "conn_reach raw_protocol ?c 0 [] []"
    by (rule conn_reach.start) (simp_all add: idle_connection_def)
  have "om_output ?m = Some []"
    by (simp add: om_output_def new_outmsg_def read_at_def INITIAL_BUFFER_POSITION_def)
  then have "conn_send ?m ?c = Some (?c\<lparr>cn_messageQueue := [?m]\<rparr>, [AsyncWrite []])"
    by (simp add: conn_send_def internalSend_def idle_connection_def onSendMessage_def raw_protocol_def)
  from conn_reach.send [OF s this]
  have r: "conn_reach raw_protocol (?c\<lparr>cn_messageQueue := [?m]\<rparr>) 1 [?m] [[]]"
    by (simp add: idle_connection_def)
  with connection_writes_in_order [OF r] show ?thesis by blast
qed

text \<open>Completions that the socket library reports one after the other without an error.\<close>

primrec complete_writes :: "nat \<Rightarrow> connection \<Rightarrow> conn_result" where
  "complete_writes 0 c = Some (c, [])"
| "complete_writes (Suc n) c =
     Option.bind (onWriteOperation False c) (\<lambda>(c1, a1).
       map_option (\<lambda>(c2, a2). (c2, a1 @ a2)) (complete_writes n c1))"

lemma internalSend_wire:
  assumes "cn_protocol c = Some p" "cn_messageQueue c = m # q" "wire p m = Some w"
  shows "\<exists>m'. internalSend c = Some (c\<lparr>cn_messageQueue := m' # q\<rparr>, [AsyncWrite w])"
  using assms by (auto simp: internalSend_def wire_def bind_eq_Some_conv)

text \<open>
  C30. A connection that is closed without force flushes its queue: with the first message in
  progress, as many successful completions as there are queued messages write the wire images of
  all remaining messages in order, leave the queue empty and close the socket at the end.
\<close>

theorem graceful_close_flushes:
  assumes "\<not> cn_open c" "cn_socketOpen c" "cn_protocol c = Some p"
    and "cn_messageQueue c = m # ms" "\<forall>x \<in> set ms. wire p x \<noteq> None"
  shows "\<exists>c' acts. complete_writes (length (cn_messageQueue c)) c = Some (c', acts)
    \<and> map Some (writes_of acts) = map (wire p) ms
    \<and> cn_messageQueue c' = [] \<and> \<not> cn_socketOpen c' \<and> last acts = CloseSocket \<and> acts \<noteq> []"
  using assms
proof (induction ms arbitrary: c m)
  case Nil
  then show ?case by (simp add: onWriteOperation_def closeSocket_def)
next
  case (Cons x xs)
  then obtain w where w: "wire p x = Some w" by auto
  obtain x' where i: "internalSend (c\<lparr>cn_messageQueue := x # xs\<rparr>)
      = Some (c\<lparr>cn_messageQueue := x' # xs\<rparr>, [AsyncWrite w])"
    using internalSend_wire [of "c\<lparr>cn_messageQueue := x # xs\<rparr>" p x xs w] Cons.prems w by auto
  have step: "onWriteOperation False c = Some (c\<lparr>cn_messageQueue := x' # xs\<rparr>, [AsyncWrite w])"
    using Cons.prems i by (simp add: onWriteOperation_def)
  obtain c' acts where "complete_writes (Suc (length xs)) (c\<lparr>cn_messageQueue := x' # xs\<rparr>) = Some (c', acts)"
    "map Some (writes_of acts) = map (wire p) xs" "cn_messageQueue c' = []" "\<not> cn_socketOpen c'"
    "last acts = CloseSocket" "acts \<noteq> []"
    using Cons.IH [of "c\<lparr>cn_messageQueue := x' # xs\<rparr>" x'] Cons.prems by auto
  with Cons.prems(4) step w show ?case
    by (auto simp del: complete_writes.simps simp: complete_writes.simps(2) [of "Suc (length xs)"])
qed

theorem graceful_close_flushes_witness:
  "let m = new_outmsg (replicate 24590 0);
       c = (idle_connection (Some raw_protocol) [])\<lparr>cn_open := False, cn_messageQueue := [m, m]\<rparr>
   in \<exists>c' acts. complete_writes (length (cn_messageQueue c)) c = Some (c', acts)
    \<and> map Some (writes_of acts) = map (wire raw_protocol) [m]
    \<and> cn_messageQueue c' = [] \<and> \<not> cn_socketOpen c' \<and> last acts = CloseSocket \<and> acts \<noteq> []"
  unfolding Let_def
  by (rule graceful_close_flushes)
    (simp_all add: idle_connection_def wire_def onSendMessage_def raw_protocol_def om_output_def
      new_outmsg_def read_at_def INITIAL_BUFFER_POSITION_def)

subsection \<open>Delivery of a frame\<close>

text \<open>
  The bytes of one frame arrive: the socket library stores two header bytes, \<open>parseHeader\<close> asks
  for the body, the body is stored and \<open>onRecvMessage\<close> decides what the parser gets.
\<close>

definition receive_frame ::
    "int \<Rightarrow> u32 \<Rightarrow> protocol \<Rightarrow> connection \<Rightarrow> bytes \<Rightarrow> netmsg option option" where
  "receive_frame now max_pps p c w =
     Option.bind (store_header (take 2 w) c) (\<lambda>c1.
     Option.bind (parseHeader now max_pps False c1) (\<lambda>(c2, acts).
       (case acts of
          [AsyncReadBody n] \<Rightarrow>
            Option.bind (store_body (take n (drop 2 w)) c2) (\<lambda>c3.
              map_option snd (onRecvMessage p (cn_msg c3)))
        | _ \<Rightarrow> None)))"

lemma decodeHeader_enc_u16:
  assumes "nm_buffer m = enc_u16 v @ rest"
  shows "decodeHeader m = Some (uint v, m\<lparr>nm_length := v\<rparr>)"
proof -
  let ?v = "unat v"
  have "enc_u16 v = [of_nat (?v mod 256), of_nat (?v div 256 mod 256)]"
    by (simp add: enc_u16_def numeral_2_eq_2)
  moreover have "uint (of_nat (?v mod 256) :: u8) = int (?v mod 256)"
    "uint (of_nat (?v div 256 mod 256) :: u8) = int (?v div 256 mod 256)"
    by (simp_all add: uint_nat unat_of_nat del: of_nat_unat)
  moreover have "int (?v mod 256) OR push_bit 8 (int (?v div 256 mod 256)) = int ?v"
  proof -
    have d: "?v div 256 mod 256 = ?v div 256" using unat_u16_bound [of v] by simp
    have "int (?v mod 256) = take_bit 8 (int ?v)" by (simp add: take_bit_eq_mod zmod_int)
    moreover have "int (?v div 256) = drop_bit 8 (int ?v)" by (simp add: drop_bit_eq_div zdiv_int)
    moreover have "take_bit 8 i OR push_bit 8 (drop_bit 8 i) = i" for i :: int
    proof (rule bit_eqI)
      show "bit (take_bit 8 i OR push_bit 8 (drop_bit 8 i)) n = bit i n" for n
        by (cases "n < 8") (auto simp: bit_simps)
    qed
    ultimately show ?thesis unfolding d by simp
  qed
  ultimately show ?thesis
    by (simp add: decodeHeader_def assms read_at_def Let_def)
qed

text \<open>Whether the packet counter of a connection lets the next packet through.\<close>

definition rate_ok :: "int \<Rightarrow> u32 \<Rightarrow> connection \<Rightarrow> bool" where
  "rate_ok now max_pps c \<longleftrightarrow>
     (cn_packetsSent c + 1) div max 1 (word_of_int ((now - cn_timeConnected c) + 1)) \<le> max_pps"

lemma parseHeader_accepts:
  assumes "nm_buffer (cn_msg c) = enc_u16 v @ rest" "cn_open c" "rate_ok now max_pps c"
    "0 < unat v" "unat v < 24574"
  shows "\<exists>c'. parseHeader now max_pps False c = Some (c', [AsyncReadBody (unat v)])
    \<and> cn_msg c' = (cn_msg c)\<lparr>nm_length := v + 2, nm_position := 2\<rparr>"
proof -
  have iv: "uint v = int (unat v)" by simp
  have "\<not> (uint v \<le> 0 \<or> uint v \<ge> 24574)"
    using assms(4,5) by (simp add: iv del: of_nat_unat)
  then show ?thesis
    using assms(2,3) decodeHeader_enc_u16 [OF assms(1)]
    by (simp add: parseHeader_def Let_def rate_ok_def setLength_def setBufferPosition_def
        not_less)
qed

lemma receive_frame_wire:
  assumes "nm_wf (cn_msg c)" "\<not> nm_overrun (cn_msg c)" "cn_open c" "rate_ok now max_pps c"
    and "length body \<le> 24566" "pr_encryptionEnabled p"
  shows "\<exists>m. receive_frame now max_pps p c (frame_wire (pr_key p) body) = Some (Some m)
    \<and> nm_length m = of_nat (length body) \<and> nm_position m = 4
    \<and> read_at 4 (length body) (nm_buffer m) = Some body \<and> nm_wf m \<and> \<not> nm_overrun m"
proof -
  let ?L = "length (frame_plain body)"
  let ?h = "enc_u16 (of_nat ?L)" and ?C = "map_blocks (xtea_enc_block (pr_key p)) (frame_plain body)"
  let ?buf = "nm_buffer (cn_msg c)"
  have L: "?L < 24574" "0 < ?L"
    using assms(5) frame_plain_dvd [of body] pad_length_less [of "length body"]
    unfolding length_frame_plain pad_length_def by presburger+
  have uL: "unat (of_nat ?L :: u16) = ?L" using L by (intro u16_of_nat_small) simp
  have lb: "length ?buf = 24590" using assms(1) by (simp add: nm_wf_def)
  define c1 where "c1 = c\<lparr>cn_msg := (cn_msg c)\<lparr>nm_buffer := ?h @ drop 2 ?buf\<rparr>\<rparr>"
  have 1: "store_header (take 2 (frame_wire (pr_key p) body)) c = Some c1"
    using lb by (simp add: store_header_def frame_wire_def write_at_def c1_def numeral_2_eq_2)
  have b1: "nm_buffer (cn_msg c1) = ?h @ drop 2 ?buf" by (simp add: c1_def)
  have r1: "rate_ok now max_pps c1" using assms(4) by (simp add: rate_ok_def c1_def)
  have o1: "cn_open c1" using assms(3) by (simp add: c1_def)
  obtain c2 where 2: "parseHeader now max_pps False c1 = Some (c2, [AsyncReadBody ?L])"
    and m2: "cn_msg c2 = (cn_msg c1)\<lparr>nm_length := of_nat ?L + 2, nm_position := 2\<rparr>"
    using parseHeader_accepts [OF b1 o1 r1] L uL by auto
  define c3 where "c3 = c2\<lparr>cn_msg := (cn_msg c2)\<lparr>nm_buffer := ?h @ ?C @ drop (2 + ?L) ?buf\<rparr>\<rparr>"
  have t: "take ?L (drop 2 (frame_wire (pr_key p) body)) = ?C"
    by (simp add: frame_wire_def)
  have "write_at 2 ?C (?h @ drop 2 ?buf) = Some (?h @ ?C @ drop (2 + ?L) ?buf)"
    using lb L by (simp add: write_at_def)
  then have 3: "store_body ?C c2 = Some c3"
    by (simp add: store_body_def m2 b1 c3_def)
  have m3: "cn_msg c3 = \<lparr>nm_length = of_nat (?L + 2), nm_position = 2, nm_overrun = nm_overrun (cn_msg c),
      nm_buffer = ?h @ ?C @ drop (2 + ?L) ?buf\<rparr>"
    by (simp add: c3_def m2) (simp add: c1_def)
  obtain m where m: "XTEA_decrypt (pr_key p) (cn_msg c3) = Some (True, m)"
    "nm_length m = of_nat (length body)" "nm_position m = 4"
    "read_at 4 (length body) (nm_buffer m) = Some body" "nm_wf m"
    "nm_overrun m = nm_overrun (cn_msg c3)"
    using XTEA_decrypt_frame [of "cn_msg c3" ?h "pr_key p" body "drop (2 + ?L) ?buf"] assms(5) lb L
    by (auto simp: m3 nm_wf_def)
  have "receive_frame now max_pps p c (frame_wire (pr_key p) body) = Some (Some m)"
    unfolding receive_frame_def 1 using 2 3 t m(1) assms(6) by (simp add: onRecvMessage_def)
  with m assms(2) show ?thesis by (simp add: m3)
qed

end
