(* ===== verification/Otb_Loader.thy ===== *)
theory Otb_Loader
  imports Otx_Prelude
begin

text \<open>
  The binary node files (maps and item databases) and the property streams,
  \<^verbatim>\<open>src/src/fileloader.h\<close> and \<^verbatim>\<open>fileloader.cpp\<close>. A file is a tree of nodes between start and
  end bytes; bytes that could be taken for one of them are escaped. \<open>parseTree\<close> is modelled with
  its stack of open nodes and its positions in the file, \<open>getProps\<close> removes the escapes.
  The format itself is stated as an encoder of abstract trees; the parser is proved to invert it.
\<close>

subsection \<open>Property streams\<close>

text \<open>A stream is what is left to read. A failed read returns no value; \<open>readString\<close> has then
  already consumed the length.\<close>

type_synonym propstream = bytes

definition ps_size :: "propstream \<Rightarrow> nat" where
  "ps_size ps = length ps"

definition ps_read :: "nat \<Rightarrow> (bytes \<Rightarrow> 'v) \<Rightarrow> propstream \<Rightarrow> 'v option \<times> propstream" where
  "ps_read sz dec ps =
     (if ps_size ps < sz then (None, ps) else (Some (dec (take sz ps)), drop sz ps))"

definition ps_readString :: "propstream \<Rightarrow> bytes option \<times> propstream" where
  "ps_readString ps =
     (case ps_read 2 dec_u16 ps of
        (None, ps1) \<Rightarrow> (None, ps1)
      | (Some strLen, ps1) \<Rightarrow>
          if ps_size ps1 < unat strLen then (None, ps1)
          else (Some (take (unat strLen) ps1), drop (unat strLen) ps1))"

definition ps_skip :: "nat \<Rightarrow> propstream \<Rightarrow> bool \<times> propstream" where
  "ps_skip n ps = (if ps_size ps < n then (False, ps) else (True, drop n ps))"

text \<open>A write stream is the buffer that grows at its end.\<close>

definition pw_write :: "bytes \<Rightarrow> bytes \<Rightarrow> bytes" where
  "pw_write img buffer = buffer @ img"

definition pw_writeString :: "bytes \<Rightarrow> bytes \<Rightarrow> bytes" where
  "pw_writeString str buffer =
     (if length str > 65535 then pw_write (enc_u16 0) buffer
      else pw_write (enc_u16 (of_nat (length str))) buffer @ str)"

context byte_codec
begin

lemma ps_read_write: "ps_read width dec (pw_write (enc x) [] @ rest) = (Some x, rest)"
  by (simp add: ps_read_def ps_size_def pw_write_def length_enc dec_enc)

lemma ps_read_enc: "ps_read width dec (enc x @ rest) = (Some x, rest)"
  using ps_read_write by (simp add: pw_write_def)

lemma ps_read_short: "length ps < width \<Longrightarrow> ps_read width dec ps = (None, ps)"
  by (simp add: ps_read_def ps_size_def)

end

text \<open>A stream of typed values, as the serialisers of the items and conditions write them.\<close>

datatype propval = PU8 u8 | PU16 u16 | PU32 u32 | PU64 u64 | PString bytes

fun write_prop :: "propval \<Rightarrow> bytes \<Rightarrow> bytes" where
  "write_prop (PU8 v) b = pw_write (enc_u8 v) b"
| "write_prop (PU16 v) b = pw_write (enc_u16 v) b"
| "write_prop (PU32 v) b = pw_write (enc_u32 v) b"
| "write_prop (PU64 v) b = pw_write (enc_u64 v) b"
| "write_prop (PString s) b = pw_writeString s b"

fun read_prop_like :: "propval \<Rightarrow> propstream \<Rightarrow> propval option \<times> propstream" where
  "read_prop_like (PU8 _) ps = map_prod (map_option PU8) id (ps_read 1 dec_u8 ps)"
| "read_prop_like (PU16 _) ps = map_prod (map_option PU16) id (ps_read 2 dec_u16 ps)"
| "read_prop_like (PU32 _) ps = map_prod (map_option PU32) id (ps_read 4 dec_u32 ps)"
| "read_prop_like (PU64 _) ps = map_prod (map_option PU64) id (ps_read 8 dec_u64 ps)"
| "read_prop_like (PString _) ps = map_prod (map_option PString) id (ps_readString ps)"

fun prop_bytes :: "propval \<Rightarrow> bytes" where
  "prop_bytes (PU8 v) = enc_u8 v"
| "prop_bytes (PU16 v) = enc_u16 v"
| "prop_bytes (PU32 v) = enc_u32 v"
| "prop_bytes (PU64 v) = enc_u64 v"
| "prop_bytes (PString s) = (if length s > 65535 then enc_u16 0 else enc_u16 (of_nat (length s)) @ s)"

text \<open>What survives the trip: a string that does not fit its length field becomes empty.\<close>

fun stored_prop :: "propval \<Rightarrow> propval" where
  "stored_prop (PString s) = PString (if length s > 65535 then [] else s)"
| "stored_prop p = p"

lemma write_prop_bytes: "write_prop p b = b @ prop_bytes p"
  by (cases p) (simp_all add: pw_write_def pw_writeString_def)

lemma fold_write_prop: "fold write_prop ps b = b @ concat (map prop_bytes ps)"
  by (induction ps arbitrary: b) (simp_all add: write_prop_bytes)

lemma ps_readString_bytes:
  "ps_readString (prop_bytes (PString s) @ rest) = (Some (if length s > 65535 then [] else s), rest)"
proof (cases "length s > 65535")
  case True
  then show ?thesis using u16c.ps_read_enc [of 0 rest] by (simp add: ps_readString_def ps_size_def)
next
  case False
  then have "unat (of_nat (length s) :: u16) = length s" by (simp add: unat_of_nat)
  with False show ?thesis
    using u16c.ps_read_enc [of "of_nat (length s)" "s @ rest"]
    by (simp add: ps_readString_def ps_size_def)
qed

lemma read_prop_like_bytes:
  "read_prop_like p (prop_bytes p @ rest) = (Some (stored_prop p), rest)"
proof (cases p)
  case (PU8 v) then show ?thesis using u8c.ps_read_enc [of v rest] by simp
next
  case (PU16 v) then show ?thesis by (simp add: u16c.ps_read_enc)
next
  case (PU32 v) then show ?thesis by (simp add: u32c.ps_read_enc)
next
  case (PU64 v) then show ?thesis by (simp add: u64c.ps_read_enc)
next
  case (PString s) then show ?thesis using ps_readString_bytes [of s rest] by simp
qed

fun read_props :: "propval list \<Rightarrow> propstream \<Rightarrow> propval list option \<times> propstream" where
  "read_props [] ps = (Some [], ps)"
| "read_props (p # qs) ps =
     (case read_prop_like p ps of
        (None, ps1) \<Rightarrow> (None, ps1)
      | (Some v, ps1) \<Rightarrow> map_prod (map_option ((#) v)) id (read_props qs ps1))"

text \<open>
  Property streams: values written one after the other are read back with the same types, the
  stream is used up, and the only loss is a string of more than 65535 bytes, which comes back
  empty without disturbing the values behind it.
\<close>

theorem prop_stream_roundtrip:
  "read_props ps (fold write_prop ps []) = (Some (map stored_prop ps), [])"
proof -
  have "read_props ps (concat (map prop_bytes ps) @ rest) = (Some (map stored_prop ps), rest)" for rest
    by (induction ps) (simp_all add: read_prop_like_bytes)
  from this [of "[]"] show ?thesis by (simp add: fold_write_prop)
qed

subsection \<open>The loader\<close>

definition OTB_ESCAPE :: u8 where "OTB_ESCAPE = 0xFD"
definition OTB_START :: u8 where "OTB_START = 0xFE"
definition OTB_END :: u8 where "OTB_END = 0xFF"

lemmas otb_chars = OTB_ESCAPE_def OTB_START_def OTB_END_def

lemma otb_chars_distinct [simp]:
  "OTB_START \<noteq> OTB_END" "OTB_END \<noteq> OTB_START" "OTB_ESCAPE \<noteq> OTB_START" "OTB_START \<noteq> OTB_ESCAPE"
  "OTB_ESCAPE \<noteq> OTB_END" "OTB_END \<noteq> OTB_ESCAPE"
  by (simp_all add: otb_chars)

text \<open>
  A node as the parser builds it. The two positions delimit its properties in the file; the end is
  not set until the first child or the end of the node is seen.
\<close>

datatype otb_node = OtbNode (nd_type: u8) (nd_propsBegin: nat) (nd_propsEnd: "nat option")
  (nd_children: "otb_node list")

datatype load_error = InvalidOTBFormat

definition loader_open :: "bytes \<Rightarrow> bytes \<Rightarrow> load_error + bytes" where
  "loader_open acceptedIdentifier fileContents =
     (if length fileContents \<le> 4 + 1 + 1 + 1 then Inl InvalidOTBFormat
      else if take 4 fileContents \<noteq> acceptedIdentifier \<and> take 4 fileContents \<noteq> [0, 0, 0, 0]
      then Inl InvalidOTBFormat
      else Inr fileContents)"

definition end_props :: "nat \<Rightarrow> otb_node \<Rightarrow> otb_node" where
  "end_props it nd =
     (if nd_children nd = []
      then OtbNode (nd_type nd) (nd_propsBegin nd) (Some it) (nd_children nd) else nd)"

definition add_child :: "otb_node \<Rightarrow> otb_node \<Rightarrow> otb_node" where
  "add_child ch nd =
     OtbNode (nd_type nd) (nd_propsBegin nd) (nd_propsEnd nd) (nd_children nd @ [ch])"

text \<open>
  The loop of \<open>parseTree\<close>: the bytes from \<open>it\<close> on, the position \<open>it\<close>, the stack of open nodes (the
  innermost first; an open node joins its parent when it is popped) and the root once it is closed.
\<close>

fun otb_loop ::
    "bytes \<Rightarrow> nat \<Rightarrow> otb_node list \<Rightarrow> otb_node option \<Rightarrow> load_error + (otb_node list \<times> otb_node option)"
  where
  "otb_loop [] it stack root = Inr (stack, root)"
| "otb_loop (b # rest) it stack root =
     (if b = OTB_START then
        (case stack of
           [] \<Rightarrow> Inl InvalidOTBFormat
         | cur # st \<Rightarrow>
             (let cur1 = end_props it cur in
              (case rest of
                 [] \<Rightarrow> Inl InvalidOTBFormat
               | ty # rest1 \<Rightarrow>
                   otb_loop rest1 (it + 2) (OtbNode ty (it + 2) None [] # cur1 # st) root)))
      else if b = OTB_END then
        (case stack of
           [] \<Rightarrow> Inl InvalidOTBFormat
         | cur # st \<Rightarrow>
             (let cur1 = end_props it cur in
              (case st of
                 [] \<Rightarrow> otb_loop rest (it + 1) [] (Some cur1)
               | par # st1 \<Rightarrow> otb_loop rest (it + 1) (add_child cur1 par # st1) root)))
      else if b = OTB_ESCAPE then
        (case rest of
           [] \<Rightarrow> Inl InvalidOTBFormat
         | _ # rest1 \<Rightarrow> otb_loop rest1 (it + 2) stack root)
      else otb_loop rest (it + 1) stack root)"

definition parseTree :: "bytes \<Rightarrow> load_error + otb_node" where
  "parseTree contents =
     (case drop 4 contents of
        b # ty # rest \<Rightarrow>
          if b \<noteq> OTB_START then Inl InvalidOTBFormat
          else
            (case otb_loop rest 6 [OtbNode ty 6 None []] None of
               Inl e \<Rightarrow> Inl e
             | Inr (stack, root) \<Rightarrow>
                 if stack \<noteq> [] then Inl InvalidOTBFormat
                 else (case root of None \<Rightarrow> Inl InvalidOTBFormat | Some r \<Rightarrow> Inr r))
      | _ \<Rightarrow> Inl InvalidOTBFormat)"

text \<open>\<open>copy_if\<close> with the flag of the lambda: an escape byte is dropped, the byte after it kept.\<close>

fun unescape :: "bool \<Rightarrow> bytes \<Rightarrow> bytes" where
  "unescape lastEscaped [] = []"
| "unescape lastEscaped (b # bs) =
     (let esc = (b = OTB_ESCAPE \<and> \<not> lastEscaped)
      in if esc then unescape esc bs else b # unescape esc bs)"

definition getProps :: "bytes \<Rightarrow> otb_node \<Rightarrow> propstream option" where
  "getProps contents nd =
     (case nd_propsEnd nd of
        None \<Rightarrow> None
      | Some e \<Rightarrow>
          if e - nd_propsBegin nd = 0 then None
          else Some (unescape False (take (e - nd_propsBegin nd) (drop (nd_propsBegin nd) contents))))"

subsection \<open>The file format\<close>

datatype otb_tree = OtbTree u8 bytes "otb_tree list"

fun escape :: "bytes \<Rightarrow> bytes" where
  "escape [] = []"
| "escape (b # bs) =
     (if b \<in> {OTB_ESCAPE, OTB_START, OTB_END} then OTB_ESCAPE # b # escape bs else b # escape bs)"

fun encode_tree :: "otb_tree \<Rightarrow> bytes" and encode_trees :: "otb_tree list \<Rightarrow> bytes" where
  "encode_tree (OtbTree ty props cs) =
     OTB_START # ty # escape props @ encode_trees cs @ [OTB_END]"
| "encode_trees [] = []"
| "encode_trees (t # ts) = encode_tree t @ encode_trees ts"

text \<open>The node that the parser is to build for a tree that is laid out from position \<open>it\<close> on.\<close>

fun node_at :: "nat \<Rightarrow> otb_tree \<Rightarrow> otb_node" and nodes_at :: "nat \<Rightarrow> otb_tree list \<Rightarrow> otb_node list" where
  "node_at it (OtbTree ty props cs) =
     OtbNode ty (it + 2) (Some (it + 2 + length (escape props)))
       (nodes_at (it + 2 + length (escape props)) cs)"
| "nodes_at it [] = []"
| "nodes_at it (t # ts) = node_at it t # nodes_at (it + length (encode_tree t)) ts"

text \<open>The tree that a node stands for in a file.\<close>

fun tree_of :: "bytes \<Rightarrow> otb_node \<Rightarrow> otb_tree" where
  "tree_of contents (OtbNode ty b e cs) =
     OtbTree ty (case getProps contents (OtbNode ty b e cs) of None \<Rightarrow> [] | Some ps \<Rightarrow> ps)
       (map (tree_of contents) cs)"

lemma unescape_escape: "unescape False (escape bs) = bs"
  by (induction bs) (auto simp: otb_chars)

lemma otb_loop_escape:
  "otb_loop (escape props @ rest) it stack root = otb_loop rest (it + length (escape props)) stack root"
  by (induction props arbitrary: it) (auto simp: otb_chars)

lemma end_props_sel [simp]:
  "nd_type (end_props it nd) = nd_type nd" "nd_children (end_props it nd) = nd_children nd"
  "nd_propsBegin (end_props it nd) = nd_propsBegin nd"
  by (simp_all add: end_props_def)

lemma end_props_add_child [simp]: "end_props it (add_child c nd) = add_child c nd"
  by (simp add: end_props_def add_child_def)

text \<open>Adding the children of an open node: the first one ends its properties.\<close>

definition add_children :: "nat \<Rightarrow> otb_node list \<Rightarrow> otb_node \<Rightarrow> otb_node" where
  "add_children it cs nd =
     (if cs = [] then nd
      else (let nd1 = end_props it nd in
        OtbNode (nd_type nd1) (nd_propsBegin nd1) (nd_propsEnd nd1) (nd_children nd1 @ cs)))"

lemma add_children_Cons:
  "add_children it' cs (add_child c (end_props it nd)) = add_children it (c # cs) nd"
  by (auto simp: add_children_def add_child_def end_props_def Let_def)

lemma otb_loop_trees:
  shows "otb_loop (encode_tree t @ rest) it (cur # st) root =
      otb_loop rest (it + length (encode_tree t)) (add_child (node_at it t) (end_props it cur) # st) root"
    and "otb_loop (encode_trees ts @ rest) it (cur # st) root =
      otb_loop rest (it + length (encode_trees ts)) (add_children it (nodes_at it ts) cur # st) root"
proof (induction t and ts arbitrary: rest it cur st and rest it cur st rule: encode_tree_encode_trees.induct)
  case (1 ty props cs)
  let ?e = "it + 2 + length (escape props)"
  let ?nd = "OtbNode ty (it + 2) None []"
  have "otb_loop (encode_tree (OtbTree ty props cs) @ rest) it (cur # st) root
      = otb_loop (encode_trees cs @ OTB_END # rest) ?e (?nd # end_props it cur # st) root"
    by (simp add: otb_loop_escape)
  also have "\<dots> = otb_loop (OTB_END # rest) (?e + length (encode_trees cs))
      (add_children ?e (nodes_at ?e cs) ?nd # end_props it cur # st) root"
    by (rule "1.IH")
  also have "\<dots> = otb_loop rest (?e + length (encode_trees cs) + 1)
      (add_child (end_props (?e + length (encode_trees cs)) (add_children ?e (nodes_at ?e cs) ?nd))
        (end_props it cur) # st) root"
    by (simp add: otb_chars)
  also have "end_props (?e + length (encode_trees cs)) (add_children ?e (nodes_at ?e cs) ?nd)
      = node_at it (OtbTree ty props cs)"
    by (cases cs) (simp_all add: add_children_def end_props_def Let_def)
  finally show ?case by (simp add: add.assoc)
next
  case 2
  then show ?case by (simp add: add_children_def)
next
  case (3 t ts)
  then show ?case by (simp add: add_children_Cons add.assoc)
qed

lemma escape_eq_Nil [simp]: "escape props = [] \<longleftrightarrow> props = []"
  by (cases props) auto

lemma length_encode_trees_pos: "length (encode_tree t) = 0 \<longleftrightarrow> False"
  by (cases t) simp

lemma getProps_slice:
  assumes "contents = pre @ escape props @ post" "length pre = b"
  shows "(case getProps contents (OtbNode ty b (Some (b + length (escape props))) cs) of
     None \<Rightarrow> [] | Some ps \<Rightarrow> ps) = props"
  using assms by (auto simp: getProps_def unescape_escape)

lemma tree_of_node_at:
  shows "contents = pre @ encode_tree t @ post \<Longrightarrow> length pre = it \<Longrightarrow>
      tree_of contents (node_at it t) = t"
    and "contents = pre @ encode_trees ts @ post \<Longrightarrow> length pre = it \<Longrightarrow>
      map (tree_of contents) (nodes_at it ts) = ts"
proof (induction t and ts arbitrary: pre post it and pre post it rule: encode_tree_encode_trees.induct)
  case (1 ty props cs)
  let ?pre = "pre @ [OTB_START, ty]"
  have c: "contents = ?pre @ escape props @ encode_trees cs @ [OTB_END] @ post"
    and l: "length ?pre = it + 2"
    using "1.prems" by simp_all
  have "map (tree_of contents) (nodes_at (it + 2 + length (escape props)) cs) = cs"
    by (rule "1.IH" [of "?pre @ escape props" "[OTB_END] @ post"]) (use c l in simp_all)
  then show ?case using getProps_slice [OF c l] by simp
next
  case 2
  then show ?case by simp
next
  case (3 t ts)
  have "tree_of contents (node_at it t) = t"
    by (rule "3.IH"(1) [of pre "encode_trees ts @ post"]) (use "3.prems" in simp_all)
  moreover have "map (tree_of contents) (nodes_at (it + length (encode_tree t)) ts) = ts"
    by (rule "3.IH"(2) [of "pre @ encode_tree t" post]) (use "3.prems" in simp_all)
  ultimately show ?case by simp
qed

lemma parseTree_encode:
  "parseTree ([a, b, c, d] @ encode_tree t) = Inr (node_at 4 t)"
proof (cases t)
  case (OtbTree ty props cs)
  let ?e = "6 + length (escape props)"
  let ?nd = "OtbNode ty 6 None []"
  have "otb_loop (escape props @ encode_trees cs @ [OTB_END]) 6 [?nd] None
      = otb_loop [OTB_END] (?e + length (encode_trees cs)) [add_children ?e (nodes_at ?e cs) ?nd] None"
    by (simp add: otb_loop_escape otb_loop_trees)
  also have "\<dots> = Inr ([], Some (node_at 4 t))"
    by (cases cs) (simp_all add: otb_chars OtbTree add_children_def end_props_def Let_def)
  finally show ?thesis by (simp add: parseTree_def OtbTree)
qed

text \<open>
  C2. The tree parser inverts the file format: for every identifier and every tree, the file that
  holds the encoded tree (properties escaped, children nested) is parsed, and the types, the
  unescaped properties and the children of the resulting nodes are those of the tree, at every
  depth.
\<close>

theorem otb_parse_roundtrip:
  "\<exists>nd. parseTree ([a, b, c, d] @ encode_tree t) = Inr nd
    \<and> tree_of ([a, b, c, d] @ encode_tree t) nd = t"
  using parseTree_encode [of a b c d t] tree_of_node_at(1) [of _ "[a, b, c, d]" t "[]" 4] by simp

subsection \<open>Whatever is parsed lies in the file\<close>

fun node_closed :: "nat \<Rightarrow> otb_node \<Rightarrow> bool" where
  "node_closed n (OtbNode ty b e cs) =
     ((case e of None \<Rightarrow> False | Some e1 \<Rightarrow> b \<le> e1 \<and> e1 \<le> n) \<and> list_all (node_closed n) cs)"

definition node_open :: "nat \<Rightarrow> nat \<Rightarrow> otb_node \<Rightarrow> bool" where
  "node_open n it nd \<longleftrightarrow> nd_propsBegin nd \<le> it \<and> list_all (node_closed n) (nd_children nd)
     \<and> (nd_children nd \<noteq> [] \<longrightarrow> node_closed n nd)"

lemma node_closed_alt:
  "node_closed n nd \<longleftrightarrow> (case nd_propsEnd nd of None \<Rightarrow> False
     | Some e \<Rightarrow> nd_propsBegin nd \<le> e \<and> e \<le> n) \<and> list_all (node_closed n) (nd_children nd)"
  by (cases nd) (simp split: option.split)

lemma end_props_closed: "node_open n it nd \<Longrightarrow> it \<le> n \<Longrightarrow> node_closed n (end_props it nd)"
  by (auto simp: node_open_def node_closed_alt end_props_def)

lemma node_open_mono: "node_open n it nd \<Longrightarrow> it \<le> it' \<Longrightarrow> node_open n it' nd"
  by (auto simp: node_open_def)

definition stack_ok :: "nat \<Rightarrow> nat \<Rightarrow> otb_node list \<Rightarrow> bool" where
  "stack_ok n it stack \<longleftrightarrow> list_all (node_open n it) stack \<and> list_all (node_closed n) (tl stack)"

lemma stack_ok_mono: "stack_ok n it stack \<Longrightarrow> it \<le> it' \<Longrightarrow> stack_ok n it' stack"
  by (auto simp: stack_ok_def list_all_iff intro: node_open_mono)

lemma node_closed_open: "node_closed n nd \<Longrightarrow> nd_propsBegin nd \<le> it \<Longrightarrow> node_open n it nd"
  by (simp add: node_open_def node_closed_alt)

lemma stack_ok_push:
  assumes "stack_ok n it (cur # st)" "it + 2 \<le> n"
  shows "stack_ok n (it + 2) (OtbNode ty (it + 2) None [] # end_props it cur # st)"
proof -
  have "node_open n it cur" using assms(1) by (simp add: stack_ok_def)
  then have "node_closed n (end_props it cur)" "node_open n (it + 2) (end_props it cur)"
    using assms(2) end_props_closed [of n it cur]
    by (auto simp: node_open_def intro!: node_closed_open)
  moreover have "list_all (node_open n (it + 2)) st" "list_all (node_closed n) st"
    using stack_ok_mono [OF assms(1), of "it + 2"] by (simp_all add: stack_ok_def)
  ultimately show ?thesis by (simp add: stack_ok_def) (simp add: node_open_def)
qed

lemma stack_ok_pop:
  assumes "stack_ok n it (cur # par # st)" "it + 1 \<le> n"
  shows "stack_ok n (it + 1) (add_child (end_props it cur) par # st)"
proof -
  have "node_closed n (end_props it cur)" "node_closed n par" "nd_propsBegin par \<le> it"
    using assms by (auto simp: stack_ok_def node_open_def [of n it par] intro!: end_props_closed)
  then have "node_closed n (add_child (end_props it cur) par)"
    by (simp add: node_closed_alt [of n par] node_closed_alt [of n "add_child _ _"] add_child_def)
  then have "node_open n (it + 1) (add_child (end_props it cur) par)"
    using \<open>nd_propsBegin par \<le> it\<close> by (intro node_closed_open) (simp_all add: add_child_def)
  moreover have "list_all (node_open n (it + 1)) st" "list_all (node_closed n) st"
    using stack_ok_mono [OF assms(1), of "it + 1"] by (simp_all add: stack_ok_def)
  ultimately show ?thesis
    using \<open>node_closed n (add_child (end_props it cur) par)\<close> by (simp add: stack_ok_def)
qed

lemma otb_loop_closed:
  assumes "otb_loop bs it stack root = Inr (stack', root')"
    and "stack_ok n it stack" "pred_option (node_closed n) root" "it + length bs = n"
  shows "pred_option (node_closed n) root'"
  using assms
proof (induction bs it stack root rule: otb_loop.induct)
  case (1 it stack root)
  then show ?case by simp
next
  case (2 b rest it stack root)
  consider (start) "b = OTB_START" | (ending) "b = OTB_END" | (esc) "b = OTB_ESCAPE"
    | (other) "b \<noteq> OTB_START" "b \<noteq> OTB_END" "b \<noteq> OTB_ESCAPE" by blast
  then show ?case
  proof cases
    case start
    with "2.prems"(1) obtain cur st ty rest1 where st: "stack = cur # st" "rest = ty # rest1"
      by (auto split: list.splits)
    have "stack_ok n (it + 2) (OtbNode ty (it + 2) None [] # end_props it cur # st)"
      using "2.prems" st by (intro stack_ok_push) auto
    with start st "2.prems" show ?thesis
      by (intro "2.IH"(1) [OF start st(1) refl st(2)]) auto
  next
    case ending
    with "2.prems"(1) obtain cur st where st: "stack = cur # st" by (auto split: list.splits)
    have ne: "b \<noteq> OTB_START" using ending by (simp add: otb_chars)
    show ?thesis
    proof (cases st)
      case Nil
      have "node_closed n (end_props it cur)"
        using "2.prems" st by (intro end_props_closed) (auto simp: stack_ok_def)
      with ending st Nil "2.prems" show ?thesis
        by (intro "2.IH"(2) [OF ne ending st refl Nil]) (auto simp: otb_chars stack_ok_def)
    next
      case (Cons par st1)
      have "stack_ok n (it + 1) (add_child (end_props it cur) par # st1)"
        using "2.prems" st Cons by (intro stack_ok_pop) auto
      with ending st Cons "2.prems" show ?thesis
        by (intro "2.IH"(3) [OF ne ending st refl Cons]) (auto simp: otb_chars)
    qed
  next
    case esc
    have ne: "b \<noteq> OTB_START" "b \<noteq> OTB_END" using esc by (simp_all add: otb_chars)
    from esc ne "2.prems"(1) obtain x rest1 where r: "rest = x # rest1" by (auto split: list.splits)
    with esc ne "2.prems" show ?thesis
      by (intro "2.IH"(4) [OF ne esc r]) (auto intro: stack_ok_mono)
  next
    case other
    with "2.prems" show ?thesis by (intro "2.IH"(5) [OF other]) (auto intro: stack_ok_mono)
  qed
qed

text \<open>
  For every file, valid or not: when \<open>parseTree\<close> succeeds, each node of the tree has both ends
  of its properties set, in order and inside the file, so that \<open>getProps\<close> never reads outside it.
\<close>

theorem otb_parsed_nodes_in_file:
  assumes "parseTree contents = Inr nd"
  shows "node_closed (length contents) nd"
proof -
  obtain ty rest root where c: "drop 4 contents = OTB_START # ty # rest"
    and l: "otb_loop rest 6 [OtbNode ty 6 None []] None = Inr ([], root)" and r: "root = Some nd"
    using assms
    by (auto simp: parseTree_def split: list.splits sum.splits if_splits option.splits prod.splits)
  have n: "6 + length rest = length contents" using arg_cong [OF c, of length] by simp
  have "pred_option (node_closed (length contents)) root"
    by (rule otb_loop_closed [OF l]) (use n in \<open>simp_all add: stack_ok_def node_open_def\<close>)
  then show ?thesis by (simp add: r)
qed

theorem otb_parsed_nodes_in_file_witness:
  "parseTree [0, 0, 0, 0, 254, 1, 7, 254, 2, 253, 255, 255, 255]
     = Inr (OtbNode 1 6 (Some 7) [OtbNode 2 9 (Some 11) []])
   \<and> node_closed (length [0, 0, 0, 0, 254, 1, 7, 254, 2, 253, 255, 255, 255 :: u8])
       (OtbNode 1 6 (Some 7) [OtbNode 2 9 (Some 11) []])"
proof -
  have p: "parseTree [0, 0, 0, 0, 254, 1, 7, 254, 2, 253, 255, 255, 255]
     = Inr (OtbNode 1 6 (Some 7) [OtbNode 2 9 (Some 11) []])"
    by (simp add: parseTree_def otb_chars end_props_def add_child_def)
  with otb_parsed_nodes_in_file [OF p] show ?thesis by blast
qed

end
