(* ===== verification/Wildcard_Tree.thy ===== *)
theory Wildcard_Tree
  imports Otx_Prelude Otx_Enums "HOL-Library.Sublist" "HOL-Library.AList"
begin

text \<open>
  The prefix tree of the names that are online, \<^verbatim>\<open>src/src/wildcardtree.h\<close> and
  \<^verbatim>\<open>wildcardtree.cpp\<close>. The children of a node are a map from characters to nodes, kept
  as an association list (the code only relies on the order of a map with one entry). The loops
  that walk the tree through a pointer rebuild the path here.

  The interface \<open>name_index\<close> says what the server relies on: the tree is a set of names, and a
  query by prefix returns the only match, or says that there is none or more than one.
\<close>

datatype wnode = WNode (breakpoint: bool) (children: "(char \<times> wnode) list")

definition getChild :: "char \<Rightarrow> wnode \<Rightarrow> wnode option" where
  "getChild ch n = map_of (children n) ch"

definition put_child :: "char \<Rightarrow> wnode \<Rightarrow> wnode \<Rightarrow> wnode" where
  "put_child ch c n = WNode (breakpoint n) (AList.update ch c (children n))"

definition erase_child :: "char \<Rightarrow> wnode \<Rightarrow> wnode" where
  "erase_child ch n = WNode (breakpoint n) (AList.delete ch (children n))"

text \<open>\<open>addChild\<close> returns the child together with the node that owns it.\<close>

definition addChild :: "char \<Rightarrow> bool \<Rightarrow> wnode \<Rightarrow> wnode \<times> wnode" where
  "addChild ch bp n =
     (case getChild ch n of
        Some child \<Rightarrow>
          (let child' = (if bp \<and> \<not> breakpoint child then WNode True (children child) else child)
           in (child', put_child ch child' n))
      | None \<Rightarrow> (let child = WNode bp [] in (child, put_child ch child n)))"

fun insert_loop :: "string \<Rightarrow> wnode \<Rightarrow> wnode" where
  "insert_loop [] cur = cur"
| "insert_loop [ch] cur = snd (addChild ch True cur)"
| "insert_loop (ch # ch2 # str) cur =
     put_child ch (insert_loop (ch2 # str) (fst (addChild ch False cur))) cur"

text \<open>The length of an empty string minus one wraps: the loop would read far outside it.\<close>

definition wt_insert :: "string \<Rightarrow> wnode \<Rightarrow> wnode option" where
  "wt_insert str n = (if str = [] then None else Some (insert_loop str n))"

text \<open>
  \<open>remove\<close> first walks down and keeps the path: here the characters with the parents, the
  innermost first. Then it climbs as long as the current node is useless.
\<close>

fun remove_walk :: "string \<Rightarrow> wnode \<Rightarrow> (char \<times> wnode) list \<Rightarrow> ((char \<times> wnode) list \<times> wnode) option"
  where
  "remove_walk [] cur path = Some (path, cur)"
| "remove_walk (ch # str) cur path =
     (case getChild ch cur of
        None \<Rightarrow> None
      | Some child \<Rightarrow> remove_walk str child ((ch, cur) # path))"

fun rebuild :: "(char \<times> wnode) list \<Rightarrow> wnode \<Rightarrow> wnode" where
  "rebuild [] cur = cur"
| "rebuild ((ch, par) # path) cur = rebuild path (put_child ch cur par)"

fun remove_climb :: "(char \<times> wnode) list \<Rightarrow> wnode \<Rightarrow> wnode" where
  "remove_climb path cur =
     (if children cur \<noteq> [] \<or> breakpoint cur then rebuild path cur
      else (case path of
              [] \<Rightarrow> cur
            | (ch, par) # path' \<Rightarrow> remove_climb path' (erase_child ch par)))"

declare remove_climb.simps [simp del]

definition wt_remove :: "string \<Rightarrow> wnode \<Rightarrow> wnode" where
  "wt_remove str n =
     (case remove_walk str n [] of
        None \<Rightarrow> n
      | Some (path, cur) \<Rightarrow> remove_climb path (WNode False (children cur)))"

fun findOne_walk :: "string \<Rightarrow> wnode \<Rightarrow> wnode option" where
  "findOne_walk [] cur = Some cur"
| "findOne_walk (ch # query) cur =
     (case getChild ch cur of None \<Rightarrow> None | Some child \<Rightarrow> findOne_walk query child)"

fun findOne_extend :: "wnode \<Rightarrow> string \<Rightarrow> return_value \<times> string" where
  "findOne_extend (WNode bp []) result = (RETURNVALUE_NOERROR, result)"
| "findOne_extend (WNode bp [(ch, child)]) result =
     (if bp then (RETURNVALUE_NAMEISTOOAMBIGUOUS, result)
      else findOne_extend child (result @ [ch]))"
| "findOne_extend (WNode bp (a # b # cs)) result = (RETURNVALUE_NAMEISTOOAMBIGUOUS, result)"

definition findOne :: "wnode \<Rightarrow> string \<Rightarrow> string \<Rightarrow> return_value \<times> string" where
  "findOne n query result =
     (case findOne_walk query n of
        None \<Rightarrow> (RETURNVALUE_PLAYERWITHTHISNAMEISNOTONLINE, result)
      | Some cur \<Rightarrow> findOne_extend cur query)"

subsection \<open>The set of names of a tree\<close>

fun isin :: "wnode \<Rightarrow> string \<Rightarrow> bool" where
  "isin n [] = breakpoint n"
| "isin n (ch # str) = (case getChild ch n of None \<Rightarrow> False | Some child \<Rightarrow> isin child str)"

definition names_of :: "wnode \<Rightarrow> string set" where
  "names_of n = {str. isin n str}"

definition live :: "wnode \<Rightarrow> bool" where
  "live n \<longleftrightarrow> children n \<noteq> [] \<or> breakpoint n"

text \<open>Characters are not repeated, and no branch is dead.\<close>

fun wt_ok :: "wnode \<Rightarrow> bool" where
  "wt_ok (WNode bp cs) \<longleftrightarrow>
     distinct (map fst cs) \<and> list_all (\<lambda>e. wt_ok (snd e) \<and> live (snd e)) cs"

lemma wt_ok_alt:
  "wt_ok n \<longleftrightarrow> distinct (map fst (children n))
     \<and> (\<forall>ch c. getChild ch n = Some c \<longrightarrow> wt_ok c \<and> live c)"
proof (cases n)
  case (WNode b cs)
  show ?thesis
  proof
    assume "wt_ok n"
    then show "distinct (map fst (children n)) \<and> (\<forall>ch c. getChild ch n = Some c \<longrightarrow> wt_ok c \<and> live c)"
      by (auto simp: WNode getChild_def list_all_iff dest!: map_of_SomeD)
  next
    assume *: "distinct (map fst (children n)) \<and> (\<forall>ch c. getChild ch n = Some c \<longrightarrow> wt_ok c \<and> live c)"
    then have "wt_ok (snd e) \<and> live (snd e)" if "e \<in> set cs" for e
      using that by (cases e) (simp add: WNode getChild_def)
    with * show "wt_ok n" by (simp add: WNode list_all_iff)
  qed
qed

declare wt_ok.simps [simp del]

lemma wt_ok_child: "wt_ok n \<Longrightarrow> getChild ch n = Some c \<Longrightarrow> wt_ok c \<and> live c"
  using wt_ok_alt [of n] by blast

lemma getChild_put [simp]:
  "getChild ch (put_child ch' c n) = (if ch = ch' then Some c else getChild ch n)"
  by (simp add: getChild_def put_child_def update_conv)

lemma getChild_erase [simp]:
  "getChild ch (erase_child ch' n) = (if ch = ch' then None else getChild ch n)"
  by (simp add: getChild_def erase_child_def delete_conv)

lemma breakpoint_put [simp]:
  "breakpoint (put_child ch c n) = breakpoint n" "breakpoint (erase_child ch n) = breakpoint n"
  by (simp_all add: put_child_def erase_child_def)

lemma wt_ok_put:
  assumes "wt_ok n" "wt_ok c" "live c"
  shows "wt_ok (put_child ch c n)"
proof -
  have "distinct (map fst (children (put_child ch c n)))"
    using assms(1) wt_ok_alt [of n] by (simp add: put_child_def distinct_update)
  moreover have "wt_ok d \<and> live d" if "getChild x (put_child ch c n) = Some d" for x d
    using that assms wt_ok_child [OF assms(1), of x d] by (simp split: if_splits)
  ultimately show ?thesis by (subst wt_ok_alt) blast
qed

lemma wt_ok_erase:
  assumes "wt_ok n"
  shows "wt_ok (erase_child ch n)"
proof -
  have "distinct (map fst (children (erase_child ch n)))"
    using assms wt_ok_alt [of n] by (simp add: erase_child_def distinct_delete)
  moreover have "wt_ok d \<and> live d" if "getChild x (erase_child ch n) = Some d" for x d
    using that assms wt_ok_child [OF assms(1), of x d] by (simp split: if_splits)
  ultimately show ?thesis by (subst wt_ok_alt) blast
qed

lemma live_put [simp]: "live (put_child ch c n)"
  by (cases "children n") (auto simp: live_def put_child_def)

lemma wt_ok_leaf [simp]: "wt_ok (WNode b [])"
  by (simp add: wt_ok.simps)

lemma wt_ok_breakpoint: "wt_ok (WNode b (children c)) = wt_ok c"
  by (cases c) (simp add: wt_ok.simps)

lemma getChild_WNode [simp]: "getChild ch (WNode b cs) = map_of cs ch"
  by (simp add: getChild_def)

text \<open>A branch that is alive holds a name.\<close>

lemma live_ex: "wt_ok n \<Longrightarrow> live n \<Longrightarrow> \<exists>str. isin n str"
proof (induction n)
  case (WNode b cs)
  show ?case
  proof (cases cs)
    case Nil
    then have "isin (WNode b cs) []" using WNode.prems by (simp add: live_def)
    then show ?thesis by blast
  next
    case (Cons e es)
    obtain ch c where e: "e = (ch, c)" by (cases e)
    have "\<exists>str. isin c str"
      by (rule WNode.IH [of e]) (use WNode.prems Cons e in \<open>auto simp: wt_ok.simps\<close>)
    then obtain str where "isin c str" ..
    then have "isin (WNode b cs) (ch # str)" by (simp add: Cons e)
    then show ?thesis by blast
  qed
qed

subsubsection \<open>Insertion\<close>

lemma isin_breakpoint:
  "isin (WNode b (children c)) str = (if str = [] then b else isin c str)"
  by (cases str) (simp_all add: getChild_def)

lemma isin_leaf: "isin (WNode b []) str \<longleftrightarrow> b \<and> str = []"
  by (cases str) simp_all

lemma addChild_True_eq:
  "snd (addChild ch True n) =
     put_child ch (WNode True (case getChild ch n of None \<Rightarrow> [] | Some c \<Rightarrow> children c)) n"
  by (auto simp: addChild_def Let_def split: option.split) (metis wnode.collapse)

lemma addChild_True:
  "isin (snd (addChild ch True n)) str \<longleftrightarrow> str = [ch] \<or> isin n str"
  by (cases str; cases "getChild ch n") (auto simp: addChild_True_eq isin_breakpoint isin_leaf)

lemma wt_ok_addChild_True:
  assumes "wt_ok n"
  shows "wt_ok (snd (addChild ch True n))"
proof -
  have "wt_ok (WNode True (case getChild ch n of None \<Rightarrow> [] | Some c \<Rightarrow> children c))"
    using wt_ok_child [OF assms, of ch]
    by (cases "getChild ch n") (auto simp: wt_ok_breakpoint)
  with assms show ?thesis by (simp add: addChild_True_eq wt_ok_put live_def)
qed

lemma addChild_False:
  "isin (fst (addChild ch False n)) str \<longleftrightarrow> isin n (ch # str)"
  by (cases str) (auto simp: addChild_def Let_def split: option.split)

lemma wt_ok_addChild_False: "wt_ok n \<Longrightarrow> wt_ok (fst (addChild ch False n))"
  using wt_ok_child [of n ch] by (cases "getChild ch n") (simp_all add: addChild_def Let_def)

lemma isin_put: "isin (put_child ch c n) (ch' # str) = (if ch' = ch then isin c str else isin n (ch' # str))"
  by simp

lemma isin_insert_loop:
  "str \<noteq> [] \<Longrightarrow> isin (insert_loop str n) s \<longleftrightarrow> s = str \<or> isin n s"
proof (induction str n arbitrary: s rule: insert_loop.induct)
  case (3 ch ch2 str cur)
  then show ?case
    by (cases s) (auto simp: addChild_False isin_put simp del: isin.simps(2))
qed (simp_all add: addChild_True)

lemma live_insert_loop: "str \<noteq> [] \<Longrightarrow> live (insert_loop str n)"
  by (induction str n rule: insert_loop.induct) (simp_all add: addChild_True_eq)

lemma wt_ok_insert_loop: "wt_ok n \<Longrightarrow> wt_ok (insert_loop str n)"
  by (induction str n rule: insert_loop.induct)
    (simp_all add: wt_ok_addChild_True wt_ok_addChild_False wt_ok_put live_insert_loop)

subsubsection \<open>Removal\<close>

text \<open>The recursive reading of the two loops of \<open>remove\<close>.\<close>

fun wt_del :: "string \<Rightarrow> wnode \<Rightarrow> wnode" where
  "wt_del [] n = WNode False (children n)"
| "wt_del (ch # str) n =
     (case getChild ch n of
        None \<Rightarrow> n
      | Some c \<Rightarrow>
          if live (wt_del str c) then put_child ch (wt_del str c) n else erase_child ch n)"

lemma update_same: "map_of al k = Some v \<Longrightarrow> AList.update k v al = al"
  by (induction al) auto

lemma put_child_same: "getChild ch n = Some c \<Longrightarrow> put_child ch c n = n"
  by (cases n) (simp add: put_child_def getChild_def update_same)

lemma remove_climb_live: "live cur \<Longrightarrow> remove_climb path cur = rebuild path cur"
  by (simp add: remove_climb.simps live_def)

lemma remove_climb_dead: "\<not> live cur \<Longrightarrow> remove_climb ((ch, par) # path) cur = remove_climb path (erase_child ch par)"
  by (subst remove_climb.simps) (simp add: live_def)

lemma remove_climb_Nil: "remove_climb [] cur = cur"
  by (simp add: remove_climb.simps)

lemma remove_walk_del:
  "wt_ok n \<Longrightarrow>
   (case remove_walk str n path of
      None \<Rightarrow> wt_del str n = n
    | Some (path', cur) \<Rightarrow>
        remove_climb path' (WNode False (children cur)) = remove_climb path (wt_del str n))"
proof (induction str arbitrary: n path)
  case Nil
  then show ?case by simp
next
  case (Cons ch str)
  show ?case
  proof (cases "getChild ch n")
    case None
    then show ?thesis by simp
  next
    case (Some c)
    then have c: "wt_ok c" "live c" using wt_ok_child Cons.prems by blast+
    show ?thesis
      using Cons.IH [OF c(1), of "(ch, n) # path"] Some c
      by (cases "live (wt_del str c)")
        (auto simp: put_child_same remove_climb_live remove_climb_dead split: option.splits)
  qed
qed

lemma wt_remove_del: "wt_ok n \<Longrightarrow> wt_remove str n = wt_del str n"
  using remove_walk_del [of n str "[]"]
  by (auto simp: wt_remove_def remove_climb_Nil split: option.splits)

lemma isin_dead: "\<not> live n \<Longrightarrow> \<not> isin n str"
  by (cases n; cases str) (auto simp: live_def)

lemma isin_wt_del: "wt_ok n \<Longrightarrow> isin (wt_del str n) s \<longleftrightarrow> s \<noteq> str \<and> isin n s"
proof (induction str arbitrary: n s)
  case Nil
  then show ?case by (simp add: isin_breakpoint)
next
  case (Cons ch str)
  show ?case
  proof (cases "getChild ch n")
    case None
    then show ?thesis by auto
  next
    case (Some c)
    have IH: "isin (wt_del str c) t \<longleftrightarrow> t \<noteq> str \<and> isin c t" for t
      using Cons Some wt_ok_child by blast
    show ?thesis
      using Some IH isin_dead [of "wt_del str c"] by (cases s) auto
  qed
qed

lemma wt_ok_wt_del: "wt_ok n \<Longrightarrow> wt_ok (wt_del str n)"
proof (induction str arbitrary: n)
  case (Cons ch str)
  then show ?case using wt_ok_child [of n ch] by (auto simp: wt_ok_put wt_ok_erase split: option.split)
qed (simp add: wt_ok_breakpoint)

subsubsection \<open>Queries\<close>

lemma findOne_walk_None: "findOne_walk q n = None \<Longrightarrow> \<not> isin n (q @ str)"
  by (induction q n rule: findOne_walk.induct) (auto split: option.splits)

lemma findOne_walk_Some: "findOne_walk q n = Some cur \<Longrightarrow> isin n (q @ str) = isin cur str"
  by (induction q n rule: findOne_walk.induct) (auto split: option.splits)

lemma findOne_walk_ok:
  "findOne_walk q n = Some cur \<Longrightarrow> wt_ok n \<Longrightarrow> wt_ok cur \<and> (q \<noteq> [] \<longrightarrow> live cur)"
proof (induction q n rule: findOne_walk.induct)
  case (2 ch q n)
  then obtain c where c: "getChild ch n = Some c" "findOne_walk q c = Some cur"
    by (auto split: option.splits)
  with 2 wt_ok_child show ?case by (cases q) fastforce+
qed simp

definition two_of :: "'a set \<Rightarrow> bool" where
  "two_of A \<longleftrightarrow> (\<exists>x y. x \<noteq> y \<and> x \<in> A \<and> y \<in> A)"

lemma two_of_I: "x \<noteq> y \<Longrightarrow> x \<in> A \<Longrightarrow> y \<in> A \<Longrightarrow> two_of A"
  by (auto simp: two_of_def)

lemma two_of_not [simp]: "\<not> two_of {}" "\<not> two_of {x}"
  by (auto simp: two_of_def)

lemma two_of_image: "inj f \<Longrightarrow> two_of A \<Longrightarrow> two_of (f ` A)"
  unfolding two_of_def by (metis imageI injD)

lemma findOne_extend_spec:
  assumes "wt_ok n" "live n"
  shows "(\<exists>str. findOne_extend n res = (RETURNVALUE_NOERROR, res @ str) \<and> names_of n = {str})
    \<or> (fst (findOne_extend n res) = RETURNVALUE_NAMEISTOOAMBIGUOUS
       \<and> two_of (names_of n))"
  using assms
proof (induction n res rule: findOne_extend.induct)
  case (1 bp result)
  then show ?case by (simp add: names_of_def live_def isin_leaf)
next
  case (2 bp ch c result)
  have c: "wt_ok c" "live c" using "2.prems" by (simp_all add: wt_ok.simps)
  have n: "names_of (WNode bp [(ch, c)]) = (if bp then {[]} else {}) \<union> (#) ch ` names_of c"
  proof (rule set_eqI)
    fix s show "s \<in> names_of (WNode bp [(ch, c)]) \<longleftrightarrow> s \<in> (if bp then {[]} else {}) \<union> (#) ch ` names_of c"
      by (cases s) (auto simp: names_of_def)
  qed
  show ?case
  proof (cases bp)
    case True
    obtain s where "s \<in> names_of c" using live_ex [OF c] by (auto simp: names_of_def)
    then have "[] \<noteq> ch # s \<and> [] \<in> names_of (WNode bp [(ch, c)]) \<and> ch # s \<in> names_of (WNode bp [(ch, c)])"
      using n True by simp
    then have "two_of (names_of (WNode bp [(ch, c)]))" by (blast intro: two_of_I)
    with True show ?thesis by simp
  next
    case False
    then have n': "names_of (WNode bp [(ch, c)]) = (#) ch ` names_of c" using n by simp
    have e: "findOne_extend (WNode bp [(ch, c)]) result = findOne_extend c (result @ [ch])"
      using False by simp
    from "2.IH" [OF False c] show ?thesis
    proof
      assume "\<exists>str. findOne_extend c (result @ [ch]) = (RETURNVALUE_NOERROR, (result @ [ch]) @ str)
        \<and> names_of c = {str}"
      then obtain str where "findOne_extend c (result @ [ch]) = (RETURNVALUE_NOERROR, result @ ch # str)"
        "names_of c = {str}" by auto
      then show ?thesis unfolding e n' by simp
    next
      assume "fst (findOne_extend c (result @ [ch])) = RETURNVALUE_NAMEISTOOAMBIGUOUS
        \<and> two_of (names_of c)"
      then show ?thesis unfolding e n' by (simp add: two_of_image)
    qed
  qed
next
  case (3 bp a b cs result)
  obtain c1 t1 c2 t2 where ab: "a = (c1, t1)" "b = (c2, t2)" by (cases a; cases b)
  have t: "wt_ok t1" "live t1" "wt_ok t2" "live t2" "c1 \<noteq> c2"
    using "3.prems" ab by (auto simp: wt_ok.simps)
  obtain s1 s2 where s: "isin t1 s1" "isin t2 s2" using live_ex t by blast
  have "two_of (names_of (WNode bp (a # b # cs)))"
    by (rule two_of_I [of "c1 # s1" "c2 # s2"]) (use s t in \<open>simp_all add: names_of_def ab\<close>)
  then show ?case by simp
qed

definition completions :: "string set \<Rightarrow> string \<Rightarrow> string set" where
  "completions names q = {str \<in> names. prefix q str}"

lemma findOne_spec:
  assumes "wt_ok n" "q \<noteq> [] \<or> live n"
  shows "(case findOne n q res of
      (rv, r) \<Rightarrow>
        (rv = RETURNVALUE_NOERROR \<and> completions (names_of n) q = {r})
      \<or> (rv = RETURNVALUE_PLAYERWITHTHISNAMEISNOTONLINE \<and> completions (names_of n) q = {})
      \<or> (rv = RETURNVALUE_NAMEISTOOAMBIGUOUS
          \<and> two_of (completions (names_of n) q)))"
proof (cases "findOne_walk q n")
  case None
  then show ?thesis
    using findOne_walk_None [OF None]
    by (auto simp: findOne_def completions_def names_of_def prefix_def)
next
  case (Some cur)
  have cur: "wt_ok cur" "live cur"
    using findOne_walk_ok [OF Some assms(1)] assms(2) Some by (cases q; simp)+
  have c: "completions (names_of n) q = (@) q ` names_of cur"
    using findOne_walk_Some [OF Some] by (auto simp: completions_def names_of_def prefix_def)
  from findOne_extend_spec [OF cur, of q] show ?thesis
  proof
    assume "\<exists>str. findOne_extend cur q = (RETURNVALUE_NOERROR, q @ str) \<and> names_of cur = {str}"
    then obtain str where "findOne_extend cur q = (RETURNVALUE_NOERROR, q @ str)" "names_of cur = {str}"
      by blast
    then show ?thesis by (simp add: findOne_def Some c)
  next
    assume "fst (findOne_extend cur q) = RETURNVALUE_NAMEISTOOAMBIGUOUS
       \<and> two_of (names_of cur)"
    then have "fst (findOne_extend cur q) = RETURNVALUE_NAMEISTOOAMBIGUOUS"
      "two_of (completions (names_of n) q)"
      unfolding c by (simp_all add: two_of_image inj_def)
    then show ?thesis by (cases "findOne_extend cur q") (simp add: findOne_def Some)
  qed
qed

subsection \<open>The interface\<close>

text \<open>
  What the registry of players relies on: an index of names under insertion and removal, and
  the three outcomes of a query.
\<close>

locale name_index =
  fixes ok :: "'i \<Rightarrow> bool"
    and names :: "'i \<Rightarrow> string set"
    and ins :: "string \<Rightarrow> 'i \<Rightarrow> 'i option"
    and rem :: "string \<Rightarrow> 'i \<Rightarrow> 'i"
    and find1 :: "'i \<Rightarrow> string \<Rightarrow> string \<Rightarrow> return_value \<times> string"
  assumes ins_defined: "str \<noteq> [] \<Longrightarrow> \<exists>n'. ins str n = Some n'"
    and ins_names: "ok n \<Longrightarrow> ins str n = Some n' \<Longrightarrow> ok n' \<and> names n' = insert str (names n)"
    and rem_names: "ok n \<Longrightarrow> ok (rem str n) \<and> names (rem str n) = names n - {str}"
    and find1_spec: "ok n \<Longrightarrow> q \<noteq> [] \<Longrightarrow> find1 n q res = (rv, r) \<Longrightarrow>
        (rv = RETURNVALUE_NOERROR \<and> completions (names n) q = {r})
      \<or> (rv = RETURNVALUE_PLAYERWITHTHISNAMEISNOTONLINE \<and> completions (names n) q = {})
      \<or> (rv = RETURNVALUE_NAMEISTOOAMBIGUOUS
          \<and> two_of (completions (names n) q))"
begin

text \<open>The outcome decides how many names match, and only the match is ever returned.\<close>

lemma find1_outcomes:
  assumes "ok n" "q \<noteq> []"
  shows "(\<exists>r. find1 n q res = (RETURNVALUE_NOERROR, r)) \<longleftrightarrow> (\<exists>r. completions (names n) q = {r})"
    and "fst (find1 n q res) = RETURNVALUE_PLAYERWITHTHISNAMEISNOTONLINE
      \<longleftrightarrow> completions (names n) q = {}"
    and "find1 n q res = (RETURNVALUE_NOERROR, r) \<Longrightarrow> completions (names n) q = {r}"
proof -
  obtain rv r' where f: "find1 n q res = (rv, r')" by (cases "find1 n q res")
  have not2: "A \<noteq> {} \<and> (\<forall>x. A \<noteq> {x})" if "two_of A" for A :: "string set"
    using that two_of_not by metis
  have d: "(rv = RETURNVALUE_NOERROR \<and> completions (names n) q = {r'})
      \<or> (rv = RETURNVALUE_PLAYERWITHTHISNAMEISNOTONLINE \<and> completions (names n) q = {})
      \<or> (rv = RETURNVALUE_NAMEISTOOAMBIGUOUS \<and> completions (names n) q \<noteq> {}
          \<and> (\<forall>x. completions (names n) q \<noteq> {x}))"
    using find1_spec [OF assms f] not2 by (elim disjE conjE) simp_all
  then show "(\<exists>r. find1 n q res = (RETURNVALUE_NOERROR, r)) \<longleftrightarrow> (\<exists>r. completions (names n) q = {r})"
    unfolding f by (elim disjE conjE) simp_all
  from d show "fst (find1 n q res) = RETURNVALUE_PLAYERWITHTHISNAMEISNOTONLINE
      \<longleftrightarrow> completions (names n) q = {}"
    unfolding f by (elim disjE conjE) simp_all
  from d show "find1 n q res = (RETURNVALUE_NOERROR, r) \<Longrightarrow> completions (names n) q = {r}"
    unfolding f by (elim disjE conjE) simp_all
qed

lemma ins_rem_same: "ok n \<Longrightarrow> ins str n = Some n' \<Longrightarrow> str \<notin> names n \<Longrightarrow> names (rem str n') = names n"
  using ins_names rem_names by fastforce

end

interpretation wt: name_index wt_ok names_of wt_insert wt_remove findOne
proof unfold_locales
  fix n n' str q res rv r
  show "\<exists>n'. wt_insert str n = Some n'" if "str \<noteq> []" using that by (simp add: wt_insert_def)
  show "wt_ok n' \<and> names_of n' = insert str (names_of n)" if "wt_ok n" "wt_insert str n = Some n'"
    using that isin_insert_loop [of str n]
    by (auto simp: wt_insert_def names_of_def wt_ok_insert_loop split: if_splits)
  show "wt_ok (wt_remove str n) \<and> names_of (wt_remove str n) = names_of n - {str}" if "wt_ok n"
    using that by (auto simp: wt_remove_del wt_ok_wt_del names_of_def isin_wt_del)
  show "(rv = RETURNVALUE_NOERROR \<and> completions (names_of n) q = {r})
      \<or> (rv = RETURNVALUE_PLAYERWITHTHISNAMEISNOTONLINE \<and> completions (names_of n) q = {})
      \<or> (rv = RETURNVALUE_NAMEISTOOAMBIGUOUS
          \<and> two_of (completions (names_of n) q))"
    if "wt_ok n" "q \<noteq> []" "findOne n q res = (rv, r)"
    using findOne_spec [OF that(1), of q res] that by simp
qed

end
