(* ===== verification/Player_Registry.thy ===== *)
theory Player_Registry
  imports Wildcard_Tree
begin

text \<open>
  The players that are online: the maps by id and by lower case name and the prefix tree of
  \<^verbatim>\<open>class Game\<close> (\<^verbatim>\<open>src/src/game.cpp\<close>, \<open>addPlayer\<close>, \<open>removePlayer\<close> and the
  \<open>getPlayerBy\<close> functions). A hash map that the code iterates is a list in its iteration order.
\<close>

definition to_lower :: "char \<Rightarrow> char" where
  "to_lower c = (let n = (of_char c :: nat) in if 65 \<le> n \<and> n \<le> 90 then char_of (n + 32) else c)"

definition asLowerCaseString :: "string \<Rightarrow> string" where
  "asLowerCaseString source = map to_lower source"

lemma to_lower_idem [simp]: "to_lower (to_lower c) = to_lower c"
  by (simp add: to_lower_def Let_def of_char_of)

lemma asLowerCaseString_idem [simp]: "asLowerCaseString (asLowerCaseString s) = asLowerCaseString s"
  by (simp add: asLowerCaseString_def o_def)

lemma asLowerCaseString_Nil [simp]: "asLowerCaseString s = [] \<longleftrightarrow> s = []"
  by (simp add: asLowerCaseString_def)

record reg_player =
  pl_id :: u32
  pl_guid :: u32
  pl_name :: string
  pl_account :: u32

datatype creature_ref = RefPlayer reg_player | RefNpc u32 | RefMonster u32

record registry =
  rg_players :: "(u32 \<times> reg_player) list"
  rg_mappedPlayerNames :: "string \<rightharpoonup> reg_player"
  rg_wildcardTree :: wnode
  rg_npcs :: "(u32 \<times> string) list"
  rg_monsters :: "(u32 \<times> string) list"

definition empty_registry :: registry where
  "empty_registry = \<lparr> rg_players = [], rg_mappedPlayerNames = Map.empty,
     rg_wildcardTree = WNode False [], rg_npcs = [], rg_monsters = [] \<rparr>"

definition addPlayer :: "reg_player \<Rightarrow> registry \<Rightarrow> registry option" where
  "addPlayer player g =
     (let lowercase_name = asLowerCaseString (pl_name player) in
      case wt_insert lowercase_name (rg_wildcardTree g) of
        None \<Rightarrow> None
      | Some tree \<Rightarrow> Some (g \<lparr> rg_mappedPlayerNames := (rg_mappedPlayerNames g)(lowercase_name \<mapsto> player),
           rg_wildcardTree := tree,
           rg_players := AList.update (pl_id player) player (rg_players g) \<rparr>))"

definition removePlayer :: "reg_player \<Rightarrow> registry \<Rightarrow> registry" where
  "removePlayer player g =
     (let lowercase_name = asLowerCaseString (pl_name player) in
      g \<lparr> rg_mappedPlayerNames := (rg_mappedPlayerNames g)(lowercase_name := None),
          rg_wildcardTree := wt_remove lowercase_name (rg_wildcardTree g),
          rg_players := AList.delete (pl_id player) (rg_players g) \<rparr>)"

definition getPlayerByID :: "u32 \<Rightarrow> registry \<Rightarrow> reg_player option" where
  "getPlayerByID i g = (if i = 0 then None else map_of (rg_players g) i)"

definition getPlayerByName :: "string \<Rightarrow> registry \<Rightarrow> reg_player option" where
  "getPlayerByName s g = (if s = [] then None else rg_mappedPlayerNames g (asLowerCaseString s))"

definition getPlayerByGUID :: "u32 \<Rightarrow> registry \<Rightarrow> reg_player option" where
  "getPlayerByGUID guid g =
     (if guid = 0 then None
      else map_option snd (List.find (\<lambda>it. guid = pl_guid (snd it)) (rg_players g)))"

definition getPlayerByAccount :: "u32 \<Rightarrow> registry \<Rightarrow> reg_player option" where
  "getPlayerByAccount acc g =
     map_option snd (List.find (\<lambda>it. pl_account (snd it) = acc) (rg_players g))"

definition getNpcByName :: "string \<Rightarrow> registry \<Rightarrow> u32 option" where
  "getNpcByName s g =
     (if s = [] then None
      else map_option fst
        (List.find (\<lambda>it. asLowerCaseString s = asLowerCaseString (snd it)) (rg_npcs g)))"

definition getCreatureByName :: "string \<Rightarrow> registry \<Rightarrow> creature_ref option" where
  "getCreatureByName s g =
     (if s = [] then None
      else (let lowerCaseName = asLowerCaseString s in
        case rg_mappedPlayerNames g lowerCaseName of
          Some p \<Rightarrow> Some (RefPlayer p)
        | None \<Rightarrow>
            (case List.find (\<lambda>it. lowerCaseName = asLowerCaseString (snd it)) (rg_npcs g) of
               Some it \<Rightarrow> Some (RefNpc (fst it))
             | None \<Rightarrow>
                 (case List.find (\<lambda>it. lowerCaseName = asLowerCaseString (snd it)) (rg_monsters g) of
                    Some it \<Rightarrow> Some (RefMonster (fst it))
                  | None \<Rightarrow> None))))"

definition getPlayerByNameWildcard ::
    "string \<Rightarrow> reg_player option \<Rightarrow> registry \<Rightarrow> return_value \<times> reg_player option" where
  "getPlayerByNameWildcard s player g =
     (let strlen = length s in
      if strlen = 0 \<or> strlen > 20 then (RETURNVALUE_PLAYERWITHTHISNAMEISNOTONLINE, player)
      else
        (let found =
           (if last s = CHR ''~'' then
              (case findOne (rg_wildcardTree g) (asLowerCaseString (take (strlen - 1) s)) [] of
                 (ret, result) \<Rightarrow>
                   if ret \<noteq> RETURNVALUE_NOERROR then Inl ret else Inr (getPlayerByName result g))
            else Inr (getPlayerByName s g))
         in case found of
              Inl ret \<Rightarrow> (ret, player)
            | Inr None \<Rightarrow> (RETURNVALUE_PLAYERWITHTHISNAMEISNOTONLINE, None)
            | Inr (Some p) \<Rightarrow> (RETURNVALUE_NOERROR, Some p)))"

subsection \<open>Invariants\<close>

text \<open>Registries that logins and logouts lead to, whatever their order.\<close>

inductive registry_reach :: "registry \<Rightarrow> bool" where
  reg_init: "registry_reach (empty_registry \<lparr> rg_npcs := npcs, rg_monsters := monsters \<rparr>)"
| reg_add: "registry_reach g \<Longrightarrow> addPlayer p g = Some g' \<Longrightarrow> registry_reach g'"
| reg_remove: "registry_reach g \<Longrightarrow> registry_reach (removePlayer p g)"

definition registry_ok :: "registry \<Rightarrow> bool" where
  "registry_ok g \<longleftrightarrow> wt_ok (rg_wildcardTree g)
     \<and> names_of (rg_wildcardTree g) = dom (rg_mappedPlayerNames g)
     \<and> (\<forall>n p. rg_mappedPlayerNames g n = Some p \<longrightarrow> n = asLowerCaseString (pl_name p) \<and> n \<noteq> [])"

lemma registry_ok_add:
  assumes "registry_ok g" "addPlayer p g = Some g'"
  shows "registry_ok g'"
proof -
  let ?n = "asLowerCaseString (pl_name p)"
  from assms(2) obtain tree where t: "wt_insert ?n (rg_wildcardTree g) = Some tree"
    and g': "g' = g \<lparr> rg_mappedPlayerNames := (rg_mappedPlayerNames g)(?n \<mapsto> p),
           rg_wildcardTree := tree, rg_players := AList.update (pl_id p) p (rg_players g) \<rparr>"
    by (auto simp: addPlayer_def Let_def split: option.splits)
  have "?n \<noteq> []" using t by (auto simp: wt_insert_def split: if_splits)
  with wt.ins_names [OF _ t] assms(1) show ?thesis by (auto simp: registry_ok_def g')
qed

lemma registry_ok_remove: "registry_ok g \<Longrightarrow> registry_ok (removePlayer p g)"
  using wt.rem_names [of "rg_wildcardTree g" "asLowerCaseString (pl_name p)"]
  by (auto simp: registry_ok_def removePlayer_def Let_def)

lemma registry_reach_ok: "registry_reach g \<Longrightarrow> registry_ok g"
proof (induction rule: registry_reach.induct)
  case (reg_init npcs monsters)
  have "\<not> isin (WNode False []) s" for s by (simp add: isin_leaf)
  then show ?case by (simp add: registry_ok_def empty_registry_def names_of_def)
qed (auto intro: registry_ok_add registry_ok_remove)

lemma getPlayerByName_mapped:
  "registry_ok g \<Longrightarrow> rg_mappedPlayerNames g n = Some p \<Longrightarrow> getPlayerByName n g = Some p"
proof -
  assume "registry_ok g" and n: "rg_mappedPlayerNames g n = Some p"
  then have "n = asLowerCaseString (pl_name p)" "n \<noteq> []" by (auto simp: registry_ok_def)
  then have "asLowerCaseString n = n" by simp
  with n \<open>n \<noteq> []\<close> show ?thesis by (simp add: getPlayerByName_def)
qed

text \<open>
  C4. Players by wildcard: in every registry that logins and logouts lead to, a name that ends with
  a tilde is resolved by the set of online names that start with it (without regard to case). It
  is an error that no player is online exactly when there is no such name, the one player is
  returned exactly when there is one, and it is ambiguous in all other cases; a returned player
  has the typed prefix.
\<close>

theorem wildcard_lookup_correct:
  assumes "registry_reach g" "q \<noteq> []" "length q < 20"
  shows "let cands = completions (dom (rg_mappedPlayerNames g)) (asLowerCaseString q);
      answer = getPlayerByNameWildcard (q @ ''~'') old g
    in (fst answer = RETURNVALUE_PLAYERWITHTHISNAMEISNOTONLINE \<longleftrightarrow> cands = {})
     \<and> (fst answer = RETURNVALUE_NAMEISTOOAMBIGUOUS \<longleftrightarrow> two_of cands)
     \<and> (\<forall>who. answer = (RETURNVALUE_NOERROR, who) \<longleftrightarrow>
         (\<exists>p. who = Some p \<and> cands = {asLowerCaseString (pl_name p)}
           \<and> getPlayerByName (pl_name p) g = Some p))"
proof -
  have ok: "registry_ok g" using assms(1) by (rule registry_reach_ok)
  define c where "c = completions (dom (rg_mappedPlayerNames g)) (asLowerCaseString q)"
  have c: "c = completions (names_of (rg_wildcardTree g)) (asLowerCaseString q)"
    and tree: "wt_ok (rg_wildcardTree g)"
    using ok by (simp_all add: c_def registry_ok_def)
  obtain rv r where f: "findOne (rg_wildcardTree g) (asLowerCaseString q) [] = (rv, r)"
    by (cases "findOne (rg_wildcardTree g) (asLowerCaseString q) []")
  have a: "getPlayerByNameWildcard (q @ ''~'') old g =
      (if rv \<noteq> RETURNVALUE_NOERROR then (rv, old)
       else (case getPlayerByName r g of
               None \<Rightarrow> (RETURNVALUE_PLAYERWITHTHISNAMEISNOTONLINE, None)
             | Some p \<Rightarrow> (RETURNVALUE_NOERROR, Some p)))"
    using assms(2,3) by (simp add: getPlayerByNameWildcard_def Let_def f)
  have "asLowerCaseString q \<noteq> []" using assms(2) by simp
  from wt.find1_spec [OF tree this f]
  consider "rv = RETURNVALUE_NOERROR" "c = {r}"
    | "rv = RETURNVALUE_PLAYERWITHTHISNAMEISNOTONLINE" "c = {}"
    | "rv = RETURNVALUE_NAMEISTOOAMBIGUOUS" "two_of c"
    unfolding c by blast
  then show ?thesis
  proof cases
    case 1
    then have "r \<in> dom (rg_mappedPlayerNames g)" unfolding c_def completions_def by blast
    then obtain p where p: "rg_mappedPlayerNames g r = Some p" by blast
    then have r: "r = asLowerCaseString (pl_name p)" and "getPlayerByName r g = Some p"
      using ok by (auto simp: registry_ok_def getPlayerByName_mapped)
    then have "getPlayerByName (pl_name p) g = Some p" by (simp add: getPlayerByName_def split: if_splits)
    then show ?thesis
      unfolding Let_def a c_def [symmetric] using 1 r \<open>getPlayerByName r g = Some p\<close>
      by (auto simp: getPlayerByName_def split: if_splits)
  next
    case 2
    then show ?thesis unfolding Let_def a c_def [symmetric] by simp
  next
    case 3
    then have "c \<noteq> {}" "c \<noteq> {x}" for x using two_of_not by metis+
    with 3 show ?thesis unfolding Let_def a c_def [symmetric] by simp
  qed
qed

theorem wildcard_lookup_correct_witness:
  "\<exists>g. registry_reach g \<and>
    (let cands = completions (dom (rg_mappedPlayerNames g)) (asLowerCaseString ''A'');
      answer = getPlayerByNameWildcard (''A'' @ ''~'') None g
    in (fst answer = RETURNVALUE_PLAYERWITHTHISNAMEISNOTONLINE \<longleftrightarrow> cands = {})
     \<and> (fst answer = RETURNVALUE_NAMEISTOOAMBIGUOUS \<longleftrightarrow> two_of cands)
     \<and> (\<forall>who. answer = (RETURNVALUE_NOERROR, who) \<longleftrightarrow>
         (\<exists>p. who = Some p \<and> cands = {asLowerCaseString (pl_name p)}
           \<and> getPlayerByName (pl_name p) g = Some p)))"
proof -
  let ?ann = "\<lparr> pl_id = 1, pl_guid = 7, pl_name = ''Ann'', pl_account = 3 \<rparr>"
  let ?bob = "\<lparr> pl_id = 2, pl_guid = 8, pl_name = ''Bob'', pl_account = 4 \<rparr>"
  have "registry_reach (empty_registry \<lparr> rg_npcs := [], rg_monsters := [] \<rparr>)" by (rule reg_init)
  moreover have "\<exists>g1. addPlayer ?ann (empty_registry \<lparr> rg_npcs := [], rg_monsters := [] \<rparr>) = Some g1"
    by (simp add: addPlayer_def wt_insert_def Let_def)
  ultimately obtain g1 where "registry_reach g1" by (blast intro: reg_add)
  moreover have "\<exists>g2. addPlayer ?bob g1 = Some g2" by (simp add: addPlayer_def wt_insert_def Let_def)
  ultimately obtain g2 where "registry_reach g2" by (blast intro: reg_add)
  with wildcard_lookup_correct [OF this, of "''A''" None] show ?thesis by (intro exI [of _ g2]) simp
qed

text \<open>
  Logins check that neither the name nor the id is in use, and only players that are online are
  removed. Then the two maps agree.
\<close>

inductive online_reach :: "registry \<Rightarrow> bool" where
  onl_init: "online_reach (empty_registry \<lparr> rg_npcs := npcs, rg_monsters := monsters \<rparr>)"
| onl_add: "online_reach g \<Longrightarrow> getPlayerByID (pl_id p) g = None \<Longrightarrow> pl_id p \<noteq> 0 \<Longrightarrow>
    getPlayerByName (pl_name p) g = None \<Longrightarrow> addPlayer p g = Some g' \<Longrightarrow> online_reach g'"
| onl_remove: "online_reach g \<Longrightarrow> getPlayerByID (pl_id p) g = Some p \<Longrightarrow>
    online_reach (removePlayer p g)"

definition maps_agree :: "registry \<Rightarrow> bool" where
  "maps_agree g \<longleftrightarrow> distinct (map fst (rg_players g))
     \<and> (\<forall>i p. map_of (rg_players g) i = Some p \<longleftrightarrow>
          i = pl_id p \<and> i \<noteq> 0 \<and> rg_mappedPlayerNames g (asLowerCaseString (pl_name p)) = Some p)"

lemma online_registry: "online_reach g \<Longrightarrow> registry_reach g"
  by (induction rule: online_reach.induct) (auto intro: registry_reach.intros)

lemma maps_agree_add:
  assumes "registry_ok g" "maps_agree g" "getPlayerByID (pl_id p) g = None" "pl_id p \<noteq> 0"
    "getPlayerByName (pl_name p) g = None" "addPlayer p g = Some g'"
  shows "maps_agree g'"
proof -
  let ?n = "asLowerCaseString (pl_name p)"
  have n: "pl_name p \<noteq> []" and g': "rg_players g' = AList.update (pl_id p) p (rg_players g)"
    "rg_mappedPlayerNames g' = (rg_mappedPlayerNames g)(?n \<mapsto> p)"
    using assms(6) by (auto simp: addPlayer_def Let_def wt_insert_def split: option.splits if_splits)
  have fresh: "map_of (rg_players g) (pl_id p) = None" "rg_mappedPlayerNames g ?n = None"
    using assms(3-5) n by (simp_all add: getPlayerByID_def getPlayerByName_def)
  have "map_of (rg_players g') i = Some q \<longleftrightarrow>
      i = pl_id q \<and> i \<noteq> 0 \<and> rg_mappedPlayerNames g' (asLowerCaseString (pl_name q)) = Some q" for i q
  proof (cases "q = p")
    case True
    then show ?thesis using assms(2,4) fresh by (auto simp: g' update_conv maps_agree_def)
  next
    case False
    have "map_of (rg_players g) i = Some q \<longleftrightarrow>
      i = pl_id q \<and> i \<noteq> 0 \<and> rg_mappedPlayerNames g (asLowerCaseString (pl_name q)) = Some q"
      using assms(2) by (simp add: maps_agree_def)
    then show ?thesis using False fresh by (auto simp: g' update_conv)
  qed
  moreover have "distinct (map fst (rg_players g'))"
    using assms(2) by (simp add: g' maps_agree_def distinct_update)
  ultimately show ?thesis by (simp add: maps_agree_def)
qed

lemma maps_agree_remove:
  assumes "maps_agree g" "getPlayerByID (pl_id p) g = Some p"
  shows "maps_agree (removePlayer p g)"
proof -
  let ?n = "asLowerCaseString (pl_name p)"
  have p: "map_of (rg_players g) (pl_id p) = Some p" "rg_mappedPlayerNames g ?n = Some p" "pl_id p \<noteq> 0"
    using assms by (auto simp: getPlayerByID_def maps_agree_def split: if_splits)
  have r: "rg_players (removePlayer p g) = AList.delete (pl_id p) (rg_players g)"
    "rg_mappedPlayerNames (removePlayer p g) = (rg_mappedPlayerNames g)(?n := None)"
    by (simp_all add: removePlayer_def Let_def)
  have "map_of (rg_players (removePlayer p g)) i = Some q \<longleftrightarrow>
      i = pl_id q \<and> i \<noteq> 0 \<and> rg_mappedPlayerNames (removePlayer p g) (asLowerCaseString (pl_name q)) = Some q"
    for i q
  proof -
    have "map_of (rg_players g) i = Some q \<longleftrightarrow>
      i = pl_id q \<and> i \<noteq> 0 \<and> rg_mappedPlayerNames g (asLowerCaseString (pl_name q)) = Some q" for i q
      using assms(1) by (simp add: maps_agree_def)
    note ag = this [of i q] this [of "pl_id p" q]
    show ?thesis
    proof (cases "q = p")
      case True
      then show ?thesis unfolding r using ag p by (auto simp: delete_conv)
    next
      case False
      then have "i = pl_id p \<Longrightarrow> \<not> (i = pl_id q \<and> i \<noteq> 0 \<and> rg_mappedPlayerNames g (asLowerCaseString (pl_name q)) = Some q)"
        using ag(2) p(1) by simp
      moreover have "asLowerCaseString (pl_name q) = ?n \<Longrightarrow> map_of (rg_players g) i \<noteq> Some q"
        using ag(1) p(2) False by simp
      ultimately show ?thesis unfolding r using ag(1)
        by (cases "i = pl_id p"; cases "asLowerCaseString (pl_name q) = ?n") (simp_all add: delete_conv')
    qed
  qed
  moreover have "distinct (map fst (rg_players (removePlayer p g)))"
    using assms(1) by (simp add: r maps_agree_def distinct_delete)
  ultimately show ?thesis by (simp add: maps_agree_def)
qed

lemma online_maps_agree: "online_reach g \<Longrightarrow> maps_agree g"
proof (induction rule: online_reach.induct)
  case (onl_init npcs monsters)
  then show ?case by (simp add: maps_agree_def empty_registry_def)
next
  case (onl_add g p g')
  then show ?case using maps_agree_add registry_reach_ok online_registry by blast
qed (rule maps_agree_remove)

text \<open>Players without an id are never added.\<close>

lemma online_named_id: "online_reach g \<Longrightarrow> rg_mappedPlayerNames g n = Some q \<Longrightarrow> pl_id q \<noteq> 0"
  by (induction arbitrary: n q rule: online_reach.induct)
    (auto simp: empty_registry_def addPlayer_def removePlayer_def Let_def split: option.splits if_splits)

lemma find_in_list:
  "List.find P xs = Some x \<Longrightarrow> x \<in> set xs \<and> P x"
  "List.find P xs = None \<longleftrightarrow> \<not> (\<exists>x \<in> set xs. P x)"
  by (auto simp: find_Some_iff find_None_iff)

text \<open>The list is the map by id, without the ids.\<close>

lemma listed_online:
  assumes "online_reach g"
  shows "p \<in> snd ` set (rg_players g) \<longleftrightarrow> getPlayerByID (pl_id p) g = Some p"
proof -
  have agree: "maps_agree g" using assms by (rule online_maps_agree)
  have m: "map_of (rg_players g) i = Some q \<longleftrightarrow> (i, q) \<in> set (rg_players g)" for i q
    using agree map_of_eq_Some_iff [of "rg_players g" i q] unfolding maps_agree_def by blast
  have k: "(i, q) \<in> set (rg_players g) \<Longrightarrow> i = pl_id q \<and> i \<noteq> 0" for i q
    using agree m unfolding maps_agree_def by blast
  have "p \<in> snd ` set (rg_players g) \<longleftrightarrow> (pl_id p, p) \<in> set (rg_players g)"
  proof
    assume "p \<in> snd ` set (rg_players g)"
    then obtain i where i: "(i, p) \<in> set (rg_players g)" by auto
    then have "i = pl_id p" using k by blast
    then show "(pl_id p, p) \<in> set (rg_players g)" using i by blast
  next
    assume "(pl_id p, p) \<in> set (rg_players g)"
    then have "snd (pl_id p, p) \<in> snd ` set (rg_players g)" by (rule imageI)
    then show "p \<in> snd ` set (rg_players g)" by simp
  qed
  also have "\<dots> \<longleftrightarrow> getPlayerByID (pl_id p) g = Some p"
    using m k by (auto simp: getPlayerByID_def)
  finally show ?thesis .
qed

lemma find_listed:
  assumes "online_reach g"
  shows "map_option snd (List.find (\<lambda>it. P (snd it)) (rg_players g)) = Some p \<Longrightarrow>
      P p \<and> getPlayerByID (pl_id p) g = Some p"
    and "map_option snd (List.find (\<lambda>it. P (snd it)) (rg_players g)) = None \<longleftrightarrow>
      \<not> (\<exists>q. P q \<and> getPlayerByID (pl_id q) g = Some q)"
  using find_in_list(1) [of "\<lambda>it. P (snd it)" "rg_players g"]
  by (auto simp: find_in_list(2) listed_online [OF assms, symmetric] image_iff Bex_def)

text \<open>
  C33. The indexes describe the same players: when logins only add players with an unused id and
  an unused name and only players that are online are removed, a player is found by id exactly
  when the same player is found by name (so that no two of them share an id or a name); the names in
  the prefix tree are exactly the lower case names of these players; and the searches by GUID and by account
  return an online player with that GUID or account exactly when there is one.
\<close>

theorem registry_indexes_agree:
  assumes "online_reach g"
  shows "(getPlayerByID (pl_id p) g = Some p \<longleftrightarrow> pl_id p \<noteq> 0 \<and> getPlayerByName (pl_name p) g = Some p)
    \<and> names_of (rg_wildcardTree g) = {asLowerCaseString (pl_name q) | q. getPlayerByID (pl_id q) g = Some q}
    \<and> (case getPlayerByGUID guid g of
         Some q \<Rightarrow> pl_guid q = guid \<and> guid \<noteq> 0 \<and> getPlayerByID (pl_id q) g = Some q
       | None \<Rightarrow> guid = 0 \<or> \<not> (\<exists>q. pl_guid q = guid \<and> getPlayerByID (pl_id q) g = Some q))
    \<and> (case getPlayerByAccount acc g of
         Some q \<Rightarrow> pl_account q = acc \<and> getPlayerByID (pl_id q) g = Some q
       | None \<Rightarrow> \<not> (\<exists>q. pl_account q = acc \<and> getPlayerByID (pl_id q) g = Some q))"
proof -
  have agree: "maps_agree g" and ok: "registry_ok g"
    using assms online_maps_agree online_registry registry_reach_ok by blast+
  have names: "rg_mappedPlayerNames g n = Some q \<Longrightarrow> pl_name q \<noteq> [] \<and> n = asLowerCaseString (pl_name q)" for n q
    using ok asLowerCaseString_Nil [of "pl_name q"] unfolding registry_ok_def by blast
  have id_name: "getPlayerByID (pl_id q) g = Some q \<longleftrightarrow>
      pl_id q \<noteq> 0 \<and> rg_mappedPlayerNames g (asLowerCaseString (pl_name q)) = Some q" for q
    using agree by (auto simp: getPlayerByID_def maps_agree_def)
  have ids: "rg_mappedPlayerNames g n = Some q \<Longrightarrow> pl_id q \<noteq> 0" for n q
    using online_named_id [OF assms] .
  have 1: "getPlayerByName (pl_name p) g = Some p \<longleftrightarrow>
      rg_mappedPlayerNames g (asLowerCaseString (pl_name p)) = Some p"
    using names by (auto simp: getPlayerByName_def)
  have 2: "dom (rg_mappedPlayerNames g) = {asLowerCaseString (pl_name q) | q. getPlayerByID (pl_id q) g = Some q}"
    unfolding id_name using names ids by (auto simp: dom_def) metis
  have 3: "case getPlayerByGUID guid g of
       Some q \<Rightarrow> pl_guid q = guid \<and> guid \<noteq> 0 \<and> getPlayerByID (pl_id q) g = Some q
     | None \<Rightarrow> guid = 0 \<or> \<not> (\<exists>q. pl_guid q = guid \<and> getPlayerByID (pl_id q) g = Some q)"
  proof (cases "guid = 0")
    case False
    then have e: "getPlayerByGUID guid g = map_option snd (List.find (\<lambda>it. guid = pl_guid (snd it)) (rg_players g))"
      by (simp add: getPlayerByGUID_def)
    show ?thesis
    proof (cases "getPlayerByGUID guid g")
      case None
      then have "\<not> (\<exists>q. guid = pl_guid q \<and> getPlayerByID (pl_id q) g = Some q)"
        unfolding e find_listed(2) [OF assms, where P = "\<lambda>q. guid = pl_guid q"] .
      then show ?thesis unfolding None option.case by blast
    next
      case (Some q)
      then have "guid = pl_guid q \<and> getPlayerByID (pl_id q) g = Some q"
        unfolding e by (rule find_listed(1) [OF assms])
      then show ?thesis unfolding Some option.case using False by blast
    qed
  qed (simp add: getPlayerByGUID_def)
  have 4: "case getPlayerByAccount acc g of
       Some q \<Rightarrow> pl_account q = acc \<and> getPlayerByID (pl_id q) g = Some q
     | None \<Rightarrow> \<not> (\<exists>q. pl_account q = acc \<and> getPlayerByID (pl_id q) g = Some q)"
    using find_listed [OF assms, where P = "\<lambda>q. pl_account q = acc"]
    by (simp add: getPlayerByAccount_def split: option.split)
  have 5: "names_of (rg_wildcardTree g) = dom (rg_mappedPlayerNames g)" using ok by (simp add: registry_ok_def)
  show ?thesis using 1 id_name [of p] by (intro conjI 3 4 5 [THEN trans, OF 2]) simp
qed

theorem registry_indexes_agree_witness:
  "let p = \<lparr> pl_id = 1, pl_guid = 7, pl_name = ''Ann'', pl_account = 3 \<rparr>
   in \<exists>g. online_reach g \<and> getPlayerByID 1 g = Some p
     \<and> asLowerCaseString ''Ann'' \<in> names_of (rg_wildcardTree g)
     \<and> getPlayerByGUID 7 g \<noteq> None"
proof -
  let ?ann = "\<lparr> pl_id = 1, pl_guid = 7, pl_name = ''Ann'', pl_account = 3 \<rparr>"
  let ?g0 = "empty_registry \<lparr> rg_npcs := [], rg_monsters := [] \<rparr>"
  obtain g1 where g1: "addPlayer ?ann ?g0 = Some g1" by (simp add: addPlayer_def wt_insert_def Let_def)
  have r: "online_reach g1"
    by (rule onl_add [OF onl_init _ _ _ g1])
      (simp_all add: getPlayerByID_def getPlayerByName_def empty_registry_def)
  have a: "getPlayerByID 1 g1 = Some ?ann"
    using g1 by (auto simp: addPlayer_def wt_insert_def getPlayerByID_def empty_registry_def Let_def)
  note agree = registry_indexes_agree [OF r, of ?ann 7]
  have "asLowerCaseString ''Ann'' \<in> names_of (rg_wildcardTree g1)"
  proof -
    have "asLowerCaseString (pl_name ?ann) \<in> {asLowerCaseString (pl_name q) | q. getPlayerByID (pl_id q) g1 = Some q}"
      using a by (intro CollectI exI [of _ ?ann]) simp
    then show ?thesis using agree by (simp only: reg_player.simps)
  qed
  moreover have "getPlayerByGUID 7 g1 \<noteq> None"
  proof
    assume n: "getPlayerByGUID 7 g1 = None"
    from agree n have "(7::u32) = 0 \<or> \<not> (\<exists>q. pl_guid q = 7 \<and> getPlayerByID (pl_id q) g1 = Some q)" by simp
    then have no: "\<not> (\<exists>q. pl_guid q = 7 \<and> getPlayerByID (pl_id q) g1 = Some q)" by simp
    have "\<exists>q. pl_guid q = 7 \<and> getPlayerByID (pl_id q) g1 = Some q" using a by (intro exI [of _ ?ann]) simp
    with no show False by (rule notE)
  qed
  ultimately show ?thesis using r a by (auto simp: Let_def)
qed

end
