(* ===== verification/Wait_List.thy ===== *)
theory Wait_List
  imports Otx_Prelude
begin

text \<open>
  The login queue of a full server, \<^verbatim>\<open>src/src/waitlist.h\<close> and \<^verbatim>\<open>waitlist.cpp\<close>. Premium
  players wait in a list of their own in front of the others. Times are in milliseconds, slots
  count from one. The number of players that are online and the limit are arguments.
\<close>

record wait =
  wt_timeout :: int
  wt_playerGUID :: u32

record waiting_list =
  priorityWaitList :: "wait list"
  waitList :: "wait list"

record login_player =
  lp_guid :: u32
  lp_canAlwaysLogin :: bool
  lp_gamemaster :: bool
  lp_premium :: bool

text \<open>The iterator that \<open>findClient\<close> returns: the list it points into and its index.\<close>

datatype wait_pos = InPriority nat | InWait nat | WaitEnd

fun find_guid :: "u32 \<Rightarrow> wait list \<Rightarrow> nat option" where
  "find_guid g [] = None"
| "find_guid g (w # ws) = (if wt_playerGUID w = g then Some 0 else map_option Suc (find_guid g ws))"

definition findClient :: "u32 \<Rightarrow> waiting_list \<Rightarrow> wait_pos \<times> nat" where
  "findClient guid wl =
     (case find_guid guid (priorityWaitList wl) of
        Some i \<Rightarrow> (InPriority i, 1 + i)
      | None \<Rightarrow>
          (case find_guid guid (waitList wl) of
             Some i \<Rightarrow> (InWait i, 1 + length (priorityWaitList wl) + i)
           | None \<Rightarrow> (WaitEnd, 1 + length (priorityWaitList wl) + length (waitList wl))))"

definition getTime :: "nat \<Rightarrow> nat" where
  "getTime slot =
     (if slot < 5 then 5 else if slot < 10 then 10 else if slot < 20 then 20
      else if slot < 50 then 60 else 120)"

definition getTimeout :: "nat \<Rightarrow> nat" where
  "getTimeout slot = getTime slot + 15"

definition cleanupList :: "int \<Rightarrow> wait list \<Rightarrow> wait list" where
  "cleanupList time ws = filter (\<lambda>w. \<not> (wt_timeout w - time \<le> 0)) ws"

text \<open>
  \<open>clientLogin\<close>. The result is \<open>None\<close> where the code erases, from the list of the ordinary players,
  an iterator that points into the list of the premium players: this is undefined. Strictly, the comparison of
  such an iterator with \<open>waitList.end()\<close> before it is undefined as well; here it is taken to compare the
  nodes, as the library's lists do, so that they differ.
\<close>

definition clientLogin ::
    "int \<Rightarrow> nat \<Rightarrow> nat \<Rightarrow> login_player \<Rightarrow> waiting_list \<Rightarrow> (bool \<times> waiting_list) option" where
  "clientLogin now maxPlayers playersOnline player wl =
     (if lp_canAlwaysLogin player \<or> lp_gamemaster player then Some (True, wl)
      else if maxPlayers = 0
        \<or> (priorityWaitList wl = [] \<and> waitList wl = [] \<and> playersOnline < maxPlayers)
      then Some (True, wl)
      else
        (let wl1 = wl \<lparr> priorityWaitList := cleanupList now (priorityWaitList wl),
                       waitList := cleanupList now (waitList wl) \<rparr>;
             (it, slot) = findClient (lp_guid player) wl1;
             entry = (\<lambda>s. \<lparr> wt_timeout = now + int (getTimeout s * 1000), wt_playerGUID = lp_guid player \<rparr>)
         in case it of
              InPriority i \<Rightarrow>
                if playersOnline + slot \<le> maxPlayers then None
                else Some (False, wl1 \<lparr> priorityWaitList := (priorityWaitList wl1)[i := entry slot] \<rparr>)
            | InWait i \<Rightarrow>
                if playersOnline + slot \<le> maxPlayers
                then Some (True, wl1 \<lparr> waitList := take i (waitList wl1) @ drop (Suc i) (waitList wl1) \<rparr>)
                else Some (False, wl1 \<lparr> waitList := (waitList wl1)[i := entry slot] \<rparr>)
            | WaitEnd \<Rightarrow>
                (let slot0 = length (priorityWaitList wl1) in
                 if lp_premium player
                 then Some (False, wl1 \<lparr> priorityWaitList := priorityWaitList wl1 @ [entry (slot0 + 1)] \<rparr>)
                 else Some (False, wl1 \<lparr> waitList := waitList wl1
                        @ [entry (slot0 + length (waitList wl1) + 1)] \<rparr>))))"

definition getClientSlot :: "login_player \<Rightarrow> waiting_list \<Rightarrow> nat" where
  "getClientSlot player wl =
     (case findClient (lp_guid player) wl of (WaitEnd, _) \<Rightarrow> 0 | (_, slot) \<Rightarrow> slot)"

subsection \<open>The queue as one list\<close>

text \<open>What the two lists stand for: the GUIDs in the order in which they will be admitted.\<close>

definition queue_of :: "waiting_list \<Rightarrow> u32 list" where
  "queue_of wl = map wt_playerGUID (priorityWaitList wl @ waitList wl)"

definition expire :: "int \<Rightarrow> waiting_list \<Rightarrow> waiting_list" where
  "expire now wl = wl \<lparr> priorityWaitList := cleanupList now (priorityWaitList wl),
                       waitList := cleanupList now (waitList wl) \<rparr>"

lemma find_guid_None: "find_guid g ws = None \<longleftrightarrow> g \<notin> wt_playerGUID ` set ws"
  by (induction ws) auto

lemma find_guid_Some:
  "find_guid g ws = Some i \<Longrightarrow> i < length ws \<and> wt_playerGUID (ws ! i) = g
     \<and> g \<notin> set (take i (map wt_playerGUID ws))"
  by (induction ws arbitrary: i) (auto split: if_splits)

lemma getClientSlot_queue:
  "getClientSlot p wl = (if lp_guid p \<in> set (queue_of wl)
     then Suc (length (takeWhile (\<lambda>g. g \<noteq> lp_guid p) (queue_of wl))) else 0)"
proof -
  have tw: "length (takeWhile (\<lambda>g. g \<noteq> a) (map wt_playerGUID ws)) = i"
    if "find_guid a ws = Some i" for a ws i
    using that by (induction ws arbitrary: i) (auto split: if_splits)
  have tn: "takeWhile (\<lambda>g. g \<noteq> a) (map wt_playerGUID ws @ zs) =
      map wt_playerGUID ws @ takeWhile (\<lambda>g. g \<noteq> a) zs" if "find_guid a ws = None" for a ws zs
    using that by (induction ws) (auto split: if_splits)
  have ts: "takeWhile (\<lambda>g. g \<noteq> a) (map wt_playerGUID ws @ zs) =
      takeWhile (\<lambda>g. g \<noteq> a) (map wt_playerGUID ws)" if "find_guid a ws = Some i" for a ws zs i
    using that by (induction ws arbitrary: i) (auto split: if_splits)
  have inset: "a \<in> wt_playerGUID ` set ws" if "find_guid a ws = Some i" for a ws i
    using that find_guid_None [of a ws] by auto
  show ?thesis
  proof (cases "find_guid (lp_guid p) (priorityWaitList wl)")
    case (Some i)
    then have "getClientSlot p wl = Suc i" by (simp add: getClientSlot_def findClient_def)
    then show ?thesis using tw [OF Some] ts [OF Some] inset [OF Some] by (simp add: queue_of_def)
  next
    case None
    note n = this
    then have ni: "lp_guid p \<notin> wt_playerGUID ` set (priorityWaitList wl)" by (simp add: find_guid_None)
    show ?thesis
    proof (cases "find_guid (lp_guid p) (waitList wl)")
      case (Some i)
      have "getClientSlot p wl = Suc (length (priorityWaitList wl) + i)"
        by (simp add: getClientSlot_def findClient_def n Some)
      then show ?thesis using tw [OF Some] tn [OF n] inset [OF Some] by (simp add: queue_of_def)
    next
      case None
      have "getClientSlot p wl = 0"
        by (simp add: getClientSlot_def findClient_def n None)
      then show ?thesis using None ni find_guid_None [of "lp_guid p" "waitList wl"]
        by (simp add: queue_of_def)
    qed
  qed
qed

lemma map_update_same_guid:
  "find_guid g ws = Some i \<Longrightarrow> wt_playerGUID e = g \<Longrightarrow>
     map wt_playerGUID (ws[i := e]) = map wt_playerGUID ws"
  using find_guid_Some [of g ws i] by (simp add: map_update) (metis list_update_id nth_map)

lemma remove_found:
  "find_guid g ws = Some i \<Longrightarrow>
     map wt_playerGUID (take i ws @ drop (Suc i) ws) = remove1 g (map wt_playerGUID ws)"
  by (induction ws arbitrary: i) (auto split: if_splits)

text \<open>The three ways in which a login that has to queue can end.\<close>

lemma clientLogin_queue:
  assumes "clientLogin now maxP online p wl = Some (ok, wl')"
    and "\<not> lp_canAlwaysLogin p" "\<not> lp_gamemaster p" "maxP \<noteq> 0" "queue_of wl \<noteq> [] \<or> maxP \<le> online"
  shows "let q = queue_of (expire now wl); slot = getClientSlot p (expire now wl) in
     (ok \<and> 0 < slot \<and> online + slot \<le> maxP \<and> queue_of wl' = remove1 (lp_guid p) q)
   \<or> (\<not> ok \<and> 0 < slot \<and> maxP < online + slot \<and> queue_of wl' = q)
   \<or> (\<not> ok \<and> slot = 0 \<and> (if lp_premium p
        then queue_of wl' = map wt_playerGUID (priorityWaitList (expire now wl)) @ lp_guid p
               # map wt_playerGUID (waitList (expire now wl))
        else queue_of wl' = q @ [lp_guid p]))"
proof -
  let ?w = "expire now wl"
  let ?entry = "\<lambda>s. \<lparr> wt_timeout = now + int (getTimeout s * 1000), wt_playerGUID = lp_guid p \<rparr>"
  have "\<not> (maxP = 0 \<or> (priorityWaitList wl = [] \<and> waitList wl = [] \<and> online < maxP))"
    using assms(4,5) by (auto simp: queue_of_def)
  then have e: "clientLogin now maxP online p wl =
      (case findClient (lp_guid p) ?w of (it, slot) \<Rightarrow>
         (case it of
              InPriority i \<Rightarrow>
                if online + slot \<le> maxP then None
                else Some (False, ?w \<lparr> priorityWaitList := (priorityWaitList ?w)[i := ?entry slot] \<rparr>)
            | InWait i \<Rightarrow>
                if online + slot \<le> maxP
                then Some (True, ?w \<lparr> waitList := take i (waitList ?w) @ drop (Suc i) (waitList ?w) \<rparr>)
                else Some (False, ?w \<lparr> waitList := (waitList ?w)[i := ?entry slot] \<rparr>)
            | WaitEnd \<Rightarrow>
                if lp_premium p
                then Some (False, ?w \<lparr> priorityWaitList :=
                       priorityWaitList ?w @ [?entry (length (priorityWaitList ?w) + 1)] \<rparr>)
                else Some (False, ?w \<lparr> waitList := waitList ?w
                        @ [?entry (length (priorityWaitList ?w) + length (waitList ?w) + 1)] \<rparr>)))"
    unfolding clientLogin_def Let_def using assms(2,3) by (simp only: expire_def) simp
  consider (prio) i where "find_guid (lp_guid p) (priorityWaitList ?w) = Some i"
    | (wait) i where "find_guid (lp_guid p) (priorityWaitList ?w) = None"
        "find_guid (lp_guid p) (waitList ?w) = Some i"
    | (none) "find_guid (lp_guid p) (priorityWaitList ?w) = None"
        "find_guid (lp_guid p) (waitList ?w) = None" by fastforce
  then show ?thesis
  proof cases
    case prio
    then have f: "findClient (lp_guid p) ?w = (InPriority i, Suc i)" by (simp add: findClient_def)
    have s: "getClientSlot p ?w = Suc i" by (simp add: getClientSlot_def f)
    have "\<not> ok" "maxP < online + Suc i"
      "wl' = ?w \<lparr> priorityWaitList := (priorityWaitList ?w)[i := ?entry (Suc i)] \<rparr>"
      using assms(1) by (simp_all add: e f split: if_splits)
    then show ?thesis unfolding Let_def s using map_update_same_guid [OF prio]
      by (simp add: queue_of_def)
  next
    case wait
    let ?slot = "Suc (length (priorityWaitList ?w) + i)"
    have f: "findClient (lp_guid p) ?w = (InWait i, ?slot)" using wait by (simp add: findClient_def)
    have s: "getClientSlot p ?w = ?slot" by (simp add: getClientSlot_def f)
    have notin: "lp_guid p \<notin> set (map wt_playerGUID (priorityWaitList ?w))"
      using wait(1) by (simp add: find_guid_None)
    show ?thesis
    proof (cases "online + ?slot \<le> maxP")
      case True
      then have "ok" "wl' = ?w \<lparr> waitList := take i (waitList ?w) @ drop (Suc i) (waitList ?w) \<rparr>"
        using assms(1) by (simp_all add: e f)
      then show ?thesis unfolding Let_def s using True remove_found [OF wait(2)] notin
        by (simp add: queue_of_def remove1_append)
    next
      case False
      then have "\<not> ok" "wl' = ?w \<lparr> waitList := (waitList ?w)[i := ?entry ?slot] \<rparr>"
        using assms(1) by (simp_all add: e f)
      then show ?thesis unfolding Let_def s using False map_update_same_guid [OF wait(2)]
        by (simp add: queue_of_def)
    qed
  next
    case none
    have f: "\<exists>n. findClient (lp_guid p) ?w = (WaitEnd, n)" using none by (simp add: findClient_def)
    then have s: "getClientSlot p ?w = 0" by (auto simp: getClientSlot_def)
    show ?thesis unfolding Let_def s using assms(1) f
      by (cases "lp_premium p") (auto simp: e queue_of_def)
  qed
qed

lemma distinct_queue_expire: "distinct (queue_of wl) \<Longrightarrow> distinct (queue_of (expire now wl))"
  by (auto simp: queue_of_def expire_def cleanupList_def distinct_map_filter)

lemma clientLogin_exempt:
  assumes "clientLogin now maxP online p wl = Some (ok, wl')"
    and "lp_canAlwaysLogin p \<or> lp_gamemaster p \<or> maxP = 0 \<or> (queue_of wl = [] \<and> online < maxP)"
  shows "ok \<and> wl' = wl"
proof -
  have "lp_canAlwaysLogin p \<or> lp_gamemaster p \<or> maxP = 0
      \<or> (priorityWaitList wl = [] \<and> waitList wl = [] \<and> online < maxP)"
    using assms(2) by (simp add: queue_of_def)
  with assms(1) show ?thesis unfolding clientLogin_def by (auto split: if_splits)
qed

inductive wait_reach :: "waiting_list \<Rightarrow> bool" where
  wl_init: "wait_reach \<lparr> priorityWaitList = [], waitList = [] \<rparr>"
| wl_login: "wait_reach wl \<Longrightarrow> clientLogin now maxP online p wl = Some (ok, wl') \<Longrightarrow> wait_reach wl'"

text \<open>
  The login queue never holds a player twice, whatever logins are tried, with whatever clock,
  limit and load.
\<close>

theorem waiting_players_distinct:
  assumes "wait_reach wl"
  shows "distinct (queue_of wl)"
  using assms
proof (induction rule: wait_reach.induct)
  case wl_init
  then show ?case by (simp add: queue_of_def)
next
  case (wl_login wl now maxP online p ok wl')
  show ?case
  proof (cases "lp_canAlwaysLogin p \<or> lp_gamemaster p \<or> maxP = 0 \<or> (queue_of wl = [] \<and> online < maxP)")
    case True
    then show ?thesis using clientLogin_exempt [OF wl_login(2)] wl_login.IH by simp
  next
    case False
    let ?w = "expire now wl"
    have d: "distinct (queue_of ?w)" using wl_login.IH by (rule distinct_queue_expire)
    have new: "getClientSlot p ?w = 0 \<Longrightarrow> lp_guid p \<notin> set (queue_of ?w)"
      by (simp add: getClientSlot_queue split: if_splits)
    have "distinct (map wt_playerGUID (priorityWaitList ?w) @ lp_guid p # map wt_playerGUID (waitList ?w))"
      if "lp_guid p \<notin> set (queue_of ?w)" using that d by (auto simp: queue_of_def)
    with clientLogin_queue [OF wl_login(2)] False d new show ?thesis
      by (auto simp: Let_def distinct_remove1 not_less split: if_splits)
  qed
qed

theorem waiting_players_distinct_witness:
  "distinct (queue_of \<lparr> priorityWaitList = [],
     waitList = [\<lparr> wt_timeout = 20000, wt_playerGUID = 7 \<rparr>] \<rparr>)"
proof (rule waiting_players_distinct, rule wl_login [OF wl_init])
  show "clientLogin 0 1 1 \<lparr> lp_guid = 7, lp_canAlwaysLogin = False, lp_gamemaster = False,
      lp_premium = False \<rparr> \<lparr> priorityWaitList = [], waitList = [] \<rparr>
    = Some (False, \<lparr> priorityWaitList = [], waitList = [\<lparr> wt_timeout = 20000, wt_playerGUID = 7 \<rparr>] \<rparr>)"
    by (simp add: clientLogin_def cleanupList_def findClient_def getTimeout_def getTime_def)
qed

text \<open>
  C37. The login queue is fair and keeps the limit: a login that is not exempt succeeds only below the
  limit, and out of the queue only when the places that are free cover everybody in front as well;
  then exactly this player leaves the queue. A login that is refused leaves the player in the queue,
  and retrying costs no place: the order of the queue (without the entries that timed out) is
  unchanged. A new player is entered at the end, a premium player behind the premium players.
\<close>

theorem login_queue_fair:
  assumes "clientLogin now maxP online p wl = Some (ok, wl')"
    and "\<not> lp_canAlwaysLogin p" "\<not> lp_gamemaster p" "maxP \<noteq> 0"
  shows "(ok \<longrightarrow> online < maxP \<and> (queue_of wl \<noteq> [] \<longrightarrow>
            0 < getClientSlot p (expire now wl) \<and> online + getClientSlot p (expire now wl) \<le> maxP
          \<and> queue_of wl' = remove1 (lp_guid p) (queue_of (expire now wl))))
       \<and> (\<not> ok \<longrightarrow> 0 < getClientSlot p wl'
          \<and> (0 < getClientSlot p (expire now wl) \<longrightarrow> queue_of wl' = queue_of (expire now wl))
          \<and> (getClientSlot p (expire now wl) = 0 \<longrightarrow>
               remove1 (lp_guid p) (queue_of wl') = queue_of (expire now wl)
             \<and> (lp_premium p \<longrightarrow> getClientSlot p wl' = Suc (length (priorityWaitList (expire now wl))))
             \<and> (\<not> lp_premium p \<longrightarrow> getClientSlot p wl' = length (queue_of wl'))))"
proof (cases "queue_of wl = [] \<and> online < maxP")
  case True
  then show ?thesis using clientLogin_exempt [OF assms(1)] by simp
next
  case False
  let ?w = "expire now wl" and ?g = "lp_guid p"
  have slot: "(0 < getClientSlot p w) = (?g \<in> set (queue_of w))" for w
    by (simp add: getClientSlot_queue)
  have new: "getClientSlot p v = Suc (length xs)" "remove1 ?g (queue_of v) = xs @ ys"
    if "queue_of v = xs @ ?g # ys" "?g \<notin> set xs" for v xs ys
  proof -
    have "takeWhile (\<lambda>g. g \<noteq> ?g) (queue_of v) = xs" using that by (auto simp: takeWhile_tail)
    then show "getClientSlot p v = Suc (length xs)" using that by (simp add: getClientSlot_queue)
    show "remove1 ?g (queue_of v) = xs @ ys" using that by (simp add: remove1_append)
  qed
  consider (admit) "ok" "0 < getClientSlot p ?w" "online + getClientSlot p ?w \<le> maxP"
      "queue_of wl' = remove1 ?g (queue_of ?w)"
    | (retry) "\<not> ok" "0 < getClientSlot p ?w" "queue_of wl' = queue_of ?w"
    | (premium) "\<not> ok" "getClientSlot p ?w = 0" "lp_premium p"
      "queue_of wl' = map wt_playerGUID (priorityWaitList ?w) @ ?g # map wt_playerGUID (waitList ?w)"
    | (free) "\<not> ok" "getClientSlot p ?w = 0" "\<not> lp_premium p" "queue_of wl' = queue_of ?w @ [?g]"
    using clientLogin_queue [OF assms] False by (auto simp: Let_def not_less split: if_splits)
  then show ?thesis
  proof cases
    case admit
    then show ?thesis by simp
  next
    case retry
    then have "0 < getClientSlot p wl'" using slot [of wl'] slot [of ?w] by simp
    with retry show ?thesis by simp
  next
    case premium
    then have "?g \<notin> set (queue_of ?w)" using slot [of ?w] by simp
    then have "?g \<notin> set (map wt_playerGUID (priorityWaitList ?w))" by (simp add: queue_of_def)
    from new [OF premium(4) this] premium show ?thesis by (simp add: queue_of_def)
  next
    case free
    then have "?g \<notin> set (queue_of ?w)" using slot [of ?w] by simp
    from new [of wl' "queue_of ?w" "[]", OF _ this] free show ?thesis by simp
  qed
qed

theorem login_queue_fair_witness:
  "let p = \<lparr> lp_guid = 7, lp_canAlwaysLogin = False, lp_gamemaster = False, lp_premium = False \<rparr>;
       wl = \<lparr> priorityWaitList = [], waitList = [\<lparr> wt_timeout = 20000, wt_playerGUID = 5 \<rparr>,
                \<lparr> wt_timeout = 20000, wt_playerGUID = 7 \<rparr>] \<rparr>
   in clientLogin 100 10 8 p wl = Some (True, wl \<lparr> waitList := take 1 (waitList wl) \<rparr>)
     \<and> (8::nat) + getClientSlot p (expire 100 wl) \<le> 10"
proof -
  let ?p = "\<lparr> lp_guid = 7, lp_canAlwaysLogin = False, lp_gamemaster = False, lp_premium = False \<rparr>"
  let ?wl = "\<lparr> priorityWaitList = [], waitList = [\<lparr> wt_timeout = 20000, wt_playerGUID = 5 \<rparr>,
                \<lparr> wt_timeout = 20000, wt_playerGUID = 7 \<rparr>] \<rparr>"
  have c: "clientLogin 100 10 8 ?p ?wl = Some (True, ?wl \<lparr> waitList := take 1 (waitList ?wl) \<rparr>)"
    by (simp add: clientLogin_def cleanupList_def findClient_def Let_def numeral_2_eq_2)
  with login_queue_fair [OF c] show ?thesis by (simp add: queue_of_def)
qed

text \<open>
  C38. When a waiting player may log in: the code is undefined exactly when the player waits among the
  premium players, because it erases the entry from the list of the other players.
\<close>

theorem premium_admission_undefined:
  "clientLogin now maxP online p wl = None \<longleftrightarrow>
     \<not> lp_canAlwaysLogin p \<and> \<not> lp_gamemaster p \<and> maxP \<noteq> 0 \<and> (0 < length (queue_of wl) \<or> maxP \<le> online)
   \<and> lp_guid p \<in> set (map wt_playerGUID (priorityWaitList (expire now wl)))
   \<and> online + getClientSlot p (expire now wl) \<le> maxP"
proof -
  let ?w = "expire now wl"
  have w: "wl \<lparr> priorityWaitList := cleanupList now (priorityWaitList wl),
      waitList := cleanupList now (waitList wl) \<rparr> = ?w"
    by (simp add: expire_def)
  have q: "(0 < length (queue_of wl) \<or> maxP \<le> online)
      = (\<not> (priorityWaitList wl = [] \<and> waitList wl = [] \<and> online < maxP))"
    by (auto simp: queue_of_def)
  show ?thesis
  proof (cases "find_guid (lp_guid p) (priorityWaitList ?w)")
    case None
    then have "lp_guid p \<notin> set (map wt_playerGUID (priorityWaitList ?w))" by (simp add: find_guid_None)
    then show ?thesis using None
      by (auto simp: clientLogin_def w findClient_def Let_def split: option.splits)
  next
    case (Some i)
    then have "lp_guid p \<in> set (map wt_playerGUID (priorityWaitList ?w))"
      using find_guid_None [of "lp_guid p" "priorityWaitList ?w"] by auto
    moreover have "findClient (lp_guid p) ?w = (InPriority i, Suc i)" using Some by (simp add: findClient_def)
    moreover from this have "getClientSlot p ?w = Suc i" by (simp add: getClientSlot_def)
    ultimately show ?thesis unfolding q by (auto simp: clientLogin_def w Let_def)
  qed
qed

end
