(* ===== verification/Connection_Ban.thy ===== *)
theory Connection_Ban
  imports Otx_Prelude
begin

text \<open>
  Connection throttling by address, \<open>Ban::acceptConnection\<close> (\<^verbatim>\<open>src/src/ban.h\<close>,
  \<^verbatim>\<open>ban.cpp\<close>). Times are 64 bit
  millisecond counters and keep their width: the difference of two of them is taken modulo
  \<open>2 ^ 64\<close> and read as a signed number.
\<close>

record connect_block =
  cb_lastAttempt :: u64
  cb_blockTime :: u64
  cb_count :: u32

type_synonym ip_connect_map = "u32 \<rightharpoonup> connect_block"

definition acceptConnection :: "u64 \<Rightarrow> u32 \<Rightarrow> ip_connect_map \<Rightarrow> bool \<times> ip_connect_map" where
  "acceptConnection currentTime clientip m =
     (case m clientip of
        None \<Rightarrow> (True, m(clientip \<mapsto> \<lparr> cb_lastAttempt = currentTime, cb_blockTime = 0, cb_count = 1 \<rparr>))
      | Some b \<Rightarrow>
          if cb_blockTime b > currentTime
          then (False, m(clientip \<mapsto> b \<lparr> cb_blockTime := cb_blockTime b + 250 \<rparr>))
          else
            (let timeDiff = sint (currentTime - cb_lastAttempt b);
                 b1 = b \<lparr> cb_lastAttempt := currentTime \<rparr>
             in if timeDiff \<le> 5000 then
                  (let b2 = b1 \<lparr> cb_count := cb_count b1 + 1 \<rparr> in
                   if cb_count b2 > 5 then
                     (let b3 = b2 \<lparr> cb_count := 0 \<rparr> in
                      if timeDiff \<le> 500
                      then (False, m(clientip \<mapsto> b3 \<lparr> cb_blockTime := currentTime + 3000 \<rparr>))
                      else (True, m(clientip \<mapsto> b3)))
                   else (True, m(clientip \<mapsto> b2)))
                else (True, m(clientip \<mapsto> b1 \<lparr> cb_count := 1 \<rparr>))))"

text \<open>A sequence of attempts (time and address); the answers in order.\<close>

fun attempts :: "(u64 \<times> u32) list \<Rightarrow> ip_connect_map \<Rightarrow> bool list \<times> ip_connect_map" where
  "attempts [] m = ([], m)"
| "attempts ((t, ip) # as) m =
     (case acceptConnection t ip m of (ok, m1) \<Rightarrow>
        (case attempts as m1 of (oks, m2) \<Rightarrow> (ok # oks, m2)))"

definition counts_ok :: "ip_connect_map \<Rightarrow> bool" where
  "counts_ok m \<longleftrightarrow> (\<forall>ip b. m ip = Some b \<longrightarrow> cb_count b \<le> 5)"

lemma word_inc_le5: "(c :: u32) \<le> 5 \<Longrightarrow> \<not> c + 1 > 5 \<Longrightarrow> unat (c + 1) = Suc (unat c)"
  by (simp add: word_le_nat_alt word_less_nat_alt unat_word_ariths)

lemma acceptConnection_other: "ip' \<noteq> ip \<Longrightarrow> snd (acceptConnection t ip m) ip' = m ip'"
  by (auto simp: acceptConnection_def Let_def split: option.split)

lemma acceptConnection_counts: "counts_ok m \<Longrightarrow> counts_ok (snd (acceptConnection t ip m))"
  by (auto simp: acceptConnection_def Let_def counts_ok_def split: option.split)

text \<open>An attempt that follows its predecessor within half a second raises the count.\<close>

definition armed :: "u64 \<Rightarrow> u32 \<Rightarrow> nat \<Rightarrow> ip_connect_map \<Rightarrow> bool" where
  "armed t ip k m \<longleftrightarrow> (\<exists>b. m ip = Some b \<and> cb_lastAttempt b = t \<and> k \<le> unat (cb_count b))"

lemma accepted_armed:
  "fst (acceptConnection t ip m) \<Longrightarrow> armed t ip 0 (snd (acceptConnection t ip m))"
  by (auto simp: acceptConnection_def Let_def armed_def split: option.splits if_splits)

lemma accepted_fast:
  assumes "counts_ok m" "armed t ip k m" "sint (t' - t) \<le> 500" "fst (acceptConnection t' ip m)"
  shows "armed t' ip (Suc k) (snd (acceptConnection t' ip m))"
proof -
  obtain b where b: "m ip = Some b" "cb_lastAttempt b = t" "k \<le> unat (cb_count b)"
    using assms(2) by (auto simp: armed_def)
  have "cb_count b \<le> 5" using assms(1) b(1) by (auto simp: counts_ok_def)
  then show ?thesis
    using assms(3,4) b word_inc_le5 [of "cb_count b"]
    by (auto simp: acceptConnection_def Let_def armed_def split: if_splits)
qed

lemma armed_bound: "counts_ok m \<Longrightarrow> armed t ip k m \<Longrightarrow> k \<le> 5"
  by (auto simp: counts_ok_def armed_def word_le_nat_alt) (metis le_trans)

text \<open>Attempts of one address, each at most half a second after the one before.\<close>

fun burst :: "u64 \<Rightarrow> u64 list \<Rightarrow> bool" where
  "burst t [] = True"
| "burst t (t' # ts) = (sint (t' - t) \<le> 500 \<and> burst t' ts)"

lemma burst_armed:
  "burst t ts \<Longrightarrow> counts_ok m \<Longrightarrow> armed t ip k m \<Longrightarrow>
   \<forall>ok \<in> set (fst (attempts (map (\<lambda>t. (t, ip)) ts) m)). ok \<Longrightarrow> k + length ts \<le> 5"
proof (induction ts arbitrary: t m k)
  case Nil
  then show ?case by (simp add: armed_bound)
next
  case (Cons t' ts)
  let ?m = "snd (acceptConnection t' ip m)"
  have ok: "fst (acceptConnection t' ip m)"
    and oks: "\<forall>ok \<in> set (fst (attempts (map (\<lambda>t. (t, ip)) ts) ?m)). ok"
    using Cons.prems(4) by (auto split: prod.splits)
  have "armed t' ip (Suc k) ?m" using Cons.prems ok by (intro accepted_fast) auto
  from Cons.IH [OF _ acceptConnection_counts this oks] Cons.prems show ?case by simp
qed

inductive ban_reach :: "ip_connect_map \<Rightarrow> bool" where
  ban_init: "ban_reach Map.empty"
| ban_step: "ban_reach m \<Longrightarrow> ban_reach (snd (acceptConnection t ip m))"

lemma ban_reach_counts: "ban_reach m \<Longrightarrow> counts_ok m"
  by (induction rule: ban_reach.induct) (simp add: counts_ok_def, rule acceptConnection_counts)

text \<open>
  Floods are cut: whatever happened before, when one address connects seven times or more and
  never waits longer than half a second between two attempts, at least one of the attempts is
  refused (the counters may wrap, the clock may start anywhere).
\<close>

theorem connection_flood_cut:
  assumes "ban_reach m" "burst t ts" "6 \<le> length ts"
  shows "\<exists>ok \<in> set (fst (attempts (map (\<lambda>t. (t, ip)) (t # ts)) m)). \<not> ok"
proof (rule ccontr)
  assume "\<not> ?thesis"
  then have ok: "fst (acceptConnection t ip m)"
    and oks: "\<forall>ok \<in> set (fst (attempts (map (\<lambda>t. (t, ip)) ts) (snd (acceptConnection t ip m)))). ok"
    by (auto split: prod.splits)
  have "counts_ok (snd (acceptConnection t ip m))"
    using assms(1) by (intro acceptConnection_counts ban_reach_counts)
  from burst_armed [OF assms(2) this accepted_armed [OF ok] oks] assms(3) show False by simp
qed

theorem connection_flood_cut_witness:
  "\<exists>ok \<in> set (fst (attempts (map (\<lambda>t. (t, 99)) [1000, 1100, 1200, 1300, 1400, 1500, 1600]) Map.empty)). \<not> ok"
  by (rule connection_flood_cut [OF ban_init]) simp_all

text \<open>
  A refused address stays refused: from the attempt that starts the block, every attempt in the
  following three seconds is refused and moves the end of the block by a quarter of a second, and
  the attempts of one address never change the record of another one.
\<close>

theorem blocked_address_refused:
  assumes "m ip = Some b" "now < cb_blockTime b" "unat (cb_blockTime b) + 250 < 2 ^ 64"
  shows "\<exists>m' b'. acceptConnection now ip m = (False, m') \<and> m' ip = Some b'
    \<and> unat (cb_blockTime b') = unat (cb_blockTime b) + 250
    \<and> cb_count b' = cb_count b \<and> cb_lastAttempt b' = cb_lastAttempt b
    \<and> (\<forall>ip'. ip' \<noteq> ip \<longrightarrow> m' ip' = m ip')"
proof -
  have "unat (cb_blockTime b + 250) = unat (cb_blockTime b) + 250"
    using assms(3) by (simp add: unat_word_ariths)
  then show ?thesis using assms(1,2) by (simp add: acceptConnection_def)
qed

theorem blocked_address_refused_witness:
  "\<exists>m' b'. acceptConnection 1200 9 [9 \<mapsto> \<lparr> cb_lastAttempt = 1000, cb_blockTime = 4000, cb_count = 0 \<rparr>]
      = (False, m') \<and> m' 9 = Some b' \<and> unat (cb_blockTime b') = 4250"
  using blocked_address_refused [of "[9 \<mapsto> \<lparr> cb_lastAttempt = 1000, cb_blockTime = 4000, cb_count = 0 \<rparr>]"
      9 "\<lparr> cb_lastAttempt = 1000, cb_blockTime = 4000, cb_count = 0 \<rparr>" 1200] by auto

end
