(* ===== verification/Event_Scheduler.thy ===== *)
theory Event_Scheduler
  imports Otx_Prelude
begin

text \<open>
  The two task queues that drive the server: the dispatcher runs tasks one after the other
  (\<^verbatim>\<open>src/src/tasks.h\<close>, \<^verbatim>\<open>tasks.cpp\<close>), the scheduler hands it tasks when their time has
  come (\<^verbatim>\<open>scheduler.h\<close>, \<^verbatim>\<open>scheduler.cpp\<close>). A task is a number that stands for its
  closure. The regions that a lock protects are atomic steps; the scheduler thread gives the lock
  up while it waits, so its loop is split there, and other threads step in between.
\<close>

subsection \<open>Priority queues\<close>

record sched_task =
  st_eventId :: u32
  st_cycle :: int
  st_func :: nat

text \<open>
  What the scheduler relies on of \<^verbatim>\<open>std::priority_queue\<close>: nothing is lost or invented, and
  the top has the earliest time.
\<close>

locale priority_queue =
  fixes push :: "'e \<Rightarrow> 'q \<Rightarrow> 'q"
    and top :: "'q \<Rightarrow> 'e option"
    and pop :: "'q \<Rightarrow> 'q"
    and content :: "'q \<Rightarrow> 'e multiset"
    and ok :: "'q \<Rightarrow> bool"
    and key :: "'e \<Rightarrow> int"
  assumes content_push: "content (push x q) = add_mset x (content q)"
    and ok_push: "ok q \<Longrightarrow> ok (push x q)"
    and ok_pop: "ok q \<Longrightarrow> ok (pop q)"
    and top_None: "top q = None \<longleftrightarrow> content q = {#}"
    and top_content: "top q = Some x \<Longrightarrow> content q = add_mset x (content (pop q))"
    and top_least: "ok q \<Longrightarrow> top q = Some x \<Longrightarrow> y \<in># content q \<Longrightarrow> key x \<le> key y"
begin

text \<open>A deadline that covers the top stays a deadline whatever is added.\<close>

definition due_by :: "int \<Rightarrow> 'q \<Rightarrow> bool" where
  "due_by d q \<longleftrightarrow> (\<exists>x. top q = Some x \<and> key x \<le> d)"

lemma due_by_push: "ok q \<Longrightarrow> due_by d q \<Longrightarrow> due_by d (push x q)"
proof -
  assume "ok q" "due_by d q"
  then obtain y where y: "top q = Some y" "key y \<le> d" by (auto simp: due_by_def)
  then have "y \<in># content (push x q)" using top_content [of q y] by (simp add: content_push)
  moreover from this obtain z where "top (push x q) = Some z"
    using top_None [of "push x q"] by (cases "top (push x q)") auto
  ultimately show ?thesis
    using top_least [OF ok_push [OF \<open>ok q\<close>]] y(2) by (fastforce simp: due_by_def)
qed

end

text \<open>The queue of the model: a list in the order of the times, ties in the order of insertion.\<close>

fun pq_push :: "sched_task \<Rightarrow> sched_task list \<Rightarrow> sched_task list" where
  "pq_push t [] = [t]"
| "pq_push t (u # us) = (if st_cycle u > st_cycle t then t # u # us else u # pq_push t us)"

definition pq_top :: "sched_task list \<Rightarrow> sched_task option" where
  "pq_top q = (case q of [] \<Rightarrow> None | t # _ \<Rightarrow> Some t)"

definition pq_ok :: "sched_task list \<Rightarrow> bool" where
  "pq_ok q \<longleftrightarrow> sorted (map st_cycle q)"

lemma mset_pq_push: "mset (pq_push t q) = add_mset t (mset q)"
  by (induction q) auto

lemma set_pq_push [simp]: "set (pq_push t q) = insert t (set q)"
  using arg_cong [OF mset_pq_push, of set_mset] by simp

lemma pq_ok_push: "pq_ok q \<Longrightarrow> pq_ok (pq_push t q)"
  by (induction q) (auto simp: pq_ok_def)

interpretation pq: priority_queue pq_push pq_top tl mset pq_ok st_cycle
proof unfold_locales
  fix q :: "sched_task list" and x y
  show "mset (pq_push x q) = add_mset x (mset q)" by (rule mset_pq_push)
  show "pq_ok (pq_push x q)" if "pq_ok q" using that by (rule pq_ok_push)
  show "pq_ok (tl q)" if "pq_ok q" using that by (cases q) (auto simp: pq_ok_def)
  show "(pq_top q = None) = (mset q = {#})" by (simp add: pq_top_def split: list.split)
  show "mset q = add_mset x (mset (tl q))" if "pq_top q = Some x"
    using that by (auto simp: pq_top_def split: list.splits)
  show "st_cycle x \<le> st_cycle y" if "pq_ok q" "pq_top q = Some x" "y \<in># mset q"
    using that by (auto simp: pq_top_def pq_ok_def split: list.splits)
qed

subsection \<open>The dispatcher\<close>

text \<open>A task that is not from the scheduler expires at its time, unless this is zero.\<close>

datatype task_func = RunTask nat | TerminateDispatcher

record task =
  tk_expiration :: int
  tk_func :: task_func

datatype thread_state = THREAD_STATE_RUNNING | THREAD_STATE_CLOSING | THREAD_STATE_TERMINATED

record dispatcher =
  dp_state :: thread_state
  dp_taskList :: "task list"
  dp_cycle :: u64

definition hasExpired :: "int \<Rightarrow> task \<Rightarrow> bool" where
  "hasExpired now t = (if tk_expiration t = 0 then False else tk_expiration t < now)"

definition addTask :: "task \<Rightarrow> bool \<Rightarrow> dispatcher \<Rightarrow> bool \<times> dispatcher" where
  "addTask t push_front d =
     (if dp_state d = THREAD_STATE_RUNNING
      then (dp_taskList d = [],
            d \<lparr> dp_taskList := (if push_front then t # dp_taskList d else dp_taskList d @ [t]) \<rparr>)
      else (False, d))"

definition dispatcher_shutdown :: "dispatcher \<Rightarrow> dispatcher" where
  "dispatcher_shutdown d =
     d \<lparr> dp_taskList := dp_taskList d @ [\<lparr> tk_expiration = 0, tk_func = TerminateDispatcher \<rparr>] \<rparr>"

text \<open>
  One round of the loop of \<open>threadMain\<close>; the second component is the closure that was run. With an
  empty list the thread waits (or wakes up for nothing). What a closure does to other parts is not
  part of this theory, tasks that it adds are further calls of \<open>addTask\<close>.
\<close>

definition dispatcher_round :: "int \<Rightarrow> dispatcher \<Rightarrow> task_func option \<times> dispatcher" where
  "dispatcher_round now d =
     (if dp_state d = THREAD_STATE_TERMINATED then (None, d)
      else case dp_taskList d of
        [] \<Rightarrow> (None, d)
      | t # ts \<Rightarrow>
          (let d1 = d \<lparr> dp_taskList := ts \<rparr> in
           if \<not> hasExpired now t then
             (let d2 = d1 \<lparr> dp_cycle := dp_cycle d1 + 1 \<rparr> in
              case tk_func t of
                RunTask f \<Rightarrow> (Some (RunTask f), d2)
              | TerminateDispatcher \<Rightarrow>
                  (Some TerminateDispatcher, d2 \<lparr> dp_state := THREAD_STATE_TERMINATED \<rparr>))
           else (None, d1)))"

fun dispatcher_rounds :: "int list \<Rightarrow> dispatcher \<Rightarrow> task_func list \<times> dispatcher" where
  "dispatcher_rounds [] d = ([], d)"
| "dispatcher_rounds (now # nows) d =
     (case dispatcher_round now d of
        (f, d1) \<Rightarrow> (case dispatcher_rounds nows d1 of
           (fs, d2) \<Rightarrow> ((case f of None \<Rightarrow> fs | Some g \<Rightarrow> g # fs), d2)))"

text \<open>The tasks of a list that are still to be run when their turns come at the given times.\<close>

definition in_time :: "int list \<Rightarrow> task list \<Rightarrow> task_func list" where
  "in_time nows ts =
     map (tk_func \<circ> snd) (filter (\<lambda>(now, t). tk_expiration t = 0 \<or> now \<le> tk_expiration t) (zip nows ts))"

lemma dispatcher_rounds_drain:
  assumes "dp_state d \<noteq> THREAD_STATE_TERMINATED" "dp_taskList d = ts"
    and "\<forall>t \<in> set ts. tk_func t \<noteq> TerminateDispatcher" "length nows = length ts"
  shows "\<exists>c. dispatcher_rounds nows (d \<lparr> dp_taskList := ts @ us \<rparr>) =
    (in_time nows ts, d \<lparr> dp_taskList := us, dp_cycle := c \<rparr>)"
  using assms
proof (induction ts arbitrary: nows d)
  case Nil
  then show ?case by (intro exI [of _ "dp_cycle d"]) (simp add: in_time_def)
next
  case (Cons t ts)
  then obtain now nows' where n: "nows = now # nows'" by (cases nows) auto
  obtain f where f: "tk_func t = RunTask f" using Cons.prems(3) by (cases "tk_func t") auto
  define c0 where "c0 = (if hasExpired now t then dp_cycle d else dp_cycle d + 1)"
  let ?d = "d \<lparr> dp_taskList := ts, dp_cycle := c0 \<rparr>"
  have "dispatcher_round now (d \<lparr> dp_taskList := (t # ts) @ us \<rparr>)
      = (if hasExpired now t then None else Some (RunTask f), ?d \<lparr> dp_taskList := ts @ us \<rparr>)"
    using Cons.prems n f by (simp add: dispatcher_round_def Let_def c0_def)
  moreover obtain c where "dispatcher_rounds nows' (?d \<lparr> dp_taskList := ts @ us \<rparr>) =
      (in_time nows' ts, ?d \<lparr> dp_taskList := us, dp_cycle := c \<rparr>)"
    using Cons.IH [of ?d nows'] Cons.prems n by auto
  ultimately show ?case
    by (intro exI [of _ c]) (auto simp: n f in_time_def hasExpired_def)
qed

text \<open>
  C39. An orderly shutdown of the dispatcher: of the tasks that were accepted before \<open>shutdown\<close>, those
  without an expiration time and those whose time is not over when their turn comes are run, each once and in
  the order of the list, and the expired ones are dropped; then the thread ends, and nothing that is added
  afterwards is run.
\<close>

theorem dispatcher_shutdown_runs_all:
  assumes "dp_state d = THREAD_STATE_RUNNING"
    and "\<forall>t \<in> set (dp_taskList d). tk_func t \<noteq> TerminateDispatcher"
    and "length nows = length (dp_taskList d)"
  shows "\<exists>d'. dispatcher_rounds (nows @ [end_time]) (dispatcher_shutdown d)
      = (map (tk_func \<circ> snd) (filter (\<lambda>(now, t). tk_expiration t = 0 \<or> now \<le> tk_expiration t)
           (zip nows (dp_taskList d))) @ [TerminateDispatcher], d')
    \<and> dp_state d' = THREAD_STATE_TERMINATED \<and> dp_taskList d' = []
    \<and> (\<forall>t front now. dispatcher_round now (snd (addTask t front d')) = (None, d'))"
proof -
  let ?stop = "\<lparr> tk_expiration = 0, tk_func = TerminateDispatcher \<rparr>"
  have app: "dispatcher_rounds (xs @ ys) e = (case dispatcher_rounds xs e of (fs, e1) \<Rightarrow>
      (case dispatcher_rounds ys e1 of (gs, e2) \<Rightarrow> (fs @ gs, e2)))" for xs ys e
    by (induction xs arbitrary: e) (auto split: prod.splits option.splits)
  obtain c where c: "dispatcher_rounds nows (d \<lparr> dp_taskList := dp_taskList d @ [?stop] \<rparr>)
      = (in_time nows (dp_taskList d), d \<lparr> dp_taskList := [?stop], dp_cycle := c \<rparr>)"
    using dispatcher_rounds_drain [of d "dp_taskList d" nows "[?stop]"] assms by auto
  have "dispatcher_round end_time (d \<lparr> dp_taskList := [?stop], dp_cycle := c \<rparr>)
      = (Some TerminateDispatcher,
         d \<lparr> dp_taskList := [], dp_cycle := c + 1, dp_state := THREAD_STATE_TERMINATED \<rparr>)"
    using assms(1) by (simp add: dispatcher_round_def hasExpired_def Let_def)
  then show ?thesis
    by (simp add: dispatcher_shutdown_def app c addTask_def dispatcher_round_def in_time_def)
qed

theorem dispatcher_shutdown_runs_all_witness:
  "\<exists>d'. dispatcher_rounds ([5, 6, 6] @ [7])
      (dispatcher_shutdown \<lparr> dp_state = THREAD_STATE_RUNNING,
         dp_taskList = [\<lparr> tk_expiration = 0, tk_func = RunTask 1 \<rparr>, \<lparr> tk_expiration = 5, tk_func = RunTask 2 \<rparr>,
           \<lparr> tk_expiration = 6, tk_func = RunTask 3 \<rparr>],
         dp_cycle = 0 \<rparr>)
      = ([RunTask 1, RunTask 3, TerminateDispatcher], d')
    \<and> dp_state d' = THREAD_STATE_TERMINATED"
  using dispatcher_shutdown_runs_all [of "\<lparr> dp_state = THREAD_STATE_RUNNING,
         dp_taskList = [\<lparr> tk_expiration = 0, tk_func = RunTask 1 \<rparr>, \<lparr> tk_expiration = 5, tk_func = RunTask 2 \<rparr>,
           \<lparr> tk_expiration = 6, tk_func = RunTask 3 \<rparr>],
         dp_cycle = 0 \<rparr>" "[5, 6, 6]" 7]
  by auto

subsection \<open>The scheduler\<close>

text \<open>
  Where the scheduler thread is: at the head of its loop, in a wait for a signal, or in a wait with
  a deadline.
\<close>

datatype sched_phase = LoopHead | WaitSignal | WaitUntil int

record scheduler =
  sc_state :: thread_state
  sc_lastEventId :: u32
  sc_eventList :: "sched_task list"
  sc_eventIds :: "u32 set"
  sc_phase :: sched_phase

text \<open>\<open>addEvent\<close> returns the id of the event (zero when the task is dropped) and whether it signals.\<close>

definition addEvent :: "sched_task \<Rightarrow> scheduler \<Rightarrow> u32 \<times> bool \<times> scheduler" where
  "addEvent t s =
     (if sc_state s = THREAD_STATE_RUNNING then
        (let next = sc_lastEventId s + 1;
             gen = (if next = 0 then 1 else next);
             t1 = (if st_eventId t = 0 then t \<lparr> st_eventId := gen \<rparr> else t);
             s1 = (if st_eventId t = 0 then s \<lparr> sc_lastEventId := gen \<rparr> else s);
             q = pq_push t1 (sc_eventList s1)
         in (st_eventId t1, pq_top q = Some t1,
             s1 \<lparr> sc_eventIds := insert (st_eventId t1) (sc_eventIds s1), sc_eventList := q \<rparr>))
      else (0, False, s))"

definition stopEvent :: "u32 \<Rightarrow> scheduler \<Rightarrow> bool \<times> scheduler" where
  "stopEvent eventid s =
     (if eventid = 0 then (False, s)
      else if eventid \<notin> sc_eventIds s then (False, s)
      else (True, s \<lparr> sc_eventIds := sc_eventIds s - {eventid} \<rparr>))"

definition scheduler_shutdown :: "scheduler \<Rightarrow> scheduler" where
  "scheduler_shutdown s =
     s \<lparr> sc_state := THREAD_STATE_TERMINATED, sc_eventList := [], sc_eventIds := {} \<rparr>"

text \<open>The thread: it enters a wait, it is woken without a timeout, or its deadline passes.\<close>

definition sched_wait :: "scheduler \<Rightarrow> scheduler" where
  "sched_wait s =
     (if sc_phase s = LoopHead \<and> sc_state s \<noteq> THREAD_STATE_TERMINATED
      then s \<lparr> sc_phase :=
             (case pq_top (sc_eventList s) of None \<Rightarrow> WaitSignal | Some t \<Rightarrow> WaitUntil (st_cycle t)) \<rparr>
      else s)"

definition sched_wake :: "scheduler \<Rightarrow> scheduler" where
  "sched_wake s = s \<lparr> sc_phase := LoopHead \<rparr>"

text \<open>
  The code that runs after a timeout. It takes the top of the list without looking whether there
  is one: with an empty list the result is \<open>None\<close>, undefined behaviour. Otherwise it returns the
  task that it gives to the dispatcher, if the event was not stopped.
\<close>

definition sched_timeout :: "int \<Rightarrow> scheduler \<Rightarrow> (sched_task option \<times> scheduler) option" where
  "sched_timeout now s =
     (case sc_phase s of
        WaitUntil d \<Rightarrow>
          if now < d then Some (None, s)
          else (case pq_top (sc_eventList s) of
                  None \<Rightarrow> None
                | Some t \<Rightarrow>
                    (let s1 = s \<lparr> sc_eventList := tl (sc_eventList s), sc_phase := LoopHead \<rparr> in
                     if st_eventId t \<notin> sc_eventIds s1 then Some (None, s1)
                     else Some (Some t, s1 \<lparr> sc_eventIds := sc_eventIds s1 - {st_eventId t} \<rparr>)))
      | _ \<Rightarrow> Some (None, s))"

subsubsection \<open>Interleavings\<close>

datatype sched_cmd = AddEvent sched_task | StopEvent u32 | SchedShutdown | SchedWait | SchedWake
  | SchedTimeout int

text \<open>What an observer sees of a step: ids that were given out, stops that succeeded, tasks that
  were handed to the dispatcher with the time of the timeout.\<close>

datatype sched_obs = Added u32 | Stopped u32 | Dispatched sched_task int | Silent

fun sched_step :: "sched_cmd \<Rightarrow> scheduler \<Rightarrow> (sched_obs \<times> scheduler) option" where
  "sched_step (AddEvent t) s =
     (case addEvent t s of (i, _, s1) \<Rightarrow> Some (if i = 0 then Silent else Added i, s1))"
| "sched_step (StopEvent i) s =
     (case stopEvent i s of (ok, s1) \<Rightarrow> Some (if ok then Stopped i else Silent, s1))"
| "sched_step SchedShutdown s = Some (Silent, scheduler_shutdown s)"
| "sched_step SchedWait s = Some (Silent, sched_wait s)"
| "sched_step SchedWake s = Some (Silent, sched_wake s)"
| "sched_step (SchedTimeout now) s =
     (case sched_timeout now s of
        None \<Rightarrow> None
      | Some (None, s1) \<Rightarrow> Some (Silent, s1)
      | Some (Some t, s1) \<Rightarrow> Some (Dispatched t now, s1))"

fun sched_run :: "sched_cmd list \<Rightarrow> scheduler \<Rightarrow> (sched_obs list \<times> scheduler) option" where
  "sched_run [] s = Some ([], s)"
| "sched_run (c # cs) s =
     (case sched_step c s of
        None \<Rightarrow> None
      | Some (o1, s1) \<Rightarrow> map_option (map_prod ((#) o1) id) (sched_run cs s1))"

definition started_scheduler :: scheduler where
  "started_scheduler = \<lparr> sc_state = THREAD_STATE_RUNNING, sc_lastEventId = 0, sc_eventList = [],
     sc_eventIds = {}, sc_phase = LoopHead \<rparr>"

definition sched_inv :: "scheduler \<Rightarrow> bool" where
  "sched_inv s \<longleftrightarrow> pq_ok (sc_eventList s)
     \<and> (\<forall>d. sc_phase s = WaitUntil d \<longrightarrow> pq.due_by d (sc_eventList s))"

lemma addEvent_inv: "sched_inv s \<Longrightarrow> sched_inv (snd (snd (addEvent t s)))"
  by (auto simp: sched_inv_def addEvent_def Let_def pq_ok_push intro: pq.due_by_push)

lemma sched_wait_inv: "sched_inv s \<Longrightarrow> sched_inv (sched_wait s)"
  by (auto simp: sched_inv_def sched_wait_def pq.due_by_def split: option.splits)

lemma sched_timeout_inv:
  assumes "sched_inv s"
  shows "\<exists>r s'. sched_timeout now s = Some (r, s') \<and> sched_inv s'
    \<and> (\<forall>t. r = Some t \<longrightarrow> st_cycle t \<le> now \<and> st_eventId t \<in> sc_eventIds s
        \<and> sc_eventIds s' = sc_eventIds s - {st_eventId t})
    \<and> (r = None \<longrightarrow> sc_eventIds s' = sc_eventIds s)"
proof (cases "sc_phase s")
  case (WaitUntil d)
  then obtain t where t: "pq_top (sc_eventList s) = Some t" "st_cycle t \<le> d"
    using assms by (auto simp: sched_inv_def pq.due_by_def)
  then show ?thesis
    using assms WaitUntil pq.ok_pop by (auto simp: sched_timeout_def sched_inv_def Let_def)
qed (use assms in \<open>simp_all add: sched_timeout_def\<close>)

text \<open>The ids of the events that are pending, over one step without a shutdown.\<close>

definition id_balance :: "u32 \<Rightarrow> sched_obs \<Rightarrow> int" where
  "id_balance i ob = (case ob of Added j \<Rightarrow> of_bool (i = j) | Stopped j \<Rightarrow> - of_bool (i = j)
     | Dispatched t _ \<Rightarrow> - of_bool (i = st_eventId t) | Silent \<Rightarrow> 0)"

lemma sched_step_inv:
  assumes "sched_inv s" "c \<noteq> SchedShutdown"
  shows "\<exists>ob s'. sched_step c s = Some (ob, s') \<and> sched_inv s'
    \<and> (\<forall>t now. ob = Dispatched t now \<longrightarrow> st_cycle t \<le> now)
    \<and> of_bool (i \<in> sc_eventIds s') \<le> of_bool (i \<in> sc_eventIds s) + id_balance i ob"
proof (cases c)
  case (AddEvent t)
  then show ?thesis using addEvent_inv [OF assms(1), of t]
    by (auto simp: addEvent_def Let_def id_balance_def split: if_splits)
next
  case (SchedTimeout now)
  obtain r s' where "sched_timeout now s = Some (r, s')" "sched_inv s'"
    "\<forall>t. r = Some t \<longrightarrow> st_cycle t \<le> now \<and> st_eventId t \<in> sc_eventIds s
        \<and> sc_eventIds s' = sc_eventIds s - {st_eventId t}"
    "r = None \<longrightarrow> sc_eventIds s' = sc_eventIds s"
    using sched_timeout_inv [OF assms(1), of now] by blast
  note r = this
  show ?thesis
  proof (cases r)
    case None
    then have "sched_step c s = Some (Silent, s')" using r(1) by (simp add: SchedTimeout)
    moreover have "sc_eventIds s' = sc_eventIds s" using r(4) None by simp
    ultimately show ?thesis using r(2)
      by (intro exI [of _ Silent] exI [of _ s']) (simp add: id_balance_def)
  next
    case (Some t)
    then have step: "sched_step c s = Some (Dispatched t now, s')" using r(1) by (simp add: SchedTimeout)
    have t: "st_cycle t \<le> now" "st_eventId t \<in> sc_eventIds s"
      "sc_eventIds s' = sc_eventIds s - {st_eventId t}" using r(3) Some by simp_all
    have "of_bool (i \<in> sc_eventIds s') \<le> of_bool (i \<in> sc_eventIds s) + id_balance i (Dispatched t now)"
      unfolding t(3) id_balance_def using t(2) by (cases "i = st_eventId t") simp_all
    with step t(1) r(2) show ?thesis by blast
  qed
next
  case SchedWait
  then show ?thesis using sched_wait_inv [OF assms(1)] by (auto simp: id_balance_def sched_wait_def)
next
  case (StopEvent j)
  obtain ok s' where st: "stopEvent j s = (ok, s')" by (cases "stopEvent j s")
  then have step: "sched_step c s = Some (if ok then Stopped j else Silent, s')"
    by (simp add: StopEvent)
  have "sched_inv s'" using st assms(1) by (auto simp: stopEvent_def sched_inv_def split: if_splits)
  moreover have "of_bool (i \<in> sc_eventIds s') \<le> of_bool (i \<in> sc_eventIds s)
      + id_balance i (if ok then Stopped j else Silent)"
    using st by (cases "i = j") (auto simp: stopEvent_def id_balance_def split: if_splits)
  ultimately show ?thesis using step by (cases ok) auto
next
  case SchedWake
  have "sched_inv (sched_wake s)" using assms(1) by (simp add: sched_inv_def sched_wake_def)
  then show ?thesis by (simp add: SchedWake sched_wake_def id_balance_def)
qed (use assms in simp)

lemma sched_run_inv:
  assumes "sched_inv s" "SchedShutdown \<notin> set cs"
  shows "\<exists>obs s'. sched_run cs s = Some (obs, s') \<and> sched_inv s'
    \<and> (\<forall>t now. Dispatched t now \<in> set obs \<longrightarrow> st_cycle t \<le> now)
    \<and> of_bool (i \<in> sc_eventIds s') \<le> of_bool (i \<in> sc_eventIds s) + (\<Sum>ob\<leftarrow>obs. id_balance i ob)"
  using assms
proof (induction cs arbitrary: s)
  case (Cons c cs)
  obtain ob s1 where 1: "sched_step c s = Some (ob, s1)" "sched_inv s1"
    "\<forall>t now. ob = Dispatched t now \<longrightarrow> st_cycle t \<le> now"
    "of_bool (i \<in> sc_eventIds s1) \<le> of_bool (i \<in> sc_eventIds s) + id_balance i ob"
    using sched_step_inv [OF Cons.prems(1), of c i] Cons.prems(2) by auto
  obtain obs s' where 2: "sched_run cs s1 = Some (obs, s')" "sched_inv s'"
    "\<forall>t now. Dispatched t now \<in> set obs \<longrightarrow> st_cycle t \<le> now"
    "of_bool (i \<in> sc_eventIds s') \<le> of_bool (i \<in> sc_eventIds s1) + (\<Sum>ob\<leftarrow>obs. id_balance i ob)"
    using Cons.IH [OF 1(2)] Cons.prems(2) by auto
  show ?case
    by (intro exI [of _ "ob # obs"] exI [of _ s']) (use 1 2 in auto)
qed auto

definition times :: "(sched_obs \<Rightarrow> bool) \<Rightarrow> sched_obs list \<Rightarrow> nat" where
  "times P obs = length (filter P obs)"

lemma balance_times:
  "(\<Sum>ob\<leftarrow>obs. id_balance i ob) = int (times (\<lambda>ob. ob = Added i) obs)
     - int (times (\<lambda>ob. ob = Stopped i) obs)
     - int (times (\<lambda>ob. \<exists>t now. ob = Dispatched t now \<and> st_eventId t = i) obs)"
  by (induction obs) (auto simp: times_def id_balance_def split: sched_obs.splits)

text \<open>
  C3. Scheduled events, over all interleavings of the scheduler thread (with spurious wake ups) and
  the threads that add and stop events, up to a shutdown: no step is undefined, no event is handed
  to the dispatcher before its time, and for every id the events that were dispatched and those
  that were stopped successfully are together no more than those that were added: an event runs at
  most once, and not after a successful stop.
\<close>

theorem scheduler_events_sound:
  assumes "SchedShutdown \<notin> set cs"
  shows "\<exists>obs s. sched_run cs started_scheduler = Some (obs, s)
    \<and> (\<forall>t now. Dispatched t now \<in> set obs \<longrightarrow> st_cycle t \<le> now)
    \<and> times (\<lambda>ob. \<exists>t now. ob = Dispatched t now \<and> st_eventId t = i) obs
        + times (\<lambda>ob. ob = Stopped i) obs
      \<le> times (\<lambda>ob. ob = Added i) obs"
proof -
  have "sched_inv started_scheduler" by (simp add: sched_inv_def started_scheduler_def pq_ok_def)
  from sched_run_inv [OF this assms, of i] obtain obs s where
    r: "sched_run cs started_scheduler = Some (obs, s)"
      "\<forall>t now. Dispatched t now \<in> set obs \<longrightarrow> st_cycle t \<le> now"
      "of_bool (i \<in> sc_eventIds s) \<le> of_bool (i \<in> sc_eventIds started_scheduler)
         + (\<Sum>ob\<leftarrow>obs. id_balance i ob)" by blast
  have "(0::int) \<le> of_bool (i \<in> sc_eventIds s)" by simp
  also note r(3)
  also have "of_bool (i \<in> sc_eventIds started_scheduler) = (0::int)" by (simp add: started_scheduler_def)
  finally have "times (\<lambda>ob. \<exists>t now. ob = Dispatched t now \<and> st_eventId t = i) obs
        + times (\<lambda>ob. ob = Stopped i) obs \<le> times (\<lambda>ob. ob = Added i) obs"
    unfolding balance_times by linarith
  with r(1,2) show ?thesis by blast
qed

theorem scheduler_events_sound_witness:
  "let t = \<lparr> st_eventId = 0, st_cycle = 50, st_func = 4 \<rparr> in
   \<exists>obs s. sched_run [SchedWait, AddEvent t, SchedWake, SchedWait, SchedTimeout 60] started_scheduler
        = Some (obs, s)
    \<and> Dispatched (t \<lparr> st_eventId := 1 \<rparr>) 60 \<in> set obs
    \<and> times (\<lambda>ob. \<exists>t now. ob = Dispatched t now \<and> st_eventId t = 1) obs
        + times (\<lambda>ob. ob = Stopped 1) obs \<le> times (\<lambda>ob. ob = Added 1) obs"
proof -
  let ?t = "\<lparr> st_eventId = 0, st_cycle = 50, st_func = 4 \<rparr>"
  let ?cs = "[SchedWait, AddEvent ?t, SchedWake, SchedWait, SchedTimeout 60]"
  have r: "\<exists>s. sched_run ?cs started_scheduler
      = Some ([Silent, Added 1, Silent, Silent, Dispatched (?t \<lparr> st_eventId := 1 \<rparr>) 60], s)"
    by (simp add: started_scheduler_def sched_wait_def sched_wake_def addEvent_def Let_def pq_top_def
        sched_timeout_def)
  from r scheduler_events_sound [of ?cs 1] show ?thesis by (fastforce simp: Let_def)
qed

subsubsection \<open>Shutting down\<close>

text \<open>After a shutdown the list stays empty, whatever the other threads still try.\<close>

definition closed_down :: "scheduler \<Rightarrow> bool" where
  "closed_down s \<longleftrightarrow> sc_state s = THREAD_STATE_TERMINATED \<and> sc_eventList s = []"

definition foreign_step :: "sched_cmd \<Rightarrow> bool" where
  "foreign_step c \<longleftrightarrow> (case c of AddEvent _ \<Rightarrow> True | StopEvent _ \<Rightarrow> True | SchedShutdown \<Rightarrow> True | _ \<Rightarrow> False)"

lemma sched_run_append:
  "sched_run (cs @ ds) s = (case sched_run cs s of None \<Rightarrow> None
     | Some (obs, s1) \<Rightarrow> map_option (map_prod ((@) obs) id) (sched_run ds s1))"
proof (induction cs arbitrary: s)
  case Nil
  have "map_prod ((@) []) id = (id :: sched_obs list \<times> scheduler \<Rightarrow> _)" by (auto simp: fun_eq_iff)
  then show ?case by (simp add: option.map_id)
next
  case (Cons c cs)
  then show ?case
    by (auto split: option.split prod.split simp: option.map_comp o_def map_prod_def intro!: option.map_cong)
qed

lemma foreign_steps_closed:
  assumes "closed_down s" "\<forall>c \<in> set ds. foreign_step c"
  shows "\<exists>obs s'. sched_run ds s = Some (obs, s') \<and> closed_down s' \<and> sc_phase s' = sc_phase s"
  using assms
proof (induction ds arbitrary: s)
  case (Cons c ds)
  have "\<exists>ob s1. sched_step c s = Some (ob, s1) \<and> closed_down s1 \<and> sc_phase s1 = sc_phase s"
    using Cons.prems by (cases c)
      (auto simp: foreign_step_def closed_down_def addEvent_def stopEvent_def scheduler_shutdown_def)
  then obtain ob s1 where 1: "sched_step c s = Some (ob, s1)" "closed_down s1" "sc_phase s1 = sc_phase s" by blast
  with Cons.IH [OF 1(2)] Cons.prems(2) show ?case by auto
qed simp

lemma woken_steps_defined:
  assumes "closed_down s" "sc_phase s = LoopHead"
  shows "sched_run es s \<noteq> None"
  using assms
proof (induction es arbitrary: s)
  case (Cons c es)
  have "\<exists>ob s1. sched_step c s = Some (ob, s1) \<and> closed_down s1 \<and> sc_phase s1 = LoopHead"
    using Cons.prems by (cases c)
      (auto simp: closed_down_def addEvent_def stopEvent_def scheduler_shutdown_def sched_wait_def sched_wake_def
        sched_timeout_def)
  then show ?case using Cons.IH by fastforce
qed simp

text \<open>
  C40. The shutdown of the scheduler races with its own timeout: from every state that the threads can reach before
  a shutdown, and whatever is added or stopped after it, the timeout of a wait with a deadline takes the top of
  the queue that \<open>shutdown\<close> has emptied, which is undefined; this happens exactly when the thread is in such a
  wait and the deadline has passed before the signal of the shutdown woke it. Once it was woken, nothing that
  follows is undefined.
\<close>

theorem scheduler_shutdown_race:
  assumes "SchedShutdown \<notin> set cs" "sched_run cs started_scheduler = Some (obs, s)"
    and "\<forall>c \<in> set ds. (\<exists>t. c = AddEvent t) \<or> (\<exists>i. c = StopEvent i) \<or> c = SchedShutdown"
  shows "(sched_run (cs @ SchedShutdown # ds @ [SchedTimeout now]) started_scheduler = None
      \<longleftrightarrow> (\<exists>d. sc_phase s = WaitUntil d \<and> d \<le> now))
    \<and> sched_run (cs @ SchedShutdown # ds @ SchedWake # es) started_scheduler \<noteq> None"
proof -
  have "\<forall>c \<in> set ds. foreign_step c" using assms(3) by (auto simp: foreign_step_def)
  moreover have "closed_down (scheduler_shutdown s)" by (simp add: closed_down_def scheduler_shutdown_def)
  ultimately obtain obs2 s2 where 2: "sched_run ds (scheduler_shutdown s) = Some (obs2, s2)" "closed_down s2"
    "sc_phase s2 = sc_phase s" using foreign_steps_closed [of "scheduler_shutdown s" ds]
    by (auto simp: scheduler_shutdown_def)
  have run: "sched_run (cs @ SchedShutdown # ds @ xs) started_scheduler = None \<longleftrightarrow> sched_run xs s2 = None" for xs
    using assms(2) 2(1) by (simp add: sched_run_append)
  have "sched_run [SchedTimeout now] s2 = None \<longleftrightarrow> (\<exists>d. sc_phase s = WaitUntil d \<and> d \<le> now)"
    using 2(2,3) by (auto simp: sched_timeout_def closed_down_def pq_top_def not_less split: sched_phase.splits)
  moreover have "sched_run es (sched_wake s2) \<noteq> None"
    using 2(2) by (intro woken_steps_defined) (simp_all add: sched_wake_def closed_down_def)
  then have "sched_run (SchedWake # es) s2 \<noteq> None" by simp
  ultimately show ?thesis unfolding run by blast
qed

theorem scheduler_shutdown_race_witness:
  "sched_run ([AddEvent \<lparr> st_eventId = 0, st_cycle = 50, st_func = 4 \<rparr>, SchedWait] @ SchedShutdown # [StopEvent 1]
     @ [SchedTimeout 60]) started_scheduler = None"
proof -
  let ?cs = "[AddEvent \<lparr> st_eventId = 0, st_cycle = 50, st_func = 4 \<rparr>, SchedWait]"
  obtain obs s where "sched_run ?cs started_scheduler = Some (obs, s)" "sc_phase s = WaitUntil 50"
    by (simp add: started_scheduler_def sched_wait_def addEvent_def Let_def pq_top_def)
  with scheduler_shutdown_race [of ?cs obs s "[StopEvent 1]" 60] show ?thesis by simp
qed

end
