(* ===== verification/Quad_Tree.thy ===== *)
theory Quad_Tree
  imports Positions
begin

text \<open>
  The quad tree that holds the map: \<^verbatim>\<open>class QTreeNode\<close>, \<^verbatim>\<open>QTreeLeafNode\<close>,
  \<open>Map::getTile\<close> and \<open>Map::setTile\<close> of \<^verbatim>\<open>src/src/map.h\<close> and \<^verbatim>\<open>map.cpp\<close>. The top
  thirteen bits of the coordinates select a leaf of eight by eight tiles on sixteen floors. The
  leaves are linked to their neighbours by pointers, so they live in a store: a leaf of the tree is
  an index into the list of leaves. A tile is the number of an object.
\<close>

subsection \<open>Nodes\<close>

datatype qnode =
  QInner "qnode option" "qnode option" "qnode option" "qnode option"
| QLeaf nat

fun child :: "nat \<Rightarrow> qnode \<Rightarrow> qnode option" where
  "child i (QInner a b c d) = (if i = 0 then a else if i = 1 then b else if i = 2 then c else d)"
| "child i (QLeaf _) = None"

fun set_child :: "nat \<Rightarrow> qnode \<Rightarrow> qnode \<Rightarrow> qnode" where
  "set_child i n (QInner a b c d) =
     (if i = 0 then QInner (Some n) b c d else if i = 1 then QInner a (Some n) c d
      else if i = 2 then QInner a b (Some n) d else QInner a b c (Some n))"
| "set_child i n (QLeaf k) = QLeaf k"

definition q_index :: "u32 \<Rightarrow> u32 \<Rightarrow> nat" where
  "q_index x y = unat (drop_bit 15 (x AND 0x8000) OR drop_bit 14 (y AND 0x8000))"

lemma child_size [termination_simp]: "child i n = Some m \<Longrightarrow> size m < size n"
  by (cases n) (auto split: if_splits)

function getLeaf :: "qnode \<Rightarrow> u32 \<Rightarrow> u32 \<Rightarrow> nat option" where
  "getLeaf n x y =
     (case n of
        QLeaf i \<Rightarrow> Some i
      | QInner _ _ _ _ \<Rightarrow>
          (case child (q_index x y) n of
             None \<Rightarrow> None
           | Some node \<Rightarrow> getLeaf node (push_bit 1 x) (push_bit 1 y)))"
  by pat_completeness auto
termination by (relation "measure (\<lambda>(n, _, _). size n)") (auto dest: child_size simp del: child.simps)

declare getLeaf.simps [simp del]

text \<open>The loop version, which every lookup but those of \<open>setTile\<close> uses.\<close>

function getLeafStatic :: "qnode \<Rightarrow> u32 \<Rightarrow> u32 \<Rightarrow> nat option" where
  "getLeafStatic node x y =
     (case child (q_index x y) node of
        None \<Rightarrow> None
      | Some n \<Rightarrow>
          (case n of QLeaf i \<Rightarrow> Some i
           | QInner _ _ _ _ \<Rightarrow> getLeafStatic n (push_bit 1 x) (push_bit 1 y)))"
  by pat_completeness auto
termination by (relation "measure (\<lambda>(n, _, _). size n)") (auto dest: child_size simp del: child.simps)

declare getLeafStatic.simps [simp del]

definition FLOOR_BITS :: nat where "FLOOR_BITS = 3"
definition FLOOR_SIZE :: u32 where "FLOOR_SIZE = push_bit FLOOR_BITS 1"
definition FLOOR_MASK :: u32 where "FLOOR_MASK = FLOOR_SIZE - 1"

lemma FLOOR_SIZE_8: "FLOOR_SIZE = 8" by (simp add: FLOOR_SIZE_def FLOOR_BITS_def)

text \<open>
  \<open>createLeaf\<close>: the leaf, whether it is new, and the tree. A new leaf gets the number \<open>fresh\<close>. The
  level is the fuel of the recursion; a tree whose leaves are at level \<open>FLOOR_BITS\<close> never uses it up.
\<close>

fun createLeaf :: "nat \<Rightarrow> nat \<Rightarrow> qnode \<Rightarrow> u32 \<Rightarrow> u32 \<Rightarrow> (nat \<times> bool \<times> qnode) option" where
  "createLeaf fresh level (QLeaf i) x y = Some (i, False, QLeaf i)"
| "createLeaf fresh 0 (QInner a b c d) x y = None"
| "createLeaf fresh (Suc level) (QInner a b c d) x y =
     (let index = q_index x y;
          (ch, newLeaf) =
            (case child index (QInner a b c d) of
               Some n \<Rightarrow> (n, False)
             | None \<Rightarrow> if Suc level \<noteq> FLOOR_BITS then (QInner None None None None, False)
                       else (QLeaf fresh, True))
      in case createLeaf fresh level ch (x * 2) (y * 2) of
           None \<Rightarrow> None
         | Some (i, new, ch') \<Rightarrow> Some (i, newLeaf \<or> new, set_child index ch' (QInner a b c d)))"

subsubsection \<open>Paths\<close>

fun q_path :: "nat \<Rightarrow> u32 \<Rightarrow> u32 \<Rightarrow> nat list" where
  "q_path 0 x y = []"
| "q_path (Suc d) x y = q_index x y # q_path d (push_bit 1 x) (push_bit 1 y)"

fun walk :: "nat list \<Rightarrow> qnode \<Rightarrow> nat option" where
  "walk [] n = (case n of QLeaf i \<Rightarrow> Some i | _ \<Rightarrow> None)"
| "walk (k # ks) n = (case child k n of None \<Rightarrow> None | Some c \<Rightarrow> walk ks c)"

fun q_wf :: "nat \<Rightarrow> qnode \<Rightarrow> bool" where
  "q_wf 0 (QLeaf i) = True"
| "q_wf 0 (QInner a b c d) = False"
| "q_wf (Suc k) (QLeaf i) = False"
| "q_wf (Suc k) (QInner a b c d) =
     (pred_option (q_wf k) a \<and> pred_option (q_wf k) b \<and> pred_option (q_wf k) c \<and> pred_option (q_wf k) d)"

lemma q_wf_child: "q_wf (Suc d) n \<Longrightarrow> child i n = Some c \<Longrightarrow> q_wf d c"
  by (cases n) (auto split: if_splits)

lemma q_wf_Suc: "q_wf (Suc d) n \<Longrightarrow> \<exists>a b c e. n = QInner a b c e"
  by (cases n) auto

lemma q_wf_0: "q_wf 0 n \<Longrightarrow> \<exists>i. n = QLeaf i"
  by (cases n) auto

lemma q_wf_set_child: "q_wf (Suc d) n \<Longrightarrow> q_wf d c \<Longrightarrow> q_wf (Suc d) (set_child i c n)"
  by (cases n) auto

lemma child_set_child:
  "q_wf (Suc d) n \<Longrightarrow> i < 4 \<Longrightarrow> k < 4 \<Longrightarrow>
     child k (set_child i c n) = (if k = i then Some c else child k n)"
  by (cases n) auto

lemma bit_8000: "bit (0x8000 :: u32) n \<longleftrightarrow> n = 15"
proof -
  have "(0x8000 :: u32) = push_bit 15 1" by simp
  then show ?thesis by (simp only: bit_push_bit_iff) (auto simp: bit_1_iff)
qed

lemma and_8000: "(x :: u32) AND 0x8000 = (if bit x 15 then 0x8000 else 0)"
proof (rule bit_eqI)
  fix n
  show "bit (x AND 0x8000) n \<longleftrightarrow> bit (if bit x 15 then 0x8000 else 0 :: u32) n"
    unfolding bit_and_iff bit_8000 if_distrib [of "\<lambda>w. bit w n"] by auto
qed

lemma q_index_bits: "q_index x y = of_bool (bit x 15) + 2 * of_bool (bit y 15)"
  by (simp add: q_index_def and_8000)

lemma q_index_less: "q_index x y < 4"
  by (simp add: q_index_bits)

lemma q_index_inject: "q_index x y = q_index x' y' \<longleftrightarrow> (bit x 15 = bit x' 15) \<and> (bit y 15 = bit y' 15)"
  by (auto simp: q_index_bits of_bool_def split: if_splits)

lemma length_q_path [simp]: "length (q_path d x y) = d"
  by (induction d arbitrary: x y) auto

lemma q_path_digits: "\<forall>k \<in> set (q_path d x y). k < 4"
  by (induction d arbitrary: x y) (auto simp: q_index_less)

lemma getLeaf_walk: "q_wf d n \<Longrightarrow> getLeaf n x y = walk (q_path d x y) n"
proof (induction d arbitrary: n x y)
  case 0
  then obtain i where "n = QLeaf i" using q_wf_0 by blast
  then show ?case by (simp add: getLeaf.simps)
next
  case (Suc d)
  obtain a b c e where n: "n = QInner a b c e" using q_wf_Suc [OF Suc.prems] by blast
  have "getLeaf n x y = (case child (q_index x y) n of None \<Rightarrow> None
      | Some node \<Rightarrow> getLeaf node (push_bit 1 x) (push_bit 1 y))"
    by (subst getLeaf.simps) (simp add: n)
  then show ?case using Suc.IH q_wf_child [OF Suc.prems] by (simp split: option.split)
qed

lemma getLeafStatic_getLeaf: "q_wf (Suc d) n \<Longrightarrow> getLeafStatic n x y = getLeaf n x y"
proof (induction d arbitrary: n x y)
  case 0
  then obtain a b c e where n: "n = QInner a b c e" using q_wf_Suc by blast
  show ?case
  proof (cases "child (q_index x y) n")
    case None
    then show ?thesis by (subst getLeafStatic.simps, subst getLeaf.simps) (simp add: n)
  next
    case (Some m)
    then obtain i where "m = QLeaf i" using q_wf_child [OF 0] q_wf_0 by blast
    with Some show ?thesis
      by (subst getLeafStatic.simps, subst getLeaf.simps) (simp add: n getLeaf.simps)
  qed
next
  case (Suc d)
  then obtain a b c e where n: "n = QInner a b c e" using q_wf_Suc by blast
  show ?case
  proof (cases "child (q_index x y) n")
    case None
    then show ?thesis by (subst getLeafStatic.simps, subst getLeaf.simps) (simp add: n)
  next
    case (Some m)
    then have "q_wf (Suc d) m" using q_wf_child [OF Suc.prems] by blast
    moreover from this obtain a' b' c' e' where "m = QInner a' b' c' e'" using q_wf_Suc by blast
    ultimately show ?thesis using Some Suc.IH
      by (subst getLeafStatic.simps, subst getLeaf.simps) (simp add: n)
  qed
qed

lemma walk_empty: "walk p (QInner None None None None) = None"
  by (cases p) auto

lemma createLeaf_spec:
  assumes "q_wf d n" "d = 0 \<or> level = d + 2"
  shows "\<exists>i new n'. createLeaf fresh level n x y = Some (i, new, n') \<and> q_wf d n'
    \<and> new = (walk (q_path d x y) n = None)
    \<and> i = (case walk (q_path d x y) n of None \<Rightarrow> fresh | Some j \<Rightarrow> j)
    \<and> (\<forall>p. length p = d \<longrightarrow> (\<forall>k \<in> set p. k < 4) \<longrightarrow>
          walk p n' = (if p = q_path d x y then Some i else walk p n))"
  using assms
proof (induction d arbitrary: n x y level)
  case 0
  then obtain i where "n = QLeaf i" using q_wf_0 by blast
  then show ?case by (intro exI [of _ i] exI [of _ False] exI [of _ n]) simp
next
  case (Suc d)
  obtain a b c e where n: "n = QInner a b c e" using q_wf_Suc [OF Suc.prems(1)] by blast
  obtain l where l: "level = Suc l" "d = 0 \<or> l = d + 2" "Suc l = FLOOR_BITS \<longleftrightarrow> d = 0"
    using Suc.prems(2) by (cases level) (auto simp: FLOOR_BITS_def)
  let ?k = "q_index x y"
  have dbl: "x * 2 = push_bit 1 x" "y * 2 = push_bit 1 y" by (simp_all add: push_bit_eq_mult)
  define ch where "ch = (case child ?k n of Some m \<Rightarrow> m
    | None \<Rightarrow> if d \<noteq> 0 then QInner None None None None else QLeaf fresh)"
  define nl where "nl = (child ?k n = None \<and> d = 0)"
  have chwf: "q_wf d ch"
    using q_wf_child [OF Suc.prems(1)] by (cases d) (auto simp: ch_def split: option.split)
  obtain i new ch' where r: "createLeaf fresh l ch (push_bit 1 x) (push_bit 1 y) = Some (i, new, ch')"
    "q_wf d ch'" "new = (walk (q_path d (push_bit 1 x) (push_bit 1 y)) ch = None)"
    "i = (case walk (q_path d (push_bit 1 x) (push_bit 1 y)) ch of None \<Rightarrow> fresh | Some j \<Rightarrow> j)"
    "\<And>p. length p = d \<Longrightarrow> (\<forall>k \<in> set p. k < 4) \<Longrightarrow>
       walk p ch' = (if p = q_path d (push_bit 1 x) (push_bit 1 y) then Some i else walk p ch)"
    using Suc.IH [OF chwf, of l "push_bit 1 x" "push_bit 1 y"] l(2) by blast
  have r1: "createLeaf fresh l ch (x * 2) (y * 2) = Some (i, new, ch')" unfolding dbl by (rule r(1))
  have c: "createLeaf fresh level n x y = Some (i, nl \<or> new, set_child ?k ch' n)"
  proof (cases "child ?k n")
    case None
    have ch: "ch = (if Suc l \<noteq> FLOOR_BITS then QInner None None None None else QLeaf fresh)"
      "nl = (Suc l = FLOOR_BITS)" using None l(3) by (simp_all add: ch_def nl_def)
    show ?thesis using None r1 unfolding l(1) n ch createLeaf.simps(3) Let_def
      by (cases "Suc l = FLOOR_BITS") (auto simp del: child.simps set_child.simps)
  next
    case (Some m)
    then have ch: "ch = m" "nl = False" by (simp_all add: ch_def nl_def)
    show ?thesis using Some r1 unfolding l(1) n ch
      by (simp add: Let_def del: child.simps set_child.simps)
  qed
  have wch: "walk p ch = (case child ?k n of Some m \<Rightarrow> walk p m | None \<Rightarrow> if d \<noteq> 0 then None else walk p (QLeaf fresh))" for p
    by (simp add: ch_def walk_empty split: option.split)
  have new: "(nl \<or> new) = (walk (q_path (Suc d) x y) n = None)"
    and i: "i = (case walk (q_path (Suc d) x y) n of None \<Rightarrow> fresh | Some j \<Rightarrow> j)"
    unfolding r(3,4) nl_def wch by (cases d; simp split: option.split)+
  have w: "walk p (set_child ?k ch' n) = (if p = q_path (Suc d) x y then Some i else walk p n)"
    if lp: "length p = Suc d" and digits: "\<forall>k \<in> set p. k < 4" for p
  proof -
    obtain k ks where p: "p = k # ks" "length ks = d" "k < 4" "\<forall>k \<in> set ks. k < 4"
      using lp digits by (cases p) auto
    have "walk ks ch' = (if ks = q_path d (push_bit 1 x) (push_bit 1 y) then Some i else walk ks ch)"
      using r(5) p by blast
    moreover have "ks \<noteq> q_path d (push_bit 1 x) (push_bit 1 y) \<Longrightarrow> child ?k n = None \<Longrightarrow> walk ks ch = None"
      using p(2) by (cases d) (simp_all add: wch)
    ultimately show ?thesis
      using child_set_child [OF Suc.prems(1) q_index_less p(3)] p(1)
      by (auto simp: wch split: option.splits)
  qed
  show ?case
    by (intro exI conjI, rule c, rule q_wf_set_child [OF Suc.prems(1) r(2)], rule new, rule i)
      (intro allI impI, rule w)
qed

subsection \<open>Cells\<close>

text \<open>Only the coordinates modulo \<open>2 ^ 16\<close>, without the three low bits, select a leaf.\<close>

definition ckey :: "u32 \<Rightarrow> nat" where
  "ckey x = (unat x mod 65536) div 8"

lemma ckey_bits: "ckey x = ckey x' \<longleftrightarrow> (\<forall>n. 3 \<le> n \<and> n < 16 \<longrightarrow> bit x n = bit x' n)"
proof -
  have k: "ckey x = unat (drop_bit 3 (take_bit 16 x))" for x
    by (simp only: ckey_def unat_drop_bit_eq unsigned_take_bit_eq) (simp add: drop_bit_eq_div take_bit_eq_mod)
  have "ckey x = ckey x' \<longleftrightarrow> drop_bit 3 (take_bit 16 x) = drop_bit 3 (take_bit 16 x')"
    by (simp only: k word_unat_eq_iff)
  also have "\<dots> \<longleftrightarrow> (\<forall>n. bit (drop_bit 3 (take_bit 16 x)) n = bit (drop_bit 3 (take_bit 16 x')) n)"
    by (auto intro: bit_eqI)
  also have "\<dots> \<longleftrightarrow> (\<forall>n. n + 3 < 16 \<longrightarrow> bit x (n + 3) = bit x' (n + 3))"
    by (auto simp: bit_drop_bit_eq bit_take_bit_iff o_def add.commute)
  also have "\<dots> \<longleftrightarrow> (\<forall>n. 3 \<le> n \<and> n < 16 \<longrightarrow> bit x n = bit x' n)"
    by (metis add.commute le_add1 le_add_diff_inverse)
  finally show ?thesis .
qed

lemma q_path_bits:
  "d \<le> 16 \<Longrightarrow> q_path d x y = q_path d x' y' \<longleftrightarrow>
     (\<forall>n. 16 - d \<le> n \<and> n < 16 \<longrightarrow> bit x n = bit x' n \<and> bit y n = bit y' n)"
proof (induction d arbitrary: x y x' y')
  case 0
  then show ?case by auto
next
  case (Suc d)
  have b: "bit (push_bit 1 (z :: u32)) n \<longleftrightarrow> 1 \<le> n \<and> bit z (n - 1)" if "n < 16" for z n
    unfolding bit_push_bit_iff using that by auto
  have "q_path (Suc d) x y = q_path (Suc d) x' y' \<longleftrightarrow>
      (bit x 15 = bit x' 15 \<and> bit y 15 = bit y' 15)
    \<and> (\<forall>n. 16 - d \<le> n \<and> n < 16 \<longrightarrow> bit x (n - 1) = bit x' (n - 1) \<and> bit y (n - 1) = bit y' (n - 1))"
  proof -
    have "q_path d (push_bit 1 x) (push_bit 1 y) = q_path d (push_bit 1 x') (push_bit 1 y')
      \<longleftrightarrow> (\<forall>n. 16 - d \<le> n \<and> n < 16 \<longrightarrow> bit (push_bit 1 x) n = bit (push_bit 1 x') n
            \<and> bit (push_bit 1 y) n = bit (push_bit 1 y') n)"
      by (rule Suc.IH) (use Suc.prems in simp)
    also have "\<dots> \<longleftrightarrow> (\<forall>n. 16 - d \<le> n \<and> n < 16 \<longrightarrow> bit x (n - 1) = bit x' (n - 1)
            \<and> bit y (n - 1) = bit y' (n - 1))"
    proof (intro all_cong1 imp_cong refl)
      fix n assume n: "16 - d \<le> n \<and> n < 16"
      then have "n < 16" "1 \<le> n" using Suc.prems by auto
      then show "(bit (push_bit 1 x) n = bit (push_bit 1 x') n \<and> bit (push_bit 1 y) n = bit (push_bit 1 y') n)
          = (bit x (n - 1) = bit x' (n - 1) \<and> bit y (n - 1) = bit y' (n - 1))"
        by (simp only: b) simp
    qed
    finally show ?thesis unfolding q_path.simps list.inject q_index_inject by blast
  qed
  also have "\<dots> \<longleftrightarrow> (\<forall>n. 16 - Suc d \<le> n \<and> n < 16 \<longrightarrow> bit x n = bit x' n \<and> bit y n = bit y' n)"
    (is "?l \<longleftrightarrow> ?r")
  proof
    assume l: ?l
    show ?r
    proof (intro allI impI)
      fix n assume n: "16 - Suc d \<le> n \<and> n < 16"
      show "bit x n = bit x' n \<and> bit y n = bit y' n"
      proof (cases "n = 15")
        case False
        with n have "16 - d \<le> Suc n \<and> Suc n < 16" by auto
        with l have "bit x (Suc n - 1) = bit x' (Suc n - 1) \<and> bit y (Suc n - 1) = bit y' (Suc n - 1)" by blast
        then show ?thesis by simp
      qed (use l in auto)
    qed
  next
    assume r: ?r
    show ?l
    proof (intro conjI allI impI)
      fix n assume n: "16 - d \<le> n \<and> n < 16"
      with Suc.prems have "16 - Suc d \<le> n - 1 \<and> n - 1 < 16" by auto
      with r show "bit x (n - 1) = bit x' (n - 1)" "bit y (n - 1) = bit y' (n - 1)" by blast+
    qed (use r Suc.prems in auto)
  qed
  finally show ?case .
qed

lemma q_path_ckey: "q_path 13 x y = q_path 13 x' y' \<longleftrightarrow> ckey x = ckey x' \<and> ckey y = ckey y'"
  using q_path_bits [of 13 x y x' y'] by (auto simp: ckey_bits)

lemma ckey_mod: "ckey x = (unat x div 8) mod 8192"
  using mod_mult2_eq [of "unat x" 8 8192] by (simp add: ckey_def)

lemma ckey_less: "ckey x < 8192"
  by (simp add: ckey_mod)

lemma ckey_add: "ckey (x + FLOOR_SIZE) = (if ckey x = 8191 then 0 else ckey x + 1)"
proof -
  have "ckey (x + FLOOR_SIZE) = (unat (x + 8) mod 65536) div 8" by (simp add: ckey_def FLOOR_SIZE_8)
  also have "unat (x + 8) mod 65536 = (unat x + 8) mod 65536"
    by (simp add: unat_word_ariths mod_mod_cancel)
  also have "\<dots> div 8 = ((unat x + 8) div 8) mod 8192"
    using mod_mult2_eq [of "unat x + 8" 8 8192] by simp
  also have "(unat x + 8) div 8 = unat x div 8 + 1" by (rule div_add_self2) simp
  also have "(unat x div 8 + 1) mod 8192 = (ckey x + 1) mod 8192" by (simp add: ckey_mod mod_simps)
  finally show ?thesis using ckey_less [of x] by (auto simp: less_Suc_eq)
qed

lemma ckey_add_inject: "ckey (x + FLOOR_SIZE) = ckey (x' + FLOOR_SIZE) \<longleftrightarrow> ckey x = ckey x'"
  by (simp add: ckey_add)

lemma ckey_sub_iff: "ckey x = ckey (X - FLOOR_SIZE) \<longleftrightarrow> ckey (x + FLOOR_SIZE) = ckey X"
  using ckey_add_inject [of x "X - FLOOR_SIZE"] by simp

lemma ckey_not_shift: "ckey (x + FLOOR_SIZE) \<noteq> ckey x"
  by (simp add: ckey_add)

end
