(* ===== verification/World_Map.thy ===== *)
theory World_Map
  imports Quad_Tree
begin

text \<open>
  The tiles and creatures of the map: leaves with their floors, their creature lists and the links to
  the next leaf to the south and to the east, \<open>Map::getTile\<close>, \<open>Map::setTile\<close> and the ownership of
  creatures (\<^verbatim>\<open>src/src/map.h\<close>, \<^verbatim>\<open>map.cpp\<close>). A tile is the number of an object; what
  is inside a tile does not matter here.
\<close>

type_synonym floor = "nat \<times> nat \<Rightarrow> nat option"

record leaf =
  lf_S :: "nat option"
  lf_E :: "nat option"
  lf_array :: "floor option list"
  lf_creatures :: "nat list"
  lf_players :: "nat list"

record world =
  w_root :: qnode
  w_leaves :: "leaf list"

definition MAP_MAX_LAYERS :: nat where "MAP_MAX_LAYERS = 16"

definition new_leaf :: leaf where
  "new_leaf = \<lparr> lf_S = None, lf_E = None, lf_array = replicate MAP_MAX_LAYERS None,
     lf_creatures = [], lf_players = [] \<rparr>"

definition empty_world :: world where
  "empty_world = \<lparr> w_root = QInner None None None None, w_leaves = [] \<rparr>"

text \<open>\<open>Map::getQTNode\<close>.\<close>

definition getQTNode :: "world \<Rightarrow> u16 \<Rightarrow> u16 \<Rightarrow> nat option" where
  "getQTNode m x y = getLeafStatic (w_root m) (ucast x) (ucast y)"

definition getTile :: "world \<Rightarrow> u16 \<Rightarrow> u16 \<Rightarrow> u8 \<Rightarrow> nat option" where
  "getTile m x y z =
     (if unat z \<ge> MAP_MAX_LAYERS then None
      else
        (case getLeafStatic (w_root m) (ucast x) (ucast y) of
           None \<Rightarrow> None
         | Some i \<Rightarrow>
             (case lf_array (w_leaves m ! i) ! unat z of
                None \<Rightarrow> None
              | Some fl \<Rightarrow> fl (unat ((ucast x :: u32) AND FLOOR_MASK), unat ((ucast y :: u32) AND FLOOR_MASK)))))"

definition createFloor :: "nat \<Rightarrow> leaf \<Rightarrow> floor \<times> leaf" where
  "createFloor z lf =
     (case lf_array lf ! z of
        Some fl \<Rightarrow> (fl, lf)
      | None \<Rightarrow> (\<lambda>_. None, lf \<lparr> lf_array := (lf_array lf)[z := Some (\<lambda>_. None)] \<rparr>))"

text \<open>What happens to the tile that is handed to \<open>setTile\<close>: it is kept, its contents are added to the
  tile that is already there (and it is deleted), or it is refused (and leaks).\<close>

datatype tile_fate = TileStored | TileMerged nat | TileRefused

definition set_leaf :: "nat \<Rightarrow> (leaf \<Rightarrow> leaf) \<Rightarrow> leaf list \<Rightarrow> leaf list" where
  "set_leaf i f ls = ls[i := f (ls ! i)]"

definition set_leaf_opt :: "nat option \<Rightarrow> (leaf \<Rightarrow> leaf) \<Rightarrow> leaf list \<Rightarrow> leaf list" where
  "set_leaf_opt oi f ls = (case oi of None \<Rightarrow> ls | Some i \<Rightarrow> set_leaf i f ls)"

text \<open>The links that a new leaf takes part in.\<close>

definition link_leaf :: "qnode \<Rightarrow> nat \<Rightarrow> u32 \<Rightarrow> u32 \<Rightarrow> leaf list \<Rightarrow> leaf list" where
  "link_leaf root i x y ls =
     (let ls1 = set_leaf_opt (getLeaf root x (y - FLOOR_SIZE)) (\<lambda>l. l \<lparr> lf_S := Some i \<rparr>) ls;
          ls2 = set_leaf_opt (getLeaf root (x - FLOOR_SIZE) y) (\<lambda>l. l \<lparr> lf_E := Some i \<rparr>) ls1;
          ls3 = (case getLeaf root x (y + FLOOR_SIZE) of None \<Rightarrow> ls2
                 | Some s \<Rightarrow> set_leaf i (\<lambda>l. l \<lparr> lf_S := Some s \<rparr>) ls2)
      in case getLeaf root (x + FLOOR_SIZE) y of None \<Rightarrow> ls3
         | Some e \<Rightarrow> set_leaf i (\<lambda>l. l \<lparr> lf_E := Some e \<rparr>) ls3)"

definition setTile :: "u16 \<Rightarrow> u16 \<Rightarrow> u8 \<Rightarrow> nat \<Rightarrow> world \<Rightarrow> (tile_fate \<times> world) option" where
  "setTile x y z newTile m =
     (if unat z \<ge> MAP_MAX_LAYERS then Some (TileRefused, m)
      else
        (case createLeaf (length (w_leaves m)) 15 (w_root m) (ucast x) (ucast y) of
           None \<Rightarrow> None
         | Some (i, new, root) \<Rightarrow>
             (let ls = (if new then link_leaf root i (ucast x) (ucast y) (w_leaves m @ [new_leaf])
                        else w_leaves m);
                  (fl, lf) = createFloor (unat z) (ls ! i);
                  offsetX = unat ((ucast x :: u32) AND FLOOR_MASK);
                  offsetY = unat ((ucast y :: u32) AND FLOOR_MASK)
              in case fl (offsetX, offsetY) of
                   Some tile \<Rightarrow> Some (TileMerged tile, \<lparr> w_root = root, w_leaves = ls[i := lf] \<rparr>)
                 | None \<Rightarrow> Some (TileStored, \<lparr> w_root = root, w_leaves =
                     ls[i := lf \<lparr> lf_array := (lf_array lf)[unat z :=
                              Some (fl((offsetX, offsetY) \<mapsto> newTile))] \<rparr>] \<rparr>))))"

subsection \<open>Invariant\<close>

definition same_cell :: "u32 \<Rightarrow> u32 \<Rightarrow> u32 \<Rightarrow> u32 \<Rightarrow> bool" where
  "same_cell x y x' y' \<longleftrightarrow> ckey x = ckey x' \<and> ckey y = ckey y'"

definition world_ok :: "world \<Rightarrow> bool" where
  "world_ok m \<longleftrightarrow> q_wf 13 (w_root m)
     \<and> (\<forall>x y i. getLeaf (w_root m) x y = Some i \<longrightarrow>
          i < length (w_leaves m) \<and> length (lf_array (w_leaves m ! i)) = 16
        \<and> lf_S (w_leaves m ! i) = getLeaf (w_root m) x (y + FLOOR_SIZE)
        \<and> lf_E (w_leaves m ! i) = getLeaf (w_root m) (x + FLOOR_SIZE) y
        \<and> (\<forall>x' y'. getLeaf (w_root m) x' y' = Some i \<longrightarrow> same_cell x y x' y'))"

lemma world_okD:
  assumes "world_ok m" "getLeaf (w_root m) x y = Some i"
  shows "i < length (w_leaves m)" "length (lf_array (w_leaves m ! i)) = 16"
    "lf_S (w_leaves m ! i) = getLeaf (w_root m) x (y + FLOOR_SIZE)"
    "lf_E (w_leaves m ! i) = getLeaf (w_root m) (x + FLOOR_SIZE) y"
    "getLeaf (w_root m) x' y' = Some i \<Longrightarrow> same_cell x y x' y'"
  using assms unfolding world_ok_def by blast+

lemma getLeaf_same_cell: "q_wf 13 n \<Longrightarrow> same_cell x y x' y' \<Longrightarrow> getLeaf n x y = getLeaf n x' y'"
  using q_path_ckey [of x y x' y'] by (simp add: getLeaf_walk same_cell_def)

lemma getLeafStatic_13: "q_wf 13 n \<Longrightarrow> getLeafStatic n x y = getLeaf n x y"
  using getLeafStatic_getLeaf [of 12 n x y] by simp

lemma empty_world_ok: "world_ok empty_world"
proof -
  have e: "(13 :: nat) = Suc 12" by simp
  have "q_wf 13 (QInner None None None None)" unfolding e q_wf.simps by simp
  moreover have "getLeaf (QInner None None None None) x y = None" for x y
    by (subst getLeaf.simps) simp
  ultimately show ?thesis by (simp add: world_ok_def empty_world_def)
qed

lemma createLeaf_world:
  assumes "q_wf 13 root"
  shows "\<exists>i new root'. createLeaf fresh 15 root x y = Some (i, new, root') \<and> q_wf 13 root'
    \<and> new = (getLeaf root x y = None)
    \<and> i = (case getLeaf root x y of None \<Rightarrow> fresh | Some j \<Rightarrow> j)
    \<and> (\<forall>x' y'. getLeaf root' x' y' = (if same_cell x' y' x y then Some i else getLeaf root x' y'))"
proof -
  obtain i new root' where c: "createLeaf fresh 15 root x y = Some (i, new, root')" "q_wf 13 root'"
    "new = (walk (q_path 13 x y) root = None)"
    "i = (case walk (q_path 13 x y) root of None \<Rightarrow> fresh | Some j \<Rightarrow> j)"
    "\<And>p. length p = 13 \<Longrightarrow> (\<forall>k \<in> set p. k < 4) \<Longrightarrow>
          walk p root' = (if p = q_path 13 x y then Some i else walk p root)"
    using createLeaf_spec [OF assms, of 15 fresh x y] by auto
  have "getLeaf root' x' y' = (if same_cell x' y' x y then Some i else getLeaf root x' y')" for x' y'
    using c(5) [of "q_path 13 x' y'"] q_path_digits [of 13 x' y'] q_path_ckey [of x' y' x y]
    by (simp add: getLeaf_walk [OF c(2)] getLeaf_walk [OF assms] same_cell_def)
  with c show ?thesis by (simp add: getLeaf_walk [OF assms])
qed

lemma set_leaf_opt_nth:
  "set_leaf_opt oi f ls ! j = (if oi = Some j \<and> j < length ls then f (ls ! j) else ls ! j)"
  by (cases oi; cases "oi = Some j"; cases "j < length ls") (auto simp: set_leaf_opt_def set_leaf_def list_update_beyond)

lemma length_set_leaf [simp]:
  "length (set_leaf_opt oi f ls) = length ls" "length (set_leaf i f ls) = length ls"
  by (simp_all add: set_leaf_opt_def set_leaf_def split: option.split)

lemma set_leaf_nth: "set_leaf i f ls ! j = (if i = j \<and> j < length ls then f (ls ! j) else ls ! j)"
  by (cases "i = j"; cases "j < length ls") (auto simp: set_leaf_def list_update_beyond)

lemma length_link_leaf [simp]: "length (link_leaf root i x y ls) = length ls"
  by (simp add: link_leaf_def Let_def split: option.split)

text \<open>The links after a leaf was added.\<close>

lemma link_leaf_nth:
  assumes "j < length ls" "i < length ls" "lf_S (ls ! i) = None" "lf_E (ls ! i) = None"
    and "getLeaf root x (y - FLOOR_SIZE) \<noteq> Some i" "getLeaf root (x - FLOOR_SIZE) y \<noteq> Some i"
  shows "link_leaf root i x y ls ! j = (ls ! j) \<lparr>
      lf_S := (if j = i then getLeaf root x (y + FLOOR_SIZE)
               else if getLeaf root x (y - FLOOR_SIZE) = Some j then Some i else lf_S (ls ! j)),
      lf_E := (if j = i then getLeaf root (x + FLOOR_SIZE) y
               else if getLeaf root (x - FLOOR_SIZE) y = Some j then Some i else lf_E (ls ! j)) \<rparr>"
  using assms
  by (auto simp: link_leaf_def Let_def set_leaf_opt_nth set_leaf_nth split: option.split)

lemma same_cell_refl [simp]: "same_cell x y x y" by (simp add: same_cell_def)

lemma same_cell_sym: "same_cell x y x' y' \<longleftrightarrow> same_cell x' y' x y" by (auto simp: same_cell_def)

lemma same_cell_shift:
  "same_cell x y X (Y - FLOOR_SIZE) \<longleftrightarrow> same_cell x (y + FLOOR_SIZE) X Y"
  "same_cell x y (X - FLOOR_SIZE) Y \<longleftrightarrow> same_cell (x + FLOOR_SIZE) y X Y"
  "same_cell x y X Y \<Longrightarrow> same_cell x (y + FLOOR_SIZE) X (Y + FLOOR_SIZE)"
  "same_cell x y X Y \<Longrightarrow> same_cell (x + FLOOR_SIZE) y (X + FLOOR_SIZE) Y"
  by (auto simp: same_cell_def ckey_sub_iff ckey_add_inject)

lemma same_cell_not_shift:
  "\<not> same_cell x (y - FLOOR_SIZE) x y" "\<not> same_cell (x - FLOOR_SIZE) y x y"
  unfolding same_cell_def using ckey_not_shift [of "y - FLOOR_SIZE"] ckey_not_shift [of "x - FLOOR_SIZE"]
  by (metis diff_add_cancel)+

text \<open>The world after the leaf of a tile was found or made; \<open>setTile\<close> changes only floors after that.\<close>

lemma created_leaf_ok:
  assumes "world_ok m"
    and "createLeaf (length (w_leaves m)) 15 (w_root m) x y = Some (i, new, root)"
  defines "ls \<equiv> (if new then link_leaf root i x y (w_leaves m @ [new_leaf]) else w_leaves m)"
  shows "world_ok \<lparr> w_root = root, w_leaves = ls \<rparr>" "getLeaf root x y = Some i"
    "\<And>x' y' j. getLeaf root x' y' = Some j \<Longrightarrow> \<not> same_cell x' y' x y \<Longrightarrow>
       getLeaf (w_root m) x' y' = Some j \<and> j < length (w_leaves m)
     \<and> lf_array (ls ! j) = lf_array (w_leaves m ! j)
     \<and> lf_creatures (ls ! j) = lf_creatures (w_leaves m ! j)
     \<and> lf_players (ls ! j) = lf_players (w_leaves m ! j)"
    "\<And>x' y'. \<not> same_cell x' y' x y \<Longrightarrow> getLeaf root x' y' = getLeaf (w_root m) x' y'"
    "new \<Longrightarrow> lf_array (ls ! i) = replicate 16 None \<and> lf_creatures (ls ! i) = [] \<and> lf_players (ls ! i) = []"
    "new = (getLeaf (w_root m) x y = None)" "\<not> new \<Longrightarrow> getLeaf (w_root m) x y = Some i"
proof -
  let ?n = "length (w_leaves m)"
  have wf: "q_wf 13 (w_root m)" using assms(1) by (simp add: world_ok_def)
  have wf': "q_wf 13 root" and new: "new = (getLeaf (w_root m) x y = None)"
    and i: "i = (case getLeaf (w_root m) x y of None \<Rightarrow> ?n | Some j \<Rightarrow> j)"
    and g: "\<And>x' y'. getLeaf root x' y' = (if same_cell x' y' x y then Some i else getLeaf (w_root m) x' y')"
    using createLeaf_world [OF wf, of ?n x y] assms(2) by auto
  show "getLeaf root x y = Some i" by (simp add: g)
  show "new = (getLeaf (w_root m) x y = None)" by (rule new)
  show 7: "\<not> new \<Longrightarrow> getLeaf (w_root m) x y = Some i" using new i by auto
  show "\<not> same_cell x' y' x y \<Longrightarrow> getLeaf root x' y' = getLeaf (w_root m) x' y'" for x' y' by (simp add: g)
  have old: "getLeaf (w_root m) x' y' = Some j \<and> j < ?n \<and> j \<noteq> i"
    if "getLeaf root x' y' = Some j" "\<not> same_cell x' y' x y" for x' y' j
  proof -
    have o: "getLeaf (w_root m) x' y' = Some j" "j < ?n"
      using that g world_okD(1) [OF assms(1)] by auto
    show ?thesis
    proof (cases new)
      case True
      then show ?thesis using o new i by simp
    next
      case False
      then show ?thesis using o 7 world_okD(5) [OF assms(1) o(1)] that(2) by blast
    qed
  qed
  show "world_ok \<lparr> w_root = root, w_leaves = ls \<rparr>"
  proof (cases new)
    case False
    then have "getLeaf root x' y' = getLeaf (w_root m) x' y'" for x' y'
      using g getLeaf_same_cell [OF wf, of x' y' x y] 7 by auto
    then show ?thesis using assms(1) False wf' by (simp add: world_ok_def ls_def)
  next
    case True
    then have i_n: "i = ?n" using new i by simp
    let ?ls = "w_leaves m @ [new_leaf]"
    have nb: "getLeaf root x (y - FLOOR_SIZE) \<noteq> Some i" "getLeaf root (x - FLOOR_SIZE) y \<noteq> Some i"
      using old same_cell_not_shift by blast+
    have l: "ls ! j = (?ls ! j) \<lparr>
      lf_S := (if j = i then getLeaf root x (y + FLOOR_SIZE)
               else if getLeaf root x (y - FLOOR_SIZE) = Some j then Some i else lf_S (?ls ! j)),
      lf_E := (if j = i then getLeaf root (x + FLOOR_SIZE) y
               else if getLeaf root (x - FLOOR_SIZE) y = Some j then Some i else lf_E (?ls ! j)) \<rparr>"
      if "j < Suc ?n" for j
      using link_leaf_nth [of j ?ls i root x y] that nb True
      by (simp add: ls_def i_n new_leaf_def)
    have len: "length ls = Suc ?n" using True by (simp add: ls_def)
    have body: "j < length ls \<and> length (lf_array (ls ! j)) = 16
        \<and> lf_S (ls ! j) = getLeaf root x' (y' + FLOOR_SIZE)
        \<and> lf_E (ls ! j) = getLeaf root (x' + FLOOR_SIZE) y'
        \<and> (\<forall>x'' y''. getLeaf root x'' y'' = Some j \<longrightarrow> same_cell x' y' x'' y'')"
      if j: "getLeaf root x' y' = Some j" for x' y' j
    proof (cases "same_cell x' y' x y")
      case True
      then have ji: "j = i" using j g by simp
      have inj: "same_cell x' y' x'' y''" if "getLeaf root x'' y'' = Some j" for x'' y''
      proof -
        have "same_cell x'' y'' x y" using old [OF that] ji by blast
        with True show ?thesis by (simp add: same_cell_def)
      qed
      have "getLeaf root x' (y' + FLOOR_SIZE) = getLeaf root x (y + FLOOR_SIZE)"
        "getLeaf root (x' + FLOOR_SIZE) y' = getLeaf root (x + FLOOR_SIZE) y"
        using True by (auto intro!: getLeaf_same_cell [OF wf'] same_cell_shift(3,4))
      then show ?thesis using l [of j] inj by (simp add: ji i_n len new_leaf_def MAP_MAX_LAYERS_def nth_append)
    next
      case False
      note o = old [OF j False]
      have m: "length (lf_array (w_leaves m ! j)) = 16"
        "lf_S (w_leaves m ! j) = getLeaf (w_root m) x' (y' + FLOOR_SIZE)"
        "lf_E (w_leaves m ! j) = getLeaf (w_root m) (x' + FLOOR_SIZE) y'"
        using world_okD [OF assms(1), of x' y' j] o by auto
      have inj: "same_cell x' y' x'' y''" if "getLeaf root x'' y'' = Some j" for x'' y''
        using that g [of x'' y''] o world_okD(5) [OF assms(1), of x' y' j] by (auto split: if_splits)
      have s: "getLeaf root x (y - FLOOR_SIZE) = Some j \<longleftrightarrow> same_cell x' (y' + FLOOR_SIZE) x y"
        using inj j getLeaf_same_cell [OF wf', of x' y' x "y - FLOOR_SIZE"] same_cell_shift(1) by metis
      have e: "getLeaf root (x - FLOOR_SIZE) y = Some j \<longleftrightarrow> same_cell (x' + FLOOR_SIZE) y' x y"
        using inj j getLeaf_same_cell [OF wf', of x' y' "x - FLOOR_SIZE" y] same_cell_shift(2) by metis
      have "lf_S (ls ! j) = getLeaf root x' (y' + FLOOR_SIZE)" "lf_E (ls ! j) = getLeaf root (x' + FLOOR_SIZE) y'"
        "length (lf_array (ls ! j)) = 16"
        using l [of j, unfolded s e] o m by (simp_all add: g nth_append)
      then show ?thesis using inj o len by auto
    qed
    then show ?thesis using wf' by (simp add: world_ok_def)
  qed
  show "getLeaf (w_root m) x' y' = Some j \<and> j < ?n
     \<and> lf_array (ls ! j) = lf_array (w_leaves m ! j)
     \<and> lf_creatures (ls ! j) = lf_creatures (w_leaves m ! j)
     \<and> lf_players (ls ! j) = lf_players (w_leaves m ! j)"
    if "getLeaf root x' y' = Some j" "\<not> same_cell x' y' x y" for x' y' j
  proof (cases new)
    case False
    then show ?thesis using old [OF that] by (simp add: ls_def)
  next
    case True
    then have i_n: "i = ?n" using new i by simp
    have nb: "getLeaf root x (y - FLOOR_SIZE) \<noteq> Some i" "getLeaf root (x - FLOOR_SIZE) y \<noteq> Some i"
      using old same_cell_not_shift by blast+
    show ?thesis using link_leaf_nth [of j "w_leaves m @ [new_leaf]" i root x y] old [OF that] nb True
      by (simp add: ls_def i_n new_leaf_def nth_append)
  qed
  show "lf_array (ls ! i) = replicate 16 None \<and> lf_creatures (ls ! i) = [] \<and> lf_players (ls ! i) = []" if new
  proof -
    have i_n: "i = ?n" using that new i by simp
    have nb: "getLeaf root x (y - FLOOR_SIZE) \<noteq> Some i" "getLeaf root (x - FLOOR_SIZE) y \<noteq> Some i"
      using old same_cell_not_shift by blast+
    show ?thesis using link_leaf_nth [of i "w_leaves m @ [new_leaf]" i root x y] nb that
      by (simp add: ls_def i_n new_leaf_def nth_append MAP_MAX_LAYERS_def)
  qed
qed

subsection \<open>Tiles\<close>

lemma unat_ucast_16_32 [simp]: "unat (ucast (w :: u16) :: u32) = unat w"
  using unat_u16_bound [of w] by (simp add: unsigned_ucast_eq take_bit_nat_eq_self_iff)

lemma tile_coords:
  fixes x y :: u16
  assumes "ckey (ucast x) = ckey (ucast y)"
    and "unat ((ucast x :: u32) AND FLOOR_MASK) = unat ((ucast y :: u32) AND FLOOR_MASK)"
  shows "x = y"
proof -
  have m: "FLOOR_MASK = mask 3" by (simp add: FLOOR_MASK_def FLOOR_SIZE_8 mask_eq_exp_minus_1)
  have low: "unat ((ucast w :: u32) AND FLOOR_MASK) = unat w mod 8" for w :: u16
    unfolding m take_bit_eq_mask [symmetric] unsigned_take_bit_eq
    by (simp add: take_bit_eq_mod)
  have high: "ckey (ucast w) = unat w div 8" for w :: u16
    using unat_u16_bound [of w] by (simp add: ckey_mod)
  have "unat x = unat y" using assms unfolding low high by (metis div_mult_mod_eq)
  then show ?thesis by (simp add: word_unat_eq_iff)
qed

lemma world_ok_update:
  assumes "world_ok m" "lf_S lf = lf_S (w_leaves m ! i)" "lf_E lf = lf_E (w_leaves m ! i)"
    "length (lf_array lf) = length (lf_array (w_leaves m ! i))"
  shows "world_ok \<lparr> w_root = w_root m, w_leaves = (w_leaves m)[i := lf] \<rparr>"
proof -
  have "(w_leaves m)[i := lf] ! j = (if i = j \<and> j < length (w_leaves m) then lf else w_leaves m ! j)" for j
    by (cases "i = j"; cases "j < length (w_leaves m)") (auto simp: list_update_beyond)
  with assms show ?thesis by (auto simp: world_ok_def)
qed

lemma getTile_ok:
  "world_ok m \<Longrightarrow> unat z < 16 \<Longrightarrow> getTile m x y z =
     (case getLeaf (w_root m) (ucast x) (ucast y) of None \<Rightarrow> None
      | Some i \<Rightarrow> (case lf_array (w_leaves m ! i) ! unat z of None \<Rightarrow> None
          | Some fl \<Rightarrow> fl (unat ((ucast x :: u32) AND FLOOR_MASK), unat ((ucast y :: u32) AND FLOOR_MASK))))"
  by (simp add: getTile_def world_ok_def getLeafStatic_13 MAP_MAX_LAYERS_def)

lemma getTile_high: "16 \<le> unat z \<Longrightarrow> getTile m x y z = None"
  by (simp add: getTile_def MAP_MAX_LAYERS_def)

lemma setTile_correct:
  assumes "world_ok m" "unat z < 16"
  shows "\<exists>fate m'. setTile x y z t m = Some (fate, m') \<and> world_ok m'
    \<and> (case getTile m x y z of
         None \<Rightarrow> fate = TileStored \<and> (\<forall>x' y' z'. getTile m' x' y' z' =
           (if x' = x \<and> y' = y \<and> z' = z then Some t else getTile m x' y' z'))
       | Some old \<Rightarrow> fate = TileMerged old \<and> (\<forall>x' y' z'. getTile m' x' y' z' = getTile m x' y' z'))"
proof -
  let ?x = "ucast x :: u32" and ?y = "ucast y :: u32"
  have wf: "q_wf 13 (w_root m)" using assms(1) by (simp add: world_ok_def)
  obtain i new root where c: "createLeaf (length (w_leaves m)) 15 (w_root m) ?x ?y = Some (i, new, root)"
    using createLeaf_world [OF wf] by blast
  define ls where "ls = (if new then link_leaf root i ?x ?y (w_leaves m @ [new_leaf]) else w_leaves m)"
  note C = created_leaf_ok [OF assms(1) c, folded ls_def]
  define m1 where "m1 = \<lparr> w_root = root, w_leaves = ls \<rparr>"
  have ok1: "world_ok m1" and g1: "getLeaf root ?x ?y = Some i" using C(1,2) by (simp_all add: m1_def)
  have i: "i < length ls" "length (lf_array (ls ! i)) = 16"
    using world_okD [OF ok1, of ?x ?y i] g1 by (simp_all add: m1_def)
  define fl lf where "fl = fst (createFloor (unat z) (ls ! i))" and "lf = snd (createFloor (unat z) (ls ! i))"
  have lf: "lf_array lf = (lf_array (ls ! i))[unat z := Some fl]" "lf_S lf = lf_S (ls ! i)" "lf_E lf = lf_E (ls ! i)"
    using i(2) assms(2)
    by (auto simp: fl_def lf_def createFloor_def split: option.split) (metis list_update_id)
  have fl: "fl = (case lf_array (ls ! i) ! unat z of None \<Rightarrow> (\<lambda>_. None) | Some f \<Rightarrow> f)"
    by (simp add: fl_def createFloor_def split: option.split)
  let ?o = "\<lambda>x y :: u16. (unat ((ucast x :: u32) AND FLOOR_MASK), unat ((ucast y :: u32) AND FLOOR_MASK))"
  have T1: "getTile m1 x' y' z' = getTile m x' y' z'" for x' y' z'
  proof (cases "unat z' < 16")
    case True
    show ?thesis
    proof (cases "same_cell (ucast x') (ucast y') ?x ?y")
      case False
      then have "getLeaf root (ucast x') (ucast y') = getLeaf (w_root m) (ucast x') (ucast y')"
        by (rule C(4))
      moreover have "lf_array (ls ! j) = lf_array (w_leaves m ! j)"
        if "getLeaf root (ucast x') (ucast y') = Some j" for j
        using C(3) [OF that False] by simp
      ultimately show ?thesis
        unfolding getTile_ok [OF ok1 True] getTile_ok [OF assms(1) True]
        by (simp add: m1_def split: option.split)
    next
      case same: True
      have wf1: "q_wf 13 root" using ok1 by (simp add: world_ok_def m1_def)
      have r: "getLeaf root (ucast x') (ucast y') = Some i"
        using getLeaf_same_cell [OF wf1 same] g1 by simp
      have o: "getLeaf (w_root m) (ucast x') (ucast y') = getLeaf (w_root m) ?x ?y"
        by (rule getLeaf_same_cell [OF wf same])
      show ?thesis
      proof (cases new)
        case True
        then show ?thesis using C(5,6) r o \<open>unat z' < 16\<close>
          unfolding getTile_ok [OF ok1 \<open>unat z' < 16\<close>] getTile_ok [OF assms(1) \<open>unat z' < 16\<close>]
          by (simp add: m1_def)
      next
        case False
        then show ?thesis using C(7) r o
          unfolding getTile_ok [OF ok1 \<open>unat z' < 16\<close>] getTile_ok [OF assms(1) \<open>unat z' < 16\<close>]
          by (simp add: m1_def ls_def)
      qed
    qed
  qed (simp add: getTile_high)
  have upd: "world_ok \<lparr> w_root = root, w_leaves = ls[i := l'] \<rparr>"
    and T2: "\<And>x' y' z'. getTile \<lparr> w_root = root, w_leaves = ls[i := l'] \<rparr> x' y' z' =
      (if same_cell (ucast x') (ucast y') ?x ?y \<and> z' = z then fl' (?o x' y') else getTile m x' y' z')"
    if l': "lf_array l' = (lf_array (ls ! i))[unat z := Some fl']" "lf_S l' = lf_S (ls ! i)"
      "lf_E l' = lf_E (ls ! i)" for l' fl'
  proof -
    show ok2: "world_ok \<lparr> w_root = root, w_leaves = ls[i := l'] \<rparr>"
      using world_ok_update [OF ok1, of l' i] l' by (simp add: m1_def)
    show "getTile \<lparr> w_root = root, w_leaves = ls[i := l'] \<rparr> x' y' z' =
      (if same_cell (ucast x') (ucast y') ?x ?y \<and> z' = z then fl' (?o x' y') else getTile m x' y' z')"
      for x' y' z'
    proof (cases "unat z' < 16")
      case True
      have r: "getLeaf root (ucast x') (ucast y') = Some i \<longleftrightarrow> same_cell (ucast x') (ucast y') ?x ?y"
        using world_okD(5) [OF ok1, of ?x ?y i] g1 getLeaf_same_cell [of root "ucast x'" "ucast y'" ?x ?y] ok1
        by (auto simp: m1_def world_ok_def same_cell_sym)
      show ?thesis
      proof (cases "same_cell (ucast x') (ucast y') ?x ?y")
        case s: True
        have z: "unat z' = unat z \<longleftrightarrow> z' = z" by (simp add: word_unat_eq_iff)
        show ?thesis
          unfolding T1 [symmetric] getTile_ok [OF ok2 True] getTile_ok [OF ok1 True]
          using s r i l'(1) assms(2) True z by (cases "z' = z") (simp_all add: m1_def)
      next
        case False
        then have "getLeaf root (ucast x') (ucast y') \<noteq> Some i" using r by simp
        then show ?thesis
          unfolding T1 [symmetric] getTile_ok [OF ok2 True] getTile_ok [OF ok1 True]
          using False by (auto simp: m1_def split: option.split)
      qed
    next
      case False
      then show ?thesis using assms(2) by (auto simp: getTile_high)
    qed
  qed
  have flT: "fl (?o x' y') = getTile m x' y' z" if "same_cell (ucast x') (ucast y') ?x ?y" for x' y'
  proof -
    have "getLeaf root (ucast x') (ucast y') = Some i"
      using getLeaf_same_cell [OF _ that, of root] ok1 g1 by (simp add: m1_def world_ok_def)
    then show ?thesis unfolding T1 [symmetric] getTile_ok [OF ok1 assms(2)]
      by (simp add: m1_def fl split: option.split)
  qed
  have cf: "createFloor (unat z) (ls ! i) = (fl, lf)" by (simp add: fl_def lf_def)
  have st: "setTile x y z t m = (case getTile m x y z of
      Some tile \<Rightarrow> Some (TileMerged tile, \<lparr> w_root = root, w_leaves = ls[i := lf] \<rparr>)
    | None \<Rightarrow> Some (TileStored, \<lparr> w_root = root, w_leaves = ls[i := lf \<lparr> lf_array :=
        (lf_array lf)[unat z := Some (fl(?o x y \<mapsto> t))] \<rparr>] \<rparr>))"
    unfolding setTile_def c option.case prod.case Let_def ls_def [symmetric] cf flT [of x y, simplified, symmetric]
    using assms(2) by (simp add: MAP_MAX_LAYERS_def)
  show ?thesis
  proof (cases "getTile m x y z")
    case None
    have "?o x' y' = ?o x y \<and> same_cell (ucast x') (ucast y') ?x ?y \<longleftrightarrow> x' = x \<and> y' = y" for x' y'
      using tile_coords [of x' x] tile_coords [of y' y] by (auto simp: same_cell_def)
    then show ?thesis
      using upd [of "lf \<lparr> lf_array := (lf_array lf)[unat z := Some (fl(?o x y \<mapsto> t))] \<rparr>" "fl(?o x y \<mapsto> t)"]
        T2 [of "lf \<lparr> lf_array := (lf_array lf)[unat z := Some (fl(?o x y \<mapsto> t))] \<rparr>" "fl(?o x y \<mapsto> t)"]
        lf flT None by (auto simp: st)
  next
    case (Some old)
    then show ?thesis using upd [of lf fl] T2 [of lf fl] lf flT by (auto simp: st)
  qed
qed

end
