(* ===== verification/Spectators.thy ===== *)
theory Spectators
  imports World_Map
begin

text \<open>
  Who sees a place: the creature lists of the leaves (\<open>addCreature\<close>, \<open>removeCreature\<close> and the change of
  ownership in \<open>Map::moveCreature\<close>), the scan of the leaves that a rectangle touches, which follows the
  links from leaf to leaf, and the caches of \<open>Map::getSpectators\<close> (\<^verbatim>\<open>src/src/map.cpp\<close>).
  A creature is a number; its position and whether it is a player are functions. The ranges are integers without
  bounds: the \<^verbatim>\<open>int32_t\<close> sums of the source with 16 bit coordinates agree for ranges up to
  2147418112, far beyond any range that is passed.
\<close>

subsection \<open>Creature lists\<close>

definition addCreature :: "nat \<Rightarrow> bool \<Rightarrow> leaf \<Rightarrow> leaf" where
  "addCreature c isPlayer lf =
     (let lf1 = lf \<lparr> lf_creatures := lf_creatures lf @ [c] \<rparr>
      in if isPlayer then lf1 \<lparr> lf_players := lf_players lf1 @ [c] \<rparr> else lf1)"

text \<open>The assertions that the creature is found are \<open>None\<close>.\<close>

definition removeCreature :: "nat \<Rightarrow> bool \<Rightarrow> leaf \<Rightarrow> leaf option" where
  "removeCreature c isPlayer lf =
     (case index_of c (lf_creatures lf) of
        None \<Rightarrow> None
      | Some i \<Rightarrow>
          (let lf1 = lf \<lparr> lf_creatures := swap_erase_at i (lf_creatures lf) \<rparr>
           in if isPlayer then
                (case index_of c (lf_players lf1) of
                   None \<Rightarrow> None
                 | Some k \<Rightarrow> Some (lf1 \<lparr> lf_players := swap_erase_at k (lf_players lf1) \<rparr>))
              else Some lf1))"

text \<open>A creature enters the map at a position (\<open>placeCreature\<close>); \<open>None\<close>: there is no leaf.\<close>

definition enterMap :: "nat \<Rightarrow> bool \<Rightarrow> position \<Rightarrow> world \<Rightarrow> world option" where
  "enterMap c isPlayer dest m =
     (case getQTNode m (px dest) (py dest) of
        None \<Rightarrow> None
      | Some i \<Rightarrow> Some (m \<lparr> w_leaves := (w_leaves m)[i := addCreature c isPlayer (w_leaves m ! i)] \<rparr>))"

text \<open>A creature leaves the map (\<open>Tile::removeCreature\<close>).\<close>

definition leaveMap :: "nat \<Rightarrow> bool \<Rightarrow> position \<Rightarrow> world \<Rightarrow> world option" where
  "leaveMap c isPlayer pos m =
     (case getQTNode m (px pos) (py pos) of
        None \<Rightarrow> None
      | Some i \<Rightarrow> map_option (\<lambda>lf. m \<lparr> w_leaves := (w_leaves m)[i := lf] \<rparr>)
          (removeCreature c isPlayer (w_leaves m ! i)))"

text \<open>\<open>moveCreature\<close>: the node ownership is switched when the leaf changes.\<close>

definition switchOwner :: "nat \<Rightarrow> bool \<Rightarrow> position \<Rightarrow> position \<Rightarrow> world \<Rightarrow> world option" where
  "switchOwner c isPlayer oldPos newPos m =
     (if getQTNode m (px oldPos) (py oldPos) = getQTNode m (px newPos) (py newPos) then Some m
      else Option.bind (leaveMap c isPlayer oldPos m) (enterMap c isPlayer newPos))"

subsection \<open>The scan\<close>

definition maxViewportX :: int where "maxViewportX = 11"
definition maxViewportY :: int where "maxViewportY = 11"

definition clamp16 :: "int \<Rightarrow> int" where
  "clamp16 v = min 65535 (max 0 v)"

definition leaf_list :: "world \<Rightarrow> bool \<Rightarrow> nat \<Rightarrow> nat list" where
  "leaf_list m onlyPlayers i =
     (if onlyPlayers then lf_players (w_leaves m ! i) else lf_creatures (w_leaves m ! i))"

definition in_view :: "position \<Rightarrow> int \<Rightarrow> int \<Rightarrow> int \<Rightarrow> int \<Rightarrow> int \<Rightarrow> int \<Rightarrow> position \<Rightarrow> bool" where
  "in_view centerPos minRangeX maxRangeX minRangeY maxRangeY minRangeZ maxRangeZ cpos =
     (let min_y = uint (py centerPos) + minRangeY; min_x = uint (px centerPos) + minRangeX;
          max_y = uint (py centerPos) + maxRangeY; max_x = uint (px centerPos) + maxRangeX;
          offsetZ = getOffsetZ centerPos cpos
      in \<not> (minRangeZ > uint (pz cpos) \<or> maxRangeZ < uint (pz cpos))
       \<and> \<not> (min_y + offsetZ > uint (py cpos) \<or> max_y + offsetZ < uint (py cpos)
            \<or> min_x + offsetZ > uint (px cpos) \<or> max_x + offsetZ < uint (px cpos)))"

text \<open>The values of a loop variable that starts at \<open>a\<close> and grows by eight up to \<open>b\<close>.\<close>

function floor_steps :: "int \<Rightarrow> int \<Rightarrow> int list" where
  "floor_steps a b = (if a \<le> b then a # floor_steps (a + 8) b else [])"
  by pat_completeness auto
termination by (relation "measure (\<lambda>(a, b). nat (b + 8 - a))") auto

declare floor_steps.simps [simp del]

fun scan_row :: "world \<Rightarrow> (nat \<Rightarrow> bool) \<Rightarrow> bool \<Rightarrow> int \<Rightarrow> int list \<Rightarrow> nat option \<Rightarrow> nat set \<Rightarrow> nat set" where
  "scan_row m see onlyPlayers ny [] leafE list = list"
| "scan_row m see onlyPlayers ny (nx # nxs) leafE list =
     (case leafE of
        Some i \<Rightarrow>
          scan_row m see onlyPlayers ny nxs (lf_E (w_leaves m ! i))
            (list \<union> set (filter see (leaf_list m onlyPlayers i)))
      | None \<Rightarrow>
          scan_row m see onlyPlayers ny nxs
            (getLeafStatic (w_root m) (word_of_int (nx + 8)) (word_of_int ny)) list)"

fun scan_rows :: "world \<Rightarrow> (nat \<Rightarrow> bool) \<Rightarrow> bool \<Rightarrow> int \<Rightarrow> int list \<Rightarrow> int list \<Rightarrow> nat option \<Rightarrow> nat set \<Rightarrow> nat set"
  where
  "scan_rows m see onlyPlayers startx1 nxs [] leafS list = list"
| "scan_rows m see onlyPlayers startx1 nxs (ny # nys) leafS list =
     (let list1 = scan_row m see onlyPlayers ny nxs leafS list
      in scan_rows m see onlyPlayers startx1 nxs nys
           (case leafS of
              Some i \<Rightarrow> lf_S (w_leaves m ! i)
            | None \<Rightarrow> getLeafStatic (w_root m) (word_of_int startx1) (word_of_int (ny + 8)))
           list1)"

definition getSpectatorsInternal ::
    "world \<Rightarrow> (nat \<Rightarrow> position) \<Rightarrow> nat set \<Rightarrow> position \<Rightarrow> int \<Rightarrow> int \<Rightarrow> int \<Rightarrow> int \<Rightarrow> int \<Rightarrow> int \<Rightarrow> bool \<Rightarrow> nat set"
  where
  "getSpectatorsInternal m cpos list centerPos minRangeX maxRangeX minRangeY maxRangeY minRangeZ maxRangeZ
       onlyPlayers =
     (let min_y = uint (py centerPos) + minRangeY; min_x = uint (px centerPos) + minRangeX;
          max_y = uint (py centerPos) + maxRangeY; max_x = uint (px centerPos) + maxRangeX;
          minoffset = uint (pz centerPos) - maxRangeZ;
          x1 = clamp16 (min_x + minoffset); y1 = clamp16 (min_y + minoffset);
          maxoffset = uint (pz centerPos) - minRangeZ;
          x2 = clamp16 (max_x + maxoffset); y2 = clamp16 (max_y + maxoffset);
          startx1 = x1 - x1 mod 8; starty1 = y1 - y1 mod 8;
          endx2 = x2 - x2 mod 8; endy2 = y2 - y2 mod 8
      in scan_rows m (\<lambda>c. in_view centerPos minRangeX maxRangeX minRangeY maxRangeY minRangeZ maxRangeZ (cpos c))
           onlyPlayers startx1 (floor_steps startx1 endx2) (floor_steps starty1 endy2)
           (getLeafStatic (w_root m) (word_of_int startx1) (word_of_int starty1)) list)"

record spectator_caches =
  spectatorCache :: "position \<rightharpoonup> nat set"
  playersSpectatorCache :: "position \<rightharpoonup> nat set"

definition clearSpectatorCache :: "spectator_caches \<Rightarrow> spectator_caches" where
  "clearSpectatorCache ca = ca \<lparr> spectatorCache := Map.empty, playersSpectatorCache := Map.empty \<rparr>"

text \<open>The floors that are visible from a floor.\<close>

definition z_range :: "bool \<Rightarrow> int \<Rightarrow> int \<times> int" where
  "z_range multifloor z =
     (if multifloor then
        (if z > 7 then (max (z - 2) 0, min (z + 2) (int MAP_MAX_LAYERS - 1))
         else if z = 6 then (0, 8)
         else if z = 7 then (0, 9)
         else (0, 7))
      else (z, z))"

definition getSpectators ::
    "world \<Rightarrow> (nat \<Rightarrow> position) \<Rightarrow> (nat \<Rightarrow> bool) \<Rightarrow> nat set \<Rightarrow> position \<Rightarrow> bool \<Rightarrow> bool \<Rightarrow> int \<Rightarrow> int \<Rightarrow> int \<Rightarrow> int
     \<Rightarrow> spectator_caches \<Rightarrow> nat set \<times> spectator_caches"
  where
  "getSpectators m cpos isPlayer list centerPos multifloor onlyPlayers minRangeX0 maxRangeX0 minRangeY0 maxRangeY0 ca =
     (if unat (pz centerPos) \<ge> MAP_MAX_LAYERS then (list, ca)
      else
        (let minRangeX = (if minRangeX0 = 0 then - maxViewportX else - minRangeX0);
             maxRangeX = (if maxRangeX0 = 0 then maxViewportX else maxRangeX0);
             minRangeY = (if minRangeY0 = 0 then - maxViewportY else - minRangeY0);
             maxRangeY = (if maxRangeY0 = 0 then maxViewportY else maxRangeY0);
             standard = (minRangeX = - maxViewportX \<and> maxRangeX = maxViewportX
               \<and> minRangeY = - maxViewportY \<and> maxRangeY = maxViewportY \<and> multifloor);
             foundPlayers = (if standard \<and> onlyPlayers then playersSpectatorCache ca centerPos else None);
             found =
               (if \<not> standard then None
                else case foundPlayers of
                  Some cached \<Rightarrow> Some (list \<union> cached)
                | None \<Rightarrow>
                    (case spectatorCache ca centerPos of
                       Some cached \<Rightarrow>
                         Some (list \<union> (if onlyPlayers then Set.filter isPlayer cached else cached))
                     | None \<Rightarrow> None));
             cacheResult = (standard \<and> found = None)
         in case found of
              Some l \<Rightarrow> (l, ca)
            | None \<Rightarrow>
                (let (minRangeZ, maxRangeZ) = z_range multifloor (uint (pz centerPos));
                     l = getSpectatorsInternal m cpos list centerPos minRangeX maxRangeX minRangeY maxRangeY
                           minRangeZ maxRangeZ onlyPlayers
                 in (l, if cacheResult then
                          (if onlyPlayers
                           then ca \<lparr> playersSpectatorCache := (playersSpectatorCache ca)(centerPos \<mapsto> l) \<rparr>
                           else ca \<lparr> spectatorCache := (spectatorCache ca)(centerPos \<mapsto> l) \<rparr>)
                        else ca))))"

subsection \<open>Where the creatures are\<close>

definition listed_at :: "(nat \<rightharpoonup> position) \<Rightarrow> u32 \<Rightarrow> u32 \<Rightarrow> nat set" where
  "listed_at P x y = {c. \<exists>p. P c = Some p \<and> same_cell (ucast (px p)) (ucast (py p)) x y}"

definition tracked :: "(nat \<Rightarrow> bool) \<Rightarrow> world \<Rightarrow> (nat \<rightharpoonup> position) \<Rightarrow> bool" where
  "tracked isPlayer m P \<longleftrightarrow>
     (\<forall>x y i. getLeaf (w_root m) x y = Some i \<longrightarrow>
        distinct (lf_creatures (w_leaves m ! i)) \<and> set (lf_creatures (w_leaves m ! i)) = listed_at P x y
      \<and> distinct (lf_players (w_leaves m ! i))
      \<and> set (lf_players (w_leaves m ! i)) = {c \<in> listed_at P x y. isPlayer c})
   \<and> (\<forall>c p. P c = Some p \<longrightarrow> getLeaf (w_root m) (ucast (px p)) (ucast (py p)) \<noteq> None)"

lemma trackedD:
  assumes "tracked isPlayer m P" "getLeaf (w_root m) x y = Some i"
  shows "distinct (lf_creatures (w_leaves m ! i))" "set (lf_creatures (w_leaves m ! i)) = listed_at P x y"
    "distinct (lf_players (w_leaves m ! i))"
    "set (lf_players (w_leaves m ! i)) = {c \<in> listed_at P x y. isPlayer c}"
  using assms unfolding tracked_def by blast+

lemma swap_erase_distinct:
  assumes "distinct xs" "index_of c xs = Some i"
  shows "distinct (swap_erase_at i xs) \<and> set (swap_erase_at i xs) = set xs - {c}"
proof -
  have i: "i < length xs" "xs ! i = c" using index_of_Some [OF assms(2)] by auto
  have m: "mset (swap_erase_at i xs) = mset (remove1 c xs)"
    using mset_swap_erase_at [OF i(1)] i(2) by simp
  then have "set (swap_erase_at i xs) = set (remove1 c xs)" using mset_eq_setD by blast
  moreover have "distinct (swap_erase_at i xs)"
    using assms(1) mset_eq_imp_distinct_iff [OF m] by simp
  ultimately show ?thesis using assms(1) by simp
qed

lemma getQTNode_leaf: "world_ok m \<Longrightarrow> getQTNode m x y = getLeaf (w_root m) (ucast x) (ucast y)"
  by (simp add: getQTNode_def world_ok_def getLeafStatic_13)

lemma removeCreature_ok:
  assumes "distinct (lf_creatures lf)" "c \<in> set (lf_creatures lf)" "distinct (lf_players lf)"
    "isP \<Longrightarrow> c \<in> set (lf_players lf)"
  shows "\<exists>lf'. removeCreature c isP lf = Some lf' \<and> lf_S lf' = lf_S lf \<and> lf_E lf' = lf_E lf
    \<and> lf_array lf' = lf_array lf
    \<and> distinct (lf_creatures lf') \<and> set (lf_creatures lf') = set (lf_creatures lf) - {c}
    \<and> distinct (lf_players lf')
    \<and> set (lf_players lf') = (if isP then set (lf_players lf) - {c} else set (lf_players lf))"
proof -
  obtain i where i: "index_of c (lf_creatures lf) = Some i"
    using assms(2) index_of_None [of c "lf_creatures lf"] by fastforce
  show ?thesis
  proof (cases isP)
    case True
    then obtain k where k: "index_of c (lf_players lf) = Some k"
      using assms(4) index_of_None [of c "lf_players lf"] by fastforce
    show ?thesis using swap_erase_distinct [OF assms(1) i] swap_erase_distinct [OF assms(3) k] True
      by (simp add: removeCreature_def i k Let_def)
  next
    case False
    then show ?thesis using swap_erase_distinct [OF assms(1) i] assms(3)
      by (simp add: removeCreature_def i Let_def)
  qed
qed

text \<open>One leaf gets new lists: the rest of the map is untouched.\<close>

lemma tracked_update:
  assumes "world_ok m" "tracked isPlayer m P" "getLeaf (w_root m) X Y = Some i"
    and "lf_S lf = lf_S (w_leaves m ! i)" "lf_E lf = lf_E (w_leaves m ! i)"
    "lf_array lf = lf_array (w_leaves m ! i)"
    and "distinct (lf_creatures lf)" "set (lf_creatures lf) = listed_at P' X Y"
    and "distinct (lf_players lf)" "set (lf_players lf) = {c \<in> listed_at P' X Y. isPlayer c}"
    and "\<And>x y. \<not> same_cell X Y x y \<Longrightarrow> listed_at P' x y = listed_at P x y"
    and "\<And>c p. P' c = Some p \<Longrightarrow> getLeaf (w_root m) (ucast (px p)) (ucast (py p)) \<noteq> None"
  shows "world_ok (m \<lparr> w_leaves := (w_leaves m)[i := lf] \<rparr>)"
    and "tracked isPlayer (m \<lparr> w_leaves := (w_leaves m)[i := lf] \<rparr>) P'"
proof -
  show "world_ok (m \<lparr> w_leaves := (w_leaves m)[i := lf] \<rparr>)"
    using world_ok_update [OF assms(1), of lf i] assms(4-6) by (cases m) simp
  have i: "i < length (w_leaves m)" using world_okD(1) [OF assms(1,3)] .
  have wf: "q_wf 13 (w_root m)" using assms(1) by (simp add: world_ok_def)
  have "distinct (lf_creatures ((w_leaves m)[i := lf] ! j)) \<and> set (lf_creatures ((w_leaves m)[i := lf] ! j)) = listed_at P' x y
      \<and> distinct (lf_players ((w_leaves m)[i := lf] ! j))
      \<and> set (lf_players ((w_leaves m)[i := lf] ! j)) = {c \<in> listed_at P' x y. isPlayer c}"
    if j: "getLeaf (w_root m) x y = Some j" for x y j
  proof (cases "same_cell X Y x y")
    case True
    then have "j = i" using getLeaf_same_cell [OF wf True] assms(3) j by simp
    moreover have "listed_at P' x y = listed_at P' X Y"
      using True by (auto simp: listed_at_def same_cell_def)
    ultimately show ?thesis using assms(7-10) i by simp
  next
    case False
    then have "j \<noteq> i" using world_okD(5) [OF assms(1,3)] j by blast
    then show ?thesis using trackedD [OF assms(2) j] assms(11) [OF False] by simp
  qed
  then show "tracked isPlayer (m \<lparr> w_leaves := (w_leaves m)[i := lf] \<rparr>) P'"
    using assms(12) by (simp add: tracked_def)
qed

lemma listed_at_other:
  assumes "P c = None \<or> (\<exists>p. P c = Some p \<and> same_cell (ucast (px p)) (ucast (py p)) X Y)"
    and "v = None \<or> (\<exists>p. v = Some p \<and> same_cell (ucast (px p)) (ucast (py p)) X Y)"
    and "\<not> same_cell X Y x y"
  shows "listed_at (P(c := v)) x y = listed_at P x y"
  using assms by (auto simp: listed_at_def same_cell_def)

lemma enterMap_tracked:
  assumes "world_ok m" "tracked isPlayer m P" "P c = None" "enterMap c (isPlayer c) pos m = Some m'"
  shows "world_ok m' \<and> tracked isPlayer m' (P(c \<mapsto> pos)) \<and> w_root m' = w_root m"
proof -
  let ?X = "ucast (px pos)" and ?Y = "ucast (py pos)"
  obtain i where i: "getLeaf (w_root m) ?X ?Y = Some i"
    and m': "m' = m \<lparr> w_leaves := (w_leaves m)[i := addCreature c (isPlayer c) (w_leaves m ! i)] \<rparr>"
    using assms(4) getQTNode_leaf [OF assms(1)] by (auto simp: enterMap_def split: option.splits)
  note t = trackedD [OF assms(2) i]
  have l: "listed_at (P(c \<mapsto> pos)) ?X ?Y = insert c (listed_at P ?X ?Y)"
    using assms(3) by (auto simp: listed_at_def)
  have c: "c \<notin> listed_at P ?X ?Y" using assms(3) by (simp add: listed_at_def)
  have "\<exists>p. P c = Some p \<Longrightarrow> False" using assms(3) by simp
  have n: "getLeaf (w_root m) (ucast (px p)) (ucast (py p)) \<noteq> None" if "(P(c \<mapsto> pos)) d = Some p" for d p
    using that i assms(2) by (auto simp: tracked_def split: if_splits)
  have o: "listed_at (P(c \<mapsto> pos)) x y = listed_at P x y" if "\<not> same_cell ?X ?Y x y" for x y
    by (rule listed_at_other [OF _ _ that]) (use assms(3) in simp_all)
  define lf where "lf = addCreature c (isPlayer c) (w_leaves m ! i)"
  have lf: "lf_S lf = lf_S (w_leaves m ! i)" "lf_E lf = lf_E (w_leaves m ! i)"
    "lf_array lf = lf_array (w_leaves m ! i)" "lf_creatures lf = lf_creatures (w_leaves m ! i) @ [c]"
    "lf_players lf = (if isPlayer c then lf_players (w_leaves m ! i) @ [c] else lf_players (w_leaves m ! i))"
    by (simp_all add: lf_def addCreature_def Let_def)
  have "distinct (lf_creatures lf)" "set (lf_creatures lf) = listed_at (P(c \<mapsto> pos)) ?X ?Y"
    "distinct (lf_players lf)" "set (lf_players lf) = {d \<in> listed_at (P(c \<mapsto> pos)) ?X ?Y. isPlayer d}"
    using lf(4,5) t l c by auto
  note u = tracked_update [OF assms(1,2) i lf(1-3) this o n]
  show ?thesis using u by (simp add: m' lf_def)
qed

lemma leaveMap_tracked:
  assumes "world_ok m" "tracked isPlayer m P" "P c = Some pos"
  shows "\<exists>m'. leaveMap c (isPlayer c) pos m = Some m' \<and> world_ok m' \<and> tracked isPlayer m' (P(c := None))
    \<and> w_root m' = w_root m"
proof -
  let ?X = "ucast (px pos)" and ?Y = "ucast (py pos)"
  have "getLeaf (w_root m) ?X ?Y \<noteq> None" using assms(2,3) unfolding tracked_def by blast
  then obtain i where i: "getLeaf (w_root m) ?X ?Y = Some i" by blast
  note t = trackedD [OF assms(2) i]
  have c: "c \<in> listed_at P ?X ?Y" using assms(3) by (auto simp: listed_at_def)
  obtain lf where lf: "removeCreature c (isPlayer c) (w_leaves m ! i) = Some lf" "lf_S lf = lf_S (w_leaves m ! i)"
    "lf_E lf = lf_E (w_leaves m ! i)" "lf_array lf = lf_array (w_leaves m ! i)"
    "distinct (lf_creatures lf)" "set (lf_creatures lf) = set (lf_creatures (w_leaves m ! i)) - {c}"
    "distinct (lf_players lf)"
    "set (lf_players lf) = (if isPlayer c then set (lf_players (w_leaves m ! i)) - {c} else set (lf_players (w_leaves m ! i)))"
    using removeCreature_ok [OF t(1) _ t(3), of c "isPlayer c"] t(2,4) c by auto
  have l: "listed_at (P(c := None)) ?X ?Y = listed_at P ?X ?Y - {c}" by (auto simp: listed_at_def)
  have n: "getLeaf (w_root m) (ucast (px p)) (ucast (py p)) \<noteq> None" if "(P(c := None)) d = Some p" for d p
    using that assms(2) by (auto simp: tracked_def split: if_splits)
  have o: "listed_at (P(c := None)) x y = listed_at P x y" if "\<not> same_cell ?X ?Y x y" for x y
    by (rule listed_at_other [OF _ _ that]) (use assms(3) in simp_all)
  have "set (lf_creatures lf) = listed_at (P(c := None)) ?X ?Y"
    "set (lf_players lf) = {d \<in> listed_at (P(c := None)) ?X ?Y. isPlayer d}"
    using lf(6,8) t(2,4) l by auto
  note u = tracked_update [OF assms(1,2) i lf(2-5) this(1) lf(7) this(2) o n]
  have "leaveMap c (isPlayer c) pos m = Some (m \<lparr> w_leaves := (w_leaves m)[i := lf] \<rparr>)"
    by (simp add: leaveMap_def getQTNode_leaf [OF assms(1)] i lf(1))
  with u show ?thesis by simp
qed

lemma switchOwner_tracked:
  assumes "world_ok m" "tracked isPlayer m P" "P c = Some old" "getQTNode m (px new) (py new) \<noteq> None"
  shows "\<exists>m'. switchOwner c (isPlayer c) old new m = Some m' \<and> world_ok m'
    \<and> tracked isPlayer m' (P(c \<mapsto> new)) \<and> w_root m' = w_root m"
proof (cases "getQTNode m (px old) (py old) = getQTNode m (px new) (py new)")
  case True
  then obtain i where i: "getLeaf (w_root m) (ucast (px old)) (ucast (py old)) = Some i"
    "getLeaf (w_root m) (ucast (px new)) (ucast (py new)) = Some i"
    using assms(4) by (auto simp: getQTNode_leaf [OF assms(1)])
  have s: "same_cell (ucast (px old)) (ucast (py old)) (ucast (px new)) (ucast (py new))"
    by (rule world_okD(5) [OF assms(1) i])
  have "listed_at (P(c \<mapsto> new)) x y = listed_at P x y" for x y
    using s assms(3) by (auto simp: listed_at_def same_cell_def)
  then have "tracked isPlayer m (P(c \<mapsto> new))"
    using assms(2) i(2) unfolding tracked_def by (auto split: if_splits)
  then show ?thesis using True assms(1) by (simp add: switchOwner_def)
next
  case False
  obtain m1 where m1: "leaveMap c (isPlayer c) old m = Some m1" "world_ok m1"
    "tracked isPlayer m1 (P(c := None))" "w_root m1 = w_root m"
    using leaveMap_tracked [OF assms(1-3)] by blast
  have "getQTNode m1 (px new) (py new) \<noteq> None" using assms(4) m1(4) by (simp add: getQTNode_def)
  then obtain m2 where m2: "enterMap c (isPlayer c) new m1 = Some m2" by (auto simp: enterMap_def)
  have "world_ok m2 \<and> tracked isPlayer m2 ((P(c := None))(c \<mapsto> new)) \<and> w_root m2 = w_root m1"
    by (rule enterMap_tracked [OF m1(2,3) _ m2]) simp
  then show ?thesis using False m1 m2 by (simp add: switchOwner_def)
qed

lemma setTile_leaves:
  assumes "world_ok m" "setTile x y z t m = Some (fate, m')"
  shows "(\<forall>x' y' j. getLeaf (w_root m') x' y' = Some j \<longrightarrow>
      (getLeaf (w_root m) x' y' = Some j \<and> lf_creatures (w_leaves m' ! j) = lf_creatures (w_leaves m ! j)
        \<and> lf_players (w_leaves m' ! j) = lf_players (w_leaves m ! j))
    \<or> (getLeaf (w_root m) x' y' = None \<and> lf_creatures (w_leaves m' ! j) = [] \<and> lf_players (w_leaves m' ! j) = []))
    \<and> (\<forall>x' y'. getLeaf (w_root m) x' y' \<noteq> None \<longrightarrow> getLeaf (w_root m') x' y' \<noteq> None)"
proof (cases "16 \<le> unat z")
  case True
  then show ?thesis using assms(2) by (auto simp: setTile_def MAP_MAX_LAYERS_def)
next
  case False
  let ?x = "ucast x :: u32" and ?y = "ucast y :: u32"
  have wf: "q_wf 13 (w_root m)" using assms(1) by (simp add: world_ok_def)
  obtain i new root where c: "createLeaf (length (w_leaves m)) 15 (w_root m) ?x ?y = Some (i, new, root)"
    using createLeaf_world [OF wf] by blast
  define ls where "ls = (if new then link_leaf root i ?x ?y (w_leaves m @ [new_leaf]) else w_leaves m)"
  note C = created_leaf_ok [OF assms(1) c, folded ls_def]
  have i: "i < length ls" using world_okD(1) [OF C(1), of ?x ?y i] C(2) by simp
  have floors: "lf_creatures (snd (createFloor k l)) = lf_creatures l"
    "lf_players (snd (createFloor k l)) = lf_players l" for k l
    by (simp_all add: createFloor_def split: option.split)
  obtain lf where m': "m' = \<lparr> w_root = root, w_leaves = ls[i := lf] \<rparr>"
    and lf: "lf_creatures lf = lf_creatures (ls ! i)" "lf_players lf = lf_players (ls ! i)"
  proof -
    obtain fl l where fl: "createFloor (unat z) (ls ! i) = (fl, l)" by fastforce
    have "lf_creatures l = lf_creatures (ls ! i)" "lf_players l = lf_players (ls ! i)"
      using floors [of "unat z" "ls ! i"] fl by simp_all
    moreover have "\<exists>l'. m' = \<lparr> w_root = root, w_leaves = ls[i := l'] \<rparr>
        \<and> lf_creatures l' = lf_creatures l \<and> lf_players l' = lf_players l"
      using assms(2) False unfolding setTile_def c option.case prod.case Let_def ls_def [symmetric] fl
      by (auto simp: MAP_MAX_LAYERS_def split: option.splits)
    ultimately show ?thesis using that by metis
  qed
  have lists: "lf_creatures (ls[i := lf] ! j) = lf_creatures (ls ! j)" "lf_players (ls[i := lf] ! j) = lf_players (ls ! j)" for j
    using lf i by (cases "i = j"; simp)+
  have "(getLeaf (w_root m) x' y' = Some j \<and> lf_creatures (ls ! j) = lf_creatures (w_leaves m ! j)
        \<and> lf_players (ls ! j) = lf_players (w_leaves m ! j))
    \<or> (getLeaf (w_root m) x' y' = None \<and> lf_creatures (ls ! j) = [] \<and> lf_players (ls ! j) = [])"
    if j: "getLeaf root x' y' = Some j" for x' y' j
  proof (cases "same_cell x' y' ?x ?y")
    case False
    then show ?thesis using C(3) [OF j False] by simp
  next
    case True
    have "q_wf 13 root" using C(1) by (simp add: world_ok_def)
    then have ji: "j = i" using getLeaf_same_cell [OF _ True, of root] j C(2) by simp
    have o: "getLeaf (w_root m) x' y' = getLeaf (w_root m) ?x ?y" by (rule getLeaf_same_cell [OF wf True])
    show ?thesis
    proof (cases new)
      case True
      then show ?thesis using C(5,6) o ji by simp
    next
      case False
      then show ?thesis using C(7) o ji by (simp add: ls_def)
    qed
  qed
  moreover have "getLeaf root x' y' \<noteq> None" if "getLeaf (w_root m) x' y' \<noteq> None" for x' y'
  proof (cases "same_cell x' y' ?x ?y")
    case True
    have "q_wf 13 root" using C(1) by (simp add: world_ok_def)
    then show ?thesis using getLeaf_same_cell [OF _ True, of root] C(2) by simp
  next
    case False
    then show ?thesis using C(4) [OF False] that by simp
  qed
  ultimately show ?thesis by (simp add: m' lists)
qed

lemma setTile_tracked:
  assumes "world_ok m" "tracked isPlayer m P" "setTile x y z t m = Some (fate, m')"
  shows "tracked isPlayer m' P"
proof -
  note L = setTile_leaves [OF assms(1,3)]
  have n: "getLeaf (w_root m) (ucast (px p)) (ucast (py p)) \<noteq> None" if "P c = Some p" for c p
    using that assms(2) unfolding tracked_def by blast
  have wf: "q_wf 13 (w_root m)" using assms(1) by (simp add: world_ok_def)
  have e: "listed_at P x' y' = {}" if "getLeaf (w_root m) x' y' = None" for x' y'
  proof -
    have False if "P c = Some p" "same_cell (ucast (px p)) (ucast (py p)) x' y'" for c p
      using n [OF that(1)] getLeaf_same_cell [OF wf that(2)] \<open>getLeaf (w_root m) x' y' = None\<close> by simp
    then show ?thesis by (auto simp: listed_at_def)
  qed
  have "distinct (lf_creatures (w_leaves m' ! j)) \<and> set (lf_creatures (w_leaves m' ! j)) = listed_at P x' y'
      \<and> distinct (lf_players (w_leaves m' ! j))
      \<and> set (lf_players (w_leaves m' ! j)) = {c \<in> listed_at P x' y'. isPlayer c}"
    if j: "getLeaf (w_root m') x' y' = Some j" for x' y' j
  proof -
    from L [THEN conjunct1, rule_format, OF j] show ?thesis
    proof (elim disjE conjE)
      assume "getLeaf (w_root m) x' y' = Some j"
        "lf_creatures (w_leaves m' ! j) = lf_creatures (w_leaves m ! j)"
        "lf_players (w_leaves m' ! j) = lf_players (w_leaves m ! j)"
      then show ?thesis using trackedD [OF assms(2), of x' y' j] by simp
    next
      assume "getLeaf (w_root m) x' y' = None" "lf_creatures (w_leaves m' ! j) = []"
        "lf_players (w_leaves m' ! j) = []"
      then show ?thesis using e by simp
    qed
  qed
  then show ?thesis using L n unfolding tracked_def by blast
qed

text \<open>
  The maps that the loader and the movements of creatures lead to, with the positions of the
  creatures. A creature only moves to a place where there is a leaf (it moves onto a tile).
\<close>

inductive map_reach :: "(nat \<Rightarrow> bool) \<Rightarrow> world \<Rightarrow> (nat \<rightharpoonup> position) \<Rightarrow> bool" for isPlayer where
  mr_init: "map_reach isPlayer empty_world Map.empty"
| mr_tile: "map_reach isPlayer m P \<Longrightarrow> setTile x y z t m = Some (fate, m') \<Longrightarrow> map_reach isPlayer m' P"
| mr_enter: "map_reach isPlayer m P \<Longrightarrow> P c = None \<Longrightarrow> enterMap c (isPlayer c) pos m = Some m' \<Longrightarrow>
    map_reach isPlayer m' (P(c \<mapsto> pos))"
| mr_leave: "map_reach isPlayer m P \<Longrightarrow> P c = Some pos \<Longrightarrow> leaveMap c (isPlayer c) pos m = Some m' \<Longrightarrow>
    map_reach isPlayer m' (P(c := None))"
| mr_move: "map_reach isPlayer m P \<Longrightarrow> P c = Some old \<Longrightarrow> getQTNode m (px new) (py new) \<noteq> None \<Longrightarrow>
    switchOwner c (isPlayer c) old new m = Some m' \<Longrightarrow> map_reach isPlayer m' (P(c \<mapsto> new))"

lemma map_reach_ok: "map_reach isPlayer m P \<Longrightarrow> world_ok m \<and> tracked isPlayer m P"
proof (induction rule: map_reach.induct)
  case mr_init
  have "getLeaf (w_root empty_world) x y = None" for x y
    by (subst getLeaf.simps) (simp add: empty_world_def)
  then show ?case by (simp add: empty_world_ok tracked_def)
next
  case (mr_tile m P x y z t fate m')
  then have "world_ok m'"
    using setTile_correct [of m z x y t] by (cases "unat z < 16") (auto simp: setTile_def MAP_MAX_LAYERS_def)
  then show ?case using mr_tile setTile_tracked by blast
next
  case (mr_enter m P c pos m')
  then show ?case using enterMap_tracked by blast
next
  case (mr_leave m P c pos m')
  then show ?case using leaveMap_tracked [of m isPlayer P c pos] by (metis option.inject)
next
  case (mr_move m P c old new m')
  then show ?case using switchOwner_tracked [of m isPlayer P c old new] by (metis option.inject)
qed

subsection \<open>What the scan finds\<close>

lemma floor_steps_set: "v \<in> set (floor_steps a b) \<longleftrightarrow> (\<exists>k::nat. v = a + 8 * int k) \<and> v \<le> b"
proof (induction a b rule: floor_steps.induct)
  case (1 a b)
  show ?case
  proof (cases "a \<le> b")
    case False
    then show ?thesis by (subst floor_steps.simps) auto
  next
    case True
    have "(\<exists>k::nat. v = a + 8 * int k) \<longleftrightarrow> v = a \<or> (\<exists>k::nat. v = a + 8 + 8 * int k)"
    proof
      assume "\<exists>k::nat. v = a + 8 * int k"
      then obtain k :: nat where k: "v = a + 8 * int k" ..
      show "v = a \<or> (\<exists>k::nat. v = a + 8 + 8 * int k)"
      proof (cases k)
        case (Suc j)
        then have "v = a + 8 + 8 * int j" using k by simp
        then show ?thesis by blast
      qed (use k in simp)
    next
      assume "v = a \<or> (\<exists>k::nat. v = a + 8 + 8 * int k)"
      then show "\<exists>k::nat. v = a + 8 * int k"
      proof
        assume "\<exists>k::nat. v = a + 8 + 8 * int k"
        then obtain k :: nat where "v = a + 8 + 8 * int k" ..
        then have "v = a + 8 * int (Suc k)" by simp
        then show ?thesis by blast
      qed (auto intro: exI [of _ 0])
    qed
    then show ?thesis using 1 True by (subst floor_steps.simps) auto
  qed
qed

definition cell_seen :: "world \<Rightarrow> (nat \<Rightarrow> bool) \<Rightarrow> bool \<Rightarrow> int \<Rightarrow> int \<Rightarrow> nat set" where
  "cell_seen m see onlyPlayers nx ny =
     (case getLeaf (w_root m) (word_of_int nx) (word_of_int ny) of
        None \<Rightarrow> {} | Some i \<Rightarrow> set (filter see (leaf_list m onlyPlayers i)))"

lemma scan_row_cells:
  assumes "world_ok m"
  shows "leafE = getLeaf (w_root m) (word_of_int a) (word_of_int ny) \<Longrightarrow>
    scan_row m see onlyPlayers ny (floor_steps a b) leafE list =
      list \<union> (\<Union>nx \<in> set (floor_steps a b). cell_seen m see onlyPlayers nx ny)"
proof (induction a b arbitrary: leafE list rule: floor_steps.induct)
  case (1 a b)
  have wf: "q_wf 13 (w_root m)" using assms by (simp add: world_ok_def)
  show ?case
  proof (cases "a \<le> b")
    case False
    then show ?thesis by (subst (1 2) floor_steps.simps) simp
  next
    case True
    have fs: "floor_steps a b = a # floor_steps (a + 8) b" using True by (subst floor_steps.simps) simp
    show ?thesis
    proof (cases leafE)
      case None
      then have c: "cell_seen m see onlyPlayers a ny = {}" using "1.prems" by (simp add: cell_seen_def)
      have "getLeafStatic (w_root m) (word_of_int (a + 8)) (word_of_int ny)
          = getLeaf (w_root m) (word_of_int (a + 8)) (word_of_int ny)"
        by (rule getLeafStatic_13 [OF wf])
      from "1.IH" [OF True this] show ?thesis by (simp add: fs None c)
    next
      case (Some i)
      then have i: "getLeaf (w_root m) (word_of_int a) (word_of_int ny) = Some i" using "1.prems" by simp
      have "lf_E (w_leaves m ! i) = getLeaf (w_root m) (word_of_int (a + 8)) (word_of_int ny)"
        using world_okD(4) [OF assms i] by (simp add: FLOOR_SIZE_8)
      from "1.IH" [OF True this] show ?thesis by (simp add: fs Some cell_seen_def i Un_assoc)
    qed
  qed
qed

lemma scan_rows_cells:
  assumes "world_ok m"
  shows "leafS = getLeaf (w_root m) (word_of_int sx) (word_of_int a) \<Longrightarrow>
    scan_rows m see onlyPlayers sx (floor_steps sx ex) (floor_steps a b) leafS list =
      list \<union> (\<Union>ny \<in> set (floor_steps a b). \<Union>nx \<in> set (floor_steps sx ex). cell_seen m see onlyPlayers nx ny)"
proof (induction a b arbitrary: leafS list rule: floor_steps.induct)
  case (1 a b)
  have wf: "q_wf 13 (w_root m)" using assms by (simp add: world_ok_def)
  show ?case
  proof (cases "a \<le> b")
    case False
    then have "floor_steps a b = []" by (subst floor_steps.simps) simp
    then show ?thesis by simp
  next
    case True
    have fs: "floor_steps a b = a # floor_steps (a + 8) b" using True by (subst floor_steps.simps) simp
    have next_leaf: "(case leafS of Some i \<Rightarrow> lf_S (w_leaves m ! i)
        | None \<Rightarrow> getLeafStatic (w_root m) (word_of_int sx) (word_of_int (a + 8)))
        = getLeaf (w_root m) (word_of_int sx) (word_of_int (a + 8))"
    proof (cases leafS)
      case None
      then show ?thesis by (simp add: getLeafStatic_13 [OF wf])
    next
      case (Some i)
      then have i: "getLeaf (w_root m) (word_of_int sx) (word_of_int a) = Some i" using "1.prems" by simp
      show ?thesis using world_okD(3) [OF assms i] Some by (simp add: FLOOR_SIZE_8)
    qed
    have "scan_rows m see onlyPlayers sx (floor_steps sx ex) (floor_steps a b) leafS list =
      scan_rows m see onlyPlayers sx (floor_steps sx ex) (floor_steps (a + 8) b)
        (getLeaf (w_root m) (word_of_int sx) (word_of_int (a + 8)))
        (scan_row m see onlyPlayers a (floor_steps sx ex) leafS list)"
      unfolding fs scan_rows.simps Let_def next_leaf ..
    also have "\<dots> = scan_row m see onlyPlayers a (floor_steps sx ex) leafS list
      \<union> (\<Union>ny \<in> set (floor_steps (a + 8) b). \<Union>nx \<in> set (floor_steps sx ex). cell_seen m see onlyPlayers nx ny)"
      by (rule "1.IH" [OF True refl])
    also have "scan_row m see onlyPlayers a (floor_steps sx ex) leafS list =
      list \<union> (\<Union>nx \<in> set (floor_steps sx ex). cell_seen m see onlyPlayers nx a)"
      by (rule scan_row_cells [OF assms "1.prems"])
    finally show ?thesis by (simp add: fs Un_assoc)
  qed
qed

lemma ckey_of_int: "0 \<le> v \<Longrightarrow> v < 65536 \<Longrightarrow> ckey (word_of_int v) = nat v div 8"
proof -
  assume v: "0 \<le> v" "v < 65536"
  then have "unat (word_of_int v :: u32) = nat v" by (simp add: unat_eq_nat_uint uint_word_of_int)
  with v show ?thesis by (simp add: ckey_def)
qed

lemma ckey_u16: "ckey (ucast (w :: u16)) = nat (uint w) div 8"
  using unat_u16_bound [of w] by (simp add: ckey_mod unat_eq_nat_uint [symmetric])

text \<open>A coordinate in a clamped range lies in one of the cells that the loop visits.\<close>

lemma visited_cell:
  fixes w :: u16
  assumes "lo \<le> uint w" "uint w \<le> hi"
  defines "a \<equiv> clamp16 lo" and "b \<equiv> clamp16 hi"
  shows "\<exists>v \<in> set (floor_steps (a - a mod 8) (b - b mod 8)). ckey (word_of_int v) = ckey (ucast w)"
proof -
  have w: "0 \<le> uint w" "uint w < 65536" using uint_bounded [of w] by simp_all
  then have ab: "a \<le> uint w" "uint w \<le> b" "0 \<le> a" using assms by (auto simp: clamp16_def)
  have d: "v - v mod 8 = 8 * (v div 8)" for v :: int by (simp add: minus_mod_eq_mult_div)
  let ?v = "8 * (uint w div 8)"
  have "a div 8 \<le> uint w div 8" "uint w div 8 \<le> b div 8" using ab by (simp_all add: zdiv_mono1)
  then have "?v = 8 * (a div 8) + 8 * int (nat (uint w div 8 - a div 8))" "?v \<le> 8 * (b div 8)" by simp_all
  then have "?v \<in> set (floor_steps (a - a mod 8) (b - b mod 8))"
    unfolding floor_steps_set d by blast
  moreover have "ckey (word_of_int ?v) = ckey (ucast w)"
  proof -
    have "0 \<le> uint w div 8" by (rule div_int_pos_iff [THEN iffD2]) (use w in simp)
    then have "0 \<le> ?v" "?v < 65536" using w by auto
    then have "ckey (word_of_int ?v) = nat ?v div 8" by (rule ckey_of_int)
    also have "\<dots> = nat (uint w div 8)" using w(1) by (simp add: nat_mult_distrib)
    also have "\<dots> = nat (uint w) div 8" using w(1) by (simp add: nat_div_distrib)
    finally show ?thesis by (simp add: ckey_u16)
  qed
  ultimately show ?thesis by blast
qed

lemma getSpectatorsInternal_exact:
  assumes "world_ok m" "tracked isPlayer m P"
  shows "getSpectatorsInternal m (\<lambda>c. the (P c)) list centerPos rx1 rx2 ry1 ry2 rz1 rz2 onlyPlayers =
    list \<union> {c. \<exists>p. P c = Some p \<and> in_view centerPos rx1 rx2 ry1 ry2 rz1 rz2 p \<and> (onlyPlayers \<longrightarrow> isPlayer c)}"
    (is "?l = list \<union> ?V")
proof -
  have wf: "q_wf 13 (w_root m)" using assms by (simp add: world_ok_def)
  define see where "see = (\<lambda>c. in_view centerPos rx1 rx2 ry1 ry2 rz1 rz2 (the (P c)))"
  define xs where "xs = floor_steps (clamp16 (uint (px centerPos) + rx1 + (uint (pz centerPos) - rz2))
      - clamp16 (uint (px centerPos) + rx1 + (uint (pz centerPos) - rz2)) mod 8)
    (clamp16 (uint (px centerPos) + rx2 + (uint (pz centerPos) - rz1))
      - clamp16 (uint (px centerPos) + rx2 + (uint (pz centerPos) - rz1)) mod 8)"
  define ys where "ys = floor_steps (clamp16 (uint (py centerPos) + ry1 + (uint (pz centerPos) - rz2))
      - clamp16 (uint (py centerPos) + ry1 + (uint (pz centerPos) - rz2)) mod 8)
    (clamp16 (uint (py centerPos) + ry2 + (uint (pz centerPos) - rz1))
      - clamp16 (uint (py centerPos) + ry2 + (uint (pz centerPos) - rz1)) mod 8)"
  have l: "?l = list \<union> (\<Union>ny \<in> set ys. \<Union>nx \<in> set xs. cell_seen m see onlyPlayers nx ny)"
    unfolding getSpectatorsInternal_def Let_def see_def [symmetric] xs_def ys_def
    by (rule scan_rows_cells [OF assms(1)]) (simp add: getLeafStatic_13 [OF wf])
  have cell: "cell_seen m see onlyPlayers nx ny =
      {c \<in> listed_at P (word_of_int nx) (word_of_int ny). see c \<and> (onlyPlayers \<longrightarrow> isPlayer c)}" for nx ny
  proof (cases "getLeaf (w_root m) (word_of_int nx) (word_of_int ny)")
    case (Some i)
    then show ?thesis using trackedD [OF assms(2) Some] by (auto simp: cell_seen_def leaf_list_def)
  next
    case None
    have "listed_at P (word_of_int nx) (word_of_int ny) = {}"
    proof -
      have False if "P c = Some p" "same_cell (ucast (px p)) (ucast (py p)) (word_of_int nx) (word_of_int ny)" for c p
        using that None getLeaf_same_cell [OF wf that(2)] assms(2) unfolding tracked_def by metis
      then show ?thesis by (auto simp: listed_at_def)
    qed
    then show ?thesis using None by (simp add: cell_seen_def)
  qed
  have "(\<Union>ny \<in> set ys. \<Union>nx \<in> set xs. cell_seen m see onlyPlayers nx ny) = ?V"
  proof (intro subset_antisym subsetI)
    fix c assume "c \<in> (\<Union>ny \<in> set ys. \<Union>nx \<in> set xs. cell_seen m see onlyPlayers nx ny)"
    then obtain nx ny where "c \<in> cell_seen m see onlyPlayers nx ny" by blast
    then have "c \<in> listed_at P (word_of_int nx) (word_of_int ny)" "see c" "onlyPlayers \<longrightarrow> isPlayer c"
      unfolding cell by auto
    then show "c \<in> ?V" by (auto simp: see_def listed_at_def)
  next
    fix c assume "c \<in> ?V"
    then obtain p where p: "P c = Some p" "in_view centerPos rx1 rx2 ry1 ry2 rz1 rz2 p"
      "onlyPlayers \<longrightarrow> isPlayer c" by blast
    have b: "uint (px centerPos) + rx1 + (uint (pz centerPos) - rz2) \<le> uint (px p)"
      "uint (px p) \<le> uint (px centerPos) + rx2 + (uint (pz centerPos) - rz1)"
      "uint (py centerPos) + ry1 + (uint (pz centerPos) - rz2) \<le> uint (py p)"
      "uint (py p) \<le> uint (py centerPos) + ry2 + (uint (pz centerPos) - rz1)"
      using p(2) by (auto simp: in_view_def Let_def getOffsetZ_def)
    obtain nx where nx: "nx \<in> set xs" "ckey (word_of_int nx) = ckey (ucast (px p))"
      using visited_cell [OF b(1,2)] unfolding xs_def by blast
    obtain ny where ny: "ny \<in> set ys" "ckey (word_of_int ny) = ckey (ucast (py p))"
      using visited_cell [OF b(3,4)] unfolding ys_def by blast
    have "c \<in> listed_at P (word_of_int nx) (word_of_int ny)"
      using p(1) nx(2) ny(2) by (auto simp: listed_at_def same_cell_def)
    moreover have "see c" using p(1,2) by (simp add: see_def)
    ultimately have "c \<in> cell_seen m see onlyPlayers nx ny" unfolding cell using p(3) by blast
    then show "c \<in> (\<Union>ny \<in> set ys. \<Union>nx \<in> set xs. cell_seen m see onlyPlayers nx ny)"
      using nx(1) ny(1) by blast
  qed
  then show ?thesis by (simp add: l)
qed

subsection \<open>Properties\<close>

text \<open>
  C6. The quad tree is a map from coordinates to tiles: on every map that is built by \<open>setTile\<close> and
  the movements of creatures, setting a tile on one of the sixteen floors succeeds; afterwards the
  lookup finds the tile at its coordinates and what was there before everywhere else. When the place
  is taken, the old tile stays, and the new one is merged into it.
\<close>

theorem setTile_refines_map:
  assumes "map_reach isPlayer m P" "unat z < 16"
  shows "\<exists>fate m'. setTile x y z t m = Some (fate, m') \<and> map_reach isPlayer m' P
    \<and> (case getTile m x y z of
         None \<Rightarrow> fate = TileStored \<and> (\<forall>x' y' z'. getTile m' x' y' z' =
           (if x' = x \<and> y' = y \<and> z' = z then Some t else getTile m x' y' z'))
       | Some old \<Rightarrow> fate = TileMerged old \<and> (\<forall>x' y' z'. getTile m' x' y' z' = getTile m x' y' z'))"
  using setTile_correct [of m z x y t] map_reach_ok [OF assms(1)] mr_tile [OF assms(1)] assms(2) by blast

lemma getTile_empty: "getTile empty_world x y z = None"
proof -
  have "getLeafStatic (QInner None None None None) a b = None" for a b
    by (subst getLeafStatic.simps) simp
  then show ?thesis by (simp add: getTile_def empty_world_def)
qed

theorem setTile_refines_map_witness:
  "\<exists>fate m'. setTile 1000 1000 7 5 empty_world = Some (fate, m')
    \<and> map_reach (\<lambda>_. False) m' Map.empty \<and> getTile m' 1000 1000 7 = Some 5 \<and> getTile m' 1000 1001 7 = None"
  using setTile_refines_map [OF mr_init, of 7 1000 1000 5 "\<lambda>_. False"] by (auto simp: getTile_empty)

text \<open>
  C34. Creatures are where the leaves say: on every such map a creature can leave the leaf of its
  position and move to every place that has a leaf (the assertions of \<open>removeCreature\<close> hold), it is
  listed exactly once in the leaf of its position, among the players exactly when it is one, and in
  no other leaf.
\<close>

theorem creature_lists_exact:
  assumes "map_reach isPlayer m P" "P c = Some pos" "getQTNode m (px new) (py new) \<noteq> None"
  shows "\<exists>i m1 m2. getQTNode m (px pos) (py pos) = Some i
    \<and> count (mset (lf_creatures (w_leaves m ! i))) c = 1
    \<and> count (mset (lf_players (w_leaves m ! i))) c = (if isPlayer c then 1 else 0)
    \<and> (\<forall>x y j. getQTNode m x y = Some j \<and> c \<in> set (lf_creatures (w_leaves m ! j)) \<longrightarrow> j = i)
    \<and> leaveMap c (isPlayer c) pos m = Some m1 \<and> map_reach isPlayer m1 (P(c := None))
    \<and> switchOwner c (isPlayer c) pos new m = Some m2 \<and> map_reach isPlayer m2 (P(c \<mapsto> new))"
proof -
  have ok: "world_ok m" "tracked isPlayer m P" using map_reach_ok [OF assms(1)] by blast+
  obtain m1 where m1: "leaveMap c (isPlayer c) pos m = Some m1" using leaveMap_tracked [OF ok assms(2)] by blast
  obtain m2 where m2: "switchOwner c (isPlayer c) pos new m = Some m2"
    using switchOwner_tracked [OF ok assms(2,3)] by blast
  have "getLeaf (w_root m) (ucast (px pos)) (ucast (py pos)) \<noteq> None"
    using ok(2) assms(2) unfolding tracked_def by blast
  then obtain i where i: "getLeaf (w_root m) (ucast (px pos)) (ucast (py pos)) = Some i" by blast
  note t = trackedD [OF ok(2) i]
  have here: "c \<in> listed_at P (ucast (px pos)) (ucast (py pos))" using assms(2) by (auto simp: listed_at_def)
  have "count (mset (lf_creatures (w_leaves m ! i))) c = 1"
    "count (mset (lf_players (w_leaves m ! i))) c = (if isPlayer c then 1 else 0)"
    using t here by (simp_all add: distinct_count_atmost_1)
  moreover have "j = i" if "getQTNode m x y = Some j" "c \<in> set (lf_creatures (w_leaves m ! j))" for x y j
  proof -
    have j: "getLeaf (w_root m) (ucast x) (ucast y) = Some j" using that(1) getQTNode_leaf [OF ok(1)] by simp
    have "same_cell (ucast (px pos)) (ucast (py pos)) (ucast x) (ucast y)"
      using trackedD(2) [OF ok(2) j] that(2) assms(2) by (auto simp: listed_at_def)
    moreover have "q_wf 13 (w_root m)" using ok(1) by (simp add: world_ok_def)
    ultimately have "Some i = Some j" using getLeaf_same_cell i j by metis
    then show ?thesis by simp
  qed
  moreover have "getQTNode m (px pos) (py pos) = Some i" using i getQTNode_leaf [OF ok(1)] by simp
  moreover note mr_leave [OF assms(1,2) m1] mr_move [OF assms(1-3) m2]
  ultimately show ?thesis using m1 m2 by (intro exI [of _ i] exI [of _ m1] exI [of _ m2]) blast
qed

lemma in_view_iff:
  "in_view centerPos rx1 rx2 ry1 ry2 rz1 rz2 p \<longleftrightarrow> uint (pz p) \<in> {rz1..rz2}
     \<and> uint (px p) - uint (px centerPos) - (uint (pz centerPos) - uint (pz p)) \<in> {rx1..rx2}
     \<and> uint (py p) - uint (py centerPos) - (uint (pz centerPos) - uint (pz p)) \<in> {ry1..ry2}"
  by (auto simp: in_view_def getOffsetZ_def Let_def)

text \<open>
  C5. The scan for spectators is exact: on every such map, for every rectangle and every range of
  floors, it adds exactly the creatures (or players) whose position is in view, each floor shifted by
  its distance. It misses nobody, although it follows the links of the leaves, skips missing leaves
  and clamps the rectangle at the border of the map.
\<close>

theorem spectator_scan_exact:
  assumes "map_reach isPlayer m P"
  shows "getSpectatorsInternal m (\<lambda>c. the (P c)) list centerPos rx1 rx2 ry1 ry2 rz1 rz2 onlyPlayers =
    list \<union> {c. \<exists>p. P c = Some p \<and> uint (pz p) \<in> {rz1..rz2}
              \<and> uint (px p) - uint (px centerPos) - (uint (pz centerPos) - uint (pz p)) \<in> {rx1..rx2}
              \<and> uint (py p) - uint (py centerPos) - (uint (pz centerPos) - uint (pz p)) \<in> {ry1..ry2}
              \<and> (if onlyPlayers then isPlayer c else True)}"
  using getSpectatorsInternal_exact [of m isPlayer P] map_reach_ok [OF assms] unfolding in_view_iff by auto

lemma small_map_reach:
  "\<exists>m. map_reach (\<lambda>_. True) m [3 \<mapsto> Position 1002 1000 7]"
proof -
  obtain f m where m: "setTile 1000 1000 7 5 empty_world = Some (f, m)" "world_ok m"
    "getTile m 1000 1000 7 = Some 5"
    using setTile_correct [OF empty_world_ok, of 7 1000 1000 5] by (auto simp: getTile_empty)
  have r: "map_reach (\<lambda>_. True) m Map.empty" by (rule mr_tile [OF mr_init m(1)])
  have "getLeaf (w_root m) 1000 1000 \<noteq> None"
    using m(2,3) getTile_ok [of m 7 1000 1000] by (auto split: option.splits)
  moreover have "getLeaf (w_root m) 1002 1000 = getLeaf (w_root m) 1000 1000"
    using m(2) by (intro getLeaf_same_cell) (simp_all add: world_ok_def same_cell_def ckey_def)
  ultimately obtain i where "getQTNode m 1002 1000 = Some i"
    using getQTNode_leaf [OF m(2), of 1002 1000] by auto
  then have "\<exists>m'. enterMap 3 True (Position 1002 1000 7) m = Some m'" by (simp add: enterMap_def)
  then show ?thesis using mr_enter [OF r, of 3 "Position 1002 1000 7"] by auto
qed

theorem creature_lists_exact_witness:
  "\<exists>m i m1. map_reach (\<lambda>_. True) m [3 \<mapsto> Position 1002 1000 7]
    \<and> getQTNode m 1002 1000 = Some i \<and> count (mset (lf_creatures (w_leaves m ! i))) 3 = 1
    \<and> leaveMap 3 True (Position 1002 1000 7) m = Some m1"
proof -
  obtain m where r: "map_reach (\<lambda>_. True) m [3 \<mapsto> Position 1002 1000 7]" using small_map_reach by blast
  have "getLeaf (w_root m) (ucast (px p)) (ucast (py p)) \<noteq> None"
    if "[3 \<mapsto> Position 1002 1000 7] (3 :: nat) = Some p" for p
    using map_reach_ok [OF r] that unfolding tracked_def by blast
  then have "getQTNode m (px (Position 1002 1000 7)) (py (Position 1002 1000 7)) \<noteq> None"
    using map_reach_ok [OF r] getQTNode_leaf [of m 1002 1000] by fastforce
  from creature_lists_exact [OF r, of 3 "Position 1002 1000 7", OF _ this] r show ?thesis by auto
qed

theorem spectator_scan_exact_witness:
  "\<exists>m. map_reach (\<lambda>_. True) m [3 \<mapsto> Position 1002 1000 7]
    \<and> getSpectatorsInternal m (\<lambda>c. the ([3 \<mapsto> Position 1002 1000 7] c)) {} (Position 1000 1000 7)
        (-11) 11 (-11) 11 0 9 True = {3}"
proof -
  obtain m where r: "map_reach (\<lambda>_. True) m [3 \<mapsto> Position 1002 1000 7]" using small_map_reach by blast
  with spectator_scan_exact [OF r, of "{}" "Position 1000 1000 7" "-11" 11 "-11" 11 0 9 True]
  show ?thesis by (intro exI [of _ m]) (auto split: if_splits)
qed

subsubsection \<open>The caches\<close>

text \<open>The call that the movements of creatures make: several floors, all creatures, standard range.\<close>

definition viewers ::
    "world \<Rightarrow> (nat \<Rightarrow> position) \<Rightarrow> (nat \<Rightarrow> bool) \<Rightarrow> nat set \<Rightarrow> position \<Rightarrow> spectator_caches
     \<Rightarrow> nat set \<times> spectator_caches" where
  "viewers m cpos isPlayer list pos ca = getSpectators m cpos isPlayer list pos True False 0 0 0 0 ca"

definition standard_view :: "bool \<Rightarrow> position \<Rightarrow> position \<Rightarrow> bool" where
  "standard_view multifloor pos p =
     (case z_range multifloor (uint (pz pos)) of (rz1, rz2) \<Rightarrow>
        in_view pos (- maxViewportX) maxViewportX (- maxViewportY) maxViewportY rz1 rz2 p)"

definition view_set :: "(nat \<rightharpoonup> position) \<Rightarrow> (nat \<Rightarrow> bool) \<Rightarrow> bool \<Rightarrow> (position \<Rightarrow> bool) \<Rightarrow> nat set" where
  "view_set P isPlayer onlyPlayers see =
     {c. \<exists>p. P c = Some p \<and> see p \<and> (if onlyPlayers then isPlayer c else True)}"

definition caches_ok :: "(nat \<rightharpoonup> position) \<Rightarrow> (nat \<Rightarrow> bool) \<Rightarrow> spectator_caches \<Rightarrow> bool" where
  "caches_ok P isPlayer ca \<longleftrightarrow>
     (\<forall>pos S. spectatorCache ca pos = Some S \<longrightarrow> S = view_set P isPlayer False (standard_view True pos))
   \<and> (\<forall>pos S. playersSpectatorCache ca pos = Some S \<longrightarrow> S = view_set P isPlayer True (standard_view True pos))"

definition range_or :: "int \<Rightarrow> int \<Rightarrow> int" where
  "range_or r d = (if r = 0 then d else r)"

text \<open>
  C35. The spectators of a place: with caches that are empty or were filled by such calls since the last
  movement, \<open>getSpectators\<close> called with an empty list returns exactly the creatures (or players) in
  view, for every range, on one floor or on those that are visible from it, and leaves the caches as
  good as they were.
\<close>

theorem getSpectators_exact:
  assumes "map_reach isPlayer m P" "caches_ok P isPlayer ca" "unat (pz pos) < 16"
  shows "\<exists>ca'. getSpectators m (\<lambda>c. the (P c)) isPlayer {} pos multifloor onlyPlayers x1 x2 y1 y2 ca =
      (view_set P isPlayer onlyPlayers (\<lambda>p. case z_range multifloor (uint (pz pos)) of (rz1, rz2) \<Rightarrow>
         in_view pos (- range_or x1 maxViewportX) (range_or x2 maxViewportX)
           (- range_or y1 maxViewportY) (range_or y2 maxViewportY) rz1 rz2 p), ca')
    \<and> caches_ok P isPlayer ca'"
proof -
  let ?x1 = "- range_or x1 maxViewportX" and ?x2 = "range_or x2 maxViewportX"
  let ?y1 = "- range_or y1 maxViewportY" and ?y2 = "range_or y2 maxViewportY"
  obtain rz1 rz2 where z: "z_range multifloor (uint (pz pos)) = (rz1, rz2)" by fastforce
  let ?V = "view_set P isPlayer onlyPlayers (in_view pos ?x1 ?x2 ?y1 ?y2 rz1 rz2)"
  have r: "(if x1 = 0 then - maxViewportX else - x1) = ?x1" "(if x2 = 0 then maxViewportX else x2) = ?x2"
    "(if y1 = 0 then - maxViewportY else - y1) = ?y1" "(if y2 = 0 then maxViewportY else y2) = ?y2"
    by (simp_all add: range_or_def)
  have scan: "getSpectatorsInternal m (\<lambda>c. the (P c)) {} pos ?x1 ?x2 ?y1 ?y2 rz1 rz2 onlyPlayers = ?V"
    using getSpectatorsInternal_exact [of m isPlayer P "{}"] map_reach_ok [OF assms(1)]
    unfolding view_set_def by (auto split: if_splits)
  define std where "std \<longleftrightarrow> ?x1 = - maxViewportX \<and> ?x2 = maxViewportX \<and> ?y1 = - maxViewportY
    \<and> ?y2 = maxViewportY \<and> multifloor"
  have sv: "in_view pos ?x1 ?x2 ?y1 ?y2 rz1 rz2 = standard_view True pos" if std
    using that z by (auto simp: std_def standard_view_def)
  have filt: "Set.filter isPlayer (view_set P isPlayer False see) = view_set P isPlayer True see" for see
    by (auto simp: view_set_def)
  have spec: "spectatorCache ca pos = Some S \<Longrightarrow> S = view_set P isPlayer False (standard_view True pos)"
    "playersSpectatorCache ca pos = Some S \<Longrightarrow> S = view_set P isPlayer True (standard_view True pos)" for S
    using assms(2) by (auto simp: caches_ok_def)
  have upd: "caches_ok P isPlayer (ca \<lparr> playersSpectatorCache := (playersSpectatorCache ca)(pos \<mapsto> ?V) \<rparr>)" if std onlyPlayers
    using assms(2) that sv by (auto simp: caches_ok_def)
  have upd2: "caches_ok P isPlayer (ca \<lparr> spectatorCache := (spectatorCache ca)(pos \<mapsto> ?V) \<rparr>)" if std "\<not> onlyPlayers"
    using assms(2) that sv by (auto simp: caches_ok_def)
  have g: "getSpectators m (\<lambda>c. the (P c)) isPlayer {} pos multifloor onlyPlayers x1 x2 y1 y2 ca =
     (let found = (if \<not> std then None
                else case (if std \<and> onlyPlayers then playersSpectatorCache ca pos else None) of
                  Some cached \<Rightarrow> Some ({} \<union> cached)
                | None \<Rightarrow> (case spectatorCache ca pos of
                       Some cached \<Rightarrow> Some ({} \<union> (if onlyPlayers then Set.filter isPlayer cached else cached))
                     | None \<Rightarrow> None))
      in case found of Some l \<Rightarrow> (l, ca)
         | None \<Rightarrow> (?V, if std \<and> found = None then
                     (if onlyPlayers then ca \<lparr> playersSpectatorCache := (playersSpectatorCache ca)(pos \<mapsto> ?V) \<rparr>
                      else ca \<lparr> spectatorCache := (spectatorCache ca)(pos \<mapsto> ?V) \<rparr>) else ca))"
    unfolding getSpectators_def Let_def r z prod.case scan std_def [symmetric]
    using assms(3) by (simp add: MAP_MAX_LAYERS_def)
  show ?thesis unfolding z prod.case
  proof (cases std)
    case False
    then show "\<exists>ca'. getSpectators m (\<lambda>c. the (P c)) isPlayer {} pos multifloor onlyPlayers x1 x2 y1 y2 ca = (?V, ca')
        \<and> caches_ok P isPlayer ca'" using assms(2) by (simp add: g)
  next
    case True
    note sv' = sv [OF True]
    show "\<exists>ca'. getSpectators m (\<lambda>c. the (P c)) isPlayer {} pos multifloor onlyPlayers x1 x2 y1 y2 ca = (?V, ca')
        \<and> caches_ok P isPlayer ca'"
    proof (cases onlyPlayers)
      case op: True
      show ?thesis
      proof (cases "playersSpectatorCache ca pos")
        case (Some S)
        then show ?thesis unfolding g using spec(2) [OF Some] True op assms(2) sv' by simp
      next
        case None
        then show ?thesis unfolding g using True op assms(2) sv' spec(1) filt upd
          by (cases "spectatorCache ca pos") auto
      qed
    next
      case False
      then show ?thesis unfolding g using True assms(2) sv' spec(1) upd2
        by (cases "spectatorCache ca pos") auto
    qed
  qed
qed

theorem getSpectators_exact_witness:
  "\<exists>m ca'. map_reach (\<lambda>_. True) m [3 \<mapsto> Position 1002 1000 7]
    \<and> getSpectators m (\<lambda>c. the ([3 \<mapsto> Position 1002 1000 7] c)) (\<lambda>_. True) {} (Position 1000 1000 7) True True
        0 0 0 0 \<lparr> spectatorCache = Map.empty, playersSpectatorCache = Map.empty \<rparr> = ({3}, ca')"
proof -
  obtain m where r: "map_reach (\<lambda>_. True) m [3 \<mapsto> Position 1002 1000 7]" using small_map_reach by blast
  let ?ca = "\<lparr> spectatorCache = Map.empty, playersSpectatorCache = Map.empty \<rparr>"
  have "caches_ok [3 \<mapsto> Position 1002 1000 7] (\<lambda>_. True) ?ca" by (simp add: caches_ok_def)
  from getSpectators_exact [OF r this, of "Position 1000 1000 7" True True 0 0 0 0]
  obtain ca' where "getSpectators m (\<lambda>c. the ([3 \<mapsto> Position 1002 1000 7] c)) (\<lambda>_. True) {} (Position 1000 1000 7)
      True True 0 0 0 0 ?ca = (view_set [3 \<mapsto> Position 1002 1000 7] (\<lambda>_. True) True
        (\<lambda>p. in_view (Position 1000 1000 7) (-11) 11 (-11) 11 0 9 p), ca')"
    by (auto simp: z_range_def range_or_def maxViewportX_def maxViewportY_def)
  moreover have "view_set [3 \<mapsto> Position 1002 1000 7] (\<lambda>_. True) True
        (\<lambda>p. in_view (Position 1000 1000 7) (-11) 11 (-11) 11 0 9 p) = {3}"
    by (auto simp: view_set_def in_view_def getOffsetZ_def Let_def split: if_splits)
  ultimately show ?thesis using r by auto
qed

lemma scan_row_add:
  "scan_row m see op ny nxs leafE list = list \<union> scan_row m see op ny nxs leafE {}"
proof (induction nxs arbitrary: leafE list)
  case (Cons nx nxs)
  show ?case
  proof (cases leafE)
    case None
    then show ?thesis using Cons.IH [of _ list] by simp
  next
    case (Some i)
    then show ?thesis
      using Cons.IH [of "lf_E (w_leaves m ! i)" "list \<union> {x \<in> set (leaf_list m op i). see x}"]
        Cons.IH [of "lf_E (w_leaves m ! i)" "{x \<in> set (leaf_list m op i). see x}"] by auto
  qed
qed simp

lemma scan_rows_add:
  "scan_rows m see op sx nxs nys leafS list = list \<union> scan_rows m see op sx nxs nys leafS {}"
proof (induction nys arbitrary: leafS list)
  case (Cons ny nys)
  define nl where "nl = (case leafS of Some i \<Rightarrow> lf_S (w_leaves m ! i)
    | None \<Rightarrow> getLeafStatic (w_root m) (word_of_int sx) (word_of_int (ny + 8)))"
  show ?case
    using Cons.IH [of nl "scan_row m see op ny nxs leafS list"] scan_row_add [of m see op ny nxs leafS list]
      Cons.IH [of nl "scan_row m see op ny nxs leafS {}"]
    unfolding scan_rows.simps Let_def nl_def [symmetric] by auto
qed simp

lemma viewers_eq:
  assumes "unat (pz pos) < 16"
  shows "viewers m cpos isPlayer list pos ca =
    (case spectatorCache ca pos of
       Some S \<Rightarrow> (list \<union> S, ca)
     | None \<Rightarrow> (list \<union> fst (viewers m cpos isPlayer {} pos (clearSpectatorCache ca)),
         ca \<lparr> spectatorCache := (spectatorCache ca)(pos \<mapsto>
           list \<union> fst (viewers m cpos isPlayer {} pos (clearSpectatorCache ca))) \<rparr>))"
proof -
  obtain rz1 rz2 where z: "z_range True (uint (pz pos)) = (rz1, rz2)" by fastforce
  have add: "getSpectatorsInternal m cpos l pos a b c d rz1 rz2 False
      = l \<union> getSpectatorsInternal m cpos {} pos a b c d rz1 rz2 False" for l a b c d
    unfolding getSpectatorsInternal_def Let_def by (rule scan_rows_add)
  show ?thesis using assms add [of list]
    by (cases "spectatorCache ca pos")
      (simp_all add: viewers_def getSpectators_def Let_def z MAP_MAX_LAYERS_def clearSpectatorCache_def)
qed

text \<open>
  C36. The cache of spectators keeps what the caller brought along: with empty caches, a caller that
  collects the spectators of two places in one list (as \<open>moveCreature\<close> does) makes the next caller,
  who only asks for the second place, get those of both places.
\<close>

theorem spectator_cache_collects:
  assumes "a \<noteq> b" "unat (pz a) < 16" "unat (pz b) < 16"
    and "spectatorCache ca a = None" "spectatorCache ca b = None"
  shows "let (l1, ca1) = viewers m cpos isPlayer {} a ca; (l2, ca2) = viewers m cpos isPlayer l1 b ca1
    in fst (viewers m cpos isPlayer {} b ca2)
       = fst (viewers m cpos isPlayer {} a ca) \<union> fst (viewers m cpos isPlayer {} b ca)"
proof -
  have clear: "clearSpectatorCache (c \<lparr> spectatorCache := f \<rparr>) = clearSpectatorCache c" for c f
    by (simp add: clearSpectatorCache_def)
  show ?thesis
    using assms by (simp add: viewers_eq [of a] viewers_eq [of b] clear)
qed

theorem spectator_cache_collects_witness:
  "\<exists>m. map_reach (\<lambda>_. True) m [3 \<mapsto> Position 1002 1000 7]
    \<and> (let cpos = (\<lambda>c. the ([3 \<mapsto> Position 1002 1000 7] c));
           ca = \<lparr> spectatorCache = Map.empty, playersSpectatorCache = Map.empty \<rparr>;
           (l1, ca1) = viewers m cpos (\<lambda>_. True) {} (Position 1000 1000 7) ca;
           (l2, ca2) = viewers m cpos (\<lambda>_. True) l1 (Position 2000 2000 7) ca1
       in 3 \<in> fst (viewers m cpos (\<lambda>_. True) {} (Position 2000 2000 7) ca2)
        \<and> \<not> standard_view True (Position 2000 2000 7) (cpos 3))"
proof -
  obtain m where r: "map_reach (\<lambda>_. True) m [3 \<mapsto> Position 1002 1000 7]" using small_map_reach by blast
  let ?cpos = "\<lambda>c. the ([3 \<mapsto> Position 1002 1000 7] c)"
  let ?ca = "\<lparr> spectatorCache = Map.empty, playersSpectatorCache = Map.empty \<rparr>"
  have ok: "world_ok m" "tracked (\<lambda>_. True) m [3 \<mapsto> Position 1002 1000 7]" using map_reach_ok [OF r] by blast+
  have "in_view (Position 1000 1000 7) (-11) 11 (-11) 11 0 9 (Position 1002 1000 7)"
    by (simp add: in_view_def getOffsetZ_def Let_def)
  then have "3 \<in> fst (viewers m ?cpos (\<lambda>_. True) {} (Position 1000 1000 7) ?ca)"
    using getSpectatorsInternal_exact [OF ok, of "{}" "Position 1000 1000 7" "-11" 11 "-11" 11 0 9 False]
    by (simp add: viewers_def getSpectators_def Let_def MAP_MAX_LAYERS_def z_range_def maxViewportX_def maxViewportY_def)
  moreover have "\<not> standard_view True (Position 2000 2000 7) (Position 1002 1000 7)"
    by (simp add: standard_view_def z_range_def in_view_def getOffsetZ_def Let_def maxViewportX_def)
  ultimately show ?thesis
    using r spectator_cache_collects [of "Position 1000 1000 7" "Position 2000 2000 7" ?ca m ?cpos "\<lambda>_. True"]
    by (intro exI [of _ m]) (auto simp: Let_def case_prod_unfold)
qed

end
