(* ===== verification/Sight_Line.thy ===== *)
theory Sight_Line
  imports Positions Otx_Enums "HOL-Library.Monad_Syntax"
begin

text \<open>
  Lines of sight: \<open>Map::checkSightLine\<close>, \<open>isSightClear\<close> and \<open>canThrowObjectTo\<close> of
  \<^verbatim>\<open>src/src/map.cpp\<close>. The walk along the line is a loop over two 16 bit coordinates whose
  decisions are 32 bit signed products; an overflow is undefined (\<open>None\<close>). Of a tile only the answers
  matter that the algorithms of the map ask for; the map is a function from positions to tiles.
  Of the creature on a tile \<open>tv_blocker\<close> says: \<open>None\<close>, there is none; \<open>Some None\<close>, it is not a monster;
  \<open>Some (Some pushable)\<close>, it is a monster that can be pushed or not.
\<close>

record tile_view =
  tv_blockProjectile :: bool
  tv_thingCount :: nat
  tv_queryAdd :: return_value
  tv_blocker :: "bool option option"
  tv_field :: "nat option"

type_synonym tile_map = "position \<Rightarrow> tile_view option"

text \<open>\<open>|A * u + B * v + C|\<close> on 32 bit signed integers.\<close>

definition line_value :: "int \<Rightarrow> int \<Rightarrow> int \<Rightarrow> int \<Rightarrow> int \<Rightarrow> int option" where
  "line_value A B C u v =
     (if in_int32 (A * u) \<and> in_int32 (B * v) \<and> in_int32 (A * u + B * v) \<and> in_int32 (A * u + B * v + C)
        \<and> in_int32 (- (A * u + B * v + C))
      then Some \<bar>A * u + B * v + C\<bar> else None)"

definition blocks_projectile :: "tile_map \<Rightarrow> position \<Rightarrow> bool" where
  "blocks_projectile tiles pos =
     (case tiles pos of None \<Rightarrow> False | Some tile \<Rightarrow> tv_blockProjectile tile)"

definition has_things :: "tile_map \<Rightarrow> position \<Rightarrow> bool" where
  "has_things tiles pos = (case tiles pos of None \<Rightarrow> False | Some tile \<Rightarrow> 0 < tv_thingCount tile)"

text \<open>One round: the next position of \<open>start\<close>.\<close>

definition sight_step :: "int \<Rightarrow> int \<Rightarrow> int \<Rightarrow> int \<Rightarrow> int \<Rightarrow> position \<Rightarrow> position \<Rightarrow> position option" where
  "sight_step A B C mx my dest start =
     do {
       move_hor \<leftarrow> line_value A B C (uint (px start) + mx) (uint (py start));
       move_ver \<leftarrow> line_value A B C (uint (px start)) (uint (py start) + my);
       move_cross \<leftarrow> line_value A B C (uint (px start) + mx) (uint (py start) + my);
       let y = (if py start \<noteq> py dest \<and> (px start = px dest \<or> move_hor > move_ver \<or> move_hor > move_cross)
                then py start + word_of_int my else py start);
           x = (if px start \<noteq> px dest \<and> (y = py dest \<or> move_ver > move_hor \<or> move_ver > move_cross)
                then px start + word_of_int mx else px start)
       in Some (Position x y (pz start))
     }"

text \<open>The first loop: \<open>Some None\<close> if it meets an obstacle, otherwise the position above or below the
  destination.\<close>

partial_function (option) sight_loop ::
    "tile_map \<Rightarrow> int \<Rightarrow> int \<Rightarrow> int \<Rightarrow> int \<Rightarrow> int \<Rightarrow> position \<Rightarrow> position \<Rightarrow> position option option" where
  "sight_loop tiles A B C mx my dest start =
     (if px start = px dest \<and> py start = py dest then Some (Some start)
      else do {
        next \<leftarrow> sight_step A B C mx my dest start;
        if blocks_projectile tiles next then Some None
        else sight_loop tiles A B C mx my dest next
      })"

lemma unat_dist_Suc: "(z :: u8) \<noteq> d \<Longrightarrow> unat (d - (z + 1)) < unat (d - z)"
proof -
  assume "z \<noteq> d"
  then have nz: "d - z \<noteq> 0" by simp
  have e: "d - (z + 1) = (d - z) - 1" by simp
  have "unat (d - z) \<noteq> 0" using nz unat_eq_0 by blast
  then show ?thesis unfolding e unat_minus_one [OF nz] by linarith
qed

text \<open>The second loop jumps between the floors.\<close>

function floor_loop :: "tile_map \<Rightarrow> u8 \<Rightarrow> position \<Rightarrow> bool" where
  "floor_loop tiles z start =
     (if pz start = z then True
      else if has_things tiles start then False
      else floor_loop tiles z (Position (px start) (py start) (pz start + 1)))"
  by pat_completeness auto
termination by (relation "measure (\<lambda>(_, z, s). unat (z - pz s))") (auto intro: unat_dist_Suc)

declare floor_loop.simps [simp del]
declare sight_loop.simps [code]

definition unit_towards :: "u16 \<Rightarrow> u16 \<Rightarrow> int" where
  "unit_towards a b = (if a < b then 1 else if a = b then 0 else -1)"

definition checkSightLine :: "tile_map \<Rightarrow> position \<Rightarrow> position \<Rightarrow> bool option" where
  "checkSightLine tiles fromPos toPos =
     (if fromPos = toPos then Some True
      else
        (let start = (if pz fromPos > pz toPos then toPos else fromPos);
             dest = (if pz fromPos > pz toPos then fromPos else toPos);
             mx = unit_towards (px start) (px dest);
             my = unit_towards (py start) (py dest);
             A = getOffsetY dest start;
             B = getOffsetX start dest;
             p = A * uint (px dest); q = B * uint (py dest)
         in if \<not> (in_int32 p \<and> in_int32 q \<and> in_int32 (p + q) \<and> in_int32 (- (p + q))) then None
            else do {
              r \<leftarrow> sight_loop tiles A B (- (p + q)) mx my dest start;
              case r of None \<Rightarrow> Some False
                | Some pos \<Rightarrow> Some (floor_loop tiles (pz dest) pos)
            }))"

definition isSightClear :: "tile_map \<Rightarrow> position \<Rightarrow> position \<Rightarrow> bool \<Rightarrow> bool option" where
  "isSightClear tiles fromPos toPos floorCheck =
     (if floorCheck \<and> pz fromPos \<noteq> pz toPos then Some False
      else do {
        a \<leftarrow> checkSightLine tiles fromPos toPos;
        if a then Some True else checkSightLine tiles toPos fromPos
      })"

definition canThrowObjectTo ::
    "tile_map \<Rightarrow> position \<Rightarrow> position \<Rightarrow> bool \<Rightarrow> int \<Rightarrow> int \<Rightarrow> bool option" where
  "canThrowObjectTo tiles fromPos toPos checkLineOfSight rangex rangey =
     (if (pz fromPos \<ge> 8 \<and> pz toPos < 8) \<or> (pz toPos \<ge> 8 \<and> pz fromPos < 8) then Some False
      else
        (let deltaz = getDistanceZ fromPos toPos
         in if deltaz > 2 then Some False
            else if getDistanceX fromPos toPos - deltaz > rangex then Some False
            else if getDistanceY fromPos toPos - deltaz > rangey then Some False
            else if \<not> checkLineOfSight then Some True
            else isSightClear tiles fromPos toPos False))"

subsection \<open>The walk ends\<close>

text \<open>A position that is on the way: the loop moves towards the destination and never past it.\<close>

definition coord_on_way :: "int \<Rightarrow> u16 \<Rightarrow> u16 \<Rightarrow> bool" where
  "coord_on_way m d w \<longleftrightarrow> w = d \<or> (m = 1 \<and> w < d) \<or> (m = -1 \<and> d < w)"

lemma u16_move:
  assumes "coord_on_way m d w" "w \<noteq> d"
  shows "uint (w + word_of_int m) = uint w + m" "coord_on_way m d (w + word_of_int m)"
    "\<bar>uint d - uint (w + word_of_int m)\<bar> = \<bar>uint d - uint w\<bar> - 1"
    "m = sgn (uint d - uint w)" "m * m = 1"
proof -
  have b: "0 \<le> uint w" "uint w < 65536" "0 \<le> uint d" "uint d < 65536"
    using uint_bounded [of w] uint_bounded [of d] by simp_all
  consider (up) "m = 1" "uint w < uint d" | (down) "m = -1" "uint d < uint w"
    using assms by (auto simp: coord_on_way_def word_less_def)
  note cases_m = this
  have u: "uint (w + word_of_int m) = uint w + m"
  proof (cases rule: cases_m)
    case up
    then have "(uint w + 1) mod 65536 = uint w + 1" using b by (intro mod_pos_pos_trivial) linarith+
    then show ?thesis using up by (simp add: uint_word_ariths)
  next
    case down
    then have "(uint w - 1) mod 65536 = uint w - 1" using b by (intro mod_pos_pos_trivial) linarith+
    then show ?thesis using down by (simp add: uint_word_ariths)
  qed
  then show "uint (w + word_of_int m) = uint w + m" .
  show "coord_on_way m d (w + word_of_int m)"
    by (cases rule: cases_m) (use u in \<open>auto simp: coord_on_way_def word_less_def word_uint_eq_iff\<close>)
  show "\<bar>uint d - uint (w + word_of_int m)\<bar> = \<bar>uint d - uint w\<bar> - 1"
    by (cases rule: cases_m) (use u in auto)
  show "m = sgn (uint d - uint w)" "m * m = 1" by (cases rule: cases_m; simp)+
qed

lemma coord_step:
  assumes "coord_on_way m d w" "P \<Longrightarrow> w \<noteq> d" "v = (if P then w + word_of_int m else w)"
  shows "coord_on_way m d v" "\<bar>uint d - uint v\<bar> \<le> \<bar>uint d - uint w\<bar>"
    "v \<noteq> w \<Longrightarrow> \<bar>uint d - uint v\<bar> = \<bar>uint d - uint w\<bar> - 1" "v = w \<Longrightarrow> \<not> P"
proof -
  show "coord_on_way m d v" "\<bar>uint d - uint v\<bar> \<le> \<bar>uint d - uint w\<bar>"
    "v \<noteq> w \<Longrightarrow> \<bar>uint d - uint v\<bar> = \<bar>uint d - uint w\<bar> - 1"
    by (cases P; use assms u16_move [OF assms(1)] in simp)+
  show "\<not> P" if "v = w"
  proof
    assume P
    then have "\<bar>uint d - uint v\<bar> = \<bar>uint d - uint w\<bar> - 1"
      using assms u16_move(3) [OF assms(1)] by simp
    with that show False by simp
  qed
qed

text \<open>The three candidates cannot tie: one of them is closer to the line.\<close>

lemma sight_no_tie:
  fixes e a b :: int
  assumes "0 < a" "0 < b" "s = 1 \<or> s = -1"
    and "\<bar>e + s * a\<bar> \<le> \<bar>e - s * b\<bar>" "\<bar>e - s * b\<bar> \<le> \<bar>e + s * a\<bar>"
    and "\<bar>e + s * a\<bar> \<le> \<bar>e + s * a - s * b\<bar>"
  shows False
  using assms by (auto simp: abs_if split: if_splits)

lemma line_value_total:
  assumes "\<bar>A\<bar> + \<bar>B\<bar> \<le> 32767" "C = - (A * dx + B * dy)" "0 \<le> dx" "dx < 65536" "0 \<le> dy" "dy < 65536"
    and "-1 \<le> u" "u \<le> 65536" "-1 \<le> v" "v \<le> 65536"
  shows "line_value A B C u v = Some \<bar>A * (u - dx) + B * (v - dy)\<bar>"
proof -
  have m: "\<bar>A * r\<bar> \<le> \<bar>A\<bar> * 65536" "\<bar>B * r\<bar> \<le> \<bar>B\<bar> * 65536" if "\<bar>r\<bar> \<le> 65536" for r
    unfolding abs_mult using that by (intro mult_left_mono; simp)+
  have s: "\<bar>A * r + B * t\<bar> \<le> 2147418112" if "\<bar>r\<bar> \<le> 65536" "\<bar>t\<bar> \<le> 65536" for r t
    using m(1) [OF that(1)] m(2) [OF that(2)] assms(1) by linarith
  have e: "A * u + B * v + C = A * (u - dx) + B * (v - dy)" using assms(2) by (simp add: algebra_simps)
  have "\<bar>A * u\<bar> \<le> 2147418112" "\<bar>B * v\<bar> \<le> 2147418112" "\<bar>A * u + B * v\<bar> \<le> 2147418112"
    "\<bar>A * (u - dx) + B * (v - dy)\<bar> \<le> 2147418112"
    using s [of u 0] s [of 0 v] s [of u v] s [of "u - dx" "v - dy"] assms by simp_all
  then show ?thesis unfolding line_value_def e in_int32_def by auto
qed

definition line_ok :: "int \<Rightarrow> int \<Rightarrow> int \<Rightarrow> int \<Rightarrow> bool" where
  "line_ok A B mx my \<longleftrightarrow> my = sgn A \<and> mx = - sgn B \<and> \<bar>A\<bar> + \<bar>B\<bar> \<le> 32767"

definition on_way :: "int \<Rightarrow> int \<Rightarrow> position \<Rightarrow> position \<Rightarrow> bool" where
  "on_way mx my dest s \<longleftrightarrow> coord_on_way mx (px dest) (px s) \<and> coord_on_way my (py dest) (py s)"

definition closer :: "position \<Rightarrow> position \<Rightarrow> position \<Rightarrow> bool" where
  "closer dest s t \<longleftrightarrow> getDistanceX dest t \<le> getDistanceX dest s \<and> getDistanceY dest t \<le> getDistanceY dest s
     \<and> pz t = pz s"

lemma closer_trans: "closer d s t \<Longrightarrow> closer d t u \<Longrightarrow> closer d s u"
  by (auto simp: closer_def)

lemma closer_refl [simp]: "closer d s s"
  by (simp add: closer_def)

definition way_left :: "position \<Rightarrow> position \<Rightarrow> nat" where
  "way_left dest s = nat (getDistanceX dest s + getDistanceY dest s)"

lemma sight_step_total:
  assumes "line_ok A B mx my" "C = - (A * uint (px dest) + B * uint (py dest))"
    and "on_way mx my dest s" "\<not> (px s = px dest \<and> py s = py dest)"
  shows "\<exists>t. sight_step A B C mx my dest s = Some t \<and> on_way mx my dest t \<and> closer dest s t
    \<and> way_left dest t < way_left dest s"
proof -
  let ?x = "uint (px s)" and ?y = "uint (py s)" and ?dx = "uint (px dest)" and ?dy = "uint (py dest)"
  have b: "0 \<le> ?x" "?x < 65536" "0 \<le> ?y" "?y < 65536" "0 \<le> ?dx" "?dx < 65536" "0 \<le> ?dy" "?dy < 65536"
    using uint_bounded [of "px s"] uint_bounded [of "py s"] uint_bounded [of "px dest"] uint_bounded [of "py dest"]
    by simp_all
  have mm: "mx = 1 \<or> mx = 0 \<or> mx = -1" "my = 1 \<or> my = 0 \<or> my = -1"
    using assms(1) by (auto simp: line_ok_def sgn_if)
  then have mb: "-1 \<le> mx" "mx \<le> 1" "-1 \<le> my" "my \<le> 1" by auto
  have lv: "line_value A B C u v = Some \<bar>A * (u - ?dx) + B * (v - ?dy)\<bar>"
    if "-1 \<le> u" "u \<le> 65536" "-1 \<le> v" "v \<le> 65536" for u v
    using assms(1,2) b that by (intro line_value_total) (auto simp: line_ok_def)
  define e where "e = A * (?x - ?dx) + B * (?y - ?dy)"
  define hor ver cross where "hor = \<bar>e + A * mx\<bar>" and "ver = \<bar>e + B * my\<bar>" and "cross = \<bar>e + A * mx + B * my\<bar>"
  have vals: "line_value A B C (?x + mx) ?y = Some hor" "line_value A B C ?x (?y + my) = Some ver"
    "line_value A B C (?x + mx) (?y + my) = Some cross"
  proof -
    have "line_value A B C (?x + mx) ?y = Some \<bar>A * (?x + mx - ?dx) + B * (?y - ?dy)\<bar>"
      by (rule lv) (use mb b in linarith)+
    also have "A * (?x + mx - ?dx) + B * (?y - ?dy) = e + A * mx" by (simp add: e_def algebra_simps)
    finally show "line_value A B C (?x + mx) ?y = Some hor" by (simp add: hor_def)
    have "line_value A B C ?x (?y + my) = Some \<bar>A * (?x - ?dx) + B * (?y + my - ?dy)\<bar>"
      by (rule lv) (use mb b in linarith)+
    also have "A * (?x - ?dx) + B * (?y + my - ?dy) = e + B * my" by (simp add: e_def algebra_simps)
    finally show "line_value A B C ?x (?y + my) = Some ver" by (simp add: ver_def)
    have "line_value A B C (?x + mx) (?y + my) = Some \<bar>A * (?x + mx - ?dx) + B * (?y + my - ?dy)\<bar>"
      by (rule lv) (use mb b in linarith)+
    also have "A * (?x + mx - ?dx) + B * (?y + my - ?dy) = e + A * mx + B * my"
      by (simp add: e_def algebra_simps)
    finally show "line_value A B C (?x + mx) (?y + my) = Some cross" by (simp add: cross_def)
  qed
  define y where "y = (if py s \<noteq> py dest \<and> (px s = px dest \<or> hor > ver \<or> hor > cross)
      then py s + word_of_int my else py s)"
  define x where "x = (if px s \<noteq> px dest \<and> (y = py dest \<or> ver > hor \<or> ver > cross)
      then px s + word_of_int mx else px s)"
  have st: "sight_step A B C mx my dest s = Some (Position x y (pz s))"
    by (simp add: sight_step_def vals y_def x_def Let_def)
  have cy: "coord_on_way my (py dest) (py s)" and cx: "coord_on_way mx (px dest) (px s)"
    using assms(3) by (simp_all add: on_way_def)
  note y = coord_step [OF cy _ y_def] and x = coord_step [OF cx _ x_def]
  have moved: "x \<noteq> px s \<or> y \<noteq> py s"
  proof (rule ccontr)
    assume "\<not> ?thesis"
    then have same: "x = px s" "y = py s" by simp_all
    have ny: "\<not> (py s \<noteq> py dest \<and> (px s = px dest \<or> hor > ver \<or> hor > cross))"
      by (rule y(4) [OF _ same(2)]) simp
    have "\<not> (px s \<noteq> px dest \<and> (y = py dest \<or> ver > hor \<or> ver > cross))"
      by (rule x(4) [OF _ same(1)]) simp
    then have nx: "\<not> (px s \<noteq> px dest \<and> (py s = py dest \<or> ver > hor \<or> ver > cross))"
      by (simp add: same(2))
    from nx ny assms(4) have ne: "px s \<noteq> px dest" "py s \<noteq> py dest" and le: "hor \<le> ver" "hor \<le> cross" "ver \<le> hor"
      by auto
    have m1: "mx = sgn (?dx - ?x)" "my = sgn (?dy - ?y)" "mx * mx = 1" "my * my = 1"
      using u16_move(4,5) [OF cx ne(1)] u16_move(4,5) [OF cy ne(2)] by auto
    have A: "A = my * \<bar>A\<bar>" "0 < \<bar>A\<bar>" and B: "B = - mx * \<bar>B\<bar>" "0 < \<bar>B\<bar>"
      using assms(1) m1(3,4) by (auto simp: line_ok_def sgn_if split: if_splits)
    have hA: "A * mx = (mx * my) * \<bar>A\<bar>" using A(1) by (metis mult.assoc mult.commute)
    have hB: "B * my = - ((mx * my) * \<bar>B\<bar>)" using B(1) by (metis mult.assoc mult.commute mult_minus_left)
    have s: "mx * my = 1 \<or> mx * my = -1" using mm m1(3,4) by auto
    show False
      by (rule sight_no_tie [OF A(2) B(2) s, of e]) (use le in \<open>simp_all add: hor_def ver_def cross_def hA hB\<close>)
  qed
  have "way_left dest (Position x y (pz s)) < way_left dest s"
    using moved x(2,3) y(2,3)
    by (cases "x = px s"; cases "y = py s") (auto simp: way_left_def distance_defs)
  with st x(1,2) y(1,2) show ?thesis
    by (intro exI [of _ "Position x y (pz s)"]) (simp add: on_way_def closer_def distance_defs)
qed

lemma sight_loop_total:
  assumes "line_ok A B mx my" "C = - (A * uint (px dest) + B * uint (py dest))"
  shows "on_way mx my dest s \<Longrightarrow> \<exists>r. sight_loop tiles A B C mx my dest s = Some r
    \<and> (case r of
         None \<Rightarrow> \<exists>p. blocks_projectile tiles p \<and> on_way mx my dest p \<and> closer dest s p
       | Some t \<Rightarrow> t = Position (px dest) (py dest) (pz s))"
proof (induction "way_left dest s" arbitrary: s rule: less_induct)
  case less
  show ?case
  proof (cases "px s = px dest \<and> py s = py dest")
    case True
    then show ?thesis by (subst sight_loop.simps) (cases s, simp)
  next
    case False
    obtain t where t: "sight_step A B C mx my dest s = Some t" "on_way mx my dest t" "closer dest s t"
      "way_left dest t < way_left dest s"
      using sight_step_total [OF assms less.prems False] by blast
    have e: "sight_loop tiles A B C mx my dest s =
        (if blocks_projectile tiles t then Some None else sight_loop tiles A B C mx my dest t)"
      by (subst sight_loop.simps) (simp only: if_not_P [OF False] t(1) bind.bind_lunit)
    show ?thesis
    proof (cases "blocks_projectile tiles t")
      case True
      then show ?thesis using t e by auto
    next
      case False
      obtain r where r: "sight_loop tiles A B C mx my dest t = Some r"
        "(case r of
         None \<Rightarrow> \<exists>p. blocks_projectile tiles p \<and> on_way mx my dest p \<and> closer dest t p
       | Some u \<Rightarrow> u = Position (px dest) (py dest) (pz t))"
        using less.hyps [OF t(4,2)] by blast
      then have "case r of
         None \<Rightarrow> \<exists>p. blocks_projectile tiles p \<and> on_way mx my dest p \<and> closer dest s p
       | Some u \<Rightarrow> u = Position (px dest) (py dest) (pz s)"
        using t(3) closer_trans [OF t(3)] by (auto simp: closer_def split: option.splits)
      then show ?thesis using e False r(1) by auto
    qed
  qed
qed

lemma floor_loop_blocked:
  "\<not> floor_loop tiles z s \<Longrightarrow> pz s \<le> z \<Longrightarrow>
     \<exists>k. pz s \<le> k \<and> k < z \<and> has_things tiles (Position (px s) (py s) k)"
proof (induction tiles z s rule: floor_loop.induct)
  case (1 tiles z s)
  have ne: "pz s \<noteq> z" using "1.prems"(1) by (subst (asm) floor_loop.simps) (auto split: if_splits)
  then have lt: "pz s < z" using "1.prems"(2) by simp
  show ?case
  proof (cases "has_things tiles s")
    case True
    then show ?thesis using lt by (intro exI [of _ "pz s"]) (cases s, simp)
  next
    case False
    have "unat (pz s) + 1 < 256" using lt unat_u8_bound [of z] by (simp add: word_less_nat_alt)
    then have "unat (pz s + 1) = unat (pz s) + 1" by (simp add: unat_word_ariths)
    then have inc: "pz s \<le> pz s + 1" "pz s + 1 \<le> z"
      using lt by (simp_all add: word_le_nat_alt word_less_nat_alt)
    have "\<not> floor_loop tiles z (Position (px s) (py s) (pz s + 1))"
      using "1.prems"(1) ne False by (subst (asm) floor_loop.simps) simp
    then obtain k where k: "pz s + 1 \<le> k" "k < z" "has_things tiles (Position (px s) (py s) k)"
      using "1.IH" [OF ne False] inc by auto
    then show ?thesis using order_trans [OF inc(1) k(1)] by blast
  qed
qed

subsection \<open>Properties\<close>

definition between :: "'a::linorder \<Rightarrow> 'a \<Rightarrow> 'a \<Rightarrow> bool" where
  "between a b x \<longleftrightarrow> min a b \<le> x \<and> x \<le> max a b"

definition in_box :: "position \<Rightarrow> position \<Rightarrow> position \<Rightarrow> bool" where
  "in_box a b p \<longleftrightarrow> between (px a) (px b) (px p) \<and> between (py a) (py b) (py p) \<and> between (pz a) (pz b) (pz p)"

definition obstacle :: "tile_map \<Rightarrow> position \<Rightarrow> bool" where
  "obstacle tiles p \<longleftrightarrow> blocks_projectile tiles p \<or> has_things tiles p"

lemma coord_between:
  "coord_on_way m d w \<Longrightarrow> coord_on_way m d v \<Longrightarrow> \<bar>uint d - uint v\<bar> \<le> \<bar>uint d - uint w\<bar> \<Longrightarrow> between w d v"
  by (auto simp: coord_on_way_def between_def word_less_def word_le_def min_def max_def)

lemma coord_on_way_start: "coord_on_way (unit_towards a b) b a"
  by (auto simp: coord_on_way_def unit_towards_def)

lemma in_box_sym: "in_box a b p = in_box b a p"
  by (auto simp: in_box_def between_def min.commute max.commute)

lemma line_ok_start:
  assumes "getDistanceX a b + getDistanceY a b \<le> 32767"
  shows "line_ok (getOffsetY b a) (getOffsetX a b) (unit_towards (px a) (px b)) (unit_towards (py a) (py b))"
  using assms by (auto simp: line_ok_def distance_defs unit_towards_def sgn_if word_less_def word_uint_eq_iff abs_minus_commute)

lemma checkSightLine_total:
  assumes "getDistanceX from to + getDistanceY from to \<le> 32767"
  shows "\<exists>r. checkSightLine tiles from to = Some r \<and> (\<not> r \<longrightarrow> (\<exists>p. in_box from to p \<and> obstacle tiles p))"
proof (cases "from = to")
  case True
  then show ?thesis by (intro exI [of _ True]) (simp add: checkSightLine_def)
next
  case False
  define start dest where "start = (if pz from > pz to then to else from)"
    and "dest = (if pz from > pz to then from else to)"
  have sd: "in_box start dest p = in_box from to p" for p
    by (simp add: start_def dest_def in_box_sym)
  have z: "pz start \<le> pz dest" by (auto simp: start_def dest_def)
  have d: "getDistanceX start dest + getDistanceY start dest \<le> 32767"
    using assms by (simp add: start_def dest_def distance_sym [of to])
  let ?mx = "unit_towards (px start) (px dest)" and ?my = "unit_towards (py start) (py dest)"
  let ?A = "getOffsetY dest start" and ?B = "getOffsetX start dest"
  let ?p = "?A * uint (px dest)" and ?q = "?B * uint (py dest)"
  have ok: "line_ok ?A ?B ?mx ?my" by (rule line_ok_start [OF d])
  have b: "0 \<le> uint (px dest)" "uint (px dest) < 65536" "0 \<le> uint (py dest)" "uint (py dest) < 65536"
    using uint_bounded [of "px dest"] uint_bounded [of "py dest"] by simp_all
  have "line_value ?A ?B 0 (uint (px dest)) (uint (py dest)) = Some \<bar>?A * (uint (px dest) - 0) + ?B * (uint (py dest) - 0)\<bar>"
    using ok b unfolding line_ok_def by (intro line_value_total) linarith+
  then have i32: "in_int32 ?p" "in_int32 ?q" "in_int32 (?p + ?q)" "in_int32 (- (?p + ?q))"
    by (auto simp: line_value_def split: if_splits)
  have way: "on_way ?mx ?my dest start" by (simp add: on_way_def coord_on_way_start)
  obtain r where r: "sight_loop tiles ?A ?B (- (?p + ?q)) ?mx ?my dest start = Some r"
    "(case r of None \<Rightarrow> \<exists>p. blocks_projectile tiles p \<and> on_way ?mx ?my dest p \<and> closer dest start p
       | Some t \<Rightarrow> t = Position (px dest) (py dest) (pz start))"
    using sight_loop_total [OF ok refl way] by blast
  have c: "checkSightLine tiles from to = (case r of None \<Rightarrow> Some False
      | Some pos \<Rightarrow> Some (floor_loop tiles (pz dest) pos))"
    using False i32 r(1) by (simp add: checkSightLine_def Let_def start_def [symmetric] dest_def [symmetric])
  show ?thesis
  proof (cases r)
    case None
    then obtain p where p: "blocks_projectile tiles p" "on_way ?mx ?my dest p" "closer dest start p"
      using r(2) by auto
    have "between (px start) (px dest) (px p)" "between (py start) (py dest) (py p)"
      using p(2,3) way by (auto simp: on_way_def closer_def distance_defs intro: coord_between)
    moreover have "between (pz start) (pz dest) (pz p)"
      using p(3) z by (simp add: closer_def between_def min_def max_def)
    ultimately have "in_box start dest p" by (simp add: in_box_def)
    then have "in_box from to p" by (simp only: sd)
    then show ?thesis using c None p(1) by (auto simp: obstacle_def)
  next
    case (Some t)
    have t: "t = Position (px dest) (py dest) (pz start)" using r(2) Some by simp
    have "\<exists>p. in_box from to p \<and> obstacle tiles p" if fl: "\<not> floor_loop tiles (pz dest) t"
    proof -
      obtain k where k: "pz start \<le> k" "k < pz dest" "has_things tiles (Position (px dest) (py dest) k)"
        using floor_loop_blocked [OF fl] z by (auto simp: t)
      then have "in_box start dest (Position (px dest) (py dest) k)"
        using z by (auto simp: in_box_def between_def min_def max_def)
      then show ?thesis using k(3) sd by (auto simp: obstacle_def)
    qed
    then show ?thesis using c Some by auto
  qed
qed

lemma isSightClear_total:
  assumes "getDistanceX from to + getDistanceY from to \<le> 32767"
  shows "\<exists>r. isSightClear tiles from to fc = Some r
    \<and> (\<not> r \<longrightarrow> (fc \<and> pz from \<noteq> pz to) \<or> (\<exists>p. in_box from to p \<and> obstacle tiles p))"
proof -
  obtain a where a: "checkSightLine tiles from to = Some a" using checkSightLine_total [OF assms] by blast
  obtain b where b: "checkSightLine tiles to from = Some b"
    "\<not> b \<longrightarrow> (\<exists>p. in_box to from p \<and> obstacle tiles p)"
    using checkSightLine_total [of to "from" tiles] assms distance_sym [of to "from"] by auto
  show ?thesis using a b by (auto simp: isSightClear_def in_box_sym [of to])
qed

text \<open>
  C25. Throwing: when the allowed range is at most sixteen thousand tiles in each direction, the check
  ends without an overflow for all pairs of positions. A throw that is allowed stays on its side of the
  ground level, crosses at most two floors and keeps the range (widened by the floors); a throw that is
  refused although all this holds has an obstacle in the box that the two positions span: a tile that
  blocks projectiles, or a tile with things on it.
\<close>

theorem throw_decided:
  assumes "rangex \<le> 16000" "rangey \<le> 16000"
  shows "\<exists>r. canThrowObjectTo tiles from to los rangex rangey = Some r
    \<and> (let near = ((pz from < 8) = (pz to < 8)) \<and> getDistanceZ from to \<le> 2
          \<and> getDistanceX from to \<le> rangex + getDistanceZ from to
          \<and> getDistanceY from to \<le> rangey + getDistanceZ from to
       in (r \<longrightarrow> near) \<and> (near \<and> \<not> r \<longrightarrow> los \<and> (\<exists>p. in_box from to p \<and> obstacle tiles p)))"
proof (cases "((pz from < 8) = (pz to < 8)) \<and> getDistanceZ from to \<le> 2
          \<and> getDistanceX from to \<le> rangex + getDistanceZ from to
          \<and> getDistanceY from to \<le> rangey + getDistanceZ from to")
  case False
  have g: "((pz from \<ge> 8 \<and> pz to < 8) \<or> (pz to \<ge> 8 \<and> pz from < 8)) = ((pz from < 8) \<noteq> (pz to < 8))"
    by (auto simp: not_less)
  have "canThrowObjectTo tiles from to los rangex rangey = Some False"
    unfolding canThrowObjectTo_def Let_def g
  proof (cases "(pz from < 8) = (pz to < 8)")
    case True
    with False have "\<not> (getDistanceZ from to \<le> 2 \<and> getDistanceX from to \<le> rangex + getDistanceZ from to
          \<and> getDistanceY from to \<le> rangey + getDistanceZ from to)" by blast
    then have "getDistanceZ from to > 2 \<or> getDistanceX from to - getDistanceZ from to > rangex
      \<or> getDistanceY from to - getDistanceZ from to > rangey" by linarith
    then show "(if (pz from < 8) \<noteq> (pz to < 8) then Some False
      else if getDistanceZ from to > 2 then Some False
      else if getDistanceX from to - getDistanceZ from to > rangex then Some False
      else if getDistanceY from to - getDistanceZ from to > rangey then Some False
      else if \<not> los then Some True else isSightClear tiles from to False) = Some False"
      by (elim disjE) simp_all
  qed simp
  then show ?thesis using False unfolding Let_def by (intro exI [of _ False]) blast
next
  case True
  have g: "\<not> ((pz from \<ge> 8 \<and> pz to < 8) \<or> (pz to \<ge> 8 \<and> pz from < 8))"
    "\<not> getDistanceZ from to > 2" "\<not> getDistanceX from to - getDistanceZ from to > rangex"
    "\<not> getDistanceY from to - getDistanceZ from to > rangey"
    using True by auto
  have "getDistanceX from to + getDistanceY from to \<le> 32767" using True assms by linarith
  then obtain r where r: "isSightClear tiles from to False = Some r"
    "\<not> r \<longrightarrow> (\<exists>p. in_box from to p \<and> obstacle tiles p)"
    using isSightClear_total [of "from" to tiles False] by auto
  have e: "canThrowObjectTo tiles from to los rangex rangey = (if \<not> los then Some True else Some r)"
    unfolding canThrowObjectTo_def Let_def r(1) by (simp only: g if_False)
  show ?thesis unfolding e Let_def using True r(2) by (cases los) auto
qed

theorem throw_decided_witness:
  "\<exists>r. canThrowObjectTo (\<lambda>_. None) (Position 100 100 7) (Position 103 101 7) True 8 6 = Some r \<and> r"
proof -
  have "\<not> obstacle (\<lambda>_. None) p" for p by (simp add: obstacle_def blocks_projectile_def has_things_def)
  with throw_decided [of 8 6 "\<lambda>_. None" "Position 100 100 7" "Position 103 101 7" True]
  show ?thesis by (auto simp: distance_defs Let_def)
qed

end
