(* ===== verification/Path_Finding.thy ===== *)
theory Path_Finding
  imports Sight_Line
begin

text \<open>
  Path finding of creatures: the walk cache (\<^verbatim>\<open>src/src/creature.cpp\<close>), the condition on
  the end of a path (\<open>FrozenPathingConditionCall\<close>, same file), the node store of the search
  (\<open>AStarNodes\<close>) and \<open>Map::getPathMatching\<close> (\<^verbatim>\<open>map.cpp\<close>). The nodes live in an array of
  512 entries, a pointer to a node is its index. \<open>None\<close> stands for undefined behaviour and for a loop
  that does not end.
\<close>

subsection \<open>The walker\<close>

text \<open>What the search asks the creature: its position, its cache of walkable tiles by offset (\<open>None\<close>:
  it does not use one), whether it is a monster that can push, and how fields affect it.\<close>

record walker =
  wk_pos :: position
  wk_cache :: "(int \<Rightarrow> int \<Rightarrow> bool) option"
  wk_canPush :: "bool option"
  wk_immune :: "nat \<Rightarrow> bool"
  wk_hasCondition :: "nat \<Rightarrow> bool"

definition maxWalkCacheWidth :: int where "maxWalkCacheWidth = ((11 * 2 + 1) - 1) div 2"
definition maxWalkCacheHeight :: int where "maxWalkCacheHeight = ((11 * 2 + 1) - 1) div 2"

definition updateTileCache :: "tile_view option \<Rightarrow> position \<Rightarrow> walker \<Rightarrow> walker" where
  "updateTileCache tile pos w =
     (if pz pos = pz (wk_pos w) then
        (let dx = getOffsetX pos (wk_pos w); dy = getOffsetY pos (wk_pos w)
         in if \<bar>dx\<bar> \<le> maxWalkCacheWidth \<and> \<bar>dy\<bar> \<le> maxWalkCacheHeight
            then w \<lparr> wk_cache := map_option (\<lambda>cache. cache(dy := (cache dy)(dx :=
                   (case tile of None \<Rightarrow> False | Some t \<Rightarrow> tv_queryAdd t = RETURNVALUE_NOERROR))))
                 (wk_cache w) \<rparr>
            else w)
      else w)"

definition updateMapCache_at :: "tile_map \<Rightarrow> int \<times> int \<Rightarrow> walker \<Rightarrow> walker" where
  "updateMapCache_at tiles yx w =
     (let pos = Position (word_of_int (uint (px (wk_pos w)) + snd yx))
                  (word_of_int (uint (py (wk_pos w)) + fst yx)) (pz (wk_pos w))
      in updateTileCache (tiles pos) pos w)"

definition updateMapCache :: "tile_map \<Rightarrow> walker \<Rightarrow> walker" where
  "updateMapCache tiles w =
     fold (updateMapCache_at tiles)
       (List.product [- maxWalkCacheHeight..maxWalkCacheHeight] [- maxWalkCacheWidth..maxWalkCacheWidth]) w"

definition getWalkCache :: "walker \<Rightarrow> position \<Rightarrow> int" where
  "getWalkCache w pos =
     (case wk_cache w of
        None \<Rightarrow> 2
      | Some cache \<Rightarrow>
          if pz (wk_pos w) \<noteq> pz pos then 0
          else if pos = wk_pos w then 1
          else
            (let dx = getOffsetX pos (wk_pos w) in
             if \<bar>dx\<bar> \<le> maxWalkCacheWidth then
               (let dy = getOffsetY pos (wk_pos w) in
                if \<bar>dy\<bar> \<le> maxWalkCacheHeight then (if cache dy dx then 1 else 0) else 2)
             else 2))"

definition canWalkTo :: "walker \<Rightarrow> tile_map \<Rightarrow> position \<Rightarrow> tile_view option" where
  "canWalkTo w tiles pos =
     (let walkCache = getWalkCache w pos in
      if walkCache = 0 then None
      else if walkCache = 1 then tiles pos
      else if pos \<noteq> wk_pos w then
        (case tiles pos of
           None \<Rightarrow> None
         | Some tile \<Rightarrow> if tv_queryAdd tile \<noteq> RETURNVALUE_NOERROR then None else Some tile)
      else tiles pos)"

subsection \<open>The end of a path\<close>

record find_path_params =
  fullPathSearch :: bool
  clearSight :: bool
  allowDiagonal :: bool
  keepDistance :: bool
  maxSearchDist :: int
  minTargetDist :: int
  maxTargetDist :: int

definition isInRange :: "position \<Rightarrow> position \<Rightarrow> position \<Rightarrow> find_path_params \<Rightarrow> bool" where
  "isInRange targetPos startPos testPos fpp =
     (let tx = uint (px targetPos); ty = uint (py targetPos); x = uint (px testPos); y = uint (py testPos) in
      if fullPathSearch fpp then
        \<not> (x > tx + maxTargetDist fpp) \<and> \<not> (x < tx - maxTargetDist fpp)
      \<and> \<not> (y > ty + maxTargetDist fpp) \<and> \<not> (y < ty - maxTargetDist fpp)
      else
        (let dx = getOffsetX startPos targetPos; dy = getOffsetY startPos targetPos;
             dxMax = (if dx \<ge> 0 then maxTargetDist fpp else 0);
             dxMin = (if dx \<le> 0 then maxTargetDist fpp else 0);
             dyMax = (if dy \<ge> 0 then maxTargetDist fpp else 0);
             dyMin = (if dy \<le> 0 then maxTargetDist fpp else 0)
         in \<not> (x > tx + dxMax) \<and> \<not> (x < tx - dxMin) \<and> \<not> (y > ty + dyMax) \<and> \<not> (y < ty - dyMin)))"

text \<open>The call operator: the answer and the new value of \<open>bestMatchDist\<close>.\<close>

definition pathCondition ::
    "tile_map \<Rightarrow> position \<Rightarrow> position \<Rightarrow> position \<Rightarrow> find_path_params \<Rightarrow> int \<Rightarrow> (bool \<times> int) option" where
  "pathCondition tiles targetPos startPos testPos fpp bestMatchDist =
     (if \<not> isInRange targetPos startPos testPos fpp then Some (False, bestMatchDist)
      else do {
        clear \<leftarrow> (if clearSight fpp then isSightClear tiles testPos targetPos True else Some True);
        if \<not> clear then Some (False, bestMatchDist)
        else
          (let testDist = max (getDistanceX targetPos testPos) (getDistanceY targetPos testPos) in
           if maxTargetDist fpp = 1 then
             (if testDist < minTargetDist fpp \<or> testDist > maxTargetDist fpp
              then Some (False, bestMatchDist) else Some (True, bestMatchDist))
           else if testDist \<le> maxTargetDist fpp then
             (if testDist < minTargetDist fpp then Some (False, bestMatchDist)
              else if testDist = maxTargetDist fpp then Some (True, 0)
              else if testDist > bestMatchDist then Some (True, testDist)
              else Some (False, bestMatchDist))
           else Some (False, bestMatchDist))
      })"

subsection \<open>The node store\<close>

record astar_node =
  an_parent :: "nat option"
  an_f :: int
  an_x :: u16
  an_y :: u16

text \<open>The part of the arrays that is in use; its length is \<open>curNode\<close>.\<close>

record astar_nodes =
  ns_nodes :: "astar_node list"
  ns_open :: "bool list"
  ns_table :: "u32 \<rightharpoonup> nat"
  ns_closed :: int

definition MAX_NODES :: nat where "MAX_NODES = 512"

definition node_key :: "u16 \<Rightarrow> u16 \<Rightarrow> u32" where
  "node_key x y = push_bit 16 (ucast x) OR ucast y"

definition init_nodes :: "u16 \<Rightarrow> u16 \<Rightarrow> astar_nodes" where
  "init_nodes x y =
     \<lparr> ns_nodes = [\<lparr> an_parent = None, an_f = 0, an_x = x, an_y = y \<rparr>], ns_open = [True],
       ns_table = [node_key x y \<mapsto> 0], ns_closed = 0 \<rparr>"

definition createOpenNode :: "nat \<Rightarrow> u16 \<Rightarrow> u16 \<Rightarrow> int \<Rightarrow> astar_nodes \<Rightarrow> astar_nodes option" where
  "createOpenNode parent x y f ns =
     (if length (ns_nodes ns) \<ge> MAX_NODES then None
      else Some \<lparr> ns_nodes = ns_nodes ns @ [\<lparr> an_parent = Some parent, an_f = f, an_x = x, an_y = y \<rparr>],
             ns_open = ns_open ns @ [True],
             ns_table = (ns_table ns)(node_key x y \<mapsto> length (ns_nodes ns)),
             ns_closed = ns_closed ns \<rparr>)"

text \<open>The scan keeps the first open node whose cost is strictly below the best one so far.\<close>

fun best_scan :: "nat \<Rightarrow> astar_node list \<Rightarrow> bool list \<Rightarrow> int \<Rightarrow> nat option \<Rightarrow> nat option" where
  "best_scan i (n # nodes) (op # opens) best_node_f best_node =
     (if op \<and> an_f n < best_node_f then best_scan (Suc i) nodes opens (an_f n) (Some i)
      else best_scan (Suc i) nodes opens best_node_f best_node)"
| "best_scan i _ _ best_node_f best_node = best_node"

definition getBestNode :: "astar_nodes \<Rightarrow> nat option" where
  "getBestNode ns = best_scan 0 (ns_nodes ns) (ns_open ns) 2147483647 None"

definition closeNode :: "nat \<Rightarrow> astar_nodes \<Rightarrow> astar_nodes" where
  "closeNode i ns = ns \<lparr> ns_open := (ns_open ns)[i := False], ns_closed := ns_closed ns + 1 \<rparr>"

definition openNode :: "nat \<Rightarrow> astar_nodes \<Rightarrow> astar_nodes" where
  "openNode i ns =
     (if \<not> ns_open ns ! i then ns \<lparr> ns_open := (ns_open ns)[i := True], ns_closed := ns_closed ns - 1 \<rparr>
      else ns)"

definition getNodeByPosition :: "u16 \<Rightarrow> u16 \<Rightarrow> astar_nodes \<Rightarrow> nat option" where
  "getNodeByPosition x y ns = ns_table ns (node_key x y)"

definition getMapWalkCost :: "astar_node \<Rightarrow> position \<Rightarrow> int" where
  "getMapWalkCost n neighborPos =
     (if \<bar>uint (an_x n) - uint (px neighborPos)\<bar> = \<bar>uint (an_y n) - uint (py neighborPos)\<bar> then 25 else 10)"

definition getTileWalkCost :: "walker \<Rightarrow> tile_view \<Rightarrow> int" where
  "getTileWalkCost w tile =
     (let cost = (case tv_blocker tile of
            None \<Rightarrow> 0
          | Some blockingMonster \<Rightarrow>
              (case (wk_canPush w, blockingMonster) of
                 (Some canPush, Some pushable) \<Rightarrow> if \<not> canPush \<or> \<not> pushable then 10 * 3 else 0
               | _ \<Rightarrow> 10 * 3))
      in case tv_field tile of
           None \<Rightarrow> cost
         | Some combatType \<Rightarrow>
             if \<not> wk_immune w combatType \<and> \<not> wk_hasCondition w combatType then cost + 10 * 18 else cost)"

subsection \<open>The search\<close>

fun dirNeighbors :: "direction \<Rightarrow> (int \<times> int) list" where
  "dirNeighbors DIRECTION_NORTH = [(-1, 0), (0, 1), (1, 0), (1, 1), (-1, 1)]"
| "dirNeighbors DIRECTION_EAST = [(-1, 0), (0, 1), (0, -1), (-1, -1), (-1, 1)]"
| "dirNeighbors DIRECTION_SOUTH = [(-1, 0), (1, 0), (0, -1), (-1, -1), (1, -1)]"
| "dirNeighbors DIRECTION_WEST = [(0, 1), (1, 0), (0, -1), (1, -1), (1, 1)]"
| "dirNeighbors DIRECTION_SOUTHWEST = [(1, 0), (0, -1), (-1, -1), (1, -1), (1, 1)]"
| "dirNeighbors DIRECTION_SOUTHEAST = [(-1, 0), (0, -1), (-1, -1), (1, -1), (-1, 1)]"
| "dirNeighbors DIRECTION_NORTHWEST = [(0, 1), (1, 0), (1, -1), (1, 1), (-1, 1)]"
| "dirNeighbors DIRECTION_NORTHEAST = [(-1, 0), (0, 1), (-1, -1), (1, 1), (-1, 1)]"
| "dirNeighbors DIRECTION_NONE = []"

definition allNeighbors :: "(int \<times> int) list" where
  "allNeighbors = [(-1, 0), (0, 1), (1, 0), (0, -1), (-1, -1), (1, -1), (1, 1), (-1, 1)]"

definition neighbors_of :: "bool \<Rightarrow> astar_nodes \<Rightarrow> nat \<Rightarrow> (int \<times> int) list" where
  "neighbors_of diagonal ns n =
     (case an_parent (ns_nodes ns ! n) of
        None \<Rightarrow> allNeighbors
      | Some p \<Rightarrow>
          (let offset_x = uint (an_x (ns_nodes ns ! p)) - uint (an_x (ns_nodes ns ! n));
               offset_y = uint (an_y (ns_nodes ns ! p)) - uint (an_y (ns_nodes ns ! n));
               dir = (if offset_y = 0 then (if offset_x = -1 then DIRECTION_WEST else DIRECTION_EAST)
                      else if \<not> diagonal \<or> offset_x = 0
                      then (if offset_y = -1 then DIRECTION_NORTH else DIRECTION_SOUTH)
                      else if offset_y = -1
                      then (if offset_x = -1 then DIRECTION_NORTHWEST else DIRECTION_NORTHEAST)
                      else if offset_x = -1 then DIRECTION_SOUTHWEST else DIRECTION_SOUTHEAST)
           in take (if diagonal then 5 else 3) (dirNeighbors dir)))"

text \<open>What the search works with: the creature, the map, the target and the parameters.\<close>

record search_env =
  se_walker :: walker
  se_tiles :: tile_map
  se_target :: position
  se_fpp :: find_path_params

definition startPos :: "search_env \<Rightarrow> position" where
  "startPos e = wk_pos (se_walker e)"

datatype visit = Visited astar_nodes | NoRoom

text \<open>One neighbour of the node \<open>n\<close>, whose coordinates and cost were read before the loop. \<open>None\<close>: there
  is a node, but no tile.\<close>

definition visit_neighbor ::
    "search_env \<Rightarrow> nat \<Rightarrow> u16 \<Rightarrow> u16 \<Rightarrow> int \<Rightarrow> int \<times> int \<Rightarrow> astar_nodes \<Rightarrow> visit option" where
  "visit_neighbor e n x y f off ns =
     (let pos = Position (x + word_of_int (fst off)) (y + word_of_int (snd off)) (pz (startPos e));
          fpp = se_fpp e
      in if maxSearchDist fpp \<noteq> 0 \<and> (getDistanceX (startPos e) pos > maxSearchDist fpp
            \<or> getDistanceY (startPos e) pos > maxSearchDist fpp)
         then Some (Visited ns)
         else if keepDistance fpp \<and> \<not> isInRange (se_target e) (startPos e) pos fpp then Some (Visited ns)
         else
           (case getNodeByPosition (px pos) (py pos) ns of
              Some j \<Rightarrow>
                (case se_tiles e pos of
                   None \<Rightarrow> None
                 | Some tile \<Rightarrow>
                     (let newf = f + getMapWalkCost (ns_nodes ns ! n) pos + getTileWalkCost (se_walker e) tile
                      in if an_f (ns_nodes ns ! j) \<le> newf then Some (Visited ns)
                         else Some (Visited (openNode j (ns \<lparr> ns_nodes := (ns_nodes ns)[j :=
                                (ns_nodes ns ! j) \<lparr> an_f := newf, an_parent := Some n \<rparr>] \<rparr>)))))
            | None \<Rightarrow>
                (case canWalkTo (se_walker e) (se_tiles e) pos of
                   None \<Rightarrow> Some (Visited ns)
                 | Some tile \<Rightarrow>
                     (let newf = f + getMapWalkCost (ns_nodes ns ! n) pos + getTileWalkCost (se_walker e) tile
                      in case createOpenNode n (px pos) (py pos) newf ns of
                           None \<Rightarrow> Some NoRoom
                         | Some ns' \<Rightarrow> Some (Visited ns')))))"

text \<open>All neighbours; without room the loop is left if there is a match, else the search has failed
  (\<open>Some None\<close>).\<close>

fun visit_all ::
    "search_env \<Rightarrow> bool \<Rightarrow> nat \<Rightarrow> u16 \<Rightarrow> u16 \<Rightarrow> int \<Rightarrow> (int \<times> int) list \<Rightarrow> astar_nodes \<Rightarrow> astar_nodes option option"
  where
  "visit_all e found n x y f [] ns = Some (Some ns)"
| "visit_all e found n x y f (off # offs) ns =
     (case visit_neighbor e n x y f off ns of
        None \<Rightarrow> None
      | Some NoRoom \<Rightarrow> if found then Some (Some ns) else Some None
      | Some (Visited ns') \<Rightarrow> visit_all e found n x y f offs ns')"

text \<open>The main loop; \<open>Some None\<close> is the early \<open>return false\<close>, otherwise the nodes and the match.\<close>

partial_function (option) search_loop ::
    "search_env \<Rightarrow> astar_nodes \<Rightarrow> nat option \<Rightarrow> int \<Rightarrow> (astar_nodes \<times> nat option) option option" where
  "search_loop e ns found bestMatch =
     (if \<not> (maxSearchDist (se_fpp e) \<noteq> 0 \<or> ns_closed ns < 100) then Some (Some (ns, found))
      else case getBestNode ns of
        None \<Rightarrow> Some (if found = None then None else Some (ns, found))
      | Some n \<Rightarrow> do {
          let x = an_x (ns_nodes ns ! n);
          let y = an_y (ns_nodes ns ! n);
          (ok, bestMatch1) \<leftarrow> pathCondition (se_tiles e) (se_target e) (startPos e)
                               (Position x y (pz (startPos e))) (se_fpp e) bestMatch;
          let found1 = (if ok then Some n else found);
          if ok \<and> bestMatch1 = 0 then Some (Some (ns, found1))
          else do {
            r \<leftarrow> visit_all e (found1 \<noteq> None) n x y (an_f (ns_nodes ns ! n))
                   (neighbors_of (allowDiagonal (se_fpp e)) ns n) ns;
            case r of
              None \<Rightarrow> Some None
            | Some ns1 \<Rightarrow> search_loop e (closeNode n ns1) found1 bestMatch1
          }
        })"

definition step_direction :: "int \<Rightarrow> int \<Rightarrow> direction list" where
  "step_direction dx dy =
     (if dx = 1 \<and> dy = 1 then [DIRECTION_NORTHWEST]
      else if dx = -1 \<and> dy = 1 then [DIRECTION_NORTHEAST]
      else if dx = 1 \<and> dy = -1 then [DIRECTION_SOUTHWEST]
      else if dx = -1 \<and> dy = -1 then [DIRECTION_SOUTHEAST]
      else if dx = 1 then [DIRECTION_WEST]
      else if dx = -1 then [DIRECTION_EAST]
      else if dy = 1 then [DIRECTION_NORTH]
      else if dy = -1 then [DIRECTION_SOUTH]
      else [])"

partial_function (option) walk_back ::
    "astar_node list \<Rightarrow> u16 \<Rightarrow> u16 \<Rightarrow> nat option \<Rightarrow> direction list \<Rightarrow> direction list option" where
  "walk_back nodes prevx prevy found dirList =
     (case found of
        None \<Rightarrow> Some dirList
      | Some i \<Rightarrow>
          walk_back nodes (an_x (nodes ! i)) (an_y (nodes ! i)) (an_parent (nodes ! i))
            (step_direction (uint (an_x (nodes ! i)) - uint prevx) (uint (an_y (nodes ! i)) - uint prevy)
               @ dirList))"

declare search_loop.simps [code] walk_back.simps [code]

definition getPathMatching :: "search_env \<Rightarrow> direction list \<Rightarrow> (bool \<times> direction list) option" where
  "getPathMatching e dirList =
     do {
       r \<leftarrow> search_loop e (init_nodes (px (startPos e)) (py (startPos e))) None 0;
       case r of
         None \<Rightarrow> Some (False, dirList)
       | Some (ns, None) \<Rightarrow> Some (False, dirList)
       | Some (ns, Some i) \<Rightarrow> do {
           dirs \<leftarrow> walk_back (ns_nodes ns) (an_x (ns_nodes ns ! i)) (an_y (ns_nodes ns ! i))
                    (an_parent (ns_nodes ns ! i)) dirList;
           Some (True, dirs)
         }
     }"

definition getPathTo ::
    "walker \<Rightarrow> tile_map \<Rightarrow> position \<Rightarrow> direction list \<Rightarrow> int \<Rightarrow> int \<Rightarrow> bool \<Rightarrow> bool \<Rightarrow> int
     \<Rightarrow> (bool \<times> direction list) option" where
  "getPathTo w tiles targetPos dirList minDist maxDist full sight searchDist =
     getPathMatching \<lparr> se_walker = w, se_tiles = tiles, se_target = targetPos,
       se_fpp = \<lparr> fullPathSearch = full, clearSight = sight, allowDiagonal = True, keepDistance = False,
                  maxSearchDist = searchDist, minTargetDist = minDist, maxTargetDist = maxDist \<rparr> \<rparr> dirList"

subsection \<open>The invariant of the node store\<close>

lemma unat_ucast_u16_u32: "unat (ucast (w :: u16) :: u32) = unat w"
  using unat_u16_bound [of w] by (simp add: unsigned_ucast_eq take_bit_nat_eq_self_iff)

lemma node_key_inject: "node_key x y = node_key x' y' \<longleftrightarrow> x = x' \<and> y = y'"
proof
  assume k: "node_key x y = node_key x' y'"
  have b: "bit (node_key a b) n \<longleftrightarrow> (if n < 16 then bit b n else n < 32 \<and> bit a (n - 16))" for a b n
    unfolding node_key_def bit_or_iff bit_push_bit_iff
    by (auto simp: bit_unsigned_iff bit_imp_le_length [where 'a = 16, simplified] dest: bit_imp_le_length)
  have "bit y n = bit y' n" if "n < 16" for n
    using k b [of x y n] b [of x' y' n] that by simp
  moreover have "bit x n = bit x' n" if "n < 16" for n
    using k b [of x y "n + 16"] b [of x' y' "n + 16"] that by simp
  ultimately show "x = x' \<and> y = y'" by (auto intro!: bit_word_eqI)
qed simp

definition node_pos :: "u8 \<Rightarrow> astar_node \<Rightarrow> position" where
  "node_pos z n = Position (an_x n) (an_y n) z"

definition walkable :: "search_env \<Rightarrow> position \<Rightarrow> bool" where
  "walkable e pos \<longleftrightarrow> canWalkTo (se_walker e) (se_tiles e) pos \<noteq> None"

lemma walkable_tile: "walkable e pos \<Longrightarrow> se_tiles e pos \<noteq> None"
  by (auto simp: walkable_def canWalkTo_def Let_def split: if_splits option.splits)

text \<open>A node other than the first has a parent that is cheaper and next to it.\<close>

definition parent_ok :: "astar_node list \<Rightarrow> astar_node \<Rightarrow> bool" where
  "parent_ok nodes n \<longleftrightarrow>
     (case an_parent n of
        None \<Rightarrow> False
      | Some p \<Rightarrow> p < length nodes \<and> an_f (nodes ! p) < an_f n
          \<and> \<bar>uint (an_x (nodes ! p)) - uint (an_x n)\<bar> \<le> 1 \<and> \<bar>uint (an_y (nodes ! p)) - uint (an_y n)\<bar> \<le> 1
          \<and> (an_x (nodes ! p) \<noteq> an_x n \<or> an_y (nodes ! p) \<noteq> an_y n))"

definition nodes_ok :: "search_env \<Rightarrow> astar_nodes \<Rightarrow> bool" where
  "nodes_ok e ns \<longleftrightarrow> length (ns_open ns) = length (ns_nodes ns) \<and> 0 < length (ns_nodes ns)
     \<and> length (ns_nodes ns) \<le> 512
     \<and> ns_nodes ns ! 0 = \<lparr> an_parent = None, an_f = 0, an_x = px (startPos e), an_y = py (startPos e) \<rparr>
     \<and> (\<forall>i < length (ns_nodes ns). 0 < i \<longrightarrow> parent_ok (ns_nodes ns) (ns_nodes ns ! i)
          \<and> walkable e (node_pos (pz (startPos e)) (ns_nodes ns ! i)))
     \<and> (\<forall>i < length (ns_nodes ns). 0 \<le> an_f (ns_nodes ns ! i)
          \<and> \<bar>uint (an_x (ns_nodes ns ! i)) - uint (px (startPos e))\<bar> \<le> int i
          \<and> \<bar>uint (an_y (ns_nodes ns ! i)) - uint (py (startPos e))\<bar> \<le> int i)
     \<and> (\<forall>x y i. ns_table ns (node_key x y) = Some i \<longrightarrow>
          i < length (ns_nodes ns) \<and> an_x (ns_nodes ns ! i) = x \<and> an_y (ns_nodes ns ! i) = y)"

lemma nodes_okD:
  assumes "nodes_ok e ns"
  shows "length (ns_open ns) = length (ns_nodes ns)" "0 < length (ns_nodes ns)" "length (ns_nodes ns) \<le> 512"
    "ns_nodes ns ! 0 = \<lparr> an_parent = None, an_f = 0, an_x = px (startPos e), an_y = py (startPos e) \<rparr>"
    "i < length (ns_nodes ns) \<Longrightarrow> 0 < i \<Longrightarrow> parent_ok (ns_nodes ns) (ns_nodes ns ! i)"
    "i < length (ns_nodes ns) \<Longrightarrow> 0 < i \<Longrightarrow> walkable e (node_pos (pz (startPos e)) (ns_nodes ns ! i))"
    "i < length (ns_nodes ns) \<Longrightarrow> 0 \<le> an_f (ns_nodes ns ! i)"
    "i < length (ns_nodes ns) \<Longrightarrow> \<bar>uint (an_x (ns_nodes ns ! i)) - uint (px (startPos e))\<bar> \<le> int i"
    "i < length (ns_nodes ns) \<Longrightarrow> \<bar>uint (an_y (ns_nodes ns ! i)) - uint (py (startPos e))\<bar> \<le> int i"
    "ns_table ns (node_key x y) = Some i \<Longrightarrow>
       i < length (ns_nodes ns) \<and> an_x (ns_nodes ns ! i) = x \<and> an_y (ns_nodes ns ! i) = y"
  using assms unfolding nodes_ok_def by blast+

lemma init_nodes_ok: "nodes_ok e (init_nodes (px (startPos e)) (py (startPos e)))"
  by (auto simp: nodes_ok_def init_nodes_def node_key_inject split: if_splits)

text \<open>The start is far from the border of the map, so that 512 steps cannot wrap around.\<close>

definition inner_start :: "search_env \<Rightarrow> bool" where
  "inner_start e \<longleftrightarrow> 512 \<le> uint (px (startPos e)) \<and> uint (px (startPos e)) \<le> 65023
     \<and> 512 \<le> uint (py (startPos e)) \<and> uint (py (startPos e)) \<le> 65023
     \<and> se_tiles e (startPos e) \<noteq> None"

definition unit_offset :: "int \<times> int \<Rightarrow> bool" where
  "unit_offset off \<longleftrightarrow> \<bar>fst off\<bar> \<le> 1 \<and> \<bar>snd off\<bar> \<le> 1 \<and> off \<noteq> (0, 0)"

lemma uint_add_small:
  fixes w :: u16
  assumes "0 \<le> uint w + k" "uint w + k < 65536"
  shows "uint (w + word_of_int k) = uint w + k"
proof -
  have "w + word_of_int k = word_of_int (uint w + k)" by simp
  then show ?thesis using assms by (simp add: uint_word_of_int del: of_int_add)
qed

lemma neighbor_coords:
  assumes "nodes_ok e ns" "inner_start e" "n < length (ns_nodes ns)" "\<bar>k\<bar> \<le> 1"
  shows "uint (an_x (ns_nodes ns ! n) + word_of_int k) = uint (an_x (ns_nodes ns ! n)) + k"
    "uint (an_y (ns_nodes ns ! n) + word_of_int k) = uint (an_y (ns_nodes ns ! n)) + k"
  using nodes_okD(3,8,9) [OF assms(1)] assms(2-4)
  by (intro uint_add_small; force simp: inner_start_def)+

lemma cost_pos: "0 < getMapWalkCost n pos + getTileWalkCost w tile"
  by (auto simp: getMapWalkCost_def getTileWalkCost_def Let_def split: option.split)

text \<open>Adding a node.\<close>

lemma createOpenNode_ok:
  assumes "nodes_ok e ns" "inner_start e" "n < length (ns_nodes ns)" "unit_offset off"
    "x = an_x (ns_nodes ns ! n) + word_of_int (fst off)" "y = an_y (ns_nodes ns ! n) + word_of_int (snd off)"
    "an_f (ns_nodes ns ! n) < f" "walkable e (Position x y (pz (startPos e)))"
    "createOpenNode n x y f ns = Some ns'"
  shows "nodes_ok e ns' \<and> length (ns_nodes ns') = Suc (length (ns_nodes ns))
    \<and> ns_nodes ns' ! n = ns_nodes ns ! n"
proof -
  let ?N = "ns_nodes ns" and ?l = "length (ns_nodes ns)"
  let ?new = "\<lparr> an_parent = Some n, an_f = f, an_x = x, an_y = y \<rparr>"
  have l: "?l < 512" and ns': "ns' = \<lparr> ns_nodes = ?N @ [?new], ns_open = ns_open ns @ [True],
      ns_table = (ns_table ns)(node_key x y \<mapsto> ?l), ns_closed = ns_closed ns \<rparr>"
    using assms(9) by (auto simp: createOpenNode_def MAX_NODES_def split: if_splits)
  have u: "uint x = uint (an_x (?N ! n)) + fst off" "uint y = uint (an_y (?N ! n)) + snd off"
    using neighbor_coords [OF assms(1-3)] assms(4) by (auto simp: assms(5,6) unit_offset_def)
  have old: "parent_ok (?N @ [?new]) (?N ! i)" if "i < ?l" "0 < i" for i
    using nodes_okD(5) [OF assms(1) that] by (auto simp: parent_ok_def nth_append split: option.splits)
  have new: "parent_ok (?N @ [?new]) ?new"
    using assms(3,4,7) u by (cases off) (auto simp: parent_ok_def nth_append unit_offset_def word_uint_eq_iff)
  have "\<bar>uint x - uint (px (startPos e))\<bar> \<le> int ?l" "\<bar>uint y - uint (py (startPos e))\<bar> \<le> int ?l"
    using nodes_okD(8,9) [OF assms(1,3)] assms(3,4) u by (auto simp: unit_offset_def)
  moreover have "0 \<le> f" using nodes_okD(7) [OF assms(1,3)] assms(7) by simp
  ultimately have "nodes_ok e ns'"
    using nodes_okD [OF assms(1)] old new assms(8) l
    unfolding nodes_ok_def ns'
    by (auto simp: nth_append less_Suc_eq node_key_inject node_pos_def split: if_splits)
  then show ?thesis using assms(3) by (simp add: ns' nth_append)
qed

text \<open>Giving a node a cheaper parent.\<close>

lemma reparent_ok:
  assumes "nodes_ok e ns" "inner_start e" "n < length (ns_nodes ns)" "unit_offset off"
    "x = an_x (ns_nodes ns ! n) + word_of_int (fst off)" "y = an_y (ns_nodes ns ! n) + word_of_int (snd off)"
    "an_f (ns_nodes ns ! n) < f" "ns_table ns (node_key x y) = Some j" "f < an_f (ns_nodes ns ! j)"
  defines "ns' \<equiv> openNode j (ns \<lparr> ns_nodes := (ns_nodes ns)[j :=
                                (ns_nodes ns ! j) \<lparr> an_f := f, an_parent := Some n \<rparr>] \<rparr>)"
  shows "nodes_ok e ns' \<and> length (ns_nodes ns') = length (ns_nodes ns) \<and> ns_nodes ns' ! n = ns_nodes ns ! n
    \<and> (\<Sum>m\<leftarrow>ns_nodes ns'. nat (an_f m)) < (\<Sum>m\<leftarrow>ns_nodes ns. nat (an_f m))"
proof -
  let ?N = "ns_nodes ns" and ?new = "(ns_nodes ns ! j) \<lparr> an_f := f, an_parent := Some n \<rparr>"
  let ?N' = "(ns_nodes ns)[j := ?new]"
  have j: "j < length ?N" "an_x (?N ! j) = x" "an_y (?N ! j) = y" using nodes_okD(10) [OF assms(1,8)] by auto
  have f: "0 \<le> f" using nodes_okD(7) [OF assms(1,3)] assms(7) by simp
  have j0: "j \<noteq> 0"
  proof
    assume "j = 0"
    then have "an_f (?N ! j) = 0" by (simp add: nodes_okD(4) [OF assms(1)])
    with assms(9) f show False by simp
  qed
  have nj: "n \<noteq> j" using assms(7,9) by auto
  have u: "uint x = uint (an_x (?N ! n)) + fst off" "uint y = uint (an_y (?N ! n)) + snd off"
    using neighbor_coords [OF assms(1-3)] assms(4) by (auto simp: assms(5,6) unit_offset_def)
  have N: "ns_nodes ns' = ?N'" "ns_table ns' = ns_table ns" "length (ns_open ns') = length (ns_open ns)"
    by (simp_all add: ns'_def openNode_def)
  have coords: "an_x (?N' ! i) = an_x (?N ! i)" "an_y (?N' ! i) = an_y (?N ! i)" "an_f (?N' ! i) \<le> an_f (?N ! i)" for i
    using assms(9) by (cases "i = j"; cases "j < length ?N"; simp add: list_update_beyond)+
  have p: "parent_ok ?N' (?N' ! i)" if "i < length ?N" "0 < i" for i
  proof (cases "i = j")
    case True
    then show ?thesis using j assms(3,4,7) u nj
      by (cases off) (auto simp: parent_ok_def unit_offset_def word_uint_eq_iff)
  next
    case False
    have c: "an_f (?N' ! p) < an_f (?N ! i)" if "an_f (?N ! p) < an_f (?N ! i)" for p
      using coords(3) [of p] that by simp
    from False nodes_okD(5) [OF assms(1) that] c show ?thesis
      by (auto simp: parent_ok_def coords split: option.splits)
  qed
  have "nodes_ok e ns'"
    unfolding nodes_ok_def N
  proof (intro conjI allI impI)
    fix i assume i: "i < length ?N'"
    show "0 \<le> an_f (?N' ! i)" using nodes_okD(7) [OF assms(1), of i] i f by (cases "i = j") auto
    show "\<bar>uint (an_x (?N' ! i)) - uint (px (startPos e))\<bar> \<le> int i"
      "\<bar>uint (an_y (?N' ! i)) - uint (py (startPos e))\<bar> \<le> int i"
      using nodes_okD(8,9) [OF assms(1), of i] i by (simp_all add: coords)
    assume "0 < i"
    then show "parent_ok ?N' (?N' ! i)" "walkable e (node_pos (pz (startPos e)) (?N' ! i))"
      using p [of i] nodes_okD(6) [OF assms(1), of i] i by (simp_all add: node_pos_def coords)
  next
    fix x y i assume t: "ns_table ns (node_key x y) = Some i"
    show "i < length ?N'" "an_x (?N' ! i) = x" "an_y (?N' ! i) = y"
      using nodes_okD(10) [OF assms(1) t] by (simp_all add: coords)
  qed (use nodes_okD(1-4) [OF assms(1)] j0 in auto)
  moreover have "(\<Sum>m\<leftarrow>?N'. nat (an_f m)) < (\<Sum>m\<leftarrow>?N. nat (an_f m))"
  proof -
    have e: "?N = take j ?N @ ?N ! j # drop (Suc j) ?N" using j(1) by (rule id_take_nth_drop)
    have "(\<Sum>m\<leftarrow>?N. nat (an_f m)) = (\<Sum>m\<leftarrow>take j ?N. nat (an_f m)) + nat (an_f (?N ! j))
        + (\<Sum>m\<leftarrow>drop (Suc j) ?N. nat (an_f m))" by (subst e) simp
    moreover have "(\<Sum>m\<leftarrow>?N'. nat (an_f m)) = (\<Sum>m\<leftarrow>take j ?N. nat (an_f m)) + nat f
        + (\<Sum>m\<leftarrow>drop (Suc j) ?N. nat (an_f m))" using j(1) by (simp add: upd_conv_take_nth_drop)
    ultimately show ?thesis using assms(9) f by simp
  qed
  ultimately show ?thesis using nj by (simp add: N)
qed

end
