(* ===== verification/Path_Search.thy ===== *)
theory Path_Search
  imports Path_Finding
begin

text \<open>
  Correctness of \<open>Map::getPathMatching\<close> (the model is in \<open>Path_Finding\<close>): the search ends for every map
  and every target, and the directions it returns lead over walkable tiles to an accepted position.
\<close>

subsection \<open>One node\<close>

definition f_total :: "astar_nodes \<Rightarrow> nat" where
  "f_total ns = (\<Sum>m\<leftarrow>ns_nodes ns. nat (an_f m))"

text \<open>A round only adds nodes or makes them cheaper; no node moves.\<close>

definition extends :: "astar_nodes \<Rightarrow> astar_nodes \<Rightarrow> bool" where
  "extends ns ns' \<longleftrightarrow> length (ns_nodes ns) \<le> length (ns_nodes ns')
     \<and> (\<forall>i < length (ns_nodes ns). an_x (ns_nodes ns' ! i) = an_x (ns_nodes ns ! i)
          \<and> an_y (ns_nodes ns' ! i) = an_y (ns_nodes ns ! i))"

definition progress :: "astar_nodes \<Rightarrow> astar_nodes \<Rightarrow> bool" where
  "progress ns ns' \<longleftrightarrow> ns' = ns \<or> length (ns_nodes ns) < length (ns_nodes ns')
     \<or> (length (ns_nodes ns) = length (ns_nodes ns') \<and> f_total ns' < f_total ns)"

definition round_ok :: "search_env \<Rightarrow> nat \<Rightarrow> astar_nodes \<Rightarrow> astar_nodes \<Rightarrow> bool" where
  "round_ok e n ns ns' \<longleftrightarrow> nodes_ok e ns' \<and> ns_nodes ns' ! n = ns_nodes ns ! n \<and> extends ns ns' \<and> progress ns ns'"

lemma extends_trans: "extends a b \<Longrightarrow> extends b c \<Longrightarrow> extends a c"
  by (auto simp: extends_def)

lemma progress_trans: "progress a b \<Longrightarrow> progress b c \<Longrightarrow> progress a c"
  by (auto simp: progress_def)

lemma round_ok_refl: "nodes_ok e ns \<Longrightarrow> round_ok e n ns ns"
  by (simp add: round_ok_def extends_def progress_def)

lemma round_ok_trans: "round_ok e n a b \<Longrightarrow> round_ok e n b c \<Longrightarrow> round_ok e n a c"
  unfolding round_ok_def using extends_trans progress_trans by metis

lemma tile_at_node:
  assumes "nodes_ok e ns" "inner_start e" "ns_table ns (node_key x y) = Some j"
  shows "se_tiles e (Position x y (pz (startPos e))) \<noteq> None"
proof (cases "j = 0")
  case True
  then have "x = px (startPos e)" "y = py (startPos e)"
    using nodes_okD(10) [OF assms(1,3)] nodes_okD(4) [OF assms(1)] by auto
  then have "Position x y (pz (startPos e)) = startPos e" by simp
  then show ?thesis using assms(2) by (simp add: inner_start_def)
next
  case False
  then have "walkable e (Position x y (pz (startPos e)))"
    using nodes_okD(10) [OF assms(1,3)] nodes_okD(6) [OF assms(1)] by (auto simp: node_pos_def)
  then show ?thesis by (rule walkable_tile)
qed

lemma visit_neighbor_ok:
  assumes "nodes_ok e ns" "inner_start e" "n < length (ns_nodes ns)" "unit_offset off"
    "x = an_x (ns_nodes ns ! n)" "y = an_y (ns_nodes ns ! n)" "f = an_f (ns_nodes ns ! n)"
  shows "\<exists>r. visit_neighbor e n x y f off ns = Some r \<and> (\<forall>ns'. r = Visited ns' \<longrightarrow> round_ok e n ns ns')"
proof -
  define px' py' where "px' = x + word_of_int (fst off)" and "py' = y + word_of_int (snd off)"
  define pos where "pos = Position px' py' (pz (startPos e))"
  note refl = round_ok_refl [OF assms(1)]
  have c: "0 < getMapWalkCost (ns_nodes ns ! n) pos + getTileWalkCost (se_walker e) t" for t by (rule cost_pos)
  have xy: "px' = an_x (ns_nodes ns ! n) + word_of_int (fst off)"
    "py' = an_y (ns_nodes ns ! n) + word_of_int (snd off)"
    by (simp_all add: px'_def py'_def assms(5,6))
  have pp: "px pos = px'" "py pos = py'" by (simp_all add: pos_def)
  have ext: "extends ns (openNode j (ns \<lparr> ns_nodes :=
      (ns_nodes ns)[j := (ns_nodes ns ! j) \<lparr> an_f := g, an_parent := Some n \<rparr>] \<rparr>))" for j g
  proof -
    have "an_x ((ns_nodes ns)[j := (ns_nodes ns ! j) \<lparr> an_f := g, an_parent := Some n \<rparr>] ! i) = an_x (ns_nodes ns ! i)
      \<and> an_y ((ns_nodes ns)[j := (ns_nodes ns ! j) \<lparr> an_f := g, an_parent := Some n \<rparr>] ! i) = an_y (ns_nodes ns ! i)"
      if "i < length (ns_nodes ns)" for i
      using that by (cases "i = j") simp_all
    then show ?thesis by (simp add: extends_def openNode_def)
  qed
  have hit: "\<exists>r. (case se_tiles e pos of None \<Rightarrow> None
      | Some tile \<Rightarrow> (let newf = f + getMapWalkCost (ns_nodes ns ! n) pos + getTileWalkCost (se_walker e) tile
          in if an_f (ns_nodes ns ! j) \<le> newf then Some (Visited ns)
             else Some (Visited (openNode j (ns \<lparr> ns_nodes := (ns_nodes ns)[j :=
                  (ns_nodes ns ! j) \<lparr> an_f := newf, an_parent := Some n \<rparr>] \<rparr>))))) = Some r
      \<and> (\<forall>ns'. r = Visited ns' \<longrightarrow> round_ok e n ns ns')"
    if t: "ns_table ns (node_key px' py') = Some j" for j
  proof -
    obtain tile where tile: "se_tiles e pos = Some tile"
      using tile_at_node [OF assms(1,2) t] by (auto simp: pos_def)
    let ?g = "f + getMapWalkCost (ns_nodes ns ! n) pos + getTileWalkCost (se_walker e) tile"
    show ?thesis
    proof (cases "an_f (ns_nodes ns ! j) \<le> ?g")
      case True
      then show ?thesis using refl by (simp add: tile)
    next
      case False
      let ?ns' = "openNode j (ns \<lparr> ns_nodes := (ns_nodes ns)[j := (ns_nodes ns ! j) \<lparr> an_f := ?g, an_parent := Some n \<rparr>] \<rparr>)"
      have "an_f (ns_nodes ns ! n) < ?g" using c [of tile] assms(7) by simp
      moreover have "?g < an_f (ns_nodes ns ! j)" using False by simp
      ultimately have r: "nodes_ok e ?ns' \<and> length (ns_nodes ?ns') = length (ns_nodes ns)
          \<and> ns_nodes ?ns' ! n = ns_nodes ns ! n
          \<and> (\<Sum>m\<leftarrow>ns_nodes ?ns'. nat (an_f m)) < (\<Sum>m\<leftarrow>ns_nodes ns. nat (an_f m))"
        using reparent_ok [OF assms(1-4) xy _ t] by blast
      then have "round_ok e n ns ?ns'" 
        using ext [of j ?g] unfolding round_ok_def progress_def f_total_def by simp
      then show ?thesis using False by (simp add: tile Let_def)
    qed
  qed
  have miss: "\<exists>r. (case canWalkTo (se_walker e) (se_tiles e) pos of None \<Rightarrow> Some (Visited ns)
      | Some tile \<Rightarrow> (let newf = f + getMapWalkCost (ns_nodes ns ! n) pos + getTileWalkCost (se_walker e) tile
          in case createOpenNode n (px pos) (py pos) newf ns of
               None \<Rightarrow> Some NoRoom | Some ns' \<Rightarrow> Some (Visited ns'))) = Some r
      \<and> (\<forall>ns'. r = Visited ns' \<longrightarrow> round_ok e n ns ns')"
  proof (cases "canWalkTo (se_walker e) (se_tiles e) pos")
    case None
    then show ?thesis using refl by simp
  next
    case (Some tile)
    let ?g = "f + getMapWalkCost (ns_nodes ns ! n) pos + getTileWalkCost (se_walker e) tile"
    have w: "walkable e (Position px' py' (pz (startPos e)))" using Some by (simp add: walkable_def pos_def)
    have g: "an_f (ns_nodes ns ! n) < ?g" using c [of tile] assms(7) by simp
    have "round_ok e n ns ns'" if "createOpenNode n px' py' ?g ns = Some ns'" for ns'
    proof -
      note r = createOpenNode_ok [OF assms(1-4) xy g w that]
      have "extends ns ns'"
        using that by (auto simp: extends_def createOpenNode_def nth_append split: if_splits)
      then show ?thesis using r by (simp add: round_ok_def progress_def)
    qed
    then show ?thesis by (auto simp: Some pp Let_def split: option.split)
  qed
  show ?thesis
    unfolding visit_neighbor_def Let_def px'_def [symmetric] py'_def [symmetric] pos_def [symmetric]
      getNodeByPosition_def pp
    using refl hit miss by (auto simp: Let_def pp split: option.split)
qed

lemma visit_all_ok:
  assumes "nodes_ok e ns" "inner_start e" "n < length (ns_nodes ns)" "\<forall>off \<in> set offs. unit_offset off"
    "x = an_x (ns_nodes ns ! n)" "y = an_y (ns_nodes ns ! n)" "f = an_f (ns_nodes ns ! n)"
  shows "\<exists>r. visit_all e found n x y f offs ns = Some r \<and> (\<forall>ns'. r = Some ns' \<longrightarrow> round_ok e n ns ns')
    \<and> (r = None \<longrightarrow> \<not> found)"
  using assms
proof (induction offs arbitrary: ns)
  case Nil
  then show ?case by (simp add: round_ok_refl)
next
  case (Cons off offs)
  have "unit_offset off" using Cons.prems(4) by simp
  then obtain r where r: "visit_neighbor e n x y f off ns = Some r" "\<forall>ns'. r = Visited ns' \<longrightarrow> round_ok e n ns ns'"
    using visit_neighbor_ok [OF Cons.prems(1-3) _ Cons.prems(5-7)] by blast
  show ?case
  proof (cases r)
    case NoRoom
    then show ?thesis using r(1) round_ok_refl [OF Cons.prems(1)] by (cases found) auto
  next
    case (Visited ns1)
    then have k: "round_ok e n ns ns1" using r(2) by simp
    then have "nodes_ok e ns1" "n < length (ns_nodes ns1)" "ns_nodes ns1 ! n = ns_nodes ns ! n"
      using Cons.prems(3) by (auto simp: round_ok_def extends_def)
    then obtain r' where "visit_all e found n x y f offs ns1 = Some r'"
        "\<forall>ns'. r' = Some ns' \<longrightarrow> round_ok e n ns1 ns'" "r' = None \<longrightarrow> \<not> found"
      using Cons.IH [of ns1] Cons.prems by auto
    then show ?thesis using r(1) Visited round_ok_trans [OF k] by auto
  qed
qed

lemma neighbors_unit: "\<forall>off \<in> set (neighbors_of diagonal ns n). unit_offset off"
proof -
  have d: "\<forall>off \<in> set (dirNeighbors d). unit_offset off" for d
    by (cases d) (simp_all add: unit_offset_def)
  have "\<forall>off \<in> set (take k (dirNeighbors d)). unit_offset off" for k d
    using d set_take_subset by fastforce
  moreover have "\<forall>off \<in> set allNeighbors. unit_offset off" by (simp add: allNeighbors_def unit_offset_def)
  ultimately show ?thesis
    by (cases "an_parent (ns_nodes ns ! n)") (simp_all only: neighbors_of_def Let_def option.case)
qed

subsection \<open>The loop ends\<close>

lemma best_scan_open:
  assumes "best_scan i nodes opens b r = Some j"
  shows "r = Some j \<or> (i \<le> j \<and> j - i < length nodes \<and> j - i < length opens \<and> opens ! (j - i))"
  using assms
proof (induction i nodes opens b r rule: best_scan.induct)
  case (1 i n nodes op opens b r)
  have s: "k - i = Suc (k - Suc i)" if "Suc i \<le> k" for k using that by simp
  show ?case
  proof (cases "op \<and> an_f n < b")
    case True
    from 1(1) [OF True] 1(3) True show ?thesis by (auto simp: s)
  next
    case False
    from 1(2) [OF False] 1(3) False show ?thesis by (auto simp: s)
  qed
qed auto

lemma getBestNode_open:
  assumes "nodes_ok e ns" "getBestNode ns = Some n"
  shows "n < length (ns_nodes ns)" "ns_open ns ! n"
  using best_scan_open [of 0 "ns_nodes ns" "ns_open ns" 2147483647 None n] assms(2)
  by (auto simp: getBestNode_def)

lemma closeNode_ok: "nodes_ok e ns \<Longrightarrow> nodes_ok e (closeNode n ns)"
  by (simp add: nodes_ok_def closeNode_def)

definition open_count :: "astar_nodes \<Rightarrow> nat" where
  "open_count ns = length (filter id (ns_open ns))"

definition search_order :: "(astar_nodes \<times> astar_nodes) set" where
  "search_order = measures [\<lambda>ns. 512 - length (ns_nodes ns), f_total, open_count]"

lemma wf_search_order: "wf search_order"
  by (simp add: search_order_def)

lemma length_filter_close:
  assumes "n < length opens" "opens ! n"
  shows "length (filter id (opens[n := False])) < length (filter id opens)"
  using assms
proof (induction opens arbitrary: n)
  case (Cons op opens)
  then show ?case by (cases n) auto
qed simp

lemma round_decreases:
  assumes "nodes_ok e ns" "n < length (ns_nodes ns)" "ns_open ns ! n" "round_ok e n ns ns1"
  shows "(closeNode n ns1, ns) \<in> search_order"
proof -
  have l: "length (ns_nodes ns1) \<le> 512" using assms(4) nodes_okD(3) by (auto simp: round_ok_def)
  have o: "n < length (ns_open ns)" using nodes_okD(1) [OF assms(1)] assms(2) by simp
  have c: "ns_nodes (closeNode n ns1) = ns_nodes ns1" "f_total (closeNode n ns1) = f_total ns1"
    by (simp_all add: closeNode_def f_total_def)
  consider "ns1 = ns" | "length (ns_nodes ns) < length (ns_nodes ns1)"
    | "length (ns_nodes ns) = length (ns_nodes ns1)" "f_total ns1 < f_total ns"
    using assms(4) by (auto simp: round_ok_def progress_def)
  then show ?thesis
  proof cases
    case 1
    have "open_count (closeNode n ns) < open_count ns"
      using length_filter_close [OF o assms(3)] by (simp add: open_count_def closeNode_def)
    then show ?thesis using c by (simp add: 1 search_order_def)
  next
    case 2
    then have "512 - length (ns_nodes ns1) < 512 - length (ns_nodes ns)" using l by simp
    then show ?thesis by (simp add: search_order_def c)
  next
    case 3
    then show ?thesis by (simp add: search_order_def c)
  qed
qed

subsection \<open>Accepted positions\<close>

definition accepted :: "search_env \<Rightarrow> position \<Rightarrow> bool" where
  "accepted e pos \<longleftrightarrow> isInRange (se_target e) (startPos e) pos (se_fpp e)
     \<and> (clearSight (se_fpp e) \<longrightarrow> isSightClear (se_tiles e) pos (se_target e) True = Some True)
     \<and> minTargetDist (se_fpp e) \<le> max (getDistanceX (se_target e) pos) (getDistanceY (se_target e) pos)
     \<and> max (getDistanceX (se_target e) pos) (getDistanceY (se_target e) pos) \<le> maxTargetDist (se_fpp e)"

definition small_range :: "search_env \<Rightarrow> bool" where
  "small_range e \<longleftrightarrow> \<bar>maxTargetDist (se_fpp e)\<bar> \<le> 16383"

lemma isInRange_distance:
  assumes "isInRange t s p fpp"
  shows "getDistanceX t p \<le> \<bar>maxTargetDist fpp\<bar>" "getDistanceY t p \<le> \<bar>maxTargetDist fpp\<bar>"
  using assms by (auto simp: isInRange_def Let_def distance_defs split: if_splits)

lemma pathCondition_accepts:
  assumes "pathCondition (se_tiles e) (se_target e) (startPos e) p (se_fpp e) best = Some (True, best')"
  shows "accepted e p"
proof -
  have r: "isInRange (se_target e) (startPos e) p (se_fpp e)"
    using assms by (simp add: pathCondition_def split: if_splits)
  have c: "clearSight (se_fpp e) \<longrightarrow> isSightClear (se_tiles e) p (se_target e) True = Some True"
    using assms by (auto simp: pathCondition_def r split: bind_splits if_splits)
  then have s: "(if clearSight (se_fpp e) then isSightClear (se_tiles e) p (se_target e) True else Some True) = Some True"
    by simp
  define d where "d = max (getDistanceX (se_target e) p) (getDistanceY (se_target e) p)"
  show ?thesis
    using assms r c unfolding pathCondition_def s accepted_def d_def [symmetric]
    by (simp add: Let_def split: if_splits)
qed

lemma pathCondition_total:
  assumes "small_range e"
  shows "pathCondition (se_tiles e) (se_target e) (startPos e) p (se_fpp e) best \<noteq> None"
proof (cases "isInRange (se_target e) (startPos e) p (se_fpp e)")
  case True
  let ?sight = "if clearSight (se_fpp e) then isSightClear (se_tiles e) p (se_target e) True else Some True"
  have "getDistanceX p (se_target e) + getDistanceY p (se_target e) \<le> 32767"
    using isInRange_distance [OF True] assms by (simp add: small_range_def distance_sym [of p])
  then obtain r where "isSightClear (se_tiles e) p (se_target e) True = Some r" using isSightClear_total by blast
  then obtain c where c: "?sight = Some c" by (metis (full_types))
  show ?thesis unfolding pathCondition_def c using True by (simp add: Let_def del: not_None_eq)
qed (simp add: pathCondition_def del: not_None_eq)

definition found_ok :: "search_env \<Rightarrow> astar_nodes \<Rightarrow> nat option \<Rightarrow> bool" where
  "found_ok e ns found \<longleftrightarrow> (\<forall>i. found = Some i \<longrightarrow> i < length (ns_nodes ns)
     \<and> accepted e (node_pos (pz (startPos e)) (ns_nodes ns ! i)))"

lemma found_ok_extends:
  assumes "found_ok e ns found" "extends ns ns'"
  shows "found_ok e (closeNode n ns') found"
proof -
  have "node_pos z (ns_nodes ns' ! i) = node_pos z (ns_nodes ns ! i)" "i < length (ns_nodes ns')"
    if "i < length (ns_nodes ns)" for i z
    using assms(2) that by (auto simp: extends_def node_pos_def)
  then show ?thesis using assms(1) by (simp add: found_ok_def closeNode_def)
qed

lemma search_loop_total:
  assumes "inner_start e" "small_range e" "nodes_ok e ns" "found_ok e ns found"
  shows "\<exists>r. search_loop e ns found best = Some r
    \<and> (\<forall>ns' f. r = Some (ns', f) \<longrightarrow> nodes_ok e ns' \<and> found_ok e ns' f)"
  using assms(3,4)
proof (induction ns arbitrary: found best rule: wf_induct_rule [OF wf_search_order])
  case (1 ns)
  note ns = "1.prems"(1) and found = "1.prems"(2)
  show ?case
  proof (cases "\<not> (maxSearchDist (se_fpp e) \<noteq> 0 \<or> ns_closed ns < 100)")
    case True
    then show ?thesis using ns found by (subst search_loop.simps) simp
  next
    case room: False
    show ?thesis
    proof (cases "getBestNode ns")
      case None
      then show ?thesis using room ns found by (subst search_loop.simps) simp
    next
      case (Some n)
      note n = getBestNode_open [OF ns Some]
      let ?N = "ns_nodes ns ! n"
      let ?p = "Position (an_x ?N) (an_y ?N) (pz (startPos e))"
      obtain ok best' where c: "pathCondition (se_tiles e) (se_target e) (startPos e) ?p (se_fpp e) best = Some (ok, best')"
        "ok \<longrightarrow> accepted e ?p"
        using pathCondition_total [OF assms(2)] pathCondition_accepts by (metis (full_types) not_None_eq surj_pair)
      define found1 where "found1 = (if ok then Some n else found)"
      have f1: "found_ok e ns found1"
        using found c(2) n(1) by (auto simp: found1_def found_ok_def node_pos_def)
      obtain r where r: "visit_all e (found1 \<noteq> None) n (an_x ?N) (an_y ?N) (an_f ?N)
            (neighbors_of (allowDiagonal (se_fpp e)) ns n) ns = Some r"
          "\<forall>ns1. r = Some ns1 \<longrightarrow> round_ok e n ns ns1"
        using visit_all_ok [OF ns assms(1) n(1) neighbors_unit refl refl refl] by blast
      have step: "search_loop e ns found best =
          (if ok \<and> best' = 0 then Some (Some (ns, found1))
           else case r of None \<Rightarrow> Some None
             | Some ns1 \<Rightarrow> search_loop e (closeNode n ns1) found1 best')"
        by (subst search_loop.simps) (simp only: if_not_P [OF room] Some option.case Let_def c(1) r(1)
            bind.bind_lunit prod.case found1_def [symmetric])
      show ?thesis
      proof (cases "ok \<and> best' = 0")
        case True
        then show ?thesis using step ns f1 by simp
      next
        case go: False
        show ?thesis
        proof (cases r)
          case None
          then show ?thesis using step go by simp
        next
          case (Some ns1)
          then have k: "round_ok e n ns ns1" using r(2) by simp
          have "nodes_ok e (closeNode n ns1)" using k closeNode_ok by (simp add: round_ok_def)
          moreover have "found_ok e (closeNode n ns1) found1"
            using found_ok_extends [OF f1] k by (simp add: round_ok_def)
          ultimately show ?thesis
            using "1.IH" [OF round_decreases [OF ns n k]] step go Some by simp
        qed
      qed
    qed
  qed
qed

subsection \<open>The way back\<close>

fun follow :: "direction list \<Rightarrow> position \<Rightarrow> position list" where
  "follow [] p = []"
| "follow (d # ds) p = getNextPosition d p # follow ds (getNextPosition d p)"

definition walk_end :: "direction list \<Rightarrow> position \<Rightarrow> position" where
  "walk_end ds p = fold getNextPosition ds p"

lemma follow_append: "follow (ds @ es) p = follow ds p @ follow es (walk_end ds p)"
  by (induction ds arbitrary: p) (simp_all add: walk_end_def)

lemma step_direction_next:
  assumes "\<bar>uint (px p) - uint (px q)\<bar> \<le> 1" "\<bar>uint (py p) - uint (py q)\<bar> \<le> 1" "pz p = pz q" "p \<noteq> q"
  shows "\<exists>d. step_direction (uint (px p) - uint (px q)) (uint (py p) - uint (py q)) = [d]
    \<and> d \<noteq> DIRECTION_NONE \<and> getNextPosition d p = q"
proof -
  define dx dy where "dx = uint (px p) - uint (px q)" and "dy = uint (py p) - uint (py q)"
  have dx: "dx = -1 \<or> dx = 0 \<or> dx = 1" and dy: "dy = -1 \<or> dy = 0 \<or> dy = 1"
    using assms(1,2) by (auto simp: dx_def dy_def)
  have X: "dx = -1 \<Longrightarrow> px p = px q - 1" "dx = 0 \<Longrightarrow> px p = px q" "dx = 1 \<Longrightarrow> px p = px q + 1"
    unfolding dx_def by (rule word_offset; simp)+
  have Y: "dy = -1 \<Longrightarrow> py p = py q - 1" "dy = 0 \<Longrightarrow> py p = py q" "dy = 1 \<Longrightarrow> py p = py q + 1"
    unfolding dy_def by (rule word_offset; simp)+
  have nz: "dx \<noteq> 0 \<or> dy \<noteq> 0" using X(2) Y(2) assms(3,4) by (cases p; cases q) auto
  have g: "getNextPosition d p = q \<longleftrightarrow> getNextPosition d (Position (px p) (py p) (pz p)) = Position (px q) (py q) (pz q)" for d
    by simp
  show ?thesis
    unfolding dx_def [symmetric] dy_def [symmetric] g
    using dx dy nz assms(3)
    by (elim disjE) (simp_all add: step_direction_def X Y)
qed

definition leads_to :: "search_env \<Rightarrow> direction list \<Rightarrow> position \<Rightarrow> bool" where
  "leads_to e dirs p \<longleftrightarrow> walk_end dirs (startPos e) = p \<and> DIRECTION_NONE \<notin> set dirs
     \<and> (\<forall>q \<in> set (follow dirs (startPos e)). walkable e q)"

lemma leads_to_snoc:
  assumes "leads_to e dirs p" "d \<noteq> DIRECTION_NONE" "getNextPosition d p = q" "walkable e q"
  shows "leads_to e (dirs @ [d]) q"
  using assms by (auto simp: leads_to_def follow_append walk_end_def)

lemma walk_back_total:
  assumes "nodes_ok e ns" "i < length (ns_nodes ns)"
  shows "\<exists>dirs. walk_back (ns_nodes ns) (an_x (ns_nodes ns ! i)) (an_y (ns_nodes ns ! i)) (an_parent (ns_nodes ns ! i)) dl
      = Some (dirs @ dl) \<and> leads_to e dirs (node_pos (pz (startPos e)) (ns_nodes ns ! i))"
  using assms(2)
proof (induction "nat (an_f (ns_nodes ns ! i))" arbitrary: i dl rule: less_induct)
  case less
  let ?n = "ns_nodes ns ! i" and ?z = "pz (startPos e)"
  show ?case
  proof (cases "i = 0")
    case True
    then have n: "?n = \<lparr> an_parent = None, an_f = 0, an_x = px (startPos e), an_y = py (startPos e) \<rparr>"
      using nodes_okD(4) [OF assms(1)] by simp
    show ?thesis
      by (rule exI [of _ "[]"]) (subst walk_back.simps, simp add: n leads_to_def walk_end_def node_pos_def)
  next
    case False
    then have "parent_ok (ns_nodes ns) ?n" using nodes_okD(5) [OF assms(1) less.prems] by simp
    then obtain p where p: "an_parent ?n = Some p" "p < length (ns_nodes ns)" "an_f (ns_nodes ns ! p) < an_f ?n"
      "\<bar>uint (an_x (ns_nodes ns ! p)) - uint (an_x ?n)\<bar> \<le> 1" "\<bar>uint (an_y (ns_nodes ns ! p)) - uint (an_y ?n)\<bar> \<le> 1"
      "an_x (ns_nodes ns ! p) \<noteq> an_x ?n \<or> an_y (ns_nodes ns ! p) \<noteq> an_y ?n"
      by (auto simp: parent_ok_def split: option.splits)
    let ?p = "ns_nodes ns ! p"
    obtain d where d: "step_direction (uint (an_x ?p) - uint (an_x ?n)) (uint (an_y ?p) - uint (an_y ?n)) = [d]"
      "d \<noteq> DIRECTION_NONE" "getNextPosition d (node_pos ?z ?p) = node_pos ?z ?n"
      using step_direction_next [of "node_pos ?z ?p" "node_pos ?z ?n"] p(4-6) by (auto simp: node_pos_def)
    have "0 \<le> an_f ?p" using nodes_okD(7) [OF assms(1) p(2)] .
    then have "nat (an_f ?p) < nat (an_f ?n)" using p(3) by simp
    then obtain dirs where dirs: "walk_back (ns_nodes ns) (an_x ?p) (an_y ?p) (an_parent ?p) (d # dl) = Some (dirs @ d # dl)"
      "leads_to e dirs (node_pos ?z ?p)"
      using less.hyps [OF _ p(2)] by blast
    have "walkable e (node_pos ?z ?n)" using nodes_okD(6) [OF assms(1) less.prems] False by simp
    then have "leads_to e (dirs @ [d]) (node_pos ?z ?n)" by (rule leads_to_snoc [OF dirs(2) d(2,3)])
    moreover have "walk_back (ns_nodes ns) (an_x ?n) (an_y ?n) (an_parent ?n) dl = Some ((dirs @ [d]) @ dl)"
      using dirs(1) by (subst walk_back.simps) (simp add: p(1) d(1))
    ultimately show ?thesis by blast
  qed
qed

subsection \<open>The walk cache\<close>

definition tile_free :: "tile_map \<Rightarrow> position \<Rightarrow> bool" where
  "tile_free tiles pos = (case tiles pos of None \<Rightarrow> False | Some t \<Rightarrow> tv_queryAdd t = RETURNVALUE_NOERROR)"

definition cached_right :: "tile_map \<Rightarrow> position \<Rightarrow> walker \<Rightarrow> bool" where
  "cached_right tiles pos w \<longleftrightarrow>
     (\<forall>c. wk_cache w = Some c \<longrightarrow> c (getOffsetY pos (wk_pos w)) (getOffsetX pos (wk_pos w)) = tile_free tiles pos)"

lemma position_offset_eq:
  assumes "getOffsetX p w = getOffsetX q w" "getOffsetY p w = getOffsetY q w" "pz p = pz q"
  shows "p = q"
  using assms by (cases p; cases q) (simp add: getOffsetX_def getOffsetY_def word_uint_eq_iff)

lemma updateTileCache_right:
  assumes "pz pos = pz (wk_pos w)" "cached_right tiles pos w \<or> (q = pos
     \<and> \<bar>getOffsetX pos (wk_pos w)\<bar> \<le> maxWalkCacheWidth \<and> \<bar>getOffsetY pos (wk_pos w)\<bar> \<le> maxWalkCacheHeight)"
  shows "cached_right tiles pos (updateTileCache (tiles q) q w)"
proof (cases "q = pos")
  case True
  then show ?thesis using assms
    by (auto simp: updateTileCache_def cached_right_def Let_def tile_free_def split: option.splits)
next
  case False
  then have r: "cached_right tiles pos w" using assms(2) by simp
  have "\<not> (getOffsetY pos (wk_pos w) = getOffsetY q (wk_pos w) \<and> getOffsetX pos (wk_pos w) = getOffsetX q (wk_pos w))"
    if "pz q = pz (wk_pos w)"
    using False position_offset_eq [of pos "wk_pos w" q] that assms(1) by auto
  then show ?thesis using r
    by (auto simp: updateTileCache_def cached_right_def Let_def split: if_splits)
qed

lemma updateTileCache_same [simp]:
  "wk_pos (updateTileCache t q w) = wk_pos w" "wk_cache (updateTileCache t q w) = None \<longleftrightarrow> wk_cache w = None"
  by (auto simp: updateTileCache_def Let_def)

lemma updateMapCache_right:
  assumes "pz pos = pz (wk_pos w)"
    "\<bar>getOffsetX pos (wk_pos w)\<bar> \<le> maxWalkCacheWidth" "\<bar>getOffsetY pos (wk_pos w)\<bar> \<le> maxWalkCacheHeight"
  shows "cached_right tiles pos (updateMapCache tiles w)"
proof -
  let ?step = "updateMapCache_at tiles"
  have same: "wk_pos (?step yx v) = wk_pos v" for yx v by (simp add: updateMapCache_at_def Let_def)
  have at: "Position (word_of_int (uint (px (wk_pos w)) + getOffsetX pos (wk_pos w)))
      (word_of_int (uint (py (wk_pos w)) + getOffsetY pos (wk_pos w))) (pz (wk_pos w)) = pos"
    using assms(1) by (cases pos) (simp add: getOffsetX_def getOffsetY_def)
  have keep: "cached_right tiles pos (?step yx v)"
    if "wk_pos v = wk_pos w" "cached_right tiles pos v \<or> yx = (getOffsetY pos (wk_pos w), getOffsetX pos (wk_pos w))" for yx v
  proof (cases yx)
    case (Pair y x)
    have "cached_right tiles pos v \<or> Position (word_of_int (uint (px (wk_pos v)) + x))
        (word_of_int (uint (py (wk_pos v)) + y)) (pz (wk_pos v)) = pos"
      using that at by (auto simp: Pair)
    then show ?thesis unfolding Pair using updateTileCache_right [of pos v tiles] assms that(1)
      by (auto simp: updateMapCache_at_def Let_def)
  qed
  have "cached_right tiles pos (fold ?step L v)"
    if "wk_pos v = wk_pos w" "cached_right tiles pos v \<or> (getOffsetY pos (wk_pos w), getOffsetX pos (wk_pos w)) \<in> set L" for L v
    using that
  proof (induction L arbitrary: v)
    case (Cons yx L)
    have "wk_pos (?step yx v) = wk_pos w" using Cons.prems(1) same by simp
    moreover have "cached_right tiles pos (?step yx v) \<or> (getOffsetY pos (wk_pos w), getOffsetX pos (wk_pos w)) \<in> set L"
      using keep [OF Cons.prems(1), of yx] Cons.prems(2) by auto
    ultimately show ?case using Cons.IH by simp
  qed simp
  moreover have "(getOffsetY pos (wk_pos w), getOffsetX pos (wk_pos w))
      \<in> set (List.product [- maxWalkCacheHeight..maxWalkCacheHeight] [- maxWalkCacheWidth..maxWalkCacheWidth])"
    using assms(2,3) by auto
  ultimately show ?thesis unfolding updateMapCache_def by blast
qed

lemma updateMapCache_same:
  "wk_pos (updateMapCache tiles w) = wk_pos w" "wk_cache (updateMapCache tiles w) = None \<longleftrightarrow> wk_cache w = None"
proof -
  have "wk_pos (fold (updateMapCache_at tiles) L w) = wk_pos w
    \<and> (wk_cache (fold (updateMapCache_at tiles) L w) = None \<longleftrightarrow> wk_cache w = None)" for L
  proof (induction L arbitrary: w)
    case (Cons yx L)
    have "wk_pos (updateMapCache_at tiles yx w) = wk_pos w"
      "wk_cache (updateMapCache_at tiles yx w) = None \<longleftrightarrow> wk_cache w = None"
      unfolding updateMapCache_at_def Let_def by (rule updateTileCache_same)+
    with Cons [of "updateMapCache_at tiles yx w"] show ?case by simp
  qed simp
  then show "wk_pos (updateMapCache tiles w) = wk_pos w" "wk_cache (updateMapCache tiles w) = None \<longleftrightarrow> wk_cache w = None"
    unfolding updateMapCache_def by blast+
qed

text \<open>
  C13. The walk cache is coherent: once \<open>updateMapCache\<close> has run, the cached answer of
  \<open>Map::canWalkTo\<close> on the creature's floor is the answer that asking the tile gives, for every
  position, also next to the border of the map where the coordinates of the window wrap around.
\<close>

theorem walk_cache_coherent:
  assumes "pz pos = pz (wk_pos w)"
  shows "canWalkTo (updateMapCache tiles w) tiles pos = canWalkTo (w \<lparr> wk_cache := None \<rparr>) tiles pos"
proof (cases "wk_cache (updateMapCache tiles w)")
  case None
  then show ?thesis using updateMapCache_same(1) [of tiles w]
    by (simp add: canWalkTo_def getWalkCache_def Let_def)
next
  case (Some c)
  let ?dx = "getOffsetX pos (wk_pos w)" and ?dy = "getOffsetY pos (wk_pos w)"
  note same = updateMapCache_same(1) [of tiles w]
  show ?thesis
  proof (cases "\<bar>?dx\<bar> \<le> maxWalkCacheWidth \<and> \<bar>?dy\<bar> \<le> maxWalkCacheHeight")
    case True
    then have "c ?dy ?dx = tile_free tiles pos"
      using updateMapCache_right [OF assms, of tiles] Some by (simp add: cached_right_def same)
    then show ?thesis using assms True Some
      by (auto simp: canWalkTo_def getWalkCache_def Let_def tile_free_def same split: option.splits)
  next
    case False
    then show ?thesis using assms Some
      by (auto simp: canWalkTo_def getWalkCache_def Let_def same split: option.splits)
  qed
qed

theorem walk_cache_coherent_witness:
  "canWalkTo (updateMapCache (\<lambda>_. None) \<lparr> wk_pos = Position 3 5 7, wk_cache = Some (\<lambda>_ _. True),
       wk_canPush = None, wk_immune = (\<lambda>_. False), wk_hasCondition = (\<lambda>_. False) \<rparr>)
     (\<lambda>_. None) (Position 4 5 7) = None"
  by (subst walk_cache_coherent) (simp_all add: canWalkTo_def getWalkCache_def Let_def)

subsection \<open>The paths\<close>

lemma getPathMatching_result:
  assumes "inner_start e" "small_range e"
  shows "\<exists>ok dirs. getPathMatching e dirList = Some (ok, dirs @ dirList)
    \<and> (if ok then \<exists>p. leads_to e dirs p \<and> accepted e p else dirs = [])"
proof -
  let ?init = "init_nodes (px (startPos e)) (py (startPos e))"
  obtain r where r: "search_loop e ?init None 0 = Some r"
    "\<forall>ns f. r = Some (ns, f) \<longrightarrow> nodes_ok e ns \<and> found_ok e ns f"
    using search_loop_total [OF assms init_nodes_ok, of None 0] by (auto simp: found_ok_def)
  consider "r = None" | ns where "r = Some (ns, None)" | ns i where "r = Some (ns, Some i)"
    by (metis option.exhaust surj_pair)
  then show ?thesis
  proof cases
    case 1
    then show ?thesis using r(1) by (intro exI [of _ False]) (simp add: getPathMatching_def)
  next
    case 2
    then show ?thesis using r(1) by (intro exI [of _ False]) (simp add: getPathMatching_def)
  next
    case 3
    then have i: "nodes_ok e ns" "i < length (ns_nodes ns)" "accepted e (node_pos (pz (startPos e)) (ns_nodes ns ! i))"
      using r(2) by (auto simp: found_ok_def)
    from walk_back_total [OF i(1,2), of dirList] obtain dirs
      where "walk_back (ns_nodes ns) (an_x (ns_nodes ns ! i)) (an_y (ns_nodes ns ! i))
          (an_parent (ns_nodes ns ! i)) dirList = Some (dirs @ dirList)"
        "leads_to e dirs (node_pos (pz (startPos e)) (ns_nodes ns ! i))" by blast
    then show ?thesis using r(1) 3 i(3)
      by (intro exI [of _ True] exI [of _ dirs]) (auto simp: getPathMatching_def)
  qed
qed

subsubsection \<open>A field without obstacles, for the witnesses\<close>

definition free_tile :: tile_view where
  "free_tile = \<lparr> tv_blockProjectile = False, tv_thingCount = 0, tv_queryAdd = RETURNVALUE_NOERROR,
     tv_blocker = None, tv_field = None \<rparr>"

definition sample_env :: search_env where
  "sample_env = \<lparr> se_walker = \<lparr> wk_pos = Position 1000 1000 7, wk_cache = None, wk_canPush = None,
       wk_immune = (\<lambda>_. False), wk_hasCondition = (\<lambda>_. False) \<rparr>,
     se_tiles = (\<lambda>_. Some free_tile), se_target = Position 1002 1000 7,
     se_fpp = \<lparr> fullPathSearch = True, clearSight = False, allowDiagonal = True, keepDistance = False,
       maxSearchDist = 0, minTargetDist = 1, maxTargetDist = 1 \<rparr> \<rparr>"

lemma sample_env_ok: "inner_start sample_env" "small_range sample_env"
  by (simp_all add: inner_start_def small_range_def sample_env_def startPos_def)

lemma sample_env_path: "getPathMatching sample_env [] = Some (True, [DIRECTION_EAST])"
  by code_simp

subsubsection \<open>The results\<close>

text \<open>
  C12. The path search ends: for every map, every target, with or without a walk cache and a limit
  on the distance, \<open>Map::getPathMatching\<close> gives an answer. The start lies on a tile, at least 512 tiles
  from the border (the number of nodes), and the target range is below sixteen thousand tiles.
\<close>

theorem path_search_terminates:
  assumes "inner_start e" "small_range e"
  shows "getPathMatching e dirList \<noteq> None"
  using getPathMatching_result [OF assms, of dirList] by auto

theorem path_search_terminates_witness: "getPathMatching sample_env [DIRECTION_WEST] \<noteq> None"
  by (rule path_search_terminates [OF sample_env_ok])

text \<open>
  C11. A path that the search returns is a path: the new directions stand before those that the
  list had; followed from the creature's position they step over walkable tiles only, and they end at a
  position that meets the condition: in range of the target, in sight if asked for, and neither too near
  nor too far. If the search fails the list is unchanged.
\<close>

theorem path_found_sound:
  assumes "inner_start e" "small_range e" "getPathMatching e dirList = Some (ok, result)"
  shows "if ok then \<exists>dirs p. result = dirs @ dirList \<and> leads_to e dirs p \<and> accepted e p else result = dirList"
  using getPathMatching_result [OF assms(1,2), of dirList] assms(3) by (cases ok) auto

theorem path_found_sound_witness:
  "\<exists>p. leads_to sample_env [DIRECTION_EAST] p \<and> accepted sample_env p"
  using path_found_sound [OF sample_env_ok sample_env_path] by simp

end
