(* ===== verification/Item_Attributes.thy ===== *)
theory Item_Attributes
  imports Otx_Prelude
begin

text \<open>
  The attributes of an item, \<^verbatim>\<open>class ItemAttributes\<close> (\<^verbatim>\<open>src/src/item.h\<close>, \<^verbatim>\<open>item.cpp\<close>): a linked list of
  values with a set of bits that says which types are present. A value is a union of an integer and a pointer
  to a string; the constructor says which member was written last. Reading the other member gives the default here:
  the invariant of this theory is that with the declared types it never happens.
\<close>

subsection \<open>Types\<close>

definition ITEM_ATTRIBUTE_NONE :: u32 where "ITEM_ATTRIBUTE_NONE = 0"
definition ITEM_ATTRIBUTE_ACTIONID :: u32 where "ITEM_ATTRIBUTE_ACTIONID = push_bit 0 1"
definition ITEM_ATTRIBUTE_UNIQUEID :: u32 where "ITEM_ATTRIBUTE_UNIQUEID = push_bit 1 1"
definition ITEM_ATTRIBUTE_DESCRIPTION :: u32 where "ITEM_ATTRIBUTE_DESCRIPTION = push_bit 2 1"
definition ITEM_ATTRIBUTE_TEXT :: u32 where "ITEM_ATTRIBUTE_TEXT = push_bit 3 1"
definition ITEM_ATTRIBUTE_DATE :: u32 where "ITEM_ATTRIBUTE_DATE = push_bit 4 1"
definition ITEM_ATTRIBUTE_WRITER :: u32 where "ITEM_ATTRIBUTE_WRITER = push_bit 5 1"
definition ITEM_ATTRIBUTE_NAME :: u32 where "ITEM_ATTRIBUTE_NAME = push_bit 6 1"
definition ITEM_ATTRIBUTE_ARTICLE :: u32 where "ITEM_ATTRIBUTE_ARTICLE = push_bit 7 1"
definition ITEM_ATTRIBUTE_PLURALNAME :: u32 where "ITEM_ATTRIBUTE_PLURALNAME = push_bit 8 1"
definition ITEM_ATTRIBUTE_WEIGHT :: u32 where "ITEM_ATTRIBUTE_WEIGHT = push_bit 9 1"
definition ITEM_ATTRIBUTE_ATTACK :: u32 where "ITEM_ATTRIBUTE_ATTACK = push_bit 10 1"
definition ITEM_ATTRIBUTE_DEFENSE :: u32 where "ITEM_ATTRIBUTE_DEFENSE = push_bit 11 1"
definition ITEM_ATTRIBUTE_EXTRADEFENSE :: u32 where "ITEM_ATTRIBUTE_EXTRADEFENSE = push_bit 12 1"
definition ITEM_ATTRIBUTE_ARMOR :: u32 where "ITEM_ATTRIBUTE_ARMOR = push_bit 13 1"
definition ITEM_ATTRIBUTE_HITCHANCE :: u32 where "ITEM_ATTRIBUTE_HITCHANCE = push_bit 14 1"
definition ITEM_ATTRIBUTE_SHOOTRANGE :: u32 where "ITEM_ATTRIBUTE_SHOOTRANGE = push_bit 15 1"
definition ITEM_ATTRIBUTE_OWNER :: u32 where "ITEM_ATTRIBUTE_OWNER = push_bit 16 1"
definition ITEM_ATTRIBUTE_DURATION :: u32 where "ITEM_ATTRIBUTE_DURATION = push_bit 17 1"
definition ITEM_ATTRIBUTE_DECAYSTATE :: u32 where "ITEM_ATTRIBUTE_DECAYSTATE = push_bit 18 1"
definition ITEM_ATTRIBUTE_CORPSEOWNER :: u32 where "ITEM_ATTRIBUTE_CORPSEOWNER = push_bit 19 1"
definition ITEM_ATTRIBUTE_CHARGES :: u32 where "ITEM_ATTRIBUTE_CHARGES = push_bit 20 1"
definition ITEM_ATTRIBUTE_FLUIDTYPE :: u32 where "ITEM_ATTRIBUTE_FLUIDTYPE = push_bit 21 1"
definition ITEM_ATTRIBUTE_DOORID :: u32 where "ITEM_ATTRIBUTE_DOORID = push_bit 22 1"

definition isIntAttrType :: "u32 \<Rightarrow> bool" where
  "isIntAttrType type \<longleftrightarrow> type AND 0x7FFE13 \<noteq> 0"

definition isStrAttrType :: "u32 \<Rightarrow> bool" where
  "isStrAttrType type \<longleftrightarrow> type AND 0x1EC \<noteq> 0"

text \<open>The declared types.\<close>

definition attr_types :: "u32 list" where
  "attr_types = map (\<lambda>n. push_bit n 1) [0..<23]"

subsection \<open>Operations\<close>

datatype attr_value = AttrInt u64 | AttrStr bytes

record item_attributes =
  ia_list :: "(u32 \<times> attr_value) list"
  ia_bits :: u32

definition no_attributes :: item_attributes where
  "no_attributes = \<lparr> ia_list = [], ia_bits = 0 \<rparr>"

definition attr_has :: "u32 \<Rightarrow> item_attributes \<Rightarrow> bool" where
  "attr_has type a \<longleftrightarrow> type AND ia_bits a \<noteq> 0"

text \<open>\<open>getExistingAttr\<close>: the first entry of the type.\<close>

definition getExistingAttr :: "u32 \<Rightarrow> item_attributes \<Rightarrow> attr_value option" where
  "getExistingAttr type a = (if attr_has type a then map_of (ia_list a) type else None)"

text \<open>\<open>getAttr\<close> gives a reference to the entry, which it creates with a zero union if needed; the assignment
  through the reference is the argument \<open>f\<close>.\<close>

fun upd_first :: "u32 \<Rightarrow> (attr_value \<Rightarrow> attr_value) \<Rightarrow> (u32 \<times> attr_value) list \<Rightarrow> (u32 \<times> attr_value) list option" where
  "upd_first type f [] = None"
| "upd_first type f ((t, v) # as) =
     (if t = type then Some ((t, f v) # as) else map_option (Cons (t, v)) (upd_first type f as))"

definition assign_attr :: "u32 \<Rightarrow> (attr_value \<Rightarrow> attr_value) \<Rightarrow> item_attributes \<Rightarrow> item_attributes" where
  "assign_attr type f a =
     (case (if attr_has type a then upd_first type f (ia_list a) else None) of
        Some as \<Rightarrow> a \<lparr> ia_list := as \<rparr>
      | None \<Rightarrow> \<lparr> ia_list = (type, f (AttrInt 0)) # ia_list a, ia_bits = ia_bits a OR type \<rparr>)"

definition attr_int :: "attr_value \<Rightarrow> u64" where
  "attr_int v = (case v of AttrInt n \<Rightarrow> n | AttrStr _ \<Rightarrow> 0)"

definition attr_str :: "attr_value \<Rightarrow> bytes" where
  "attr_str v = (case v of AttrStr s \<Rightarrow> s | AttrInt _ \<Rightarrow> [])"

definition attrs_getStr :: "u32 \<Rightarrow> item_attributes \<Rightarrow> bytes" where
  "attrs_getStr type a =
     (if \<not> isStrAttrType type then []
      else case getExistingAttr type a of None \<Rightarrow> [] | Some v \<Rightarrow> attr_str v)"

definition attrs_setStr :: "u32 \<Rightarrow> bytes \<Rightarrow> item_attributes \<Rightarrow> item_attributes" where
  "attrs_setStr type s a =
     (if \<not> isStrAttrType type then a
      else if s = [] then a
      else assign_attr type (\<lambda>_. AttrStr s) a)"

definition attrs_getInt :: "u32 \<Rightarrow> item_attributes \<Rightarrow> u64" where
  "attrs_getInt type a =
     (if \<not> isIntAttrType type then 0
      else case getExistingAttr type a of None \<Rightarrow> 0 | Some v \<Rightarrow> attr_int v)"

definition attrs_setInt :: "u32 \<Rightarrow> u64 \<Rightarrow> item_attributes \<Rightarrow> item_attributes" where
  "attrs_setInt type n a =
     (if \<not> isIntAttrType type then a else assign_attr type (\<lambda>_. AttrInt n) a)"

definition attrs_increaseInt :: "u32 \<Rightarrow> u64 \<Rightarrow> item_attributes \<Rightarrow> item_attributes" where
  "attrs_increaseInt type n a =
     (if \<not> isIntAttrType type then a else assign_attr type (\<lambda>v. AttrInt (attr_int v + n)) a)"

text \<open>The loop of \<open>removeAttribute\<close> erases the first entry of the type; its first step reads the head of the
  list.\<close>

fun erase_first :: "u32 \<Rightarrow> (u32 \<times> attr_value) list \<Rightarrow> (u32 \<times> attr_value) list" where
  "erase_first type [] = []"
| "erase_first type ((t, v) # as) = (if t = type then as else (t, v) # erase_first type as)"

definition attrs_remove :: "u32 \<Rightarrow> item_attributes \<Rightarrow> item_attributes" where
  "attrs_remove type a =
     (if \<not> attr_has type a then a
      else \<lparr> ia_list = erase_first type (ia_list a), ia_bits = ia_bits a AND NOT type \<rparr>)"

subsection \<open>The typing invariant\<close>

fun value_typed :: "u32 \<times> attr_value \<Rightarrow> bool" where
  "value_typed (t, AttrInt n) \<longleftrightarrow> isIntAttrType t \<and> \<not> isStrAttrType t"
| "value_typed (t, AttrStr s) \<longleftrightarrow> isStrAttrType t \<and> \<not> isIntAttrType t \<and> s \<noteq> []"

text \<open>Every value is the member of the union its type asks for, no type occurs twice, and the bits say which
  types are there.\<close>

definition attrs_ok :: "item_attributes \<Rightarrow> bool" where
  "attrs_ok a \<longleftrightarrow> (\<forall>p \<in> set (ia_list a). value_typed p) \<and> fst ` set (ia_list a) \<subseteq> set attr_types
     \<and> distinct (map fst (ia_list a)) \<and> (\<forall>t \<in> set attr_types. attr_has t a \<longleftrightarrow> t \<in> fst ` set (ia_list a))"

lemma attr_types_iff: "t \<in> set attr_types \<longleftrightarrow> (\<exists>n < 23. t = 2 ^ n)"
  by (auto simp: attr_types_def)

lemma attr_has_bit: "n < 23 \<Longrightarrow> attr_has (2 ^ n) a \<longleftrightarrow> bit (ia_bits a) n"
  by (simp add: attr_has_def and_exp_eq_0_iff_not_bit and.commute)

lemma exp_inject: "n < 23 \<Longrightarrow> m < 23 \<Longrightarrow> (2 :: u32) ^ n = 2 ^ m \<longleftrightarrow> n = m"
  using bit_exp_iff [of n n, where 'a = "32 word"] bit_exp_iff [of m n, where 'a = "32 word"] by auto

lemma attr_has_or:
  assumes "t \<in> set attr_types" "s \<in> set attr_types"
  shows "attr_has t \<lparr> ia_list = l, ia_bits = ia_bits a OR s \<rparr> \<longleftrightarrow> attr_has t a \<or> t = s"
proof -
  obtain n m where nm: "t = 2 ^ n" "n < 23" "s = 2 ^ m" "m < 23"
    using assms by (auto simp: attr_types_iff)
  then have "bit (ia_bits a OR s) n \<longleftrightarrow> bit (ia_bits a) n \<or> n = m" by (auto simp: bit_simps)
  then show ?thesis using nm by (simp add: attr_has_bit exp_inject)
qed

lemma attr_has_remove:
  assumes "t \<in> set attr_types" "s \<in> set attr_types"
  shows "attr_has t \<lparr> ia_list = l, ia_bits = ia_bits a AND NOT s \<rparr> \<longleftrightarrow> attr_has t a \<and> t \<noteq> s"
proof -
  obtain n m where nm: "t = 2 ^ n" "n < 23" "s = 2 ^ m" "m < 23"
    using assms by (auto simp: attr_types_iff)
  then have "bit (ia_bits a AND NOT s) n \<longleftrightarrow> bit (ia_bits a) n \<and> n \<noteq> m" by (auto simp: bit_simps)
  then show ?thesis using nm by (simp add: attr_has_bit exp_inject)
qed

lemma attr_types_disjoint:
  "t \<in> set attr_types \<Longrightarrow> isIntAttrType t \<longleftrightarrow> \<not> isStrAttrType t"
proof -
  have "\<forall>t \<in> set attr_types. isIntAttrType t \<longleftrightarrow> \<not> isStrAttrType t" by code_simp
  then show "t \<in> set attr_types \<Longrightarrow> isIntAttrType t \<longleftrightarrow> \<not> isStrAttrType t" by blast
qed

lemma attrs_okD:
  assumes "attrs_ok a"
  shows "p \<in> set (ia_list a) \<Longrightarrow> value_typed p" "(t, v) \<in> set (ia_list a) \<Longrightarrow> t \<in> set attr_types"
    "distinct (map fst (ia_list a))" "t \<in> set attr_types \<Longrightarrow> attr_has t a \<longleftrightarrow> t \<in> fst ` set (ia_list a)"
  using assms unfolding attrs_ok_def by (blast, force, blast, blast)

subsection \<open>The map of the attributes\<close>

definition attr_view :: "item_attributes \<Rightarrow> u32 \<rightharpoonup> attr_value" where
  "attr_view a = map_of (ia_list a)"

lemma attr_view_has: "attrs_ok a \<Longrightarrow> t \<in> set attr_types \<Longrightarrow> attr_has t a \<longleftrightarrow> attr_view a t \<noteq> None"
  using attrs_okD(4) [of a t] by (simp add: attr_view_def map_of_eq_None_iff)

lemma getExistingAttr_view: "attrs_ok a \<Longrightarrow> t \<in> set attr_types \<Longrightarrow> getExistingAttr t a = attr_view a t"
  using attr_view_has [of a t] by (auto simp: getExistingAttr_def attr_view_def)

lemma attr_view_declared: "attrs_ok a \<Longrightarrow> t \<notin> set attr_types \<Longrightarrow> attr_view a t = None"
  unfolding attr_view_def map_of_eq_None_iff using attrs_okD(2) by fastforce

lemma attr_view_typed: "attrs_ok a \<Longrightarrow> attr_view a t = Some v \<Longrightarrow> value_typed (t, v)"
  using attrs_okD(1) map_of_SomeD [of "ia_list a" t v] by (simp add: attr_view_def)

lemma upd_first_props:
  assumes "upd_first t f as = Some bs"
  shows "map fst bs = map fst as" "map_of bs = (map_of as)(t := map_option f (map_of as t))"
    "p \<in> set bs \<Longrightarrow> p \<in> set as \<or> (\<exists>v. p = (t, f v) \<and> (t, v) \<in> set as)"
proof -
  show "map fst bs = map fst as" using assms
    by (induction t f as arbitrary: bs rule: upd_first.induct) (auto split: if_splits)
  show "map_of bs = (map_of as)(t := map_option f (map_of as t))" using assms
    by (induction t f as arbitrary: bs rule: upd_first.induct) (auto split: if_splits)
  show "p \<in> set bs \<Longrightarrow> p \<in> set as \<or> (\<exists>v. p = (t, f v) \<and> (t, v) \<in> set as)" using assms
    by (induction t f as arbitrary: bs rule: upd_first.induct) (auto split: if_splits)
qed

lemma upd_first_None: "upd_first t f as = None \<longleftrightarrow> map_of as t = None"
  by (induction t f as rule: upd_first.induct) auto

lemma assign_attr_ok:
  assumes "attrs_ok a" "t \<in> set attr_types" "\<And>v. value_typed (t, v) \<or> v = AttrInt 0 \<Longrightarrow> value_typed (t, f v)"
  shows "attrs_ok (assign_attr t f a)"
    "attr_view (assign_attr t f a) = (attr_view a)(t \<mapsto> f (case attr_view a t of None \<Rightarrow> AttrInt 0 | Some v \<Rightarrow> v))"
proof -
  have "attrs_ok (assign_attr t f a) \<and>
    attr_view (assign_attr t f a) = (attr_view a)(t \<mapsto> f (case attr_view a t of None \<Rightarrow> AttrInt 0 | Some v \<Rightarrow> v))"
  proof (cases "if attr_has t a then upd_first t f (ia_list a) else None")
    case None
    then have no: "attr_view a t = None"
      using attr_view_has [OF assms(1,2)] upd_first_None [of t f "ia_list a"] by (auto simp: attr_view_def split: if_splits)
    then have nin: "t \<notin> fst ` set (ia_list a)" by (simp add: attr_view_def map_of_eq_None_iff)
    let ?b = "\<lparr> ia_list = (t, f (AttrInt 0)) # ia_list a, ia_bits = ia_bits a OR t \<rparr>"
    have "assign_attr t f a = ?b" using None by (simp add: assign_attr_def)
    moreover have "attrs_ok ?b"
      using assms attrs_okD(1,3,4) [OF assms(1)] nin attr_has_or [OF _ assms(2), of _ "(t, f (AttrInt 0)) # ia_list a" a]
      by (auto simp: attrs_ok_def dest: attrs_okD(2) [OF assms(1)])
    ultimately show ?thesis using no by (simp add: attr_view_def)
  next
    case (Some bs)
    then have bs: "upd_first t f (ia_list a) = Some bs" by (simp split: if_splits)
    note b = upd_first_props [OF bs]
    have e: "assign_attr t f a = a \<lparr> ia_list := bs \<rparr>" using Some by (simp add: assign_attr_def)
    have im: "fst ` set bs = fst ` set (ia_list a)" using b(1) by (metis list.set_map)
    have ty: "value_typed p" if "p \<in> set bs" for p
      using b(3) [OF that] attrs_okD(1) [OF assms(1)] assms(3) by blast
    have "attrs_ok (a \<lparr> ia_list := bs \<rparr>)"
      using assms(1) ty b(1) im by (simp add: attrs_ok_def attr_has_def)
    moreover have "map_of (ia_list a) t \<noteq> None" using bs upd_first_None [of t f "ia_list a"] by auto
    ultimately show ?thesis using e b(2) by (auto simp: attr_view_def)
  qed
  then show "attrs_ok (assign_attr t f a)"
    "attr_view (assign_attr t f a) = (attr_view a)(t \<mapsto> f (case attr_view a t of None \<Rightarrow> AttrInt 0 | Some v \<Rightarrow> v))"
    by blast+
qed

lemma no_attributes_ok: "attrs_ok no_attributes" "attr_view no_attributes = Map.empty"
  by (simp_all add: attrs_ok_def no_attributes_def attr_view_def attr_has_def)

lemma attrs_setInt_ok:
  assumes "attrs_ok a" "t \<in> set attr_types" "isIntAttrType t"
  shows "attrs_ok (attrs_setInt t n a)" "attr_view (attrs_setInt t n a) = (attr_view a)(t \<mapsto> AttrInt n)"
  using assign_attr_ok [OF assms(1,2), of "\<lambda>_. AttrInt n"] attr_types_disjoint [OF assms(2)] assms(3)
  by (simp_all add: attrs_setInt_def)

lemma attrs_increaseInt_ok:
  assumes "attrs_ok a" "t \<in> set attr_types" "isIntAttrType t"
  shows "attrs_ok (attrs_increaseInt t n a)"
    "attr_view (attrs_increaseInt t n a) = (attr_view a)(t \<mapsto> AttrInt (attrs_getInt t a + n))"
  using assign_attr_ok [OF assms(1,2), of "\<lambda>v. AttrInt (attr_int v + n)"] attr_types_disjoint [OF assms(2)] assms(3)
  by (simp_all add: attrs_increaseInt_def attrs_getInt_def getExistingAttr_view [OF assms(1,2)] attr_int_def
      split: option.split)

lemma attrs_setStr_ok:
  assumes "attrs_ok a" "t \<in> set attr_types" "isStrAttrType t"
  shows "attrs_ok (attrs_setStr t s a)"
    "attr_view (attrs_setStr t s a) = (if s = [] then attr_view a else (attr_view a)(t \<mapsto> AttrStr s))"
  using assign_attr_ok [OF assms(1,2), of "\<lambda>_. AttrStr s"] attr_types_disjoint [OF assms(2)] assms(1,3)
  by (simp_all add: attrs_setStr_def)

lemma erase_first_props:
  "distinct (map fst as) \<Longrightarrow> map fst (erase_first t as) = remove1 t (map fst as)
     \<and> map_of (erase_first t as) = (map_of as)(t := None) \<and> set (erase_first t as) \<subseteq> set as"
proof (induction t as rule: erase_first.induct)
  case (2 t s v as)
  then show ?case
    by (cases "s = t") (auto simp: fun_eq_iff map_of_eq_None_iff)
qed simp

lemma attrs_remove_ok:
  assumes "attrs_ok a" "t \<in> set attr_types"
  shows "attrs_ok (attrs_remove t a)" "attr_view (attrs_remove t a) = (attr_view a)(t := None)"
proof -
  note e = erase_first_props [OF attrs_okD(3) [OF assms(1)], of t]
  have "attrs_ok (attrs_remove t a) \<and> attr_view (attrs_remove t a) = (attr_view a)(t := None)"
  proof (cases "attr_has t a")
    case False
    then show ?thesis using assms attr_view_has [OF assms] by (auto simp: attrs_remove_def)
  next
    case True
    have im: "fst ` set (erase_first t (ia_list a)) = fst ` set (ia_list a) - {t}"
      using e attrs_okD(3) [OF assms(1)] by (metis list.set_map set_remove1_eq)
    have "attrs_ok \<lparr> ia_list = erase_first t (ia_list a), ia_bits = ia_bits a AND NOT t \<rparr>"
      using e attrs_okD(1,3,4) [OF assms(1)] im attr_has_remove [OF _ assms(2), of _ "erase_first t (ia_list a)" a] assms(1)
      by (auto simp: attrs_ok_def distinct_remove1)
    then show ?thesis using True e by (simp add: attrs_remove_def attr_view_def)
  qed
  then show "attrs_ok (attrs_remove t a)" "attr_view (attrs_remove t a) = (attr_view a)(t := None)" by blast+
qed

lemma attrs_get_view:
  assumes "attrs_ok a" "t \<in> set attr_types"
  shows "isIntAttrType t \<Longrightarrow> attrs_getInt t a = (case attr_view a t of None \<Rightarrow> 0 | Some v \<Rightarrow> attr_int v)"
    "isStrAttrType t \<Longrightarrow> attrs_getStr t a = (case attr_view a t of None \<Rightarrow> [] | Some v \<Rightarrow> attr_str v)"
  by (simp_all add: attrs_getInt_def attrs_getStr_def getExistingAttr_view [OF assms])

subsection \<open>Sequences of operations\<close>

datatype attr_op = SetInt u32 u64 | IncreaseInt u32 u64 | SetStr u32 bytes | RemoveAttr u32

fun attr_run :: "attr_op \<Rightarrow> item_attributes \<Rightarrow> item_attributes" where
  "attr_run (SetInt t n) a = attrs_setInt t n a"
| "attr_run (IncreaseInt t n) a = attrs_increaseInt t n a"
| "attr_run (SetStr t s) a = attrs_setStr t s a"
| "attr_run (RemoveAttr t) a = attrs_remove t a"

fun attr_spec :: "attr_op \<Rightarrow> (u32 \<rightharpoonup> attr_value) \<Rightarrow> (u32 \<rightharpoonup> attr_value)" where
  "attr_spec (SetInt t n) m = (if isIntAttrType t then m(t \<mapsto> AttrInt n) else m)"
| "attr_spec (IncreaseInt t n) m =
     (if isIntAttrType t then m(t \<mapsto> AttrInt ((case m t of None \<Rightarrow> 0 | Some v \<Rightarrow> attr_int v) + n)) else m)"
| "attr_spec (SetStr t s) m = (if isStrAttrType t \<and> s \<noteq> [] then m(t \<mapsto> AttrStr s) else m)"
| "attr_spec (RemoveAttr t) m = m(t := None)"

fun op_type :: "attr_op \<Rightarrow> u32" where
  "op_type (SetInt t _) = t"
| "op_type (IncreaseInt t _) = t"
| "op_type (SetStr t _) = t"
| "op_type (RemoveAttr t) = t"

lemma attr_run_ok:
  assumes "attrs_ok a" "op_type op \<in> set attr_types"
  shows "attrs_ok (attr_run op a)" "attr_view (attr_run op a) = attr_spec op (attr_view a)"
proof -
  have "attrs_ok (attr_run op a) \<and> attr_view (attr_run op a) = attr_spec op (attr_view a)"
  proof (cases op)
    case (SetInt t n)
    then show ?thesis using assms attrs_setInt_ok by (cases "isIntAttrType t") (auto simp: attrs_setInt_def)
  next
    case (IncreaseInt t n)
    then show ?thesis using assms attrs_increaseInt_ok attrs_get_view(1)
      by (cases "isIntAttrType t") (auto simp: attrs_increaseInt_def)
  next
    case (SetStr t s)
    then show ?thesis using assms attrs_setStr_ok by (cases "isStrAttrType t") (auto simp: attrs_setStr_def)
  next
    case (RemoveAttr t)
    then show ?thesis using assms attrs_remove_ok by simp
  qed
  then show "attrs_ok (attr_run op a)" "attr_view (attr_run op a) = attr_spec op (attr_view a)" by blast+
qed

lemma attr_runs_ok:
  assumes "attrs_ok a" "\<forall>op \<in> set ops. op_type op \<in> set attr_types"
  shows "attrs_ok (fold attr_run ops a) \<and> attr_view (fold attr_run ops a) = fold attr_spec ops (attr_view a)"
  using assms by (induction ops arbitrary: a) (simp_all add: attr_run_ok)

text \<open>
  C32. The union is used as it was written: after any sequence of operations with the declared attribute types,
  every entry of the list holds the member of the union that the tests \<open>isIntAttrType\<close> and
  \<open>isStrAttrType\<close> select for its type, no type is listed twice and the bits are exactly the types of the
  entries (so that \<open>removeAttribute\<close> never reads the head of an empty list). The list implements a map from
  types to values.
\<close>
theorem attributes_typed:
  assumes "\<forall>op \<in> set ops. op_type op \<in> set attr_types"
  shows "attrs_ok (fold attr_run ops no_attributes)
    \<and> attr_view (fold attr_run ops no_attributes) = fold attr_spec ops Map.empty"
  using attr_runs_ok [OF no_attributes_ok(1) assms] by (simp add: no_attributes_ok)

theorem attributes_typed_witness:
  "let ops = [SetInt ITEM_ATTRIBUTE_CHARGES 5, SetStr ITEM_ATTRIBUTE_TEXT [72, 105],
      IncreaseInt ITEM_ATTRIBUTE_CHARGES 2, RemoveAttr ITEM_ATTRIBUTE_TEXT]
   in attrs_ok (fold attr_run ops no_attributes)
     \<and> attr_view (fold attr_run ops no_attributes) = fold attr_spec ops Map.empty"
  unfolding Let_def
  by (rule attributes_typed)
    (simp add: attr_types_def ITEM_ATTRIBUTE_CHARGES_def ITEM_ATTRIBUTE_TEXT_def upt_rec)

text \<open>A number that a script passes as the type can satisfy both tests: an integer set under the type 5 is an
  entry that the destructor takes for a string.\<close>

lemma mixed_type_untyped:
  "ia_list (attrs_setInt 5 7 no_attributes) = [(5, AttrInt 7)] \<and> isStrAttrType 5"
  by code_simp

end
