(* ===== verification/Items.thy ===== *)
theory Items
  imports Item_Attributes
begin

text \<open>
  Items, \<^verbatim>\<open>class Item\<close> (\<^verbatim>\<open>src/src/item.h\<close>, \<^verbatim>\<open>item.cpp\<close>), and the fields of
  \<^verbatim>\<open>class ItemType\<close> (\<^verbatim>\<open>items.h\<close>) that they use. A container is an item with contents;
  addresses of items are numbers. The size of a container comes from a 16 bit number. The class of an object is
  fixed when it is created; what the classes without contents (doors, beds, fields \<dots>) add is not modelled.
\<close>

subsection \<open>Item types\<close>

datatype item_group = ITEM_GROUP_NONE | ITEM_GROUP_GROUND | ITEM_GROUP_CONTAINER | ITEM_GROUP_WEAPON
  | ITEM_GROUP_AMMUNITION | ITEM_GROUP_ARMOR | ITEM_GROUP_CHARGES | ITEM_GROUP_TELEPORT | ITEM_GROUP_MAGICFIELD
  | ITEM_GROUP_WRITEABLE | ITEM_GROUP_KEY | ITEM_GROUP_SPLASH | ITEM_GROUP_FLUID | ITEM_GROUP_DOOR
  | ITEM_GROUP_DEPRECATED | ITEM_GROUP_LAST

datatype item_kind = ITEM_TYPE_NONE | ITEM_TYPE_DEPOT | ITEM_TYPE_MAILBOX | ITEM_TYPE_TRASHHOLDER
  | ITEM_TYPE_CONTAINER | ITEM_TYPE_DOOR | ITEM_TYPE_MAGICFIELD | ITEM_TYPE_TELEPORT | ITEM_TYPE_BED
  | ITEM_TYPE_KEY | ITEM_TYPE_RUNE | ITEM_TYPE_REWARDCHEST | ITEM_TYPE_LAST

record item_type =
  it_group :: item_group
  it_type :: item_kind
  it_id :: u16
  it_stackable :: bool
  it_weight :: u32
  it_decayTime :: u32
  it_charges :: u32
  it_decayTo :: u32
  it_maxItems :: u16
  it_hasHeight :: bool
  it_blockSolid :: bool
  it_blockProjectile :: bool
  it_blockPathFind :: bool
  it_isVertical :: bool
  it_isHorizontal :: bool
  it_pickupable :: bool
  it_moveable :: bool
  it_stopTime :: bool
  it_alwaysOnTop :: bool
  it_alwaysOnTopOrder :: u8
  it_floorChange :: u8
  it_isHangable :: bool
  it_allowPickupable :: bool
  it_forceUse :: bool
  it_lookThrough :: bool
  it_replaceable :: bool

definition isSplash :: "item_type \<Rightarrow> bool" where
  "isSplash it \<longleftrightarrow> it_group it = ITEM_GROUP_SPLASH"

definition isFluidContainer :: "item_type \<Rightarrow> bool" where
  "isFluidContainer it \<longleftrightarrow> it_group it = ITEM_GROUP_FLUID"

definition isMagicField :: "item_type \<Rightarrow> bool" where
  "isMagicField it \<longleftrightarrow> it_type it = ITEM_TYPE_MAGICFIELD"

definition isGroundTile :: "item_type \<Rightarrow> bool" where
  "isGroundTile it \<longleftrightarrow> it_group it = ITEM_GROUP_GROUND"

definition isBed :: "item_type \<Rightarrow> bool" where
  "isBed it \<longleftrightarrow> it_type it = ITEM_TYPE_BED"

text \<open>The table of item types; \<open>decayTo\<close> is signed.\<close>

type_synonym item_types = "u16 \<Rightarrow> item_type"

subsection \<open>Items\<close>

datatype parent = NoParent | InContainer nat | OnTile | OnPlayer nat

record container =
  c_maxSize :: u16
  c_totalWeight :: u32
  c_itemlist :: "nat list"
  c_unlocked :: bool
  c_inbox :: bool

datatype item_class = PlainItem | DepotLocker | RewardChest | ContainerClass | Teleport | MagicField | Door
  | TrashHolder | Mailbox | BedItem | DepotChest | Reward | HouseTransferItem

record item =
  i_id :: u16
  i_class :: item_class
  i_count :: u8
  i_attributes :: "item_attributes option"
  i_parent :: parent
  i_container :: "container option"

definition item_getAttributes :: "item \<Rightarrow> item_attributes" where
  "item_getAttributes i = (case i_attributes i of None \<Rightarrow> no_attributes | Some a \<Rightarrow> a)"

definition item_getStr :: "u32 \<Rightarrow> item \<Rightarrow> bytes" where
  "item_getStr t i = (case i_attributes i of None \<Rightarrow> [] | Some a \<Rightarrow> attrs_getStr t a)"

definition item_setStr :: "u32 \<Rightarrow> bytes \<Rightarrow> item \<Rightarrow> item" where
  "item_setStr t s i = i \<lparr> i_attributes := Some (attrs_setStr t s (item_getAttributes i)) \<rparr>"

text \<open>The accessors of \<open>Item\<close> cut the value to 32 bits, the attribute has 64.\<close>

definition item_getInt :: "u32 \<Rightarrow> item \<Rightarrow> u32" where
  "item_getInt t i = (case i_attributes i of None \<Rightarrow> 0 | Some a \<Rightarrow> ucast (attrs_getInt t a))"

definition item_setInt :: "u32 \<Rightarrow> u32 \<Rightarrow> item \<Rightarrow> item" where
  "item_setInt t n i = i \<lparr> i_attributes := Some (attrs_setInt t (scast n) (item_getAttributes i)) \<rparr>"

definition item_increaseInt :: "u32 \<Rightarrow> u32 \<Rightarrow> item \<Rightarrow> item" where
  "item_increaseInt t n i = i \<lparr> i_attributes := Some (attrs_increaseInt t (scast n) (item_getAttributes i)) \<rparr>"

definition item_remove :: "u32 \<Rightarrow> item \<Rightarrow> item" where
  "item_remove t i = i \<lparr> i_attributes := map_option (attrs_remove t) (i_attributes i) \<rparr>"

definition item_has :: "u32 \<Rightarrow> item \<Rightarrow> bool" where
  "item_has t i = (case i_attributes i of None \<Rightarrow> False | Some a \<Rightarrow> attr_has t a)"

definition setActionId :: "u16 \<Rightarrow> item \<Rightarrow> item" where
  "setActionId n i = item_setInt ITEM_ATTRIBUTE_ACTIONID (ucast (if n < 100 then 100 else n)) i"

definition getActionId :: "item \<Rightarrow> u16" where
  "getActionId i = ucast (item_getInt ITEM_ATTRIBUTE_ACTIONID i)"

definition setCharges :: "u16 \<Rightarrow> item \<Rightarrow> item" where
  "setCharges n i = item_setInt ITEM_ATTRIBUTE_CHARGES (ucast n) i"

definition getCharges :: "item \<Rightarrow> u16" where
  "getCharges i = ucast (item_getInt ITEM_ATTRIBUTE_CHARGES i)"

definition setFluidType :: "u16 \<Rightarrow> item \<Rightarrow> item" where
  "setFluidType n i = item_setInt ITEM_ATTRIBUTE_FLUIDTYPE (ucast n) i"

definition getFluidType :: "item \<Rightarrow> u16" where
  "getFluidType i = ucast (item_getInt ITEM_ATTRIBUTE_FLUIDTYPE i)"

definition setDuration :: "u32 \<Rightarrow> item \<Rightarrow> item" where
  "setDuration n i = item_setInt ITEM_ATTRIBUTE_DURATION n i"

datatype decay_state = DECAYING_FALSE | DECAYING_TRUE | DECAYING_PENDING

definition decay_code :: "decay_state \<Rightarrow> u32" where
  "decay_code d = (case d of DECAYING_FALSE \<Rightarrow> 0 | DECAYING_TRUE \<Rightarrow> 1 | DECAYING_PENDING \<Rightarrow> 2)"

definition setDecaying :: "decay_state \<Rightarrow> item \<Rightarrow> item" where
  "setDecaying d i = item_setInt ITEM_ATTRIBUTE_DECAYSTATE (decay_code d) i"

text \<open>The underlying type of the enumeration is \<^verbatim>\<open>uint8_t\<close>: other values stay as they are.\<close>

definition getDecaying :: "item \<Rightarrow> u8" where
  "getDecaying i = ucast (item_getInt ITEM_ATTRIBUTE_DECAYSTATE i)"

definition isRewardCorpse :: "item \<Rightarrow> bool" where
  "isRewardCorpse i \<longleftrightarrow> item_getInt ITEM_ATTRIBUTE_CORPSEOWNER i = 0x7FFFFFFF"

subsection \<open>Equality, subtype and type\<close>

fun values_agree :: "(u32 \<times> attr_value) list \<Rightarrow> u32 \<times> attr_value \<Rightarrow> bool" where
  "values_agree [] p \<longleftrightarrow> True"
| "values_agree ((u, w) # bs) (t, v) \<longleftrightarrow>
     \<not> (t = u \<and> (if isStrAttrType t then attr_str v \<noteq> attr_str w else attr_int v \<noteq> attr_int w))
     \<and> values_agree bs (t, v)"

definition item_equals :: "item \<Rightarrow> item \<Rightarrow> bool" where
  "item_equals i j \<longleftrightarrow>
     (if i_id i \<noteq> i_id j then False
      else case i_attributes i of
        None \<Rightarrow> i_attributes j = None
      | Some a \<Rightarrow>
          (case i_attributes j of
             None \<Rightarrow> False
           | Some b \<Rightarrow> ia_bits a = ia_bits b \<and> list_all (values_agree (ia_list b)) (ia_list a)))"

definition getBaseWeight :: "item_types \<Rightarrow> item \<Rightarrow> u32" where
  "getBaseWeight types i =
     (if item_has ITEM_ATTRIBUTE_WEIGHT i then item_getInt ITEM_ATTRIBUTE_WEIGHT i else it_weight (types (i_id i)))"

definition item_weight :: "item_types \<Rightarrow> item \<Rightarrow> u32" where
  "item_weight types i =
     (let weight = getBaseWeight types i
      in if it_stackable (types (i_id i)) then weight * max 1 (ucast (i_count i)) else weight)"

definition getSubType :: "item_types \<Rightarrow> item \<Rightarrow> u16" where
  "getSubType types i =
     (let it = types (i_id i)
      in if isFluidContainer it \<or> isSplash it then getFluidType i
         else if it_stackable it then ucast (i_count i)
         else if it_charges it \<noteq> 0 then getCharges i
         else ucast (i_count i))"

definition setSubType :: "item_types \<Rightarrow> u16 \<Rightarrow> item \<Rightarrow> item" where
  "setSubType types n i =
     (let it = types (i_id i)
      in if isFluidContainer it \<or> isSplash it then setFluidType n i
         else if it_stackable it then i \<lparr> i_count := ucast n \<rparr>
         else if it_charges it \<noteq> 0 then setCharges n i
         else i \<lparr> i_count := ucast n \<rparr>)"

definition setDefaultSubtype :: "item_types \<Rightarrow> item \<Rightarrow> item" where
  "setDefaultSubtype types i =
     (let it = types (i_id i);
          i = i \<lparr> i_count := 1 \<rparr>
      in if it_charges it \<noteq> 0
         then if it_stackable it then i \<lparr> i_count := ucast (it_charges it) \<rparr> else setCharges (ucast (it_charges it)) i
         else i)"

definition item_setID :: "item_types \<Rightarrow> u16 \<Rightarrow> item \<Rightarrow> item" where
  "item_setID types newid i =
     (let prevIt = types (i_id i);
          i = i \<lparr> i_id := newid \<rparr>;
          it = types newid;
          newDuration = it_decayTime it * 1000;
          i = (if newDuration = 0 \<and> \<not> it_stopTime it \<and> sint (it_decayTo it) < 0
               then item_remove ITEM_ATTRIBUTE_DURATION (item_remove ITEM_ATTRIBUTE_DECAYSTATE i) else i);
          i = (if \<not> isRewardCorpse i then item_remove ITEM_ATTRIBUTE_CORPSEOWNER i else i)
      in if newDuration > 0 \<and> (\<not> it_stopTime prevIt \<or> \<not> item_has ITEM_ATTRIBUTE_DURATION i)
         then setDuration newDuration (setDecaying DECAYING_FALSE i) else i)"

datatype item_property = CONST_PROP_BLOCKSOLID | CONST_PROP_HASHEIGHT | CONST_PROP_BLOCKPROJECTILE
  | CONST_PROP_BLOCKPATH | CONST_PROP_ISVERTICAL | CONST_PROP_ISHORIZONTAL | CONST_PROP_MOVEABLE
  | CONST_PROP_IMMOVABLEBLOCKSOLID | CONST_PROP_IMMOVABLEBLOCKPATH | CONST_PROP_IMMOVABLENOFIELDBLOCKPATH
  | CONST_PROP_NOFIELDBLOCKPATH | CONST_PROP_SUPPORTHANGABLE

fun item_hasProperty :: "item_types \<Rightarrow> item_property \<Rightarrow> item \<Rightarrow> bool" where
  "item_hasProperty types CONST_PROP_BLOCKSOLID i = it_blockSolid (types (i_id i))"
| "item_hasProperty types CONST_PROP_MOVEABLE i =
     (it_moveable (types (i_id i)) \<and> \<not> item_has ITEM_ATTRIBUTE_UNIQUEID i)"
| "item_hasProperty types CONST_PROP_HASHEIGHT i = it_hasHeight (types (i_id i))"
| "item_hasProperty types CONST_PROP_BLOCKPROJECTILE i = it_blockProjectile (types (i_id i))"
| "item_hasProperty types CONST_PROP_BLOCKPATH i = it_blockPathFind (types (i_id i))"
| "item_hasProperty types CONST_PROP_ISVERTICAL i = it_isVertical (types (i_id i))"
| "item_hasProperty types CONST_PROP_ISHORIZONTAL i = it_isHorizontal (types (i_id i))"
| "item_hasProperty types CONST_PROP_IMMOVABLEBLOCKSOLID i =
     (it_blockSolid (types (i_id i)) \<and> (\<not> it_moveable (types (i_id i)) \<or> item_has ITEM_ATTRIBUTE_UNIQUEID i))"
| "item_hasProperty types CONST_PROP_IMMOVABLEBLOCKPATH i =
     (it_blockPathFind (types (i_id i)) \<and> (\<not> it_moveable (types (i_id i)) \<or> item_has ITEM_ATTRIBUTE_UNIQUEID i))"
| "item_hasProperty types CONST_PROP_IMMOVABLENOFIELDBLOCKPATH i =
     (\<not> isMagicField (types (i_id i)) \<and> it_blockPathFind (types (i_id i))
      \<and> (\<not> it_moveable (types (i_id i)) \<or> item_has ITEM_ATTRIBUTE_UNIQUEID i))"
| "item_hasProperty types CONST_PROP_NOFIELDBLOCKPATH i =
     (\<not> isMagicField (types (i_id i)) \<and> it_blockPathFind (types (i_id i)))"
| "item_hasProperty types CONST_PROP_SUPPORTHANGABLE i =
     (it_isHorizontal (types (i_id i)) \<or> it_isVertical (types (i_id i)))"

subsection \<open>Creation\<close>

text \<open>The constructor \<open>Item(type, count)\<close>, with \<open>setDefaultDuration\<close>.\<close>

definition item_new :: "item_types \<Rightarrow> u16 \<Rightarrow> u16 \<Rightarrow> item" where
  "item_new types type n =
     (let it = types type;
          i = \<lparr> i_id = type, i_class = PlainItem, i_count = 1, i_attributes = None, i_parent = NoParent, i_container = None \<rparr>;
          i = (if isFluidContainer it \<or> isSplash it then setFluidType n i
               else if it_stackable it then
                 if n \<noteq> 0 then i \<lparr> i_count := ucast n \<rparr>
                 else if it_charges it \<noteq> 0 then i \<lparr> i_count := ucast (it_charges it) \<rparr> else i
               else if it_charges it \<noteq> 0 then
                 if n \<noteq> 0 then setCharges n i else setCharges (ucast (it_charges it)) i
               else i)
      in if it_decayTime it * 1000 \<noteq> 0 then setDuration (it_decayTime it * 1000) i else i)"

definition container_new :: "item_types \<Rightarrow> item_class \<Rightarrow> u16 \<Rightarrow> u16 \<Rightarrow> bool \<Rightarrow> item" where
  "container_new types cl type n unlocked =
     (item_new types type 0)
       \<lparr> i_class := cl, i_container := Some \<lparr> c_maxSize = n, c_totalWeight = 0, c_itemlist = [], c_unlocked = unlocked, c_inbox = False \<rparr> \<rparr>"

definition createItem :: "item_types \<Rightarrow> u16 \<Rightarrow> u16 \<Rightarrow> item option" where
  "createItem types type n =
     (let it = types type
      in if it_group it = ITEM_GROUP_DEPRECATED then None
         else let n = (if it_stackable it \<and> n = 0 then 1 else n)
              in if it_id it = 0 then None
                 else if it_type it = ITEM_TYPE_DEPOT then Some (container_new types DepotLocker type 2 True)
                 else if it_type it = ITEM_TYPE_REWARDCHEST then Some (container_new types RewardChest type 32 False)
                 else if it_group it = ITEM_GROUP_CONTAINER
                 then Some (container_new types ContainerClass type (it_maxItems it) True)
                 else if it_type it = ITEM_TYPE_TELEPORT then Some ((item_new types type 0) \<lparr> i_class := Teleport \<rparr>)
                 else if it_type it = ITEM_TYPE_MAGICFIELD then Some ((item_new types type 0) \<lparr> i_class := MagicField \<rparr>)
                 else if it_type it = ITEM_TYPE_DOOR then Some ((item_new types type 0) \<lparr> i_class := Door \<rparr>)
                 else if it_type it = ITEM_TYPE_TRASHHOLDER then Some ((item_new types type 0) \<lparr> i_class := TrashHolder \<rparr>)
                 else if it_type it = ITEM_TYPE_MAILBOX then Some ((item_new types type 0) \<lparr> i_class := Mailbox \<rparr>)
                 else if it_type it = ITEM_TYPE_BED then Some ((item_new types type 0) \<lparr> i_class := BedItem \<rparr>)
                 else if 2210 \<le> it_id it \<and> it_id it \<le> 2212 then Some (item_new types (type - 3) n)
                 else if it_id it = 2215 \<or> it_id it = 2216 then Some (item_new types (type - 2) n)
                 else if 2202 \<le> it_id it \<and> it_id it \<le> 2206 then Some (item_new types (type - 37) n)
                 else Some (item_new types type n))"

text \<open>\<open>Item::clone\<close>; what \<open>Container::clone\<close> adds, copies of the contents, is left out (stacks, the
  only items that the moves clone, have none).\<close>

definition item_clone :: "item_types \<Rightarrow> item \<Rightarrow> item option" where
  "item_clone types i =
     (case createItem types (i_id i) (ucast (i_count i)) of
        None \<Rightarrow> None
      | Some j \<Rightarrow>
          Some (case i_attributes i of None \<Rightarrow> j | Some a \<Rightarrow> j \<lparr> i_attributes := Some a \<rparr>))"

end
