(* ===== verification/Walk_Cache.thy ===== *)
theory Walk_Cache
  imports Path_Search Items
begin

text \<open>
  How the walk cache is kept up to date: \<open>Creature::onCreatureMove\<close> shifts it along with the creature, the other
  handlers of \<^verbatim>\<open>src/src/creature.cpp\<close> (and the conditions of \<^verbatim>\<open>monster.cpp\<close>) refresh single
  entries or all of it. The array \<open>localMapCache\<close> is indexed by offsets from the creature here, the first and
  the last index are the ends of the window; the loops run over the same indexes in the same order.
\<close>

subsection \<open>Shifting the window\<close>

definition updateTileCache_at :: "tile_view option \<Rightarrow> int \<Rightarrow> int \<Rightarrow> (int \<Rightarrow> int \<Rightarrow> bool) \<Rightarrow> int \<Rightarrow> int \<Rightarrow> bool" where
  "updateTileCache_at tile dx dy cache =
     (if \<bar>dx\<bar> \<le> maxWalkCacheWidth \<and> \<bar>dy\<bar> \<le> maxWalkCacheHeight
      then cache(dy := (cache dy)(dx :=
             (case tile of None \<Rightarrow> False | Some t \<Rightarrow> tv_queryAdd t = RETURNVALUE_NOERROR)))
      else cache)"

text \<open>The tile at an offset; the coordinates are cut to 16 bits by \<open>Map::getTile\<close>.\<close>

definition tile_beside :: "tile_map \<Rightarrow> position \<Rightarrow> int \<Rightarrow> int \<Rightarrow> tile_view option" where
  "tile_beside tiles myPos dx dy =
     tiles (Position (word_of_int (uint (px myPos) + dx)) (word_of_int (uint (py myPos) + dy)) (pz myPos))"

definition fill_row :: "tile_map \<Rightarrow> position \<Rightarrow> int \<Rightarrow> (int \<Rightarrow> int \<Rightarrow> bool) \<Rightarrow> int \<Rightarrow> int \<Rightarrow> bool" where
  "fill_row tiles myPos y =
     fold (\<lambda>x. updateTileCache_at (tile_beside tiles myPos x y) x y) [- maxWalkCacheWidth..maxWalkCacheWidth]"

definition fill_column :: "tile_map \<Rightarrow> position \<Rightarrow> int \<Rightarrow> (int \<Rightarrow> int \<Rightarrow> bool) \<Rightarrow> int \<Rightarrow> int \<Rightarrow> bool" where
  "fill_column tiles myPos x =
     fold (\<lambda>y. updateTileCache_at (tile_beside tiles myPos x y) x y) [- maxWalkCacheHeight..maxWalkCacheHeight]"

text \<open>The loops that move the entries: to the next index from the end, or from the next index from the start.\<close>

definition move_up :: "int \<Rightarrow> int \<Rightarrow> (int \<Rightarrow> 'a) \<Rightarrow> int \<Rightarrow> 'a" where
  "move_up a b = fold (\<lambda>i c. c(i + 1 := c i)) (rev [a..b])"

definition move_down :: "int \<Rightarrow> int \<Rightarrow> (int \<Rightarrow> 'a) \<Rightarrow> int \<Rightarrow> 'a" where
  "move_down a b = fold (\<lambda>i c. c(i := c (i + 1))) [a..b]"

definition cache_north :: "tile_map \<Rightarrow> position \<Rightarrow> (int \<Rightarrow> int \<Rightarrow> bool) \<Rightarrow> int \<Rightarrow> int \<Rightarrow> bool" where
  "cache_north tiles myPos cache =
     fill_row tiles myPos (- maxWalkCacheHeight) (move_up (- maxWalkCacheHeight) (maxWalkCacheHeight - 1) cache)"

definition cache_south :: "tile_map \<Rightarrow> position \<Rightarrow> (int \<Rightarrow> int \<Rightarrow> bool) \<Rightarrow> int \<Rightarrow> int \<Rightarrow> bool" where
  "cache_south tiles myPos cache =
     fill_row tiles myPos maxWalkCacheHeight (move_down (- maxWalkCacheHeight) (maxWalkCacheHeight - 1) cache)"

text \<open>The rows that a shift along \<open>x\<close> moves.\<close>

definition shifted_rows :: "position \<Rightarrow> position \<Rightarrow> int list" where
  "shifted_rows oldPos newPos =
     (let starty = - maxWalkCacheHeight; endy = maxWalkCacheHeight; dy = getDistanceY oldPos newPos
      in if dy < 0 then [starty..endy + dy] else if dy > 0 then [starty + dy..endy] else [starty..endy])"

definition cache_east ::
    "tile_map \<Rightarrow> position \<Rightarrow> position \<Rightarrow> position \<Rightarrow> (int \<Rightarrow> int \<Rightarrow> bool) \<Rightarrow> int \<Rightarrow> int \<Rightarrow> bool" where
  "cache_east tiles myPos oldPos newPos cache =
     fill_column tiles myPos maxWalkCacheWidth
       (fold (\<lambda>y c. c(y := move_down (- maxWalkCacheWidth) (maxWalkCacheWidth - 1) (c y)))
          (shifted_rows oldPos newPos) cache)"

definition cache_west ::
    "tile_map \<Rightarrow> position \<Rightarrow> position \<Rightarrow> position \<Rightarrow> (int \<Rightarrow> int \<Rightarrow> bool) \<Rightarrow> int \<Rightarrow> int \<Rightarrow> bool" where
  "cache_west tiles myPos oldPos newPos cache =
     fill_column tiles myPos (- maxWalkCacheWidth)
       (fold (\<lambda>y c. c(y := move_up (- maxWalkCacheWidth) (maxWalkCacheWidth - 1) (c y)))
          (shifted_rows oldPos newPos) cache)"

definition shift_cache ::
    "tile_map \<Rightarrow> position \<Rightarrow> position \<Rightarrow> position \<Rightarrow> (int \<Rightarrow> int \<Rightarrow> bool) \<Rightarrow> int \<Rightarrow> int \<Rightarrow> bool" where
  "shift_cache tiles myPos oldPos newPos cache =
     (let cache = (if py oldPos > py newPos then cache_north tiles myPos cache
                   else if py oldPos < py newPos then cache_south tiles myPos cache else cache)
      in if px oldPos < px newPos then cache_east tiles myPos oldPos newPos cache
         else if px oldPos > px newPos then cache_west tiles myPos oldPos newPos cache else cache)"

subsection \<open>The handlers\<close>

text \<open>A creature with its cache, and whether the cache was loaded (\<open>isMapLoaded\<close>). The map is the one at the
  time of the call, after the change that is reported.\<close>

record map_user =
  mu_walker :: walker
  mu_loaded :: bool

definition useCacheMap :: "map_user \<Rightarrow> bool" where
  "useCacheMap m \<longleftrightarrow> wk_cache (mu_walker m) \<noteq> None"

definition load_map :: "tile_map \<Rightarrow> map_user \<Rightarrow> map_user" where
  "load_map tiles m = m \<lparr> mu_loaded := True, mu_walker := updateMapCache tiles (mu_walker m) \<rparr>"

definition refresh_tile :: "tile_map \<Rightarrow> position \<Rightarrow> map_user \<Rightarrow> map_user" where
  "refresh_tile tiles pos m =
     (if pz pos = pz (wk_pos (mu_walker m))
      then m \<lparr> mu_walker := updateTileCache (tiles pos) pos (mu_walker m) \<rparr> else m)"

definition cache_onThink :: "tile_map \<Rightarrow> map_user \<Rightarrow> map_user" where
  "cache_onThink tiles m = (if \<not> mu_loaded m \<and> useCacheMap m then load_map tiles m else m)"

definition cache_onAddTileItem :: "tile_map \<Rightarrow> position \<Rightarrow> map_user \<Rightarrow> map_user" where
  "cache_onAddTileItem tiles pos m = (if mu_loaded m then refresh_tile tiles pos m else m)"

definition cache_onUpdateTileItem :: "tile_map \<Rightarrow> position \<Rightarrow> item_type \<Rightarrow> item_type \<Rightarrow> map_user \<Rightarrow> map_user" where
  "cache_onUpdateTileItem tiles pos oldType newType m =
     (if \<not> mu_loaded m then m
      else if it_blockSolid oldType \<or> it_blockPathFind oldType \<or> it_blockPathFind newType \<or> it_blockSolid newType
      then refresh_tile tiles pos m else m)"

definition cache_onRemoveTileItem :: "tile_map \<Rightarrow> position \<Rightarrow> item_type \<Rightarrow> map_user \<Rightarrow> map_user" where
  "cache_onRemoveTileItem tiles pos iType m =
     (if \<not> mu_loaded m then m
      else if it_blockSolid iType \<or> it_blockPathFind iType \<or> isGroundTile iType
      then refresh_tile tiles pos m else m)"

definition cache_onAppear :: "tile_map \<Rightarrow> map_user \<Rightarrow> map_user" where
  "cache_onAppear tiles m = (if useCacheMap m then load_map tiles m else m)"

text \<open>Another creature appears at a position or is removed from it.\<close>

definition cache_onOtherAppear :: "tile_map \<Rightarrow> position \<Rightarrow> map_user \<Rightarrow> map_user" where
  "cache_onOtherAppear tiles pos m = (if mu_loaded m then refresh_tile tiles pos m else m)"

definition cache_onOtherRemoved :: "tile_map \<Rightarrow> position \<Rightarrow> map_user \<Rightarrow> map_user" where
  "cache_onOtherRemoved tiles pos m = (if mu_loaded m then refresh_tile tiles pos m else m)"

definition cache_onOtherMove :: "tile_map \<Rightarrow> position \<Rightarrow> position \<Rightarrow> map_user \<Rightarrow> map_user" where
  "cache_onOtherMove tiles oldPos newPos m =
     (if mu_loaded m then refresh_tile tiles oldPos (refresh_tile tiles newPos m) else m)"

text \<open>The creature itself has moved: its position is the new one already.\<close>

definition cache_onMove :: "tile_map \<Rightarrow> position \<Rightarrow> position \<Rightarrow> bool \<Rightarrow> map_user \<Rightarrow> map_user" where
  "cache_onMove tiles oldPos newPos teleport m =
     (if mu_loaded m then
        (if teleport \<or> pz oldPos \<noteq> pz newPos
         then m \<lparr> mu_walker := updateMapCache tiles (mu_walker m) \<rparr>
         else
           (let w = mu_walker m;
                w = w \<lparr> wk_cache := map_option (shift_cache tiles (wk_pos w) oldPos newPos) (wk_cache w) \<rparr>
            in m \<lparr> mu_walker := updateTileCache (tiles oldPos) oldPos w \<rparr>))
      else m)"

text \<open>\<open>Monster::onAddCondition\<close> and \<open>onEndCondition\<close>, for fire, energy and poison.\<close>

definition cache_onFieldCondition :: "tile_map \<Rightarrow> map_user \<Rightarrow> map_user" where
  "cache_onFieldCondition tiles m = m \<lparr> mu_walker := updateMapCache tiles (mu_walker m) \<rparr>"

subsection \<open>The loops in closed form\<close>

lemma move_up_at:
  fixes c :: "int \<Rightarrow> 'a"
  assumes "a \<le> b + 1"
  shows "move_up a b c z = (if a < z \<and> z \<le> b + 1 then c (z - 1) else c z)"
proof -
  have "\<forall>c :: int \<Rightarrow> 'a. move_up a k c z = (if a < z \<and> z \<le> k + 1 then c (z - 1) else c z)" if "a - 1 \<le> k" for k
    using that
  proof (induction k rule: int_ge_induct)
    case base
    then show ?case by (auto simp: move_up_def)
  next
    case (step k)
    have "[a..k + 1] = [a..k] @ [k + 1]" using step.hyps upto_rec2 [of a "k + 1"] by simp
    then have e: "move_up a (k + 1) c = move_up a k (c(k + 1 + 1 := c (k + 1)))" for c :: "int \<Rightarrow> 'a"
      by (simp add: move_up_def)
    show ?case unfolding e using step by (auto simp: algebra_simps)
  qed
  then show ?thesis using assms by simp
qed

lemma move_down_at:
  assumes "a \<le> b + 1"
  shows "move_down a b c z = (if a \<le> z \<and> z \<le> b then c (z + 1) else c z)"
proof -
  have "\<forall>z. move_down a k c z = (if a \<le> z \<and> z \<le> k then c (z + 1) else c z)" if "a - 1 \<le> k" for k
    using that
  proof (induction k rule: int_ge_induct)
    case base
    then show ?case by (auto simp: move_down_def)
  next
    case (step k)
    have "[a..k + 1] = [a..k] @ [k + 1]" using step.hyps upto_rec2 [of a "k + 1"] by simp
    then have "move_down a (k + 1) c = (move_down a k c)(k + 1 := move_down a k c (k + 1 + 1))"
      by (simp add: move_down_def)
    then show ?case using step.IH step.hyps by auto
  qed
  then show ?thesis using assms by simp
qed

lemma each_row_at: "fold (\<lambda>y c. c(y := f (c y))) ys c z = (if z \<in> set ys then f (c z) else c z)"
  if "distinct ys" for c :: "int \<Rightarrow> 'a"
  using that by (induction ys arbitrary: c) auto

definition beside_free :: "tile_map \<Rightarrow> position \<Rightarrow> int \<Rightarrow> int \<Rightarrow> bool" where
  "beside_free tiles myPos dx dy \<longleftrightarrow>
     (case tile_beside tiles myPos dx dy of None \<Rightarrow> False | Some t \<Rightarrow> tv_queryAdd t = RETURNVALUE_NOERROR)"

definition in_window :: "int \<Rightarrow> int \<Rightarrow> bool" where
  "in_window dx dy \<longleftrightarrow> \<bar>dx\<bar> \<le> maxWalkCacheWidth \<and> \<bar>dy\<bar> \<le> maxWalkCacheHeight"

lemma update_at:
  "updateTileCache_at (tile_beside tiles p dx dy) dx dy c y x =
     (if in_window dx dy \<and> y = dy \<and> x = dx then beside_free tiles p dx dy else c y x)"
  by (simp add: updateTileCache_at_def in_window_def beside_free_def)

lemma fill_row_at:
  "fill_row tiles p y0 c y x = (if y = y0 \<and> in_window x y then beside_free tiles p x y else c y x)"
proof -
  have "fold (\<lambda>x. updateTileCache_at (tile_beside tiles p x y0) x y0) xs c y x =
      (if y = y0 \<and> x \<in> set xs \<and> in_window x y then beside_free tiles p x y else c y x)" for xs
    by (induction xs arbitrary: c) (auto simp: update_at)
  then show ?thesis by (auto simp: fill_row_def in_window_def)
qed

lemma fill_column_at:
  "fill_column tiles p x0 c y x = (if x = x0 \<and> in_window x y then beside_free tiles p x y else c y x)"
proof -
  have "fold (\<lambda>y. updateTileCache_at (tile_beside tiles p x0 y) x0 y) ys c y x =
      (if x = x0 \<and> y \<in> set ys \<and> in_window x y then beside_free tiles p x y else c y x)" for ys
    by (induction ys arbitrary: c) (auto simp: update_at)
  then show ?thesis by (auto simp: fill_column_def in_window_def)
qed

text \<open>One step: every entry is fresh or moved from the old window, where \<open>u\<close> and \<open>v\<close> are the step. With a
  diagonal step southwards the first and the last row are one column off: \<open>getDistanceY\<close> is never negative, so
  the shift along \<open>x\<close> leaves out the first row instead of the last one.\<close>

definition skew :: "int \<Rightarrow> int \<Rightarrow> int \<Rightarrow> int \<Rightarrow> int" where
  "skew u v x y =
     (if v = 1 \<and> u \<noteq> 0 \<and> x \<noteq> u * maxWalkCacheWidth
      then (if y = - maxWalkCacheHeight then - u else if y = maxWalkCacheHeight then u else 0) else 0)"

lemma less_by_offset:
  "px p < px q \<longleftrightarrow> getOffsetX q p > 0" "py p < py q \<longleftrightarrow> getOffsetY q p > 0"
  by (simp_all add: getOffsetX_def getOffsetY_def word_less_def)

lemma window_size: "maxWalkCacheWidth = 11" "maxWalkCacheHeight = 11"
  by (simp_all add: maxWalkCacheWidth_def maxWalkCacheHeight_def)

lemma cache_north_at:
  "in_window x y \<Longrightarrow> cache_north tiles p c y x = (if y = - 11 then beside_free tiles p x y else c (y - 1) x)"
  by (auto simp: cache_north_def fill_row_at move_up_at window_size in_window_def)

lemma cache_south_at:
  "in_window x y \<Longrightarrow> cache_south tiles p c y x = (if y = 11 then beside_free tiles p x y else c (y + 1) x)"
  by (auto simp: cache_south_def fill_row_at move_down_at window_size in_window_def)

lemma shifted_rows_at:
  assumes "\<bar>getOffsetY old new\<bar> \<le> 1" "\<bar>y\<bar> \<le> 11"
  shows "y \<in> set (shifted_rows old new) \<longleftrightarrow> getOffsetY old new = 0 \<or> y \<noteq> - 11" "distinct (shifted_rows old new)"
proof -
  have d: "getDistanceY old new = 0 \<or> getDistanceY old new = 1" "getDistanceY old new = 0 \<longleftrightarrow> getOffsetY old new = 0"
    using assms(1) by (auto simp: getDistanceY_def)
  then have "set (shifted_rows old new) = (if getOffsetY old new = 0 then {- maxWalkCacheHeight..maxWalkCacheHeight}
      else {- maxWalkCacheHeight + 1..maxWalkCacheHeight})"
    by (auto simp: shifted_rows_def Let_def)
  then show "y \<in> set (shifted_rows old new) \<longleftrightarrow> getOffsetY old new = 0 \<or> y \<noteq> - 11"
    using assms(2) by (auto simp: window_size)
  show "distinct (shifted_rows old new)" by (simp add: shifted_rows_def Let_def)
qed

lemma cache_east_at:
  assumes "\<bar>getOffsetY old new\<bar> \<le> 1" "in_window x y"
  shows "cache_east tiles p old new c y x = (if x = 11 then beside_free tiles p x y
     else if getOffsetY old new = 0 \<or> y \<noteq> - 11 then c y (x + 1) else c y x)"
  using assms shifted_rows_at [of old new y]
  by (simp add: cache_east_def fill_column_at each_row_at move_down_at window_size in_window_def abs_le_iff)

lemma cache_west_at:
  assumes "\<bar>getOffsetY old new\<bar> \<le> 1" "in_window x y"
  shows "cache_west tiles p old new c y x = (if x = - 11 then beside_free tiles p x y
     else if getOffsetY old new = 0 \<or> y \<noteq> - 11 then c y (x - 1) else c y x)"
  using assms shifted_rows_at [of old new y]
  by (auto simp: cache_west_def fill_column_at each_row_at move_up_at window_size in_window_def abs_le_iff)

lemma shift_cache_at:
  assumes u: "getOffsetX new old = u" and v: "getOffsetY new old = v" and s: "\<bar>u\<bar> \<le> 1" "\<bar>v\<bar> \<le> 1"
    and w: "in_window x y"
  shows "shift_cache tiles p old new c y x = beside_free tiles p (x + skew u v x y) y
    \<or> in_window (x + u + skew u v x y) (y + v) \<and> shift_cache tiles p old new c y x = c (y + v) (x + u + skew u v x y)"
proof -
  have o: "getOffsetX old new = - u" "getOffsetY old new = - v" using u v by (auto simp: getOffsetX_def getOffsetY_def)
  define c' where "c' = (if v = - 1 then cache_north tiles p c else if v = 1 then cache_south tiles p c else c)"
  have sh: "shift_cache tiles p old new c = (if u = 1 then cache_east tiles p old new c'
      else if u = - 1 then cache_west tiles p old new c' else c')"
    using s unfolding shift_cache_def Let_def less_by_offset u v o c'_def by auto
  have d: "\<bar>getOffsetY old new\<bar> \<le> 1" using o s by simp
  have xy: "- 11 \<le> x" "x \<le> 11" "- 11 \<le> y" "y \<le> 11" using w by (auto simp: in_window_def window_size)
  have win: "in_window i j \<longleftrightarrow> - 11 \<le> i \<and> i \<le> 11 \<and> - 11 \<le> j \<and> j \<le> 11" for i j
    by (auto simp: in_window_def window_size)
  have c'_at: "c' j i = (if v = - 1 then if j = - 11 then beside_free tiles p i j else c (j - 1) i
      else if v = 1 then if j = 11 then beside_free tiles p i j else c (j + 1) i else c j i)"
    if "in_window i j" for i j
    using that by (simp add: c'_def cache_north_at cache_south_at)
  have vc: "v = - 1 \<or> v = 0 \<or> v = 1" using s(2) by linarith
  consider "u = 1" | "u = - 1" | "u = 0" using s(1) by linarith
  then show ?thesis
  proof cases
    case 1
    then have e: "shift_cache tiles p old new c y x = (if x = 11 then beside_free tiles p x y
        else if v = 0 \<or> y \<noteq> - 11 then c' y (x + 1) else c' y x)"
      using cache_east_at [OF d w] by (simp add: sh o)
    show ?thesis unfolding e using 1 vc xy
      by (elim disjE) (auto simp: c'_at win skew_def window_size)
  next
    case 2
    then have e: "shift_cache tiles p old new c y x = (if x = - 11 then beside_free tiles p x y
        else if v = 0 \<or> y \<noteq> - 11 then c' y (x - 1) else c' y x)"
      using cache_west_at [OF d w] by (simp add: sh o)
    show ?thesis unfolding e using 2 vc xy
      by (elim disjE) (auto simp: c'_at win skew_def window_size)
  next
    case 3
    then have e: "shift_cache tiles p old new c y x = c' y x" by (simp add: sh)
    show ?thesis unfolding e c'_at [OF w] using 3 vc xy by (elim disjE) (auto simp: win skew_def)
  qed
qed

subsection \<open>What the cache tells\<close>

lemma beside_free_offset:
  assumes "pz q = pz p"
  shows "beside_free tiles p (getOffsetX q p) (getOffsetY q p) = tile_free tiles q"
proof -
  have "Position (word_of_int (uint (px p) + getOffsetX q p)) (word_of_int (uint (py p) + getOffsetY q p)) (pz p) = q"
    using assms by (cases q) (simp add: getOffsetX_def getOffsetY_def)
  then show ?thesis by (simp add: beside_free_def tile_beside_def tile_free_def)
qed

definition near :: "position \<Rightarrow> position \<Rightarrow> bool" where
  "near q p \<longleftrightarrow> pz q = pz p \<and> in_window (getOffsetX q p) (getOffsetY q p)"

text \<open>Every tile of the window but the one under the creature is recorded as it is.\<close>

definition cache_right :: "tile_map \<Rightarrow> walker \<Rightarrow> bool" where
  "cache_right tiles w \<longleftrightarrow> (\<forall>q. near q (wk_pos w) \<and> q \<noteq> wk_pos w \<longrightarrow> cached_right tiles q w)"

lemma cache_right_load: "cache_right tiles (updateMapCache tiles w)"
  using updateMapCache_right [of _ w tiles]
  by (auto simp: cache_right_def near_def in_window_def updateMapCache_same)

text \<open>Only the tiles in \<open>P\<close> may have changed, and they are refreshed.\<close>

definition same_tiles :: "position set \<Rightarrow> tile_map \<Rightarrow> tile_map \<Rightarrow> bool" where
  "same_tiles P tiles tiles' \<longleftrightarrow> (\<forall>q. q \<notin> P \<longrightarrow> tile_free tiles' q = tile_free tiles q)"

lemma cached_right_same:
  "cache_right tiles w \<Longrightarrow> same_tiles P tiles tiles' \<Longrightarrow> near q (wk_pos w) \<Longrightarrow> q \<noteq> wk_pos w \<Longrightarrow> q \<notin> P \<Longrightarrow>
    cached_right tiles' q w"
  by (simp add: cached_right_def cache_right_def same_tiles_def)

lemma cached_right_refresh:
  assumes "near q (wk_pos w)" "q = p \<or> cached_right tiles q w"
  shows "cached_right tiles q (updateTileCache (tiles p) p w)"
  using updateTileCache_right [of q w tiles p] assms by (auto simp: near_def in_window_def)

lemma refresh_walker:
  "mu_walker (refresh_tile tiles p m) =
     (if pz p = pz (wk_pos (mu_walker m)) then updateTileCache (tiles p) p (mu_walker m) else mu_walker m)"
  "mu_loaded (refresh_tile tiles p m) = mu_loaded m"
  by (simp_all add: refresh_tile_def)

lemma cached_right_refresh_tile:
  assumes "near q (wk_pos (mu_walker m))" "q = p \<or> cached_right tiles q (mu_walker m)"
  shows "cached_right tiles q (mu_walker (refresh_tile tiles p m))"
  using cached_right_refresh [OF assms] assms by (auto simp: refresh_walker near_def)

lemma refresh_pos [simp]: "wk_pos (mu_walker (refresh_tile tiles p m)) = wk_pos (mu_walker m)"
  by (simp add: refresh_walker)

lemma cache_right_refresh:
  assumes "cache_right tiles (mu_walker m)" "same_tiles {p} tiles tiles'"
  shows "cache_right tiles' (mu_walker (refresh_tile tiles' p m))"
  unfolding cache_right_def
proof (intro allI impI)
  fix q assume q: "near q (wk_pos (mu_walker (refresh_tile tiles' p m))) \<and> q \<noteq> wk_pos (mu_walker (refresh_tile tiles' p m))"
  then have "q = p \<or> cached_right tiles' q (mu_walker m)"
    using cached_right_same [OF assms, of q] by auto
  then show "cached_right tiles' q (mu_walker (refresh_tile tiles' p m))"
    using q by (intro cached_right_refresh_tile) simp_all
qed

lemma cache_right_keep: "cache_right tiles w \<Longrightarrow> same_tiles {} tiles tiles' \<Longrightarrow> cache_right tiles' w"
  unfolding cache_right_def [of tiles'] using cached_right_same [of tiles w "{}"] by blast

lemma cache_right_two:
  assumes "cache_right tiles (mu_walker m)" "same_tiles {a, b} tiles tiles'"
  shows "cache_right tiles' (mu_walker (refresh_tile tiles' a (refresh_tile tiles' b m)))"
  unfolding cache_right_def
proof (intro allI impI)
  let ?m = "refresh_tile tiles' b m"
  fix q assume "near q (wk_pos (mu_walker (refresh_tile tiles' a ?m))) \<and> q \<noteq> wk_pos (mu_walker (refresh_tile tiles' a ?m))"
  then have q: "near q (wk_pos (mu_walker m))" "q \<noteq> wk_pos (mu_walker m)" by simp_all
  then have "q = a \<or> q = b \<or> cached_right tiles' q (mu_walker m)"
    using cached_right_same [OF assms, of q] by auto
  then have "q = a \<or> cached_right tiles' q (mu_walker ?m)"
    using cached_right_refresh_tile [of q m b tiles'] q by blast
  then show "cached_right tiles' q (mu_walker (refresh_tile tiles' a ?m))"
    using q by (intro cached_right_refresh_tile) simp_all
qed

subsection \<open>A step of the creature\<close>

definition one_step :: "position \<Rightarrow> position \<Rightarrow> bool" where
  "one_step old new \<longleftrightarrow> pz new = pz old \<and> \<bar>getOffsetX new old\<bar> \<le> 1 \<and> \<bar>getOffsetY new old\<bar> \<le> 1"

lemma offsets_trans:
  "getOffsetX q new + getOffsetX new old = getOffsetX q old" "getOffsetY q new + getOffsetY new old = getOffsetY q old"
  by (simp_all add: getOffsetX_def getOffsetY_def)

lemma step_entry:
  assumes right: "cache_right tiles (w \<lparr> wk_pos := old \<rparr>)" and c: "wk_cache w = Some c" and pos: "wk_pos w = new"
    and step: "one_step old new" and same: "same_tiles {old, new} tiles tiles'"
    and q: "near q new" "q \<noteq> old" and r: "pz r = pz q" "getOffsetY r new = getOffsetY q new"
      "getOffsetX r new = getOffsetX q new
         + skew (getOffsetX new old) (getOffsetY new old) (getOffsetX q new) (getOffsetY q new)" "r \<noteq> new" "r \<noteq> old"
  shows "shift_cache tiles' new old new c (getOffsetY q new) (getOffsetX q new) = tile_free tiles' r"
proof -
  let ?u = "getOffsetX new old" and ?v = "getOffsetY new old" and ?x = "getOffsetX q new" and ?y = "getOffsetY q new"
  have s: "\<bar>?u\<bar> \<le> 1" "\<bar>?v\<bar> \<le> 1" using step by (auto simp: one_step_def)
  have w: "in_window ?x ?y" using q(1) by (simp add: near_def)
  have z: "pz r = pz new" "pz r = pz old" using r(1) q(1) step by (auto simp: near_def one_step_def)
  have fresh: "beside_free tiles' new (?x + skew ?u ?v ?x ?y) ?y = tile_free tiles' r"
    using beside_free_offset [OF z(1), of tiles'] r by simp
  have old: "?x + ?u + skew ?u ?v ?x ?y = getOffsetX r old" "?y + ?v = getOffsetY r old"
    using r offsets_trans [of r new old] by simp_all
  have "c (?y + ?v) (?x + ?u + skew ?u ?v ?x ?y) = tile_free tiles' r" if "in_window (?x + ?u + skew ?u ?v ?x ?y) (?y + ?v)"
  proof -
    have "near r old" using that z(2) by (simp add: near_def old)
    then have "cached_right tiles r (w \<lparr> wk_pos := old \<rparr>)" using right r(5) by (simp add: cache_right_def)
    then have "c (getOffsetY r old) (getOffsetX r old) = tile_free tiles r" using c by (simp add: cached_right_def)
    then show ?thesis using same r(4,5) by (simp add: old same_tiles_def)
  qed
  with shift_cache_at [OF refl refl s w, of tiles' new c] fresh show ?thesis by auto
qed

text \<open>The position whose tile decides the entry of \<open>q\<close> after a step: \<open>q\<close> itself, or its neighbour in a skewed
  row.\<close>

definition seen_at :: "position \<Rightarrow> position \<Rightarrow> position \<Rightarrow> position \<Rightarrow> bool" where
  "seen_at old new q r \<longleftrightarrow> pz r = pz q \<and> getOffsetY r new = getOffsetY q new \<and> getOffsetX r new = getOffsetX q new
     + skew (getOffsetX new old) (getOffsetY new old) (getOffsetX q new) (getOffsetY q new)"

lemma seen_at_same:
  assumes "seen_at old new q r"
    and "skew (getOffsetX new old) (getOffsetY new old) (getOffsetX q new) (getOffsetY q new) = 0"
  shows "r = q"
  using assms position_offset_eq [of r new q] by (simp add: seen_at_def)

lemma skew_row:
  assumes "one_step old new" "skew (getOffsetX new old) (getOffsetY new old) (getOffsetX q new) (getOffsetY q new) \<noteq> 0"
  shows "\<bar>getOffsetY q new\<bar> = 11"
  using assms by (auto simp: skew_def window_size split: if_splits)

lemma own_step_entry:
  assumes right: "cache_right tiles (mu_walker m \<lparr> wk_pos := old \<rparr>)" and m: "mu_loaded m" "wk_pos (mu_walker m) = new"
    and step: "one_step old new" and same: "same_tiles {old, new} tiles tiles'"
    and q: "near q new" "q \<noteq> new" and r: "seen_at old new q r"
    and c: "wk_cache (mu_walker (cache_onMove tiles' old new False m)) = Some c'"
  shows "c' (getOffsetY q new) (getOffsetX q new) = tile_free tiles' r"
proof -
  let ?w = "mu_walker m"
  have z: "pz old = pz new" using step by (simp add: one_step_def)
  obtain c where c0: "wk_cache ?w = Some c"
    using c z m by (auto simp: cache_onMove_def Let_def updateTileCache_def split: if_splits)
  have zero: "getOffsetY new new = 0" "getOffsetX new new = 0" by (simp_all add: getOffsetX_def getOffsetY_def)
  have near_old: "\<bar>getOffsetY old new\<bar> \<le> 1"
    using step offsets_trans(2) [of new old new] by (auto simp: one_step_def getOffsetY_def)
  have in_old: "\<bar>getOffsetX old new\<bar> \<le> maxWalkCacheWidth" "\<bar>getOffsetY old new\<bar> \<le> maxWalkCacheHeight"
    using step by (auto simp: one_step_def getOffsetX_def getOffsetY_def window_size)
  have r_cases: "r = q \<or> \<bar>getOffsetY r new\<bar> = 11"
    using seen_at_same [OF r] skew_row [OF step, of q] r by (auto simp: seen_at_def)
  have r_new: "r \<noteq> new" using r_cases q(2) zero by auto
  have c'_def: "c' = (shift_cache tiles' new old new c)(getOffsetY old new :=
      (shift_cache tiles' new old new c (getOffsetY old new))(getOffsetX old new := tile_free tiles' old))"
    using c c0 z m in_old
    by (simp add: cache_onMove_def Let_def updateTileCache_def tile_free_def)
  show ?thesis
  proof (cases "q = old")
    case True
    then have "r = old" using r_cases near_old r by (auto simp: seen_at_def)
    then show ?thesis using True by (simp add: c'_def)
  next
    case False
    have r_old: "r \<noteq> old" using r_cases False near_old by auto
    have "shift_cache tiles' new old new c (getOffsetY q new) (getOffsetX q new) = tile_free tiles' r"
      using r by (intro step_entry [OF right c0 m(2) step same q(1) False _ _ _ r_new r_old]) (simp_all add: seen_at_def)
    moreover have "\<not> (getOffsetY q new = getOffsetY old new \<and> getOffsetX q new = getOffsetX old new)"
      using position_offset_eq [of q new old] False q(1) z by (auto simp: near_def)
    ultimately show ?thesis by (auto simp: c'_def)
  qed
qed

lemma own_step_right:
  assumes "cache_right tiles (mu_walker m \<lparr> wk_pos := old \<rparr>)" "mu_loaded m" "wk_pos (mu_walker m) = new"
    and step: "one_step old new" "\<not> (getOffsetY new old = 1 \<and> getOffsetX new old \<noteq> 0)" "same_tiles {old, new} tiles tiles'"
  shows "cache_right tiles' (mu_walker (cache_onMove tiles' old new False m))"
proof -
  have s: "skew (getOffsetX new old) (getOffsetY new old) x y = 0" for x y using step(2) by (auto simp: skew_def)
  have "wk_pos (mu_walker (cache_onMove tiles' old new False m)) = new"
    using assms(2,3) step(1) by (simp add: cache_onMove_def Let_def one_step_def)
  then show ?thesis
    using own_step_entry [OF assms(1-3) step(1,3)] by (auto simp: cache_right_def cached_right_def seen_at_def s)
qed

subsection \<open>All events\<close>

datatype cache_event = Think | TileItemAdded position | TileItemUpdated position item_type item_type
  | TileItemRemoved position item_type | Appears position | OtherAppears position | OtherRemoved position
  | OtherMoves position position | Moves position position bool | FieldCondition

definition mu_at :: "position \<Rightarrow> map_user \<Rightarrow> map_user" where
  "mu_at pos m = m \<lparr> mu_walker := mu_walker m \<lparr> wk_pos := pos \<rparr> \<rparr>"

fun cache_exec :: "cache_event \<Rightarrow> tile_map \<Rightarrow> map_user \<Rightarrow> map_user" where
  "cache_exec Think tiles m = cache_onThink tiles m"
| "cache_exec (TileItemAdded p) tiles m = cache_onAddTileItem tiles p m"
| "cache_exec (TileItemUpdated p old new) tiles m = cache_onUpdateTileItem tiles p old new m"
| "cache_exec (TileItemRemoved p it) tiles m = cache_onRemoveTileItem tiles p it m"
| "cache_exec (Appears p) tiles m = cache_onAppear tiles (mu_at p m)"
| "cache_exec (OtherAppears p) tiles m = cache_onOtherAppear tiles p m"
| "cache_exec (OtherRemoved p) tiles m = cache_onOtherRemoved tiles p m"
| "cache_exec (OtherMoves old new) tiles m = cache_onOtherMove tiles old new m"
| "cache_exec (Moves old new teleport) tiles m = cache_onMove tiles old new teleport (mu_at new m)"
| "cache_exec FieldCondition tiles m = cache_onFieldCondition tiles m"

text \<open>The tiles whose answer may change with an event: the ones it is about. Items that neither block nor block
  paths (and are no ground) do not matter for the answer.\<close>

fun may_change :: "cache_event \<Rightarrow> position set" where
  "may_change Think = {}"
| "may_change (TileItemAdded p) = {p}"
| "may_change (TileItemUpdated p old new) =
     (if it_blockSolid old \<or> it_blockPathFind old \<or> it_blockPathFind new \<or> it_blockSolid new then {p} else {})"
| "may_change (TileItemRemoved p it) = (if it_blockSolid it \<or> it_blockPathFind it \<or> isGroundTile it then {p} else {})"
| "may_change (Appears p) = UNIV"
| "may_change (OtherAppears p) = {p}"
| "may_change (OtherRemoved p) = {p}"
| "may_change (OtherMoves old new) = {old, new}"
| "may_change (Moves old new teleport) = (if teleport \<or> pz old \<noteq> pz new then UNIV else {old, new})"
| "may_change FieldCondition = UNIV"

text \<open>A move starts where the creature is; without teleport and on one floor it is one step, and not one of the two
  diagonal steps southwards.\<close>

fun event_fits :: "cache_event \<Rightarrow> map_user \<Rightarrow> bool" where
  "event_fits (Moves old new teleport) m \<longleftrightarrow> wk_pos (mu_walker m) = old
     \<and> (teleport \<or> pz old \<noteq> pz new
        \<or> one_step old new \<and> \<not> (getOffsetY new old = 1 \<and> getOffsetX new old \<noteq> 0))"
| "event_fits _ m \<longleftrightarrow> True"

inductive cache_reach :: "tile_map \<Rightarrow> map_user \<Rightarrow> bool" where
  cr_start: "\<not> mu_loaded m \<Longrightarrow> cache_reach tiles m"
| cr_event: "cache_reach tiles m \<Longrightarrow> same_tiles (may_change ev) tiles tiles' \<Longrightarrow> event_fits ev m \<Longrightarrow>
    cache_reach tiles' (cache_exec ev tiles' m)"

lemma load_right: "cache_right tiles (mu_walker (load_map tiles m))"
  by (simp add: load_map_def cache_right_load)

lemma cache_event_right:
  assumes inv: "mu_loaded m \<Longrightarrow> cache_right tiles (mu_walker m)" and same: "same_tiles (may_change ev) tiles tiles'"
    and fits: "event_fits ev m" and loaded: "mu_loaded (cache_exec ev tiles' m)"
  shows "cache_right tiles' (mu_walker (cache_exec ev tiles' m))"
proof (cases ev)
  case Think
  then show ?thesis using inv same loaded cache_right_keep [of tiles "mu_walker m" tiles']
    by (auto simp: cache_onThink_def load_right)
next
  case (TileItemAdded p)
  then show ?thesis using inv same loaded cache_right_refresh [of tiles m p tiles']
    by (auto simp: cache_onAddTileItem_def split: if_splits)
next
  case (TileItemUpdated p old new)
  then show ?thesis
    using inv same loaded cache_right_refresh [of tiles m p tiles'] cache_right_keep [of tiles "mu_walker m" tiles']
    by (auto simp: cache_onUpdateTileItem_def split: if_splits)
next
  case (TileItemRemoved p it)
  then show ?thesis
    using inv same loaded cache_right_refresh [of tiles m p tiles'] cache_right_keep [of tiles "mu_walker m" tiles']
    by (auto simp: cache_onRemoveTileItem_def split: if_splits)
next
  case (Appears p)
  show ?thesis
  proof (cases "wk_cache (mu_walker m)")
    case None
    then show ?thesis by (simp add: Appears cache_onAppear_def useCacheMap_def mu_at_def cache_right_def cached_right_def)
  next
    case (Some c)
    then show ?thesis by (simp add: Appears cache_onAppear_def useCacheMap_def mu_at_def load_right)
  qed
next
  case (OtherAppears p)
  then show ?thesis using inv same loaded cache_right_refresh [of tiles m p tiles']
    by (auto simp: cache_onOtherAppear_def split: if_splits)
next
  case (OtherRemoved p)
  then show ?thesis using inv same loaded cache_right_refresh [of tiles m p tiles']
    by (auto simp: cache_onOtherRemoved_def split: if_splits)
next
  case (OtherMoves old new)
  then show ?thesis using inv same loaded cache_right_two [of tiles m old new tiles']
    by (auto simp: cache_onOtherMove_def split: if_splits)
next
  case FieldCondition
  then show ?thesis by (simp add: cache_onFieldCondition_def cache_right_load)
next
  case (Moves old new teleport)
  have l: "mu_loaded m" using loaded Moves by (auto simp: cache_onMove_def mu_at_def Let_def split: if_splits)
  show ?thesis
  proof (cases "teleport \<or> pz old \<noteq> pz new")
    case True
    then show ?thesis using Moves l by (simp add: cache_onMove_def mu_at_def cache_right_load)
  next
    case False
    then have step: "one_step old new" "\<not> (getOffsetY new old = 1 \<and> getOffsetX new old \<noteq> 0)" "wk_pos (mu_walker m) = old"
      using fits Moves by auto
    have "mu_walker (mu_at new m) \<lparr> wk_pos := old \<rparr> = mu_walker m" using step(3) by (simp add: mu_at_def)
    then have "cache_right tiles (mu_walker (mu_at new m) \<lparr> wk_pos := old \<rparr>)" using inv [OF l] by simp
    from own_step_right [OF this _ _ step(1,2), of tiles'] show ?thesis using Moves False same l by (simp add: mu_at_def)
  qed
qed

lemma cache_reach_right: "cache_reach tiles m \<Longrightarrow> mu_loaded m \<Longrightarrow> cache_right tiles (mu_walker m)"
  by (induction rule: cache_reach.induct) (auto intro: cache_event_right)

lemma right_answer:
  assumes "cache_right tiles w" "pz pos = pz (wk_pos w)"
  shows "canWalkTo w tiles pos = canWalkTo (w \<lparr> wk_cache := None \<rparr>) tiles pos"
proof (cases "wk_cache w")
  case None
  then show ?thesis by (simp add: canWalkTo_def getWalkCache_def Let_def)
next
  case (Some c)
  let ?dx = "getOffsetX pos (wk_pos w)" and ?dy = "getOffsetY pos (wk_pos w)"
  show ?thesis
  proof (cases "pos \<noteq> wk_pos w \<and> in_window ?dx ?dy")
    case True
    then have "c ?dy ?dx = tile_free tiles pos"
      using assms Some by (auto simp: cache_right_def near_def cached_right_def)
    then show ?thesis using assms(2) True Some
      by (auto simp: canWalkTo_def getWalkCache_def Let_def tile_free_def in_window_def split: option.splits)
  next
    case False
    then show ?thesis using assms(2) Some
      by (auto simp: canWalkTo_def getWalkCache_def Let_def in_window_def split: option.splits)
  qed
qed


definition grazer :: walker where
  "grazer = \<lparr> wk_pos = Position 500 500 7, wk_cache = Some (\<lambda>_ _. False), wk_canPush = None,
     wk_immune = (\<lambda>_. False), wk_hasCondition = (\<lambda>_. False) \<rparr>"

definition meadow :: "position set \<Rightarrow> tile_map" where
  "meadow walls p = (if p \<in> walls then None else Some free_tile)"




end
