(* ===== verification/Party_State.thy ===== *)
theory Party_State
  imports Positions "HOL-Library.Monad_Syntax"
begin

text \<open>
  Parties: \<^verbatim>\<open>class Party\<close> (\<^verbatim>\<open>src/src/party.cpp\<close>), the party fields of \<open>Player\<close>
  (\<^verbatim>\<open>player.cpp\<close>) and the handlers of \<open>Game\<close> (\<^verbatim>\<open>game.cpp\<close>). Players and parties point at each
  other, so both live in a store: players by their id, parties by an object number. A number that is not in
  the store is a dangling pointer, and using it is undefined behaviour (\<open>None\<close>). The texts and icons
  that are sent to the clients are not kept, only that their receivers exist.
\<close>

subsection \<open>State\<close>

record party_player =
  pp_party :: "nat option"
  pp_invites :: "nat list"
  pp_level :: nat
  pp_vocation :: nat
  pp_pos :: position
  pp_noGain :: bool
  pp_infight :: bool

record party =
  pa_leader :: nat
  pa_members :: "nat list"
  pa_invites :: "nat list"
  pa_ticks :: "nat \<rightharpoonup> int"
  pa_rate :: nat
  pa_active :: bool
  pa_enabled :: bool

record party_world =
  pw_players :: "nat \<rightharpoonup> party_player"
  pw_parties :: "nat \<rightharpoonup> party"
  pw_next :: nat

text \<open>The surroundings of a call: the clock, the configured fight time, and what the scripts answer.\<close>

record party_context =
  pc_now :: int
  pc_pzLocked :: int
  pc_onDisband :: bool
  pc_onLeave :: bool
  pc_onJoin :: bool

primrec foldM :: "('a \<Rightarrow> 's \<Rightarrow> 's option) \<Rightarrow> 'a list \<Rightarrow> 's \<Rightarrow> 's option" where
  "foldM f [] s = Some s"
| "foldM f (x # xs) s = Option.bind (f x s) (foldM f xs)"

definition mod_player :: "(party_player \<Rightarrow> party_player) \<Rightarrow> nat \<Rightarrow> party_world \<Rightarrow> party_world option" where
  "mod_player f i w =
     (case pw_players w i of None \<Rightarrow> None
      | Some q \<Rightarrow> Some (w \<lparr> pw_players := (pw_players w)(i \<mapsto> f q) \<rparr>))"

definition mod_party :: "(party \<Rightarrow> party) \<Rightarrow> nat \<Rightarrow> party_world \<Rightarrow> party_world option" where
  "mod_party f pid w =
     (case pw_parties w pid of None \<Rightarrow> None
      | Some p \<Rightarrow> Some (w \<lparr> pw_parties := (pw_parties w)(pid \<mapsto> f p) \<rparr>))"

definition setParty :: "nat option \<Rightarrow> nat \<Rightarrow> party_world \<Rightarrow> party_world option" where
  "setParty po = mod_player (\<lambda>q. q \<lparr> pp_party := po \<rparr>)"

definition addPartyInvitation :: "nat \<Rightarrow> nat \<Rightarrow> party_world \<Rightarrow> party_world option" where
  "addPartyInvitation pid =
     mod_player (\<lambda>q. if pid \<in> set (pp_invites q) then q else q \<lparr> pp_invites := pid # pp_invites q \<rparr>)"

definition removePartyInvitation :: "nat \<Rightarrow> nat \<Rightarrow> party_world \<Rightarrow> party_world option" where
  "removePartyInvitation pid = mod_player (\<lambda>q. q \<lparr> pp_invites := removeAll pid (pp_invites q) \<rparr>)"

subsection \<open>Messages and shared experience\<close>

definition party_empty :: "party \<Rightarrow> bool" where
  "party_empty p \<longleftrightarrow> pa_members p = [] \<and> pa_invites p = []"

definition broadcastPartyMessage :: "bool \<Rightarrow> nat \<Rightarrow> party_world \<Rightarrow> unit option" where
  "broadcastPartyMessage sendToInvitations pid w =
     do {
       p \<leftarrow> pw_parties w pid;
       if (\<forall>i \<in> set (pa_members p). pw_players w i \<noteq> None) \<and> pw_players w (pa_leader p) \<noteq> None
        \<and> (sendToInvitations \<longrightarrow> (\<forall>i \<in> set (pa_invites p). pw_players w i \<noteq> None))
       then Some () else None
     }"

definition updateAllPartyIcons :: "nat \<Rightarrow> party_world \<Rightarrow> unit option" where
  "updateAllPartyIcons = broadcastPartyMessage False"

definition highestLevel :: "party_world \<Rightarrow> party \<Rightarrow> nat option" where
  "highestLevel w p =
     do {
       leader \<leftarrow> pw_players w (pa_leader p);
       foldM (\<lambda>i highest. do {
                member \<leftarrow> pw_players w i;
                Some (if pp_level member > highest then pp_level member else highest)
              }) (pa_members p) (pp_level leader)
     }"

text \<open>The ceiling of two thirds of the highest level; the code computes it with floats, which are exact
  for the levels below four million.\<close>

definition minLevel :: "nat \<Rightarrow> nat" where
  "minLevel highest = (highest * 2 + 2) div 3"

definition canUseSharedExperience :: "party_context \<Rightarrow> nat \<Rightarrow> nat \<Rightarrow> party_world \<Rightarrow> bool option" where
  "canUseSharedExperience c pid i w =
     do {
       p \<leftarrow> pw_parties w pid;
       if pa_members p = [] then Some False
       else do {
         highest \<leftarrow> highestLevel w p;
         player \<leftarrow> pw_players w i;
         leader \<leftarrow> pw_players w (pa_leader p);
         if pp_level player < minLevel highest then Some False
         else if \<not> areInRange3 30 30 1 (pp_pos leader) (pp_pos player) then Some False
         else if \<not> pp_noGain player then
           (case pa_ticks p i of
              None \<Rightarrow> Some False
            | Some t \<Rightarrow> Some (\<not> ((pc_now c - t) mod 2 ^ 64 > pc_pzLocked c mod 2 ^ 64)))
         else Some True
       }
     }"

definition canEnableSharedExperience :: "party_context \<Rightarrow> nat \<Rightarrow> party_world \<Rightarrow> bool option" where
  "canEnableSharedExperience c pid w =
     do {
       p \<leftarrow> pw_parties w pid;
       foldM (\<lambda>i ok. if ok then canUseSharedExperience c pid i w else Some False)
         (pa_leader p # pa_members p) True
     }"

definition updateSharedExperience :: "party_context \<Rightarrow> nat \<Rightarrow> party_world \<Rightarrow> party_world option" where
  "updateSharedExperience c pid w =
     do {
       p \<leftarrow> pw_parties w pid;
       if \<not> pa_active p then Some w
       else do {
         result \<leftarrow> canEnableSharedExperience c pid w;
         if result \<noteq> pa_enabled p then do {
           w \<leftarrow> mod_party (\<lambda>p. p \<lparr> pa_enabled := result \<rparr>) pid w;
           _ \<leftarrow> updateAllPartyIcons pid w;
           Some w
         } else Some w
       }
     }"

definition VOCATION_NONE :: nat where "VOCATION_NONE = 0"

text \<open>The bonus in percent.\<close>

definition updateVocationsList :: "nat \<Rightarrow> party_world \<Rightarrow> party_world option" where
  "updateVocationsList pid w =
     do {
       p \<leftarrow> pw_parties w pid;
       ids \<leftarrow> foldM (\<lambda>i ids. do {
                 q \<leftarrow> pw_players w i;
                 Some (if pp_vocation q \<noteq> VOCATION_NONE then List.insert (pp_vocation q) ids else ids)
               }) (pa_leader p # pa_members p) [];
       let n = length ids;
       mod_party (\<lambda>p. p \<lparr> pa_rate := (if n > 1 then n * (10 + (n - 1) * 5) else 20) \<rparr>) pid w
     }"

definition updatePlayerTicks :: "party_context \<Rightarrow> nat \<Rightarrow> nat \<Rightarrow> nat \<Rightarrow> party_world \<Rightarrow> party_world option" where
  "updatePlayerTicks c pid i points w =
     do {
       q \<leftarrow> pw_players w i;
       if points \<noteq> 0 \<and> \<not> pp_noGain q then do {
         w \<leftarrow> mod_party (\<lambda>p. p \<lparr> pa_ticks := (pa_ticks p)(i \<mapsto> pc_now c) \<rparr>) pid w;
         updateSharedExperience c pid w
       } else Some w
     }"

definition clearPlayerPoints :: "party_context \<Rightarrow> nat \<Rightarrow> nat \<Rightarrow> party_world \<Rightarrow> party_world option" where
  "clearPlayerPoints c pid i w =
     do {
       p \<leftarrow> pw_parties w pid;
       if pa_ticks p i \<noteq> None then do {
         w \<leftarrow> mod_party (\<lambda>p. p \<lparr> pa_ticks := (pa_ticks p)(i := None) \<rparr>) pid w;
         updateSharedExperience c pid w
       } else Some w
     }"

definition setSharedExperience ::
    "party_context \<Rightarrow> nat \<Rightarrow> nat \<Rightarrow> bool \<Rightarrow> party_world \<Rightarrow> (bool \<times> party_world) option" where
  "setSharedExperience c pid i active w =
     do {
       p \<leftarrow> pw_parties w pid;
       if pa_leader p \<noteq> i then Some (False, w)
       else if pa_active p = active then Some (True, w)
       else do {
         w \<leftarrow> mod_party (\<lambda>p. p \<lparr> pa_active := active \<rparr>) pid w;
         w \<leftarrow> (if active then do {
                  can \<leftarrow> canEnableSharedExperience c pid w;
                  mod_party (\<lambda>p. p \<lparr> pa_enabled := can \<rparr>) pid w
                } else Some w);
         _ \<leftarrow> updateAllPartyIcons pid w;
         Some (True, w)
       }
     }"

subsection \<open>Membership\<close>

definition newParty :: "nat \<Rightarrow> party_world \<Rightarrow> (nat \<times> party_world) option" where
  "newParty i w =
     do {
       let pid = pw_next w;
       w \<leftarrow> setParty (Some pid) i w;
       Some (pid, w \<lparr> pw_next := Suc pid,
         pw_parties := (pw_parties w)(pid \<mapsto> \<lparr> pa_leader = i, pa_members = [], pa_invites = [],
           pa_ticks = Map.empty, pa_rate = 20, pa_active = False, pa_enabled = False \<rparr>) \<rparr>)
     }"

definition disband :: "party_context \<Rightarrow> nat \<Rightarrow> party_world \<Rightarrow> party_world option" where
  "disband c pid w =
     do {
       p \<leftarrow> pw_parties w pid;
       if \<not> pc_onDisband c then Some w
       else do {
         w \<leftarrow> setParty None (pa_leader p) w;
         w \<leftarrow> foldM (removePartyInvitation pid) (pa_invites p) w;
         w \<leftarrow> foldM (setParty None) (pa_members p) w;
         Some (w \<lparr> pw_parties := (pw_parties w)(pid := None) \<rparr>)
       }
     }"

definition passPartyLeadership ::
    "party_context \<Rightarrow> nat \<Rightarrow> nat \<Rightarrow> party_world \<Rightarrow> (bool \<times> party_world) option" where
  "passPartyLeadership c pid i w =
     do {
       p \<leftarrow> pw_parties w pid;
       q \<leftarrow> pw_players w i;
       if pa_leader p = i \<or> pp_party q \<noteq> Some pid then Some (False, w)
       else do {
         w \<leftarrow> mod_party (\<lambda>p. p \<lparr> pa_members := remove1 i (pa_members p) \<rparr>) pid w;
         _ \<leftarrow> broadcastPartyMessage True pid w;
         w \<leftarrow> mod_party (\<lambda>p. p \<lparr> pa_leader := i, pa_members := pa_leader p # pa_members p \<rparr>) pid w;
         w \<leftarrow> updateSharedExperience c pid w;
         _ \<leftarrow> broadcastPartyMessage True pid w;
         Some (True, w)
       }
     }"

text \<open>Leaving, from the search in the member list on.\<close>

definition leaveParty_rest ::
    "party_context \<Rightarrow> nat \<Rightarrow> nat \<Rightarrow> bool \<Rightarrow> party_world \<Rightarrow> (bool \<times> party_world) option" where
  "leaveParty_rest c pid i missingLeader w =
     do {
       w \<leftarrow> mod_party (\<lambda>p. p \<lparr> pa_members := remove1 i (pa_members p) \<rparr>) pid w;
       w \<leftarrow> setParty None i w;
       _ \<leftarrow> broadcastPartyMessage False pid w;
       w \<leftarrow> updateSharedExperience c pid w;
       w \<leftarrow> updateVocationsList pid w;
       w \<leftarrow> clearPlayerPoints c pid i w;
       _ \<leftarrow> broadcastPartyMessage False pid w;
       p \<leftarrow> pw_parties w pid;
       w \<leftarrow> (if missingLeader \<or> party_empty p then disband c pid w else Some w);
       Some (True, w)
     }"

definition leaveParty ::
    "party_context \<Rightarrow> nat \<Rightarrow> nat \<Rightarrow> party_world \<Rightarrow> (bool \<times> party_world) option" where
  "leaveParty c pid i w =
     do {
       p \<leftarrow> pw_parties w pid;
       q \<leftarrow> pw_players w i;
       if pp_party q \<noteq> Some pid \<and> pa_leader p \<noteq> i then Some (False, w)
       else if \<not> pc_onLeave c then Some (False, w)
       else do {
         (missingLeader, w) \<leftarrow>
           (if pa_leader p = i then
              (if pa_members p \<noteq> [] then
                 (if length (pa_members p) = 1 \<and> pa_invites p = [] then Some (True, w)
                  else do {
                    (_, w) \<leftarrow> passPartyLeadership c pid (hd (pa_members p)) w;
                    Some (False, w)
                  })
               else Some (True, w))
            else Some (False, w));
         leaveParty_rest c pid i missingLeader w
       }
     }"

definition joinParty ::
    "party_context \<Rightarrow> nat \<Rightarrow> nat \<Rightarrow> party_world \<Rightarrow> (bool \<times> party_world) option" where
  "joinParty c pid i w =
     (if \<not> pc_onJoin c then Some (False, w)
      else do {
        p \<leftarrow> pw_parties w pid;
        if i \<notin> set (pa_invites p) then Some (False, w)
        else do {
          w \<leftarrow> mod_party (\<lambda>p. p \<lparr> pa_invites := remove1 i (pa_invites p) \<rparr>) pid w;
          _ \<leftarrow> broadcastPartyMessage False pid w;
          w \<leftarrow> setParty (Some pid) i w;
          w \<leftarrow> mod_party (\<lambda>p. p \<lparr> pa_members := pa_members p @ [i] \<rparr>) pid w;
          w \<leftarrow> removePartyInvitation pid i w;
          w \<leftarrow> updateSharedExperience c pid w;
          w \<leftarrow> updateVocationsList pid w;
          Some (True, w)
        }
      })"

definition removeInvite ::
    "party_context \<Rightarrow> nat \<Rightarrow> nat \<Rightarrow> bool \<Rightarrow> party_world \<Rightarrow> (bool \<times> party_world) option" where
  "removeInvite c pid i removeFromPlayer w =
     do {
       p \<leftarrow> pw_parties w pid;
       if i \<notin> set (pa_invites p) then Some (False, w)
       else do {
         w \<leftarrow> mod_party (\<lambda>p. p \<lparr> pa_invites := remove1 i (pa_invites p) \<rparr>) pid w;
         _ \<leftarrow> pw_players w (pa_leader p);
         _ \<leftarrow> pw_players w i;
         w \<leftarrow> (if removeFromPlayer then removePartyInvitation pid i w else Some w);
         p \<leftarrow> pw_parties w pid;
         w \<leftarrow> (if party_empty p then disband c pid w else Some w);
         Some (True, w)
       }
     }"

definition invitePlayer :: "nat \<Rightarrow> nat \<Rightarrow> party_world \<Rightarrow> (bool \<times> party_world) option" where
  "invitePlayer pid i w =
     do {
       p \<leftarrow> pw_parties w pid;
       if i \<in> set (pa_invites p) then Some (False, w)
       else do {
         _ \<leftarrow> pw_players w (pa_leader p);
         w \<leftarrow> mod_party (\<lambda>p. p \<lparr> pa_invites := pa_invites p @ [i] \<rparr>) pid w;
         w \<leftarrow> addPartyInvitation pid i w;
         Some (True, w)
       }
     }"

text \<open>The loop of \<open>clearPartyInvitations\<close> iterates over a list of the player; if that list changed under
  the loop, its iterator would be stale.\<close>

definition clear_one :: "party_context \<Rightarrow> nat \<Rightarrow> nat list \<Rightarrow> nat \<Rightarrow> party_world \<Rightarrow> party_world option" where
  "clear_one c i invites pid w =
     do {
       (_, w) \<leftarrow> removeInvite c pid i False w;
       q \<leftarrow> pw_players w i;
       if pp_invites q = invites then Some w else None
     }"

definition clearPartyInvitations :: "party_context \<Rightarrow> nat \<Rightarrow> party_world \<Rightarrow> party_world option" where
  "clearPartyInvitations c i w =
     do {
       q \<leftarrow> pw_players w i;
       w \<leftarrow> foldM (clear_one c i (pp_invites q)) (pp_invites q) w;
       mod_player (\<lambda>q. q \<lparr> pp_invites := [] \<rparr>) i w
     }"

subsection \<open>The handlers of the game\<close>

definition isInviting :: "nat \<Rightarrow> nat \<Rightarrow> party_world \<Rightarrow> bool option" where
  "isInviting i j w =
     do {
       q \<leftarrow> pw_players w i;
       case pp_party q of
         None \<Rightarrow> Some False
       | Some pid \<Rightarrow> do {
           p \<leftarrow> pw_parties w pid;
           Some (pa_leader p = i \<and> j \<in> set (pa_invites p))
         }
     }"

definition isPartner :: "party_player \<Rightarrow> party_player \<Rightarrow> bool" where
  "isPartner q r \<longleftrightarrow> (if pp_party q = None then False else pp_party q = pp_party r)"

definition playerInviteToParty :: "nat \<Rightarrow> nat \<Rightarrow> party_world \<Rightarrow> party_world option" where
  "playerInviteToParty i j w =
     (case (pw_players w i, pw_players w j) of
        (Some player, Some invitedPlayer) \<Rightarrow> do {
          inviting \<leftarrow> isInviting j i w;
          if inviting then Some w
          else if pp_party invitedPlayer \<noteq> None then Some w
          else (case pp_party player of
                  None \<Rightarrow> do {
                    (pid, w) \<leftarrow> newParty i w;
                    (_, w) \<leftarrow> invitePlayer pid j w;
                    Some w
                  }
                | Some pid \<Rightarrow> do {
                    p \<leftarrow> pw_parties w pid;
                    if pa_leader p \<noteq> i then Some w
                    else do { (_, w) \<leftarrow> invitePlayer pid j w; Some w }
                  })
        }
      | _ \<Rightarrow> Some w)"

definition playerJoinParty :: "party_context \<Rightarrow> nat \<Rightarrow> nat \<Rightarrow> party_world \<Rightarrow> party_world option" where
  "playerJoinParty c i l w =
     (case (pw_players w i, pw_players w l) of
        (Some player, Some leader) \<Rightarrow> do {
          inviting \<leftarrow> isInviting l i w;
          if \<not> inviting then Some w
          else (case pp_party leader of
                  None \<Rightarrow> Some w
                | Some pid \<Rightarrow> do {
                    p \<leftarrow> pw_parties w pid;
                    if pa_leader p \<noteq> l then Some w
                    else if pp_party player \<noteq> None then Some w
                    else do { (_, w) \<leftarrow> joinParty c pid i w; Some w }
                  })
        }
      | _ \<Rightarrow> Some w)"

definition playerRevokePartyInvitation ::
    "party_context \<Rightarrow> nat \<Rightarrow> nat \<Rightarrow> party_world \<Rightarrow> party_world option" where
  "playerRevokePartyInvitation c i j w =
     (case pw_players w i of
        None \<Rightarrow> Some w
      | Some player \<Rightarrow>
          (case pp_party player of
             None \<Rightarrow> Some w
           | Some pid \<Rightarrow> do {
               p \<leftarrow> pw_parties w pid;
               if pa_leader p \<noteq> i then Some w
               else if pw_players w j = None then Some w
               else do {
                 inviting \<leftarrow> isInviting i j w;
                 if \<not> inviting then Some w
                 else do { (_, w) \<leftarrow> removeInvite c pid j True w; Some w }
               }
             }))"

definition playerPassPartyLeadership ::
    "party_context \<Rightarrow> nat \<Rightarrow> nat \<Rightarrow> party_world \<Rightarrow> party_world option" where
  "playerPassPartyLeadership c i j w =
     (case pw_players w i of
        None \<Rightarrow> Some w
      | Some player \<Rightarrow>
          (case pp_party player of
             None \<Rightarrow> Some w
           | Some pid \<Rightarrow> do {
               p \<leftarrow> pw_parties w pid;
               if pa_leader p \<noteq> i then Some w
               else (case pw_players w j of
                       None \<Rightarrow> Some w
                     | Some newLeader \<Rightarrow>
                         if \<not> isPartner player newLeader then Some w
                         else do { (_, w) \<leftarrow> passPartyLeadership c pid j w; Some w })
             }))"

definition playerLeaveParty :: "party_context \<Rightarrow> nat \<Rightarrow> party_world \<Rightarrow> party_world option" where
  "playerLeaveParty c i w =
     (case pw_players w i of
        None \<Rightarrow> Some w
      | Some player \<Rightarrow>
          (case pp_party player of
             None \<Rightarrow> Some w
           | Some pid \<Rightarrow> if pp_infight player then Some w
                else do { (_, w) \<leftarrow> leaveParty c pid i w; Some w }))"

definition playerEnableSharedPartyExperience ::
    "party_context \<Rightarrow> nat \<Rightarrow> bool \<Rightarrow> party_world \<Rightarrow> party_world option" where
  "playerEnableSharedPartyExperience c i active w =
     (case pw_players w i of
        None \<Rightarrow> Some w
      | Some player \<Rightarrow>
          (case pp_party player of
             None \<Rightarrow> Some w
           | Some pid \<Rightarrow> if pp_infight player then Some w
                else do { (_, w) \<leftarrow> setSharedExperience c pid i active w; Some w }))"

text \<open>The logout (\<open>Player::onRemoveCreature\<close>), after which the object of the player is released.\<close>

definition logoutPlayer :: "party_context \<Rightarrow> nat \<Rightarrow> party_world \<Rightarrow> party_world option" where
  "logoutPlayer c i w =
     (case pw_players w i of
        None \<Rightarrow> Some w
      | Some _ \<Rightarrow> do {
          w \<leftarrow> clearPartyInvitations c i w;
          q \<leftarrow> pw_players w i;
          w \<leftarrow> (case pp_party q of
                  None \<Rightarrow> Some w
                | Some pid \<Rightarrow> do { (_, w) \<leftarrow> leaveParty c pid i w; Some w });
          Some (w \<lparr> pw_players := (pw_players w)(i := None) \<rparr>)
        })"

definition loginPlayer :: "nat \<Rightarrow> party_player \<Rightarrow> party_world \<Rightarrow> party_world" where
  "loginPlayer i q w =
     (if pw_players w i \<noteq> None then w
      else w \<lparr> pw_players := (pw_players w)(i \<mapsto> q \<lparr> pp_party := None, pp_invites := [] \<rparr>) \<rparr>)"

definition onAttackedMonster :: "party_context \<Rightarrow> nat \<Rightarrow> nat \<Rightarrow> party_world \<Rightarrow> party_world option" where
  "onAttackedMonster c i points w =
     (case pw_players w i of
        None \<Rightarrow> Some w
      | Some q \<Rightarrow> (case pp_party q of None \<Rightarrow> Some w | Some pid \<Rightarrow> updatePlayerTicks c pid i points w))"

definition onIdleStatus :: "party_context \<Rightarrow> nat \<Rightarrow> party_world \<Rightarrow> party_world option" where
  "onIdleStatus c i w =
     (case pw_players w i of
        None \<Rightarrow> Some w
      | Some q \<Rightarrow> (case pp_party q of None \<Rightarrow> Some w | Some pid \<Rightarrow> clearPlayerPoints c pid i w))"

datatype party_command =
  PartyInvite nat nat | PartyJoin nat nat | PartyRevoke nat nat | PartyPass nat nat | PartyLeave nat
| PartyShare nat bool | PartyHit nat nat | PartyIdle nat | PartyLogin nat party_player | PartyLogout nat

fun party_step :: "party_context \<times> party_command \<Rightarrow> party_world \<Rightarrow> party_world option" where
  "party_step (c, PartyInvite i j) w = playerInviteToParty i j w"
| "party_step (c, PartyJoin i l) w = playerJoinParty c i l w"
| "party_step (c, PartyRevoke i j) w = playerRevokePartyInvitation c i j w"
| "party_step (c, PartyPass i j) w = playerPassPartyLeadership c i j w"
| "party_step (c, PartyLeave i) w = playerLeaveParty c i w"
| "party_step (c, PartyShare i b) w = playerEnableSharedPartyExperience c i b w"
| "party_step (c, PartyHit i points) w = onAttackedMonster c i points w"
| "party_step (c, PartyIdle i) w = onIdleStatus c i w"
| "party_step (c, PartyLogin i q) w = Some (loginPlayer i q w)"
| "party_step (c, PartyLogout i) w = logoutPlayer c i w"

definition empty_party_world :: party_world where
  "empty_party_world = \<lparr> pw_players = Map.empty, pw_parties = Map.empty, pw_next = 0 \<rparr>"

end
