(* ===== verification/Party_Safety.thy ===== *)
theory Party_Safety
  imports Party_State
begin

text \<open>
  The invariant of the parties and what the operations do to it: the pointers from players to parties
  and from parties to players describe the same relations. As long as the scripts do not veto, no
  sequence of commands uses a dangling pointer.
\<close>

subsection \<open>The invariant\<close>

definition belongs :: "party_world \<Rightarrow> nat \<Rightarrow> nat \<Rightarrow> bool" where
  "belongs w i pid \<longleftrightarrow> (\<exists>q. pw_players w i = Some q \<and> pp_party q = Some pid)"

definition invited :: "party_world \<Rightarrow> nat \<Rightarrow> nat \<Rightarrow> bool" where
  "invited w i pid \<longleftrightarrow> (\<exists>q. pw_players w i = Some q \<and> pid \<in> set (pp_invites q))"

text \<open>The part of a party that the invariant is about.\<close>

definition core :: "party_world \<Rightarrow> nat \<Rightarrow> (nat \<times> nat list \<times> nat list) option" where
  "core w pid = map_option (\<lambda>p. (pa_leader p, pa_members p, pa_invites p)) (pw_parties w pid)"

definition party_ok :: "party_world \<Rightarrow> nat \<Rightarrow> bool" where
  "party_ok w pid \<longleftrightarrow>
     (case core w pid of
        None \<Rightarrow> (\<forall>i. \<not> belongs w i pid \<and> \<not> invited w i pid)
      | Some (l, ms, is) \<Rightarrow> (\<forall>i. belongs w i pid = (i = l \<or> i \<in> set ms)) \<and> (\<forall>i. invited w i pid = (i \<in> set is))
          \<and> distinct (l # ms) \<and> distinct is \<and> pid < pw_next w)"

definition players_ok :: "party_world \<Rightarrow> bool" where
  "players_ok w \<longleftrightarrow> (\<forall>i q. pw_players w i = Some q \<longrightarrow> distinct (pp_invites q))"

definition parties_ok :: "party_world \<Rightarrow> bool" where
  "parties_ok w \<longleftrightarrow> players_ok w \<and> (\<forall>pid. party_ok w pid)"

definition live :: "party_world \<Rightarrow> nat \<Rightarrow> bool" where
  "live w i \<longleftrightarrow> pw_players w i \<noteq> None"

text \<open>Everyone that a party points at exists.\<close>

definition party_live :: "party_world \<Rightarrow> nat \<Rightarrow> bool" where
  "party_live w pid \<longleftrightarrow>
     (\<forall>l ms is. core w pid = Some (l, ms, is) \<longrightarrow> live w l \<and> (\<forall>i \<in> set ms. live w i) \<and> (\<forall>i \<in> set is. live w i))"

lemma belongs_live: "belongs w i pid \<Longrightarrow> live w i" and invited_live: "invited w i pid \<Longrightarrow> live w i"
  by (auto simp: belongs_def invited_def live_def)

lemma party_ok_live: "party_ok w pid \<Longrightarrow> party_live w pid"
  unfolding party_live_def party_ok_def using belongs_live invited_live by fastforce

lemma core_Some: "core w pid = Some (l, ms, is) \<longleftrightarrow>
    (\<exists>p. pw_parties w pid = Some p \<and> pa_leader p = l \<and> pa_members p = ms \<and> pa_invites p = is)"
  by (auto simp: core_def)

lemma party_okD:
  assumes "party_ok w pid" "pw_parties w pid = Some p"
  shows "belongs w i pid \<longleftrightarrow> i = pa_leader p \<or> i \<in> set (pa_members p)"
    "invited w i pid \<longleftrightarrow> i \<in> set (pa_invites p)"
    "pa_leader p \<notin> set (pa_members p)" "distinct (pa_members p)" "distinct (pa_invites p)" "pid < pw_next w"
  using assms by (auto simp: party_ok_def core_def)

lemma party_ok_deref:
  assumes "party_ok w pid" "belongs w i pid \<or> invited w i pid"
  shows "\<exists>p. pw_parties w pid = Some p"
  using assms by (cases "pw_parties w pid") (auto simp: party_ok_def core_def)

text \<open>What an operation leaves alone.\<close>

lemma party_ok_frame:
  assumes "party_ok w pid" "core w' pid = core w pid" "pw_next w \<le> pw_next w'"
    "\<And>i. belongs w' i pid = belongs w i pid" "\<And>i. invited w' i pid = invited w i pid"
  shows "party_ok w' pid"
  using assms by (auto simp: party_ok_def split: option.splits)

text \<open>Two states that only differ in the shared experience.\<close>

definition same_refs :: "party_world \<Rightarrow> party_world \<Rightarrow> bool" where
  "same_refs w w' \<longleftrightarrow> pw_players w' = pw_players w \<and> pw_next w' = pw_next w \<and> core w' = core w"

lemma same_refs_refl [simp]: "same_refs w w"
  and same_refs_trans: "same_refs a b \<Longrightarrow> same_refs b c \<Longrightarrow> same_refs a c"
  by (auto simp: same_refs_def)

lemma same_refs_rel:
  assumes "same_refs w w'"
  shows "belongs w' = belongs w" "invited w' = invited w" "live w' = live w" "core w' = core w" "pw_next w' = pw_next w"
    "pw_players w' = pw_players w"
  using assms by (auto simp: same_refs_def belongs_def invited_def live_def fun_eq_iff)

lemma same_refs_party_ok: "same_refs w w' \<Longrightarrow> party_ok w' pid = party_ok w pid"
  and same_refs_players_ok: "same_refs w w' \<Longrightarrow> players_ok w' = players_ok w"
  and same_refs_live: "same_refs w w' \<Longrightarrow> party_live w' pid = party_live w pid"
  unfolding party_ok_def players_ok_def party_live_def by (simp_all only: same_refs_rel)

lemma same_refs_ok: "same_refs w w' \<Longrightarrow> parties_ok w' = parties_ok w"
  by (simp add: parties_ok_def same_refs_party_ok same_refs_players_ok)

lemma same_refs_parties: "same_refs w w' \<Longrightarrow> pw_parties w pid = Some p \<Longrightarrow>
    \<exists>p'. pw_parties w' pid = Some p' \<and> pa_leader p' = pa_leader p \<and> pa_members p' = pa_members p
      \<and> pa_invites p' = pa_invites p"
  using same_refs_rel(4) [of w w'] by (auto simp: core_def dest!: fun_cong [of _ _ pid])

lemma mod_party_same:
  assumes "pw_parties w pid = Some p"
    "\<And>p. pa_leader (f p) = pa_leader p" "\<And>p. pa_members (f p) = pa_members p" "\<And>p. pa_invites (f p) = pa_invites p"
  shows "\<exists>w'. mod_party f pid w = Some w' \<and> same_refs w w'"
  using assms by (auto simp: mod_party_def same_refs_def core_def fun_eq_iff)

subsection \<open>The operations that keep the references\<close>

lemma foldM_total:
  assumes "\<And>x s. x \<in> set xs \<Longrightarrow> \<exists>s'. f x s = Some s'"
  shows "\<exists>s'. foldM f xs s = Some s'"
  using assms
proof (induction xs arbitrary: s)
  case (Cons x xs)
  obtain s1 where "f x s = Some s1" using Cons.prems [of x] by auto
  then show ?case using Cons.IH [of s1] Cons.prems by simp
qed simp

lemma broadcast_total:
  assumes "party_live w pid" "pw_parties w pid = Some p"
  shows "broadcastPartyMessage b pid w = Some ()"
  using assms by (auto simp: broadcastPartyMessage_def party_live_def core_def live_def)

lemma live_of:
  assumes "party_live w pid" "pw_parties w pid = Some p" "i = pa_leader p \<or> i \<in> set (pa_members p) \<or> i \<in> set (pa_invites p)"
  shows "\<exists>q. pw_players w i = Some q"
  using assms by (auto simp: party_live_def core_def live_def)

lemma highestLevel_total:
  assumes "party_live w pid" "pw_parties w pid = Some p"
  shows "\<exists>h. highestLevel w p = Some h"
proof -
  obtain q where q: "pw_players w (pa_leader p) = Some q" using live_of [OF assms] by blast
  have "\<exists>s'. foldM (\<lambda>i highest. do { member \<leftarrow> pw_players w i;
      Some (if pp_level member > highest then pp_level member else highest) }) (pa_members p) s = Some s'" for s
    using live_of [OF assms] by (intro foldM_total) fastforce
  then show ?thesis by (simp add: highestLevel_def q)
qed

lemma canUse_total:
  assumes "party_live w pid" "pw_parties w pid = Some p" "i = pa_leader p \<or> i \<in> set (pa_members p)"
  shows "canUseSharedExperience c pid i w \<noteq> None"
proof -
  obtain q where q: "pw_players w i = Some q" using live_of [OF assms(1,2)] assms(3) by blast
  obtain l where l: "pw_players w (pa_leader p) = Some l" using live_of [OF assms(1,2)] by blast
  obtain h where h: "highestLevel w p = Some h" using highestLevel_total [OF assms(1,2)] by blast
  show ?thesis by (simp add: canUseSharedExperience_def assms(2) h q l option.case_eq_if del: not_None_eq)
qed

lemma canEnable_total:
  assumes "party_live w pid" "pw_parties w pid = Some p"
  shows "\<exists>r. canEnableSharedExperience c pid w = Some r"
proof -
  have "\<exists>s'. foldM (\<lambda>i ok. if ok then canUseSharedExperience c pid i w else Some False)
      (pa_leader p # pa_members p) True = Some s'"
  proof (rule foldM_total)
    fix i ok assume "i \<in> set (pa_leader p # pa_members p)"
    then have "canUseSharedExperience c pid i w \<noteq> None" using canUse_total [OF assms] by auto
    then show "\<exists>s'. (if ok then canUseSharedExperience c pid i w else Some False) = Some s'" by auto
  qed
  then show ?thesis by (simp only: canEnableSharedExperience_def assms(2) bind.bind_lunit)
qed

lemma updateSharedExperience_same:
  assumes "party_live w pid" "pw_parties w pid = Some p"
  shows "\<exists>w'. updateSharedExperience c pid w = Some w' \<and> same_refs w w'"
proof -
  obtain r where r: "canEnableSharedExperience c pid w = Some r" using canEnable_total [OF assms] by blast
  obtain w1 where w1: "mod_party (\<lambda>p. p \<lparr> pa_enabled := r \<rparr>) pid w = Some w1" "same_refs w w1"
    using mod_party_same [OF assms(2), of "\<lambda>p. p \<lparr> pa_enabled := r \<rparr>"] by auto
  obtain p1 where "pw_parties w1 pid = Some p1" using same_refs_parties [OF w1(2) assms(2)] by blast
  then have "updateAllPartyIcons pid w1 = Some ()"
    using broadcast_total [of w1 pid] same_refs_live [OF w1(2)] assms(1) by (simp add: updateAllPartyIcons_def)
  then show ?thesis using r w1 assms(2)
    by (auto simp: updateSharedExperience_def)
qed

lemma updateVocationsList_same:
  assumes "party_live w pid" "pw_parties w pid = Some p"
  shows "\<exists>w'. updateVocationsList pid w = Some w' \<and> same_refs w w'"
proof -
  have "\<exists>s'. foldM (\<lambda>i ids. do { q \<leftarrow> pw_players w i;
      Some (if pp_vocation q \<noteq> VOCATION_NONE then List.insert (pp_vocation q) ids else ids) })
      (pa_leader p # pa_members p) [] = Some s'"
    using live_of [OF assms] by (intro foldM_total) fastforce
  then obtain ids where "foldM (\<lambda>i ids. do { q \<leftarrow> pw_players w i;
      Some (if pp_vocation q \<noteq> VOCATION_NONE then List.insert (pp_vocation q) ids else ids) })
      (pa_leader p # pa_members p) [] = Some ids" by blast
  then show ?thesis unfolding updateVocationsList_def assms(2) Let_def
    by (simp only: bind.bind_lunit) (rule mod_party_same [OF assms(2)]; simp)
qed

lemma clearPlayerPoints_same:
  assumes "party_live w pid" "pw_parties w pid = Some p"
  shows "\<exists>w'. clearPlayerPoints c pid i w = Some w' \<and> same_refs w w'"
proof -
  let ?f = "\<lambda>p. p \<lparr> pa_ticks := (pa_ticks p)(i := None) \<rparr>"
  obtain w1 where w1: "mod_party ?f pid w = Some w1" "same_refs w w1"
    using mod_party_same [OF assms(2), of ?f] by auto
  obtain p1 where "pw_parties w1 pid = Some p1" using same_refs_parties [OF w1(2) assms(2)] by blast
  then obtain w2 where "updateSharedExperience c pid w1 = Some w2" "same_refs w1 w2"
    using updateSharedExperience_same [of w1 pid p1 c] same_refs_live [OF w1(2)] assms(1) by blast
  then show ?thesis using w1 assms(2) same_refs_trans by (auto simp: clearPlayerPoints_def)
qed

lemma updatePlayerTicks_same:
  assumes "party_live w pid" "pw_parties w pid = Some p" "live w i"
  shows "\<exists>w'. updatePlayerTicks c pid i points w = Some w' \<and> same_refs w w'"
proof -
  let ?f = "\<lambda>p. p \<lparr> pa_ticks := (pa_ticks p)(i \<mapsto> pc_now c) \<rparr>"
  obtain w1 where w1: "mod_party ?f pid w = Some w1" "same_refs w w1"
    using mod_party_same [OF assms(2), of ?f] by auto
  obtain p1 where "pw_parties w1 pid = Some p1" using same_refs_parties [OF w1(2) assms(2)] by blast
  then obtain w2 where "updateSharedExperience c pid w1 = Some w2" "same_refs w1 w2"
    using updateSharedExperience_same [of w1 pid p1 c] same_refs_live [OF w1(2)] assms(1) by blast
  then show ?thesis using w1 assms(2,3) same_refs_trans by (auto simp: updatePlayerTicks_def live_def)
qed

lemma setSharedExperience_same:
  assumes "party_live w pid" "pw_parties w pid = Some p"
  shows "\<exists>b w'. setSharedExperience c pid i active w = Some (b, w') \<and> same_refs w w'"
proof -
  obtain w1 where w1: "mod_party (\<lambda>p. p \<lparr> pa_active := active \<rparr>) pid w = Some w1" "same_refs w w1"
    using mod_party_same [OF assms(2), of "\<lambda>p. p \<lparr> pa_active := active \<rparr>"] by auto
  obtain p1 where p1: "pw_parties w1 pid = Some p1" using same_refs_parties [OF w1(2) assms(2)] by blast
  have l1: "party_live w1 pid" using same_refs_live [OF w1(2)] assms(1) by simp
  obtain r where r: "canEnableSharedExperience c pid w1 = Some r" using canEnable_total [OF l1 p1] by blast
  obtain w2 where w2: "mod_party (\<lambda>p. p \<lparr> pa_enabled := r \<rparr>) pid w1 = Some w2" "same_refs w1 w2"
    using mod_party_same [OF p1, of "\<lambda>p. p \<lparr> pa_enabled := r \<rparr>"] by auto
  obtain p2 where "pw_parties w2 pid = Some p2" using same_refs_parties [OF w2(2) p1] by blast
  then have "updateAllPartyIcons pid w2 = Some ()" "updateAllPartyIcons pid w1 = Some ()"
    using broadcast_total [of w2 pid] broadcast_total [OF l1 p1] same_refs_live [OF w2(2)] l1
    by (simp_all add: updateAllPartyIcons_def)
  then show ?thesis using assms(2) w1 w2 r same_refs_trans [OF w1(2) w2(2)]
    by (cases active) (auto simp: setSharedExperience_def)
qed

subsection \<open>Disbanding\<close>

lemma foldM_mod_player:
  assumes "\<forall>i \<in> set xs. live w i" "\<And>q. f (f q) = f q"
  shows "foldM (mod_player f) xs w = Some (w \<lparr> pw_players :=
    (\<lambda>i. if i \<in> set xs then map_option f (pw_players w i) else pw_players w i) \<rparr>)"
  using assms(1)
proof (induction xs arbitrary: w)
  case Nil
  then show ?case by simp
next
  case (Cons x xs)
  obtain q where q: "pw_players w x = Some q" using Cons.prems by (auto simp: live_def)
  let ?w1 = "w \<lparr> pw_players := (pw_players w)(x \<mapsto> f q) \<rparr>"
  have "\<forall>i \<in> set xs. live ?w1 i" using Cons.prems by (simp add: live_def)
  from Cons.IH [OF this] have "foldM (mod_player f) xs ?w1 = Some (?w1 \<lparr> pw_players :=
      (\<lambda>i. if i \<in> set xs then map_option f (pw_players ?w1 i) else pw_players ?w1 i) \<rparr>)" .
  moreover have "(\<lambda>i. if i \<in> set xs then map_option f (pw_players ?w1 i) else pw_players ?w1 i)
      = (\<lambda>i. if i \<in> set (x # xs) then map_option f (pw_players w i) else pw_players w i)"
    using q assms(2) by (auto simp: fun_eq_iff)
  moreover have "mod_player f x w = Some ?w1" using q by (simp add: mod_player_def)
  ultimately show ?case by simp
qed

definition drop_party :: "party_player \<Rightarrow> party_player" where
  "drop_party q = q \<lparr> pp_party := None \<rparr>"

definition drop_invite :: "nat \<Rightarrow> party_player \<Rightarrow> party_player" where
  "drop_invite pid q = q \<lparr> pp_invites := removeAll pid (pp_invites q) \<rparr>"

lemma drop_simps [simp]:
  "pp_party (drop_party q) = None" "pp_invites (drop_party q) = pp_invites q"
  "pp_party (drop_invite pid q) = pp_party q" "pp_invites (drop_invite pid q) = removeAll pid (pp_invites q)"
  "drop_party (drop_party q) = drop_party q" "drop_invite pid (drop_invite pid q) = drop_invite pid q"
  by (simp_all add: drop_party_def drop_invite_def)

definition disband_player :: "nat \<Rightarrow> party \<Rightarrow> nat \<Rightarrow> party_player \<Rightarrow> party_player" where
  "disband_player pid p i q =
     (let q1 = (if i = pa_leader p then drop_party q else q);
          q2 = (if i \<in> set (pa_invites p) then drop_invite pid q1 else q1)
      in if i \<in> set (pa_members p) then drop_party q2 else q2)"

lemma disband_player_simps [simp]:
  "pp_party (disband_player pid p i q) = (if i = pa_leader p \<or> i \<in> set (pa_members p) then None else pp_party q)"
  "pp_invites (disband_player pid p i q) =
     (if i \<in> set (pa_invites p) then removeAll pid (pp_invites q) else pp_invites q)"
  by (simp_all add: disband_player_def Let_def)

definition disbanded :: "nat \<Rightarrow> party \<Rightarrow> party_world \<Rightarrow> party_world" where
  "disbanded pid p w = w \<lparr> pw_players := (\<lambda>i. map_option (disband_player pid p i) (pw_players w i)),
     pw_parties := (pw_parties w)(pid := None) \<rparr>"

lemma disband_eq:
  assumes "pw_parties w pid = Some p" "pc_onDisband c" "party_live w pid"
  shows "disband c pid w = Some (disbanded pid p w)"
proof -
  obtain q where q: "pw_players w (pa_leader p) = Some q" using live_of [OF assms(3,1)] by blast
  have sp: "setParty None = mod_player drop_party" "removePartyInvitation pid = mod_player (drop_invite pid)"
    by (simp_all add: setParty_def drop_party_def [abs_def] removePartyInvitation_def drop_invite_def [abs_def])
  let ?w1 = "w \<lparr> pw_players := (pw_players w)(pa_leader p \<mapsto> drop_party q) \<rparr>"
  let ?w2 = "?w1 \<lparr> pw_players := (\<lambda>i. if i \<in> set (pa_invites p) then map_option (drop_invite pid) (pw_players ?w1 i)
      else pw_players ?w1 i) \<rparr>"
  have l1: "\<forall>i \<in> set (pa_invites p). live ?w1 i" and l2: "\<forall>i \<in> set (pa_members p). live ?w2 i"
    using assms(1,3) by (auto simp: party_live_def core_def live_def)
  have "foldM (removePartyInvitation pid) (pa_invites p) ?w1 = Some ?w2"
    unfolding sp using foldM_mod_player [OF l1, of "drop_invite pid"] by simp
  moreover have "foldM (setParty None) (pa_members p) ?w2 = Some (?w2 \<lparr> pw_players :=
      (\<lambda>i. if i \<in> set (pa_members p) then map_option drop_party (pw_players ?w2 i) else pw_players ?w2 i) \<rparr>)"
    unfolding sp by (rule foldM_mod_player [OF l2]) simp
  moreover have "setParty None (pa_leader p) w = Some ?w1" by (simp add: sp mod_player_def q)
  moreover have "(\<lambda>i. if i \<in> set (pa_members p) then map_option drop_party (pw_players ?w2 i) else pw_players ?w2 i)
      = (\<lambda>i. map_option (disband_player pid p i) (pw_players w i))"
  proof
    fix i
    show "(if i \<in> set (pa_members p) then map_option drop_party (pw_players ?w2 i) else pw_players ?w2 i)
      = map_option (disband_player pid p i) (pw_players w i)"
      by (cases "pw_players w i") (auto simp: disband_player_def Let_def q)
  qed
  ultimately show ?thesis using assms(1,2) by (simp add: disband_def disbanded_def)
qed

lemma disbanded_simps:
  "live (disbanded pid p w) i = live w i" "core (disbanded pid p w) = (core w)(pid := None)"
  "pw_next (disbanded pid p w) = pw_next w"
  "belongs (disbanded pid p w) i pid' \<longleftrightarrow> belongs w i pid' \<and> i \<noteq> pa_leader p \<and> i \<notin> set (pa_members p)"
  "invited (disbanded pid p w) i pid' \<longleftrightarrow> invited w i pid' \<and> (i \<in> set (pa_invites p) \<longrightarrow> pid' \<noteq> pid)"
  by (auto simp: disbanded_def live_def core_def fun_eq_iff belongs_def invited_def split: if_splits)

text \<open>What has to hold of a party that is given up; it may have lost its leader.\<close>

definition closed_party :: "party_world \<Rightarrow> nat \<Rightarrow> party \<Rightarrow> bool" where
  "closed_party w pid p \<longleftrightarrow>
     (\<forall>i. belongs w i pid \<longrightarrow> i = pa_leader p \<or> i \<in> set (pa_members p))
     \<and> (\<forall>i pid'. (i = pa_leader p \<or> i \<in> set (pa_members p)) \<and> belongs w i pid' \<longrightarrow> pid' = pid)
     \<and> (\<forall>i. invited w i pid \<longrightarrow> i \<in> set (pa_invites p))"

lemma disbanded_ok:
  assumes "closed_party w pid p" "players_ok w" "\<And>pid'. pid' \<noteq> pid \<Longrightarrow> party_ok w pid'"
  shows "parties_ok (disbanded pid p w)"
proof -
  have "party_ok (disbanded pid p w) pid'" for pid'
  proof (cases "pid' = pid")
    case True
    then show ?thesis using assms(1) by (auto simp: party_ok_def disbanded_simps closed_party_def)
  next
    case False
    then show ?thesis using assms(1)
      by (intro party_ok_frame [OF assms(3)]) (auto simp: disbanded_simps closed_party_def)
  qed
  moreover have "players_ok (disbanded pid p w)"
    using assms(2) by (auto simp: players_ok_def disbanded_def distinct_removeAll)
  ultimately show ?thesis by (simp add: parties_ok_def)
qed

lemma party_ok_closed:
  assumes "\<And>pid'. party_ok w pid'" "pw_parties w pid = Some p"
  shows "closed_party w pid p"
proof -
  note d = party_okD [OF assms]
  have "pid' = pid" if "i = pa_leader p \<or> i \<in> set (pa_members p)" "belongs w i pid'" for i pid'
    using that d(1) [of i] by (auto simp: belongs_def)
  then show ?thesis using d(1,2) by (auto simp: closed_party_def)
qed

subsection \<open>Invitations\<close>

definition strip :: "nat \<Rightarrow> nat list \<Rightarrow> party_world \<Rightarrow> party_world" where
  "strip i L w = w \<lparr> pw_players := (pw_players w)(i := map_option (\<lambda>q. q \<lparr> pp_invites := L \<rparr>) (pw_players w i)) \<rparr>"

lemma strip_simps:
  "live (strip i L w) j = live w j" "core (strip i L w) = core w" "pw_next (strip i L w) = pw_next w"
  "belongs (strip i L w) j pid = belongs w j pid" "pw_parties (strip i L w) = pw_parties w"
  "invited (strip i L w) j pid = (if j = i then live w i \<and> pid \<in> set L else invited w j pid)"
  by (auto simp: strip_def live_def core_def belongs_def invited_def fun_eq_iff)

lemma strip_strip: "strip i L (strip i L' w) = strip i L w"
  by (cases "pw_players w i") (simp_all add: strip_def)

lemma strip_same: "pw_players w i = Some q \<Longrightarrow> strip i (pp_invites q) w = w"
  by (auto simp: strip_def fun_eq_iff intro!: party_world.equality)

lemma players_ok_strip: "players_ok (strip i L w) \<longleftrightarrow>
    (live w i \<longrightarrow> distinct L) \<and> (\<forall>j q. j \<noteq> i \<and> pw_players w j = Some q \<longrightarrow> distinct (pp_invites q))"
  by (cases "pw_players w i") (auto simp: players_ok_def strip_def live_def)

lemma strip_disbanded: "i \<notin> set (pa_invites p) \<Longrightarrow> strip i L (disbanded pid p w) = disbanded pid p (strip i L w)"
  by (cases "pw_players w i") (auto simp: strip_def disbanded_def fun_eq_iff disband_player_def Let_def drop_party_def drop_invite_def)

definition uninvited :: "nat \<Rightarrow> nat \<Rightarrow> party \<Rightarrow> party_world \<Rightarrow> party_world" where
  "uninvited pid i p w = w \<lparr> pw_parties := (pw_parties w)(pid \<mapsto> p \<lparr> pa_invites := remove1 i (pa_invites p) \<rparr>) \<rparr>"

lemma uninvited_simps:
  "live (uninvited pid i p w) = live w" "belongs (uninvited pid i p w) = belongs w"
  "invited (uninvited pid i p w) = invited w" "pw_next (uninvited pid i p w) = pw_next w"
  "pw_players (uninvited pid i p w) = pw_players w"
  "core (uninvited pid i p w) = (core w)(pid \<mapsto> (pa_leader p, pa_members p, remove1 i (pa_invites p)))"
  by (auto simp: uninvited_def live_def belongs_def invited_def core_def fun_eq_iff)

lemma uninvited_ok:
  assumes "parties_ok (strip i L w)" "pw_parties w pid = Some p" "live w i"
  shows "parties_ok (strip i (removeAll pid L) (uninvited pid i p w))"
proof -
  have ok: "party_ok (strip i L w) pid'" for pid' using assms(1) by (simp add: parties_ok_def)
  note d = party_okD [OF ok, unfolded strip_simps, OF assms(2)]
  have "party_ok (strip i (removeAll pid L) (uninvited pid i p w)) pid'" for pid'
  proof (cases "pid' = pid")
    case True
    have "invited w j pid = (j \<in> set (pa_invites p))" if "j \<noteq> i" for j using d(2) [of j] that by simp
    then show ?thesis using True d(1,3-6)
      by (simp add: party_ok_def strip_simps uninvited_simps)
  next
    case False
    then show ?thesis
      by (intro party_ok_frame [OF ok]) (auto simp: strip_simps uninvited_simps)
  qed
  moreover have "players_ok (strip i (removeAll pid L) (uninvited pid i p w))"
    using assms(1,3) by (auto simp: parties_ok_def players_ok_strip uninvited_simps distinct_removeAll)
  ultimately show ?thesis by (simp add: parties_ok_def)
qed

lemma removeInvite_strip:
  assumes "parties_ok (strip i L w)" "pid \<in> set L" "pw_players w i = Some q" "pc_onDisband c"
  shows "\<exists>w' q'. removeInvite c pid i False w = Some (True, w') \<and> parties_ok (strip i (removeAll pid L) w')
    \<and> pw_players w' i = Some q' \<and> pp_invites q' = pp_invites q \<and> (\<forall>j. live w' j = live w j)"
proof -
  have ok: "party_ok (strip i L w) pid'" for pid' using assms(1) by (simp add: parties_ok_def)
  have li: "live w i" using assms(3) by (simp add: live_def)
  have "invited (strip i L w) i pid" using assms(2) li by (simp add: strip_simps)
  from party_ok_deref [OF ok disjI2, OF this]
  obtain p where p: "pw_parties w pid = Some p" by (auto simp: strip_simps)
  note d = party_okD [OF ok, unfolded strip_simps, OF p]
  have ip: "i \<in> set (pa_invites p)" using d(2) [of i] assms(2) li by simp
  let ?p1 = "p \<lparr> pa_invites := remove1 i (pa_invites p) \<rparr>"
  let ?w1 = "uninvited pid i p w"
  have i1: "i \<notin> set (pa_invites ?p1)" using d(5) by simp
  have ok1: "parties_ok (strip i (removeAll pid L) ?w1)" by (rule uninvited_ok [OF assms(1) p li])
  have p1: "pw_parties ?w1 pid = Some ?p1" by (simp add: uninvited_def)
  have lv: "party_live ?w1 pid"
    using party_ok_live [of "strip i (removeAll pid L) ?w1" pid] ok1
    by (simp add: parties_ok_def party_live_def strip_simps)
  have m: "mod_party (\<lambda>p. p \<lparr> pa_invites := remove1 i (pa_invites p) \<rparr>) pid w = Some ?w1"
    by (simp add: mod_party_def p uninvited_def)
  obtain l where l: "pw_players ?w1 (pa_leader p) = Some l" using live_of [OF lv p1] by auto
  have q1: "pw_players ?w1 i = Some q" by (simp add: uninvited_simps assms(3))
  have e: "removeInvite c pid i False w = (if party_empty ?p1 then map_option (Pair True) (disband c pid ?w1) else Some (True, ?w1))"
    using ip by (simp add: removeInvite_def p m p1 l q1 Option.bind_map_option [symmetric] split: option.split)
      (simp add: option.case_eq_if map_option_case split: Option.bind_split)
  show ?thesis
  proof (cases "party_empty ?p1")
    case False
    then show ?thesis using e ok1 q1 by (auto simp: uninvited_simps)
  next
    case True
    have "closed_party (strip i (removeAll pid L) ?w1) pid ?p1"
      by (rule party_ok_closed) (use ok1 p1 in \<open>auto simp: parties_ok_def strip_simps\<close>)
    then have "parties_ok (disbanded pid ?p1 (strip i (removeAll pid L) ?w1))"
      using ok1 by (intro disbanded_ok) (auto simp: parties_ok_def)
    then have "parties_ok (strip i (removeAll pid L) (disbanded pid ?p1 ?w1))"
      by (simp only: strip_disbanded [OF i1])
    moreover have "pw_players (disbanded pid ?p1 ?w1) i = Some (disband_player pid ?p1 i q)"
      by (simp add: disbanded_def q1)
    moreover have "pp_invites (disband_player pid ?p1 i q) = pp_invites q" using i1 by simp
    ultimately show ?thesis
      using e True disband_eq [OF p1 assms(4) lv] by (simp add: disbanded_simps uninvited_simps)
  qed
qed

lemma removeInvite_True:
  assumes "pw_players w i = Some q"
  shows "removeInvite c pid i True w = removeInvite c pid i False (strip i (removeAll pid (pp_invites q)) w)
    \<or> (\<exists>p. pw_parties w pid = Some p \<and> i \<notin> set (pa_invites p))"
proof (cases "pw_parties w pid")
  case None
  then show ?thesis by (simp add: removeInvite_def strip_simps)
next
  case (Some p)
  show ?thesis
  proof (cases "i \<in> set (pa_invites p) \<and> pw_players w (pa_leader p) \<noteq> None")
    case True
    let ?L = "removeAll pid (pp_invites q)"
    have u: "mod_party (\<lambda>p. p \<lparr> pa_invites := remove1 i (pa_invites p) \<rparr>) pid w = Some (uninvited pid i p w)"
      "mod_party (\<lambda>p. p \<lparr> pa_invites := remove1 i (pa_invites p) \<rparr>) pid (strip i ?L w) = Some (uninvited pid i p (strip i ?L w))"
      using Some by (simp_all add: mod_party_def uninvited_def strip_simps)
    have s: "removePartyInvitation pid i (uninvited pid i p w) = Some (uninvited pid i p (strip i ?L w))"
      using assms by (simp add: removePartyInvitation_def mod_player_def uninvited_def strip_def)
    have l: "\<exists>l. pw_players (strip i ?L w) (pa_leader p) = Some l"
      using True strip_simps(1) [of i ?L w "pa_leader p"] by (simp add: live_def)
    then show ?thesis using True Some assms u s
      by (auto simp: removeInvite_def strip_simps uninvited_simps) (auto simp: strip_def)
  next
    case False
    then show ?thesis using Some
      by (cases "i \<in> set (pa_invites p)") (auto simp: removeInvite_def strip_simps mod_party_def strip_def)
  qed
qed

lemma removeInvite_ok:
  assumes "parties_ok w" "invited w i pid" "pc_onDisband c"
  shows "\<exists>w'. removeInvite c pid i True w = Some (True, w') \<and> parties_ok w' \<and> (\<forall>j. live w' j = live w j)"
proof -
  obtain q where q: "pw_players w i = Some q" "pid \<in> set (pp_invites q)" using assms(2) by (auto simp: invited_def)
  let ?L = "removeAll pid (pp_invites q)"
  let ?w1 = "strip i ?L w"
  have q1: "pw_players ?w1 i = Some (q \<lparr> pp_invites := ?L \<rparr>)" by (simp add: strip_def q(1))
  have s: "strip i (pp_invites q) ?w1 = w" by (simp add: strip_strip strip_same [OF q(1)])
  then obtain w' q' where w': "removeInvite c pid i False ?w1 = Some (True, w')"
    "parties_ok (strip i ?L w')" "pw_players w' i = Some q'" "pp_invites q' = ?L" "\<forall>j. live w' j = live ?w1 j"
    using removeInvite_strip [of i "pp_invites q" ?w1 pid, OF _ q(2) q1 assms(3)] assms(1) by auto
  have "strip i ?L w' = w'" using strip_same [OF w'(3)] w'(4) by simp
  moreover have "\<not> (\<exists>p. pw_parties w pid = Some p \<and> i \<notin> set (pa_invites p))"
    using party_okD(2) [of w pid _ i] assms(1,2) by (auto simp: parties_ok_def)
  ultimately show ?thesis using w' removeInvite_True [OF q(1), of c pid] by (auto simp: strip_simps)
qed

lemma clearPartyInvitations_ok:
  assumes "parties_ok w" "pw_players w i = Some q" "pc_onDisband c"
  shows "\<exists>w'. clearPartyInvitations c i w = Some w' \<and> parties_ok w' \<and> (\<forall>j. live w' j = live w j)
    \<and> (\<forall>pid. \<not> invited w' i pid)"
proof -
  have "\<exists>w' q'. foldM (clear_one c i L) rest v = Some w' \<and> parties_ok (strip i [] w')
      \<and> pw_players w' i = Some q' \<and> pp_invites q' = L \<and> (\<forall>j. live w' j = live v j)"
    if "parties_ok (strip i rest v)" "pw_players v i = Some r" "pp_invites r = L" for L rest v r
    using that
  proof (induction rest arbitrary: v r)
    case Nil
    then show ?case by simp
  next
    case (Cons pid rest)
    from removeInvite_strip [OF Cons.prems(1) list.set_intros(1) Cons.prems(2) assms(3)]
    obtain v1 r1 where v1: "removeInvite c pid i False v = Some (True, v1)"
      "parties_ok (strip i (removeAll pid (pid # rest)) v1)" "pw_players v1 i = Some r1"
      "pp_invites r1 = pp_invites r" "\<forall>j. live v1 j = live v j"
      by blast
    have "distinct (pid # rest)"
      using Cons.prems(1,2) players_ok_strip [of i "pid # rest" v] by (simp add: parties_ok_def live_def)
    then have "removeAll pid (pid # rest) = rest" by (simp add: removeAll_id)
    then obtain w' q' where "foldM (clear_one c i L) rest v1 = Some w'" "parties_ok (strip i [] w')"
      "pw_players w' i = Some q'" "pp_invites q' = L" "\<forall>j. live w' j = live v1 j"
      using Cons.IH [of v1 r1] v1(2-4) Cons.prems(3) by auto
    moreover have "clear_one c i L pid v = Some v1" using v1(1,3,4) Cons.prems(3) by (simp add: clear_one_def)
    ultimately show ?case using v1(5) by simp
  qed
  from this [of "pp_invites q" w q "pp_invites q"] obtain w' q' where
    w': "foldM (clear_one c i (pp_invites q)) (pp_invites q) w = Some w'" "parties_ok (strip i [] w')"
      "pw_players w' i = Some q'" "\<forall>j. live w' j = live w j"
    using assms(1,2) strip_same by auto
  have "mod_player (\<lambda>q. q \<lparr> pp_invites := [] \<rparr>) i w' = Some (strip i [] w')"
    by (simp add: mod_player_def w'(3) strip_def)
  then show ?thesis using w' assms(2) by (simp add: clearPartyInvitations_def strip_simps)
qed

lemma invitePlayer_ok:
  assumes "parties_ok w" "pw_parties w pid = Some p" "pw_players w i = Some q"
  shows "\<exists>b w'. invitePlayer pid i w = Some (b, w') \<and> parties_ok w'"
proof (cases "i \<in> set (pa_invites p)")
  case True
  then show ?thesis using assms by (intro exI [of _ False]) (simp add: invitePlayer_def)
next
  case False
  have ok: "party_ok w pid'" for pid' using assms(1) by (simp add: parties_ok_def)
  note d = party_okD [OF ok assms(2)]
  have ni: "pid \<notin> set (pp_invites q)" using d(2) [of i] False assms(3) by (simp add: invited_def)
  obtain l where l: "pw_players w (pa_leader p) = Some l" using live_of [OF party_ok_live [OF ok] assms(2)] by blast
  let ?w' = "w \<lparr> pw_parties := (pw_parties w)(pid \<mapsto> p \<lparr> pa_invites := pa_invites p @ [i] \<rparr>),
      pw_players := (pw_players w)(i \<mapsto> q \<lparr> pp_invites := pid # pp_invites q \<rparr>) \<rparr>"
  have e: "invitePlayer pid i w = Some (True, ?w')"
    using assms(2,3) False l ni by (simp add: invitePlayer_def mod_party_def addPartyInvitation_def mod_player_def)
  have b: "belongs ?w' j pid' = belongs w j pid'" for j pid' using assms(3) by (auto simp: belongs_def)
  have v: "invited ?w' j pid' \<longleftrightarrow> invited w j pid' \<or> (j = i \<and> pid' = pid)" for j pid'
    using assms(3) by (auto simp: invited_def)
  have c: "core ?w' = (core w)(pid \<mapsto> (pa_leader p, pa_members p, pa_invites p @ [i]))"
    by (auto simp: core_def fun_eq_iff)
  have "party_ok ?w' pid'" for pid'
  proof (cases "pid' = pid")
    case True
    then show ?thesis using d False by (auto simp: party_ok_def b v c)
  next
    case False
    then show ?thesis by (intro party_ok_frame [OF ok]) (auto simp: b v c)
  qed
  moreover have "players_ok ?w'" using assms(1,3) ni by (auto simp: parties_ok_def players_ok_def)
  ultimately have "parties_ok ?w'" unfolding parties_ok_def by blast
  then show ?thesis using e by blast
qed

lemma newParty_ok:
  assumes "parties_ok w" "pw_players w i = Some q" "pp_party q = None"
  shows "\<exists>w' p. newParty i w = Some (pw_next w, w') \<and> parties_ok w' \<and> pw_parties w' (pw_next w) = Some p
    \<and> pa_leader p = i \<and> (\<forall>j. live w' j = live w j)"
proof -
  let ?pid = "pw_next w"
  let ?p = "\<lparr> pa_leader = i, pa_members = [], pa_invites = [], pa_ticks = Map.empty, pa_rate = 20,
    pa_active = False, pa_enabled = False \<rparr>"
  let ?w' = "w \<lparr> pw_players := (pw_players w)(i \<mapsto> q \<lparr> pp_party := Some ?pid \<rparr>), pw_next := Suc ?pid,
    pw_parties := (pw_parties w)(?pid \<mapsto> ?p) \<rparr>"
  have ok: "party_ok w pid'" for pid' using assms(1) by (simp add: parties_ok_def)
  have fresh: "core w ?pid = None" using ok [of ?pid] by (auto simp: party_ok_def split: option.splits)
  have none: "\<not> belongs w j ?pid" "\<not> invited w j ?pid" for j using ok [of ?pid] fresh by (auto simp: party_ok_def)
  have b: "belongs ?w' j pid' \<longleftrightarrow> belongs w j pid' \<or> (j = i \<and> pid' = ?pid)" for j pid'
    using assms(2,3) by (auto simp: belongs_def)
  have v: "invited ?w' j pid' = invited w j pid'" for j pid' using assms(2) by (auto simp: invited_def)
  have c: "core ?w' = (core w)(?pid \<mapsto> (i, [], []))" by (auto simp: core_def fun_eq_iff)
  have "party_ok ?w' pid'" for pid'
  proof (cases "pid' = ?pid")
    case True
    then show ?thesis using none by (auto simp: party_ok_def b v c)
  next
    case False
    then show ?thesis by (intro party_ok_frame [OF ok]) (auto simp: b v c)
  qed
  moreover have "players_ok ?w'" using assms(1,2) by (auto simp: parties_ok_def players_ok_def)
  moreover have "newParty i w = Some (?pid, ?w')"
    using assms(2) by (simp add: newParty_def setParty_def mod_player_def Let_def)
  ultimately show ?thesis using assms(2) by (auto simp: parties_ok_def live_def)
qed

end
