(* ===== verification/Party_Commands.thy ===== *)
theory Party_Commands
  imports Party_Safety
begin

text \<open>
  Leaving, joining and handing over a party, and the commands of the players: every sequence of
  commands keeps the invariant of \<open>Party_Safety\<close> and never follows a dangling pointer, as long as the
  scripts do not veto; and what a veto leads to.
\<close>

subsection \<open>Members\<close>

lemma players_ok_players: "pw_players w' = pw_players w \<Longrightarrow> players_ok w' = players_ok w"
  by (simp add: players_ok_def)

lemma players_refs:
  assumes "pw_players w' = pw_players w"
  shows "belongs w' = belongs w" "invited w' = invited w" "live w' = live w"
  using assms by (auto simp: belongs_def invited_def live_def fun_eq_iff)

lemma passPartyLeadership_ok:
  assumes "parties_ok w" "pw_parties w pid = Some p" "i \<in> set (pa_members p)"
  shows "\<exists>w'. passPartyLeadership c pid i w = Some (True, w') \<and> parties_ok w'
    \<and> pw_players w' = pw_players w
    \<and> core w' = (core w)(pid \<mapsto> (i, pa_leader p # remove1 i (pa_members p), pa_invites p))"
proof -
  have ok: "party_ok w pid'" for pid' using assms(1) by (simp add: parties_ok_def)
  note d = party_okD [OF ok assms(2)] and lv = party_ok_live [OF ok [of pid]]
  obtain q where q: "pw_players w i = Some q" "pp_party q = Some pid" "pa_leader p \<noteq> i"
    using d(1) [of i] d(3) assms(3) by (auto simp: belongs_def)
  let ?p1 = "p \<lparr> pa_members := remove1 i (pa_members p) \<rparr>"
  let ?p2 = "p \<lparr> pa_leader := i, pa_members := pa_leader p # remove1 i (pa_members p) \<rparr>"
  let ?w1 = "w \<lparr> pw_parties := (pw_parties w)(pid \<mapsto> ?p1) \<rparr>"
  let ?w2 = "w \<lparr> pw_parties := (pw_parties w)(pid \<mapsto> ?p2) \<rparr>"
  have p1: "pw_parties ?w1 pid = Some ?p1" and p2: "pw_parties ?w2 pid = Some ?p2" by simp_all
  have c2: "core ?w2 = (core w)(pid \<mapsto> (i, pa_leader p # remove1 i (pa_members p), pa_invites p))"
    by (auto simp: core_def fun_eq_iff)
  have r2: "belongs ?w2 = belongs w" "invited ?w2 = invited w" "players_ok ?w2 = players_ok w"
    by (rule players_refs players_ok_players; simp)+
  have "party_ok ?w2 pid'" for pid'
  proof (cases "pid' = pid")
    case True
    have S: "set (remove1 i (pa_members p)) = set (pa_members p) - {i}" by (rule distinct_remove1_set [OF d(4)])
    have "belongs w j pid \<longleftrightarrow> j = i \<or> j = pa_leader p \<or> j \<in> set (remove1 i (pa_members p))" for j
      using d(1) [of j] assms(3) unfolding S by blast
    moreover have "distinct (i # pa_leader p # remove1 i (pa_members p))"
      using d(3,4) q(3) unfolding distinct.simps S list.set by (auto simp: distinct_remove1)
    ultimately show ?thesis using True d(2,5,6) by (simp add: party_ok_def r2 c2)
  next
    case False
    then show ?thesis by (intro party_ok_frame [OF ok]) (auto simp: r2 c2)
  qed
  then have ok2: "parties_ok ?w2" using assms(1) r2(3) unfolding parties_ok_def by blast
  have "party_live ?w1 pid" using lv assms(2) notin_set_remove1
    by (fastforce simp: party_live_def core_def live_def)
  then have b1: "broadcastPartyMessage True pid ?w1 = Some ()" by (rule broadcast_total [OF _ p1])
  have lv2: "party_live ?w2 pid" using ok2 by (intro party_ok_live) (simp add: parties_ok_def)
  obtain w3 where w3: "updateSharedExperience c pid ?w2 = Some w3" "same_refs ?w2 w3"
    using updateSharedExperience_same [OF lv2 p2] by blast
  obtain p3 where p3: "pw_parties w3 pid = Some p3" using same_refs_parties [OF w3(2) p2] by blast
  have "party_live w3 pid" using same_refs_live [OF w3(2)] lv2 by simp
  then have b3: "broadcastPartyMessage True pid w3 = Some ()" by (rule broadcast_total [OF _ p3])
  have "passPartyLeadership c pid i w = Some (True, w3)"
    using assms(2) q b1 w3(1) b3 by (simp add: passPartyLeadership_def mod_party_def)
  then show ?thesis using ok2 same_refs_ok [OF w3(2)] same_refs_rel(4,6) [OF w3(2)] c2 by simp
qed

text \<open>What remains of a party when a player leaves.\<close>

definition leave_core :: "nat \<Rightarrow> nat \<times> nat list \<times> nat list \<Rightarrow> (nat \<times> nat list \<times> nat list) option" where
  "leave_core i p = (case p of (leader, members, invites) \<Rightarrow>
     if i = leader then
       (if members = [] \<or> (length members = 1 \<and> invites = []) then None
        else Some (hd members, tl members, invites))
     else (if remove1 i members = [] \<and> invites = [] then None
           else Some (leader, remove1 i members, invites)))"

lemma remove1_leader: "l \<notin> set ms \<Longrightarrow> ms \<noteq> [] \<Longrightarrow> remove1 l (l # remove1 (hd ms) ms) = tl ms"
  by (cases ms) auto

text \<open>The state after the player is off the list and lost its party, before the disbanding.\<close>

definition left_party :: "nat \<Rightarrow> nat \<Rightarrow> party_world \<Rightarrow> party_world" where
  "left_party pid i w = w \<lparr>
     pw_parties := (pw_parties w)(pid := map_option (\<lambda>p. p \<lparr> pa_members := remove1 i (pa_members p) \<rparr>) (pw_parties w pid)),
     pw_players := (pw_players w)(i := map_option drop_party (pw_players w i)) \<rparr>"

lemma left_party_simps:
  "live (left_party pid i w) = live w"
  "core (left_party pid i w) = (core w)(pid := map_option (\<lambda>(l, ms, is). (l, remove1 i ms, is)) (core w pid))"
  "pw_next (left_party pid i w) = pw_next w"
  "belongs (left_party pid i w) j pid' \<longleftrightarrow> belongs w j pid' \<and> j \<noteq> i"
  "invited (left_party pid i w) j pid' = invited w j pid'"
  by (auto simp: left_party_def live_def core_def fun_eq_iff belongs_def invited_def option.map_comp o_def)

lemma left_party_others:
  assumes "parties_ok w" "belongs w i pid" "pid' \<noteq> pid"
  shows "party_ok (left_party pid i w) pid'"
proof -
  have nb: "\<not> belongs w i pid'" using assms(2,3) by (auto simp: belongs_def)
  have ok: "party_ok w pid'" using assms(1) by (simp add: parties_ok_def)
  show ?thesis
    by (rule party_ok_frame [OF ok]) (use nb assms(3) in \<open>auto simp: left_party_simps\<close>)
qed

lemma left_party_players_ok: "players_ok w \<Longrightarrow> players_ok (left_party pid i w)"
  by (cases "pw_players w i") (auto simp: players_ok_def left_party_def)

lemma left_party_member_ok:
  assumes "parties_ok w" "core w pid = Some (l, ms, is)" "i \<in> set ms"
  shows "parties_ok (left_party pid i w)"
proof -
  have ok: "party_ok w pid" using assms(1) by (simp add: parties_ok_def)
  then have b: "belongs w i pid" using assms(2,3) by (simp add: party_ok_def)
  have d: "belongs w j pid \<longleftrightarrow> j = l \<or> j \<in> set ms" "invited w j pid \<longleftrightarrow> j \<in> set is" "l \<notin> set ms"
    "distinct ms" "distinct is" "pid < pw_next w" for j
    using ok by (auto simp: party_ok_def assms(2))
  have S: "set (remove1 i ms) = set ms - {i}" by (rule distinct_remove1_set [OF d(4)])
  have "belongs w j pid \<and> j \<noteq> i \<longleftrightarrow> j = l \<or> j \<in> set (remove1 i ms)" for j
    using d(1) [of j] d(3) assms(3) unfolding S by blast
  then have "party_ok (left_party pid i w) pid"
    using d(2-6) by (simp add: party_ok_def left_party_simps assms(2) S distinct_remove1)
  then have "party_ok (left_party pid i w) pid'" for pid'
    using left_party_others [OF assms(1) b] by (cases "pid' = pid") simp_all
  then show ?thesis using assms(1) left_party_players_ok by (simp add: parties_ok_def)
qed

lemma left_party_leader_closed:
  assumes "parties_ok w" "pw_parties w pid = Some p" "pa_leader p = i"
  shows "closed_party (left_party pid i w) pid (p \<lparr> pa_members := remove1 i (pa_members p) \<rparr>)"
proof -
  have ok: "party_ok w pid'" for pid' using assms(1) by (simp add: parties_ok_def)
  note d = party_okD [OF ok assms(2)]
  have "remove1 i (pa_members p) = pa_members p" using d(3) assms(3) by (simp add: remove1_idem)
  moreover have "pid' = pid" if "j \<in> set (pa_members p)" "belongs w j pid'" for j pid'
    using that d(1) [of j] by (auto simp: belongs_def)
  ultimately show ?thesis using d(1-3) assms(3)
    by (auto simp: closed_party_def left_party_simps)
qed

text \<open>The calls between the removal and the disbanding only touch the shared experience.\<close>

lemma leave_updates:
  assumes "party_live w pid" "pw_parties w pid = Some p"
  shows "\<exists>w1 w2 w3 p3. broadcastPartyMessage False pid w = Some () \<and> updateSharedExperience c pid w = Some w1
    \<and> updateVocationsList pid w1 = Some w2 \<and> clearPlayerPoints c pid i w2 = Some w3
    \<and> broadcastPartyMessage False pid w3 = Some () \<and> same_refs w w3 \<and> pw_parties w3 pid = Some p3
    \<and> pa_leader p3 = pa_leader p \<and> pa_members p3 = pa_members p \<and> pa_invites p3 = pa_invites p"
proof -
  obtain w1 where w1: "updateSharedExperience c pid w = Some w1" "same_refs w w1"
    using updateSharedExperience_same [OF assms] by blast
  obtain p1 where p1: "pw_parties w1 pid = Some p1" using same_refs_parties [OF w1(2) assms(2)] by blast
  have l1: "party_live w1 pid" using same_refs_live [OF w1(2)] assms(1) by simp
  obtain w2 where w2: "updateVocationsList pid w1 = Some w2" "same_refs w1 w2"
    using updateVocationsList_same [OF l1 p1] by blast
  obtain p2 where p2: "pw_parties w2 pid = Some p2" using same_refs_parties [OF w2(2) p1] by blast
  have l2: "party_live w2 pid" using same_refs_live [OF w2(2)] l1 by simp
  obtain w3 where w3: "clearPlayerPoints c pid i w2 = Some w3" "same_refs w2 w3"
    using clearPlayerPoints_same [OF l2 p2] by blast
  have s: "same_refs w w3" using same_refs_trans [OF w1(2) same_refs_trans [OF w2(2) w3(2)]] .
  obtain p3 where p3: "pw_parties w3 pid = Some p3" "pa_leader p3 = pa_leader p" "pa_members p3 = pa_members p"
    "pa_invites p3 = pa_invites p" using same_refs_parties [OF s assms(2)] by blast
  have "party_live w3 pid" using same_refs_live [OF s] assms(1) by simp
  then show ?thesis using broadcast_total [OF assms] broadcast_total [of w3, OF _ p3(1)] w1(1) w2(1) w3(1) s p3
    by blast
qed

lemma leave_rest:
  assumes "party_live (left_party pid i w) pid" "pw_parties w pid = Some p" "live w i" "pc_onDisband c"
    "players_ok w" "\<And>pid'. pid' \<noteq> pid \<Longrightarrow> party_ok (left_party pid i w) pid'"
    "missing \<or> (pa_members p' = [] \<and> pa_invites p = []) \<Longrightarrow> closed_party (left_party pid i w) pid p'"
    "\<not> missing \<Longrightarrow> party_ok (left_party pid i w) pid" "p' = p \<lparr> pa_members := remove1 i (pa_members p) \<rparr>"
  shows "\<exists>w'. leaveParty_rest c pid i missing w = Some (True, w') \<and> parties_ok w' \<and> (\<forall>j. live w' j = live w j)
      \<and> core w' = (core w)(pid := (if missing \<or> party_empty p' then None else Some (pa_leader p, pa_members p', pa_invites p)))
      \<and> (\<forall>pid'. invited w' i pid' \<longrightarrow> invited w i pid') \<and> (\<forall>pid'. \<not> belongs w' i pid')"
proof -
  let ?v = "left_party pid i w"
  obtain q where q: "pw_players w i = Some q" using assms(3) by (auto simp: live_def)
  have m: "mod_party (\<lambda>p. p \<lparr> pa_members := remove1 i (pa_members p) \<rparr>) pid w =
      Some (w \<lparr> pw_parties := (pw_parties w)(pid \<mapsto> p') \<rparr>)" by (simp add: mod_party_def assms(2,9))
  have s: "setParty None i (w \<lparr> pw_parties := (pw_parties w)(pid \<mapsto> p') \<rparr>) = Some ?v"
    by (simp add: setParty_def mod_player_def q left_party_def assms(2,9) drop_party_def)
  have v: "pw_parties ?v pid = Some p'" by (simp add: left_party_def assms(2,9))
  obtain w1 w2 w3 p3 where u: "broadcastPartyMessage False pid ?v = Some ()" "updateSharedExperience c pid ?v = Some w1"
    "updateVocationsList pid w1 = Some w2" "clearPlayerPoints c pid i w2 = Some w3"
    "broadcastPartyMessage False pid w3 = Some ()" "same_refs ?v w3" "pw_parties w3 pid = Some p3"
    "pa_leader p3 = pa_leader p'" "pa_members p3 = pa_members p'" "pa_invites p3 = pa_invites p'"
    using leave_updates [OF assms(1) v, of c i] by blast
  note r = same_refs_rel [OF u(6)]
  have e: "party_empty p3 = party_empty p'" by (simp add: party_empty_def u(9,10))
  have c3: "core w3 = (core w)(pid \<mapsto> (pa_leader p, pa_members p', pa_invites p))"
    by (simp add: r left_party_simps assms(2,9) core_def fun_eq_iff)
  show ?thesis
  proof (cases "missing \<or> party_empty p'")
    case True
    have l3: "party_live w3 pid" using same_refs_live [OF u(6)] assms(1) by simp
    have cl: "closed_party w3 pid p3"
      using assms(7,9) True by (auto simp: closed_party_def r u party_empty_def)
    have "parties_ok (disbanded pid p3 w3)"
    proof (rule disbanded_ok [OF cl])
      show "players_ok w3" using assms(5) left_party_players_ok same_refs_players_ok [OF u(6)] by simp
      show "party_ok w3 pid'" if "pid' \<noteq> pid" for pid'
        using assms(6) [OF that] same_refs_party_ok [OF u(6)] by simp
    qed
    moreover have "\<not> belongs (disbanded pid p3 w3) i pid'" for pid'
      by (simp add: disbanded_simps r left_party_simps)
    moreover have "invited (disbanded pid p3 w3) i pid' \<Longrightarrow> invited w i pid'" for pid'
      by (simp add: disbanded_simps r left_party_simps)
    moreover have "core (disbanded pid p3 w3) = (core w)(pid := None)"
      by (simp add: disbanded_simps c3)
    ultimately show ?thesis using True disband_eq [OF u(7) assms(4) l3] m s u e
      by (simp add: leaveParty_rest_def disbanded_simps r left_party_simps)
  next
    case False
    have "parties_ok ?v"
      unfolding parties_ok_def using assms(5,6,8) left_party_players_ok False by metis
    then have "parties_ok w3" using same_refs_ok [OF u(6)] by simp
    then show ?thesis using False m s u e c3 by (simp add: leaveParty_rest_def r left_party_simps)
  qed
qed

lemma leaveParty_result:
  assumes "parties_ok w" "belongs w i pid" "pc_onLeave c" "pc_onDisband c"
  shows "\<exists>w'. leaveParty c pid i w = Some (True, w') \<and> parties_ok w' \<and> (\<forall>j. live w' j = live w j)
    \<and> core w' = (core w)(pid := leave_core i (the (core w pid)))
    \<and> (\<forall>pid'. invited w' i pid' \<longrightarrow> invited w i pid') \<and> (\<forall>pid'. \<not> belongs w' i pid')"
proof -
  have ok: "party_ok w pid'" for pid' using assms(1) by (simp add: parties_ok_def)
  obtain p where p: "pw_parties w pid = Some p" using party_ok_deref [OF ok] assms(2) by blast
  note d = party_okD [OF ok p]
  obtain q where q: "pw_players w i = Some q" "pp_party q = Some pid" using assms(2) by (auto simp: belongs_def)
  have li: "live w i" and pl: "players_ok w" using q(1) assms(1) by (auto simp: live_def parties_ok_def)
  have ci: "core w pid = Some (pa_leader p, pa_members p, pa_invites p)" by (simp add: core_def p)
  let ?p' = "p \<lparr> pa_members := remove1 i (pa_members p) \<rparr>"
  have others: "\<And>pid'. pid' \<noteq> pid \<Longrightarrow> party_ok (left_party pid i w) pid'"
    using left_party_others [OF assms(1,2)] by blast
  have lvw: "party_live (left_party pid i w) pid"
    using party_ok_live [OF ok [of pid]] notin_set_remove1
    by (fastforce simp: party_live_def left_party_simps ci)
  show ?thesis
  proof (cases "pa_leader p = i")
    case leader: True
    have ni: "i \<notin> set (pa_members p)" using d(3) leader by simp
    then have rm: "remove1 i (pa_members p) = pa_members p" by (simp add: remove1_idem)
    show ?thesis
    proof (cases "pa_members p = [] \<or> (length (pa_members p) = 1 \<and> pa_invites p = [])")
      case True
      then have m: "(if pa_members p \<noteq> [] then
                 (if length (pa_members p) = 1 \<and> pa_invites p = [] then Some (True, w)
                  else do { (_, w) \<leftarrow> passPartyLeadership c pid (hd (pa_members p)) w; Some (False, w) })
               else Some (True, w)) = Some (True, w)" by auto
      have lc: "leave_core i (the (core w pid)) = None" using True leader by (simp add: leave_core_def ci)
      from leave_rest [OF lvw p li assms(4) pl others _ _ refl, of True]
        left_party_leader_closed [OF assms(1) p leader]
      show ?thesis unfolding leaveParty_def
        using p q leader assms(3) m lc by simp
    next
      case False
      let ?h = "hd (pa_members p)"
      have h: "?h \<in> set (pa_members p)" using False by simp
      obtain w1 where w1: "passPartyLeadership c pid ?h w = Some (True, w1)" "parties_ok w1"
        "pw_players w1 = pw_players w"
        "core w1 = (core w)(pid \<mapsto> (?h, i # remove1 ?h (pa_members p), pa_invites p))"
        using passPartyLeadership_ok [OF assms(1) p h, of c] leader by auto
      obtain p1 where p1: "pw_parties w1 pid = Some p1" "pa_leader p1 = ?h"
        "pa_members p1 = i # remove1 ?h (pa_members p)" "pa_invites p1 = pa_invites p"
        using w1(4) core_Some [of w1 pid] by (metis fun_upd_same)
      have m: "(if pa_members p \<noteq> [] then
                 (if length (pa_members p) = 1 \<and> pa_invites p = [] then Some (True, w)
                  else do { (_, w) \<leftarrow> passPartyLeadership c pid (hd (pa_members p)) w; Some (False, w) })
               else Some (True, w)) = Some (False, w1)" using False w1(1) by auto
      note r1 = players_refs [OF w1(3)]
      have ok1: "parties_ok (left_party pid i w1)"
        using left_party_member_ok [OF w1(2), of pid ?h "i # remove1 ?h (pa_members p)" "pa_invites p" i] w1(4) by simp
      have tl: "remove1 i (pa_members p1) = tl (pa_members p)"
        using remove1_leader [OF ni] False by (simp add: p1(3))
      have ne: "\<not> party_empty (p1 \<lparr> pa_members := remove1 i (pa_members p1) \<rparr>)"
        using False by (cases "pa_members p") (auto simp: party_empty_def tl p1(4))
      have lc: "leave_core i (the (core w pid)) = Some (?h, tl (pa_members p), pa_invites p)"
        using False leader by (auto simp: leave_core_def ci)
      have o1: "\<And>pid'. party_ok (left_party pid i w1) pid'" using ok1 by (simp add: parties_ok_def)
      have cl1: "closed_party (left_party pid i w1) pid (p1 \<lparr> pa_members := remove1 i (pa_members p1) \<rparr>)"
        by (rule party_ok_closed [OF o1]) (simp add: left_party_def p1(1))
      have l1: "live w1 i" and pl1: "players_ok w1" using li pl players_ok_players [OF w1(3)] by (simp_all add: r1)
      from leave_rest [OF party_ok_live [OF o1] p1(1) l1 assms(4) pl1 o1 cl1 o1 refl, of False]
      obtain w' where w': "leaveParty_rest c pid i False w1 = Some (True, w')" "parties_ok w'" "\<forall>j. live w' j = live w1 j"
        "core w' = (core w1)(pid \<mapsto> (?h, tl (pa_members p), pa_invites p))"
        "\<forall>pid'. invited w' i pid' \<longrightarrow> invited w1 i pid'" "\<forall>pid'. \<not> belongs w' i pid'"
        using ne by (auto simp: tl p1(2,4))
      have "leaveParty c pid i w = Some (True, w')"
        unfolding leaveParty_def using p q leader assms(3) m w'(1) by simp
      then show ?thesis using w'(2-6) by (simp add: lc w1(4) r1)
    qed
  next
    case False
    then have im: "i \<in> set (pa_members p)" using d(1) [of i] assms(2) by auto
    have o1: "\<And>pid'. party_ok (left_party pid i w) pid'"
      using left_party_member_ok [OF assms(1) ci im] by (simp add: parties_ok_def)
    have cl: "closed_party (left_party pid i w) pid ?p'"
      by (rule party_ok_closed [OF o1]) (simp add: left_party_def p)
    have lc: "leave_core i (the (core w pid)) = (if party_empty ?p' then None
        else Some (pa_leader p, remove1 i (pa_members p), pa_invites p))"
      using False by (auto simp: leave_core_def ci party_empty_def)
    have "leaveParty c pid i w = leaveParty_rest c pid i False w"
      using p q False assms(3) by (simp add: leaveParty_def)
    with leave_rest [OF lvw p li assms(4) pl o1 cl o1 refl, of False] lc
    show ?thesis by (cases "party_empty ?p'") simp_all
  qed
qed

lemma joinParty_ok:
  assumes "parties_ok w" "pw_parties w pid = Some p" "pw_players w i = Some q" "pp_party q = None"
  shows "\<exists>b w'. joinParty c pid i w = Some (b, w') \<and> parties_ok w'"
proof (cases "pc_onJoin c \<and> i \<in> set (pa_invites p)")
  case False
  then show ?thesis using assms by (intro exI [of _ False]) (auto simp: joinParty_def)
next
  case True
  have ok: "party_ok w pid'" for pid' using assms(1) by (simp add: parties_ok_def)
  note d = party_okD [OF ok assms(2)] and lv = party_ok_live [OF ok [of pid]]
  have nb: "\<not> belongs w i pid'" for pid' using assms(3,4) by (simp add: belongs_def)
  let ?q' = "q \<lparr> pp_party := Some pid, pp_invites := removeAll pid (pp_invites q) \<rparr>"
  let ?p1 = "p \<lparr> pa_invites := remove1 i (pa_invites p) \<rparr>"
  let ?p2 = "p \<lparr> pa_invites := remove1 i (pa_invites p), pa_members := pa_members p @ [i] \<rparr>"
  let ?w1 = "w \<lparr> pw_parties := (pw_parties w)(pid \<mapsto> ?p1) \<rparr>"
  let ?w2 = "w \<lparr> pw_parties := (pw_parties w)(pid \<mapsto> ?p2), pw_players := (pw_players w)(i \<mapsto> ?q') \<rparr>"
  have p1: "pw_parties ?w1 pid = Some ?p1" and p2: "pw_parties ?w2 pid = Some ?p2" by simp_all
  have "party_live ?w1 pid" using lv assms(2) by (auto simp: party_live_def core_def live_def)
  then have b1: "broadcastPartyMessage False pid ?w1 = Some ()" by (rule broadcast_total [OF _ p1])
  have b: "belongs ?w2 j pid' \<longleftrightarrow> belongs w j pid' \<or> (j = i \<and> pid' = pid)" for j pid'
    using assms(3,4) by (auto simp: belongs_def)
  have v: "invited ?w2 j pid' \<longleftrightarrow> invited w j pid' \<and> \<not> (j = i \<and> pid' = pid)" for j pid'
    using assms(3) by (auto simp: invited_def)
  have c: "core ?w2 = (core w)(pid \<mapsto> (pa_leader p, pa_members p @ [i], remove1 i (pa_invites p)))"
    by (auto simp: core_def fun_eq_iff)
  have pk: "party_ok ?w2 pid'" for pid'
  proof (cases "pid' = pid")
    case True
    then show ?thesis using d nb [of pid] by (auto simp: party_ok_def b v c)
  next
    case False
    then show ?thesis by (intro party_ok_frame [OF ok]) (auto simp: b v c)
  qed
  moreover have "players_ok ?w2"
    using assms(1,3) by (auto simp: parties_ok_def players_ok_def distinct_removeAll)
  ultimately have ok2: "parties_ok ?w2" unfolding parties_ok_def by blast
  have l2: "party_live ?w2 pid" by (rule party_ok_live [OF pk])
  obtain w3 where w3: "updateSharedExperience c pid ?w2 = Some w3" "same_refs ?w2 w3"
    using updateSharedExperience_same [OF l2 p2] by blast
  obtain p3 where p3: "pw_parties w3 pid = Some p3" using same_refs_parties [OF w3(2) p2] by blast
  have "party_live w3 pid" using same_refs_live [OF w3(2)] l2 by simp
  then obtain w4 where w4: "updateVocationsList pid w3 = Some w4" "same_refs w3 w4"
    using updateVocationsList_same [OF _ p3] by blast
  have "parties_ok w4" using same_refs_ok [OF same_refs_trans [OF w3(2) w4(2)]] ok2 by simp
  moreover have "joinParty c pid i w = Some (True, w4)"
    using True assms(2,3) b1 w3(1) w4(1)
    by (simp add: joinParty_def mod_party_def setParty_def removePartyInvitation_def mod_player_def)
  ultimately show ?thesis by blast
qed

subsection \<open>Commands\<close>

definition no_veto :: "party_context \<Rightarrow> bool" where
  "no_veto c \<longleftrightarrow> pc_onDisband c \<and> pc_onLeave c"

lemma party_ok_cong:
  assumes "belongs w' = belongs w" "invited w' = invited w" "core w' = core w" "pw_next w' = pw_next w"
  shows "party_ok w' = party_ok w"
  by (rule ext) (simp only: party_ok_def assms)

lemma no_vetoD: "no_veto c \<Longrightarrow> pc_onLeave c" "no_veto c \<Longrightarrow> pc_onDisband c"
  by (simp_all add: no_veto_def)

lemma party_of:
  assumes "parties_ok w" "pw_players w i = Some q" "pp_party q = Some pid"
  shows "\<exists>p. pw_parties w pid = Some p" "party_live w pid" "belongs w i pid"
proof -
  show b: "belongs w i pid" using assms(2,3) by (simp add: belongs_def)
  have "party_ok w pid" using assms(1) by (simp add: parties_ok_def)
  then show "\<exists>p. pw_parties w pid = Some p" "party_live w pid"
    using party_ok_deref party_ok_live b by blast+
qed

lemma isInviting_total:
  assumes "parties_ok w" "pw_players w i = Some q"
  shows "\<exists>b. isInviting i j w = Some b \<and> (b \<longrightarrow> (\<exists>pid. pp_party q = Some pid \<and> invited w j pid))"
proof (cases "pp_party q")
  case None
  then show ?thesis using assms(2) by (intro exI [of _ False]) (simp add: isInviting_def)
next
  case (Some pid)
  obtain p where p: "pw_parties w pid = Some p" using party_of(1) [OF assms Some] by blast
  have "party_ok w pid" using assms(1) by (simp add: parties_ok_def)
  then show ?thesis using party_okD(2) [OF _ p, of j] assms(2) Some p by (auto simp: isInviting_def)
qed

definition safe_result :: "party_world option \<Rightarrow> bool" where
  "safe_result r \<longleftrightarrow> (\<exists>w. r = Some w \<and> parties_ok w)"

lemma safe_resultI: "r = Some w \<Longrightarrow> parties_ok w \<Longrightarrow> safe_result r"
  by (simp add: safe_result_def)

lemma invite_safe:
  assumes "parties_ok w"
  shows "safe_result (playerInviteToParty i j w)"
proof (cases "pw_players w i")
  case None
  then show ?thesis using assms by (simp add: playerInviteToParty_def safe_result_def)
next
  case q: (Some q)
  show ?thesis
  proof (cases "pw_players w j")
    case None
    then show ?thesis using assms q by (simp add: playerInviteToParty_def safe_result_def)
  next
    case r: (Some r)
    obtain b where b: "isInviting j i w = Some b" using isInviting_total [OF assms r] by blast
    consider "b \<or> pp_party r \<noteq> None" | "\<not> b" "pp_party r = None" "pp_party q = None"
      | pid where "\<not> b" "pp_party r = None" "pp_party q = Some pid" by fastforce
    then show ?thesis
    proof cases
      case 1
      then show ?thesis using assms q r b by (auto simp: playerInviteToParty_def safe_result_def)
    next
      case 2
      obtain w1 p where w1: "newParty i w = Some (pw_next w, w1)" "parties_ok w1" "pw_parties w1 (pw_next w) = Some p"
        "\<forall>k. live w1 k = live w k"
        using newParty_ok [OF assms q 2(3)] by blast
      obtain r1 where "pw_players w1 j = Some r1" using w1(4) r by (auto simp: live_def)
      then obtain b' w2 where w2: "invitePlayer (pw_next w) j w1 = Some (b', w2)" "parties_ok w2"
        using invitePlayer_ok [OF w1(2,3)] by blast
      have "playerInviteToParty i j w = Some w2"
        using 2 q r b w1(1) w2(1) by (simp add: playerInviteToParty_def)
      then show ?thesis using w2(2) by (rule safe_resultI)
    next
      case 3
      obtain p where p: "pw_parties w pid = Some p" using party_of(1) [OF assms q 3(3)] by blast
      obtain b' w2 where w2: "invitePlayer pid j w = Some (b', w2)" "parties_ok w2"
        using invitePlayer_ok [OF assms p r] by blast
      have "playerInviteToParty i j w = Some (if pa_leader p \<noteq> i then w else w2)"
        using 3 q r b p w2(1) by (simp add: playerInviteToParty_def)
      then show ?thesis using w2(2) assms by (auto intro: safe_resultI)
    qed
  qed
qed

lemma join_safe:
  assumes "parties_ok w"
  shows "safe_result (playerJoinParty c i l w)"
proof (cases "pw_players w i = None \<or> pw_players w l = None")
  case True
  then show ?thesis using assms by (auto simp: playerJoinParty_def safe_result_def split: option.split)
next
  case False
  then obtain q r where q: "pw_players w i = Some q" and r: "pw_players w l = Some r" by auto
  obtain b where b: "isInviting l i w = Some b" "b \<longrightarrow> (\<exists>pid. pp_party r = Some pid \<and> invited w i pid)"
    using isInviting_total [OF assms r] by blast
  show ?thesis
  proof (cases "b \<and> pp_party q = None")
    case True
    then obtain pid where pid: "pp_party r = Some pid" using b(2) by blast
    obtain p where p: "pw_parties w pid = Some p" using party_of(1) [OF assms r pid] by blast
    obtain b' w2 where w2: "joinParty c pid i w = Some (b', w2)" "parties_ok w2"
      using joinParty_ok [OF assms p q] True by blast
    have "playerJoinParty c i l w = Some (if pa_leader p \<noteq> l then w else w2)"
      using q r b(1) True pid p w2(1) by (simp add: playerJoinParty_def)
    then show ?thesis using w2(2) assms by (auto intro: safe_resultI)
  next
    case False
    have "playerJoinParty c i l w = Some w"
      using q r b False party_of(1) [OF assms r] by (auto simp: playerJoinParty_def split: option.split)
    then show ?thesis using assms by (rule safe_resultI)
  qed
qed

lemma revoke_safe:
  assumes "parties_ok w" "no_veto c"
  shows "safe_result (playerRevokePartyInvitation c i j w)"
proof (cases "\<exists>q pid r. pw_players w i = Some q \<and> pp_party q = Some pid \<and> pw_players w j = Some r")
  case False
  then show ?thesis using assms(1) party_of(1) [OF assms(1)]
    by (fastforce simp: playerRevokePartyInvitation_def safe_result_def split: option.split)
next
  case True
  then obtain q pid r where q: "pw_players w i = Some q" "pp_party q = Some pid" and r: "pw_players w j = Some r"
    by blast
  obtain p where p: "pw_parties w pid = Some p" using party_of(1) [OF assms(1) q] by blast
  obtain b where b: "isInviting i j w = Some b" "b \<longrightarrow> (\<exists>pid. pp_party q = Some pid \<and> invited w j pid)"
    using isInviting_total [OF assms(1) q(1)] by blast
  show ?thesis
  proof (cases b)
    case True
    then have "invited w j pid" using b(2) q(2) by simp
    then obtain w2 where w2: "removeInvite c pid j True w = Some (True, w2)" "parties_ok w2"
      using removeInvite_ok [OF assms(1) _ no_vetoD(2) [OF assms(2)]] by blast
    have "playerRevokePartyInvitation c i j w = Some (if pa_leader p \<noteq> i then w else w2)"
      using q r p b(1) True w2(1) by (simp add: playerRevokePartyInvitation_def)
    then show ?thesis using w2(2) assms(1) by (auto intro: safe_resultI)
  next
    case False
    then show ?thesis using q r p b(1) assms(1) by (simp add: playerRevokePartyInvitation_def safe_result_def)
  qed
qed

lemma pass_safe:
  assumes "parties_ok w"
  shows "safe_result (playerPassPartyLeadership c i j w)"
proof (cases "\<exists>q pid r. pw_players w i = Some q \<and> pp_party q = Some pid \<and> pw_players w j = Some r")
  case False
  then show ?thesis using assms party_of(1) [OF assms]
    by (fastforce simp: playerPassPartyLeadership_def safe_result_def split: option.split)
next
  case True
  then obtain q pid r where q: "pw_players w i = Some q" "pp_party q = Some pid" and r: "pw_players w j = Some r"
    by blast
  obtain p where p: "pw_parties w pid = Some p" using party_of(1) [OF assms q] by blast
  have ok: "party_ok w pid" using assms by (simp add: parties_ok_def)
  show ?thesis
  proof (cases "pp_party r = Some pid \<and> j \<noteq> pa_leader p")
    case True
    then have "j \<in> set (pa_members p)" using party_okD(1) [OF ok p, of j] r by (auto simp: belongs_def)
    then obtain w2 where w2: "passPartyLeadership c pid j w = Some (True, w2)" "parties_ok w2"
      using passPartyLeadership_ok [OF assms p] by blast
    have "playerPassPartyLeadership c i j w = Some (if pa_leader p \<noteq> i then w else w2)"
      using q r p True w2(1) by (simp add: playerPassPartyLeadership_def isPartner_def)
    then show ?thesis using w2(2) assms by (auto intro: safe_resultI)
  next
    case False
    then have "passPartyLeadership c pid j w = Some (False, w)"
      using r p by (auto simp: passPartyLeadership_def)
    then show ?thesis using q r p assms by (simp add: playerPassPartyLeadership_def safe_result_def)
  qed
qed

lemma leave_safe:
  assumes "parties_ok w" "no_veto c"
  shows "safe_result (playerLeaveParty c i w)"
proof (cases "\<exists>q pid. pw_players w i = Some q \<and> pp_party q = Some pid")
  case False
  then show ?thesis using assms(1) by (auto simp: playerLeaveParty_def safe_result_def split: option.split)
next
  case True
  then obtain q pid where q: "pw_players w i = Some q" "pp_party q = Some pid" by blast
  obtain w2 where "leaveParty c pid i w = Some (True, w2)" "parties_ok w2"
    using leaveParty_result [OF assms(1) party_of(3) [OF assms(1) q] no_vetoD [OF assms(2)]] by blast
  then show ?thesis using q assms(1) by (simp add: playerLeaveParty_def safe_result_def)
qed

lemma other_commands_safe:
  assumes "parties_ok w"
  shows "safe_result (playerEnableSharedPartyExperience c i b w)" "safe_result (onAttackedMonster c i points w)"
    "safe_result (onIdleStatus c i w)" "parties_ok (loginPlayer i q w)"
proof -
  have *: "safe_result (playerEnableSharedPartyExperience c i b w) \<and> safe_result (onAttackedMonster c i points w)
    \<and> safe_result (onIdleStatus c i w)"
  proof (cases "\<exists>q pid. pw_players w i = Some q \<and> pp_party q = Some pid")
    case False
    then show ?thesis using assms
      by (auto simp: playerEnableSharedPartyExperience_def onAttackedMonster_def onIdleStatus_def safe_result_def
          split: option.split)
  next
    case True
    then obtain q pid where q: "pw_players w i = Some q" "pp_party q = Some pid" by blast
    obtain p where p: "pw_parties w pid = Some p" using party_of(1) [OF assms q] by blast
    note lv = party_of(2) [OF assms q]
    obtain b1 w1 where w1: "setSharedExperience c pid i b w = Some (b1, w1)" "same_refs w w1"
      using setSharedExperience_same [OF lv p] by blast
    obtain w2 where w2: "updatePlayerTicks c pid i points w = Some w2" "same_refs w w2"
      using updatePlayerTicks_same [OF lv p belongs_live [OF party_of(3) [OF assms q]]] by blast
    obtain w3 where w3: "clearPlayerPoints c pid i w = Some w3" "same_refs w w3"
      using clearPlayerPoints_same [OF lv p] by blast
    show ?thesis using q w1 w2 w3 assms same_refs_ok
      by (auto simp: playerEnableSharedPartyExperience_def onAttackedMonster_def onIdleStatus_def safe_result_def)
  qed
  then show "safe_result (playerEnableSharedPartyExperience c i b w)" "safe_result (onAttackedMonster c i points w)"
    "safe_result (onIdleStatus c i w)" by blast+
  show "parties_ok (loginPlayer i q w)"
  proof (cases "pw_players w i = None")
    case True
    let ?w' = "w \<lparr> pw_players := (pw_players w)(i \<mapsto> q \<lparr> pp_party := None, pp_invites := [] \<rparr>) \<rparr>"
    have "belongs ?w' = belongs w" "invited ?w' = invited w" "core ?w' = core w"
      using True by (auto simp: belongs_def invited_def core_def fun_eq_iff)
    then have "party_ok ?w' = party_ok w" by (intro party_ok_cong) simp_all
    then show ?thesis using assms True by (auto simp: loginPlayer_def parties_ok_def players_ok_def)
  qed (use assms in \<open>simp add: loginPlayer_def\<close>)
qed

lemma logout_result:
  assumes "parties_ok w" "no_veto c"
  shows "\<exists>w'. logoutPlayer c i w = Some w' \<and> parties_ok w' \<and> \<not> live w' i"
proof (cases "pw_players w i")
  case None
  then show ?thesis using assms(1) by (simp add: logoutPlayer_def live_def)
next
  case (Some q)
  obtain w1 where w1: "clearPartyInvitations c i w = Some w1" "parties_ok w1" "\<forall>j. live w1 j = live w j"
    "\<forall>pid. \<not> invited w1 i pid"
    using clearPartyInvitations_ok [OF assms(1) Some no_vetoD(2) [OF assms(2)]] by blast
  obtain q1 where q1: "pw_players w1 i = Some q1" using w1(3) Some by (auto simp: live_def)
  obtain w2 where w2: "(case pp_party q1 of None \<Rightarrow> Some w1
      | Some pid \<Rightarrow> do { (_, w) \<leftarrow> leaveParty c pid i w1; Some w }) = Some w2"
    "parties_ok w2" "\<forall>pid. \<not> belongs w2 i pid" "\<forall>pid. \<not> invited w2 i pid"
  proof (cases "pp_party q1")
    case None
    then show ?thesis using that [of w1] w1(2,4) q1 by (simp add: belongs_def)
  next
    case (Some pid)
    obtain w2 where "leaveParty c pid i w1 = Some (True, w2)" "parties_ok w2"
      "\<forall>pid'. invited w2 i pid' \<longrightarrow> invited w1 i pid'" "\<forall>pid'. \<not> belongs w2 i pid'"
      using leaveParty_result [OF w1(2) party_of(3) [OF w1(2) q1 Some] no_vetoD [OF assms(2)]] by blast
    then show ?thesis using that [of w2] Some w1(4) by auto
  qed
  let ?w' = "w2 \<lparr> pw_players := (pw_players w2)(i := None) \<rparr>"
  have "belongs ?w' = belongs w2" "invited ?w' = invited w2" "core ?w' = core w2"
    using w2(3,4) by (auto simp: belongs_def invited_def core_def fun_eq_iff)
  then have "party_ok ?w' = party_ok w2" by (intro party_ok_cong) simp_all
  then have "parties_ok ?w'" using w2(2) by (auto simp: parties_ok_def players_ok_def)
  moreover have "logoutPlayer c i w = Some ?w'" using Some w1(1) q1 w2(1) by (simp add: logoutPlayer_def)
  ultimately show ?thesis by (simp add: live_def)
qed

lemma party_step_safe:
  assumes "parties_ok w" "no_veto c"
  shows "safe_result (party_step (c, cmd) w)"
proof (cases cmd)
  case (PartyLogout i)
  then show ?thesis using logout_result [OF assms, of i] by (auto simp: safe_result_def)
next
  case (PartyLogin i q)
  then show ?thesis using other_commands_safe(4) [OF assms(1)] by (simp add: safe_result_def)
qed (use assms in \<open>simp_all add: invite_safe join_safe revoke_safe pass_safe leave_safe other_commands_safe(1-3)\<close>)

subsection \<open>Results\<close>

lemma empty_party_world_ok: "parties_ok empty_party_world"
  by (simp add: parties_ok_def players_ok_def party_ok_def empty_party_world_def core_def belongs_def invited_def)

lemma run_safe:
  assumes "parties_ok w" "\<forall>ev \<in> set cmds. no_veto (fst ev)"
  shows "safe_result (foldM party_step cmds w)"
  using assms
proof (induction cmds arbitrary: w)
  case Nil
  then show ?case by (simp add: safe_result_def)
next
  case (Cons ev cmds)
  obtain c cmd where ev: "ev = (c, cmd)" by (cases ev)
  obtain w1 where "party_step ev w = Some w1" "parties_ok w1"
    using party_step_safe [OF Cons.prems(1), of c cmd] Cons.prems(2) by (auto simp: ev safe_result_def)
  then show ?case using Cons.IH [of w1] Cons.prems(2) by simp
qed

text \<open>
  C10. Parties are consistent: after any sequence of logins, logouts, invitations, joins,
  revocations, changes of the leader, departures and fights, none of which a script vetoes, no pointer
  dangles (the run is defined), and both sides agree: a player's party pointer names exactly the
  party that lists it as leader or member, and a player's list of invitations names exactly the parties
  that list it as invited; no list has a duplicate and no leader is a member.
\<close>

theorem party_commands_sound:
  assumes "\<forall>ev \<in> set cmds. no_veto (fst ev)"
  shows "\<exists>w. foldM party_step cmds empty_party_world = Some w \<and>
    (\<forall>pid i. belongs w i pid = (\<exists>p. pw_parties w pid = Some p \<and> (i = pa_leader p \<or> i \<in> set (pa_members p)))
       \<and> invited w i pid = (\<exists>p. pw_parties w pid = Some p \<and> i \<in> set (pa_invites p)))
    \<and> (\<forall>pid p. pw_parties w pid = Some p \<longrightarrow> distinct (pa_leader p # pa_members p) \<and> distinct (pa_invites p))"
proof -
  obtain w where w: "foldM party_step cmds empty_party_world = Some w" "parties_ok w"
    using run_safe [OF empty_party_world_ok assms] by (auto simp: safe_result_def)
  have ok: "party_ok w pid" for pid using w(2) by (simp add: parties_ok_def)
  have "belongs w i pid = (\<exists>p. pw_parties w pid = Some p \<and> (i = pa_leader p \<or> i \<in> set (pa_members p)))"
    "invited w i pid = (\<exists>p. pw_parties w pid = Some p \<and> i \<in> set (pa_invites p))" for i pid
    using ok [of pid] by (cases "pw_parties w pid"; simp add: party_ok_def core_def)+
  moreover have "distinct (pa_leader p # pa_members p) \<and> distinct (pa_invites p)" if "pw_parties w pid = Some p" for pid p
    using party_okD(3-5) [OF ok that] by simp
  ultimately show ?thesis using w(1) by blast
qed

definition calm :: party_context where
  "calm = \<lparr> pc_now = 0, pc_pzLocked = 60000, pc_onDisband = True, pc_onLeave = True, pc_onJoin = True \<rparr>"

definition newcomer :: party_player where
  "newcomer = \<lparr> pp_party = None, pp_invites = [], pp_level = 8, pp_vocation = 1, pp_pos = Position 100 100 7,
     pp_noGain = False, pp_infight = False \<rparr>"

theorem party_commands_sound_witness:
  "\<exists>w. foldM party_step [(calm, PartyLogin 1 newcomer), (calm, PartyLogin 2 newcomer), (calm, PartyInvite 1 2),
     (calm, PartyJoin 2 1), (calm, PartyLogout 1)] empty_party_world = Some w"
proof -
  have "\<forall>ev \<in> set [(calm, PartyLogin 1 newcomer), (calm, PartyLogin 2 newcomer), (calm, PartyInvite 1 2),
     (calm, PartyJoin 2 1), (calm, PartyLogout 1)]. no_veto (fst ev)" by (simp add: no_veto_def calm_def)
  from party_commands_sound [OF this] show ?thesis by blast
qed

text \<open>
  C26. Leaving: without a veto a member is taken off the list; a leader hands over to the first
  member; the party is given up when nobody would remain to lead it (no members, or one member and no
  invitations), or when the last member leaves and nobody is invited. Nothing happens to other parties.
\<close>

theorem leave_party_succession:
  assumes "parties_ok w" "belongs w i pid" "no_veto c"
  shows "\<exists>w'. leaveParty c pid i w = Some (True, w') \<and> core w' = (core w)(pid := leave_core i (the (core w pid)))
    \<and> (\<forall>pid'. \<not> belongs w' i pid')"
  using leaveParty_result [OF assms(1,2) no_vetoD [OF assms(3)]] by blast

text \<open>Two players in a party, the first leads.\<close>

definition two_party :: party_world where
  "two_party = \<lparr> pw_players = [1 \<mapsto> newcomer \<lparr> pp_party := Some 0 \<rparr>, 2 \<mapsto> newcomer \<lparr> pp_party := Some 0 \<rparr>],
     pw_parties = [0 \<mapsto> \<lparr> pa_leader = 1, pa_members = [2], pa_invites = [], pa_ticks = Map.empty, pa_rate = 20,
       pa_active = False, pa_enabled = False \<rparr>], pw_next = 1 \<rparr>"

lemma two_party_ok: "parties_ok two_party"
  by (auto simp: parties_ok_def players_ok_def party_ok_def two_party_def core_def belongs_def invited_def newcomer_def
      split: if_splits)

theorem leave_party_succession_witness:
  "\<exists>w'. leaveParty calm 0 1 two_party = Some (True, w') \<and> pw_parties w' 0 = None"
proof -
  have "belongs two_party 1 0" "no_veto calm" by (simp_all add: belongs_def two_party_def no_veto_def calm_def)
  from leave_party_succession [OF two_party_ok this] show ?thesis
    by (auto simp: two_party_def core_def leave_core_def dest!: fun_cong [of _ _ 0])
qed

text \<open>
  A logout leaves no trace: without a veto the player is gone, and no party lists it as
  leader, member or invited.
\<close>

theorem logout_leaves_no_trace:
  assumes "parties_ok w" "no_veto c"
  shows "\<exists>w'. logoutPlayer c i w = Some w' \<and> pw_players w' i = None
    \<and> (\<forall>pid p. pw_parties w' pid = Some p \<longrightarrow> i \<noteq> pa_leader p \<and> i \<notin> set (pa_members p) \<and> i \<notin> set (pa_invites p))"
proof -
  obtain w' where w': "logoutPlayer c i w = Some w'" "parties_ok w'" "\<not> live w' i"
    using logout_result [OF assms] by blast
  have ok: "party_ok w' pid" for pid using w'(2) by (simp add: parties_ok_def)
  have "i \<noteq> pa_leader p \<and> i \<notin> set (pa_members p) \<and> i \<notin> set (pa_invites p)" if "pw_parties w' pid = Some p" for pid p
    using party_okD(1,2) [OF ok that, of i] belongs_live invited_live w'(3) by blast
  then show ?thesis using w'(1,3) by (auto simp: live_def)
qed

theorem logout_leaves_no_trace_witness:
  "\<exists>w'. logoutPlayer calm 2 two_party = Some w' \<and> pw_players w' 2 = None"
  using logout_leaves_no_trace [OF two_party_ok, of calm 2] by (auto simp: no_veto_def calm_def)

text \<open>
  C27. A vetoed departure at logout: the logout ignores that the script refused, so the player's
  object is released while its party still lists it, and the next message to the party follows the dangling
  pointer.
\<close>

theorem logout_veto_dangles:
  assumes "parties_ok w" "pw_parties w pid = Some p" "i \<in> set (pa_members p)" "pw_players w i = Some q"
    "pp_invites q = []" "\<not> pc_onLeave c"
  shows "\<exists>w'. logoutPlayer c i w = Some w' \<and> pw_players w' i = None \<and> pw_parties w' pid = Some p
    \<and> broadcastPartyMessage False pid w' = None"
proof -
  have ok: "party_ok w pid" using assms(1) by (simp add: parties_ok_def)
  have q: "pp_party q = Some pid" using party_okD(1) [OF ok assms(2), of i] assms(3,4) by (auto simp: belongs_def)
  have clear: "clearPartyInvitations c i w = Some (w \<lparr> pw_players := (pw_players w)(i \<mapsto> q) \<rparr>)"
    using assms(4,5) by (cases q) (simp add: clearPartyInvitations_def mod_player_def)
  have "leaveParty c pid i (w \<lparr> pw_players := (pw_players w)(i \<mapsto> q) \<rparr>) = Some (False, w \<lparr> pw_players := (pw_players w)(i \<mapsto> q) \<rparr>)"
    using assms(2,6) q by (simp add: leaveParty_def)
  then have "logoutPlayer c i w = Some (w \<lparr> pw_players := (pw_players w)(i := None) \<rparr>)"
    using clear assms(4) q by (simp add: logoutPlayer_def)
  then show ?thesis using assms(2,3) by (auto simp: broadcastPartyMessage_def)
qed

theorem logout_veto_dangles_witness:
  "\<exists>w'. logoutPlayer (calm \<lparr> pc_onLeave := False \<rparr>) 2 two_party = Some w'
     \<and> broadcastPartyMessage False 0 w' = None"
proof -
  have "pw_parties two_party 0 = Some \<lparr> pa_leader = 1, pa_members = [2], pa_invites = [], pa_ticks = Map.empty,
    pa_rate = 20, pa_active = False, pa_enabled = False \<rparr>" by (simp add: two_party_def)
  from logout_veto_dangles [OF two_party_ok this, of 2 "newcomer \<lparr> pp_party := Some 0 \<rparr>" "calm \<lparr> pc_onLeave := False \<rparr>"]
  show ?thesis by (auto simp: two_party_def newcomer_def)
qed

end
