(* ===== verification/Container_Items.thy ===== *)
theory Container_Items
  imports Items Otx_Enums "HOL-Library.Monad_Syntax"
begin

text \<open>
  Items and containers: \<^verbatim>\<open>class Container\<close> (\<^verbatim>\<open>src/src/container.cpp\<close>), the part of
  \<^verbatim>\<open>class Item\<close> it uses, and \<open>Game::internalMoveItem\<close>, \<open>internalRemoveItem\<close>
  (\<^verbatim>\<open>game.cpp\<close>) between containers. Items live in a heap, a pointer is an address; a container is
  an item with contents. The other cylinders, a tile and the inventory of a player, only appear as the end
  of a chain of parents. \<open>None\<close> is undefined behaviour: a dangling pointer, or a chain that does not end.

  Restrictions: \<open>queryDestination\<close> of the source also descends into a teleport, trash holder or mailbox that lies
  in the container; here only containers are cylinders. \<open>internalMoveItem\<close> is the call without a
  \<open>tradeItem\<close>, between containers: their \<open>queryAdd\<close> never answers \<open>RETURNVALUE_NEEDEXCHANGE\<close>
  (\<open>queryAdd_no_exchange\<close> below), so the branch that swaps two items is not reached and not modelled.
\<close>

subsection \<open>The heap\<close>

type_synonym item_heap = "nat \<rightharpoonup> item"

text \<open>The table of item types, the configuration, and what the carrying player answers
  (\<open>Player::hasCapacity\<close>).\<close>

record item_env =
  ie_items :: item_types
  ie_autoStack :: bool
  ie_hasCapacity :: "item_heap \<Rightarrow> nat \<Rightarrow> nat \<Rightarrow> u32 \<Rightarrow> bool"

abbreviation ie_stackable :: "item_env \<Rightarrow> u16 \<Rightarrow> bool" where
  "ie_stackable e t \<equiv> it_stackable (ie_items e t)"

abbreviation ie_pickupable :: "item_env \<Rightarrow> u16 \<Rightarrow> bool" where
  "ie_pickupable e t \<equiv> it_pickupable (ie_items e t)"

abbreviation ie_moveable :: "item_env \<Rightarrow> u16 \<Rightarrow> bool" where
  "ie_moveable e t \<equiv> it_moveable (ie_items e t)"

definition isStackable :: "item_env \<Rightarrow> item \<Rightarrow> bool" where
  "isStackable e i = ie_stackable e (i_id i)"

definition isRune :: "item_env \<Rightarrow> item \<Rightarrow> bool" where
  "isRune e i \<longleftrightarrow> it_type (ie_items e (i_id i)) = ITEM_TYPE_RUNE"

definition getWeight :: "item_env \<Rightarrow> item \<Rightarrow> u32" where
  "getWeight e i =
     (case i_container i of None \<Rightarrow> item_weight (ie_items e) i | Some c \<Rightarrow> item_weight (ie_items e) i + c_totalWeight c)"

definition parent_container :: "parent \<Rightarrow> nat option" where
  "parent_container p = (case p of InContainer c \<Rightarrow> Some c | _ \<Rightarrow> None)"

definition parent_player :: "parent \<Rightarrow> nat option" where
  "parent_player p = (case p of OnPlayer pl \<Rightarrow> Some pl | _ \<Rightarrow> None)"

definition mod_item :: "(item \<Rightarrow> item) \<Rightarrow> nat \<Rightarrow> item_heap \<Rightarrow> item_heap option" where
  "mod_item f x h = (case h x of None \<Rightarrow> None | Some i \<Rightarrow> Some (h(x \<mapsto> f i)))"

definition mod_container :: "(container \<Rightarrow> container) \<Rightarrow> item \<Rightarrow> item" where
  "mod_container f = i_container_update (map_option f)"

definition get_container :: "item_heap \<Rightarrow> nat \<Rightarrow> container option" where
  "get_container h x = Option.bind (h x) i_container"

definition item_setParent :: "parent \<Rightarrow> nat \<Rightarrow> item_heap \<Rightarrow> item_heap option" where
  "item_setParent p = mod_item (\<lambda>i. i \<lparr> i_parent := p \<rparr>)"

subsection \<open>Weight\<close>

text \<open>\<open>updateItemWeight\<close> climbs through the containers; \<open>getParentContainer\<close> is null for the other
  cylinders.\<close>

partial_function (option) updateItemWeight :: "u32 \<Rightarrow> nat \<Rightarrow> item_heap \<Rightarrow> item_heap option" where
  "updateItemWeight diff c h =
     (case h c of
        None \<Rightarrow> None
      | Some i \<Rightarrow>
          (case i_container i of
             None \<Rightarrow> None
           | Some co \<Rightarrow>
               (let h1 = h(c \<mapsto> i \<lparr> i_container := Some (co \<lparr> c_totalWeight := c_totalWeight co + diff \<rparr>) \<rparr>)
                in case parent_container (i_parent i) of
                     Some p \<Rightarrow> updateItemWeight diff p h1
                   | None \<Rightarrow> Some h1)))"

declare updateItemWeight.simps [code]

subsection \<open>Queries\<close>

definition FLAG_NOLIMIT :: u32 where "FLAG_NOLIMIT = push_bit 0 1"
definition FLAG_CHILDISOWNER :: u32 where "FLAG_CHILDISOWNER = push_bit 3 1"
definition FLAG_IGNORENOTMOVEABLE :: u32 where "FLAG_IGNORENOTMOVEABLE = push_bit 6 1"
definition FLAG_IGNOREAUTOSTACK :: u32 where "FLAG_IGNOREAUTOSTACK = push_bit 7 1"
definition INDEX_WHEREEVER :: int where "INDEX_WHEREEVER = -1"

definition hasBitSet :: "u32 \<Rightarrow> u32 \<Rightarrow> bool" where
  "hasBitSet flag flags \<longleftrightarrow> flags AND flag \<noteq> 0"

text \<open>The loops of \<open>queryAdd\<close> over the parents; \<open>limit\<close> is set in the variant that also looks for an
  inbox. The result is the refusal, if there is one.\<close>

partial_function (option) query_parents ::
    "item_heap \<Rightarrow> bool \<Rightarrow> nat \<Rightarrow> parent \<Rightarrow> return_value option option" where
  "query_parents h limit thing cylinder =
     (case parent_container cylinder of
        None \<Rightarrow> Some None
      | Some p \<Rightarrow>
          if p = thing then Some (Some RETURNVALUE_THISISIMPOSSIBLE)
          else (case h p of
                  None \<Rightarrow> None
                | Some i \<Rightarrow>
                    (case i_container i of
                       None \<Rightarrow> None
                     | Some co \<Rightarrow>
                         if limit \<and> c_inbox co then Some (Some RETURNVALUE_CONTAINERNOTENOUGHROOM)
                         else query_parents h limit thing (i_parent i))))"

text \<open>The player that carries the container, if \<open>getTopParent\<close> is one.\<close>

partial_function (option) carrier :: "item_heap \<Rightarrow> parent \<Rightarrow> nat option option" where
  "carrier h cylinder =
     (case parent_container cylinder of
        None \<Rightarrow> Some (parent_player cylinder)
      | Some p \<Rightarrow> (case h p of None \<Rightarrow> None | Some i \<Rightarrow> carrier h (i_parent i)))"

declare query_parents.simps [code] carrier.simps [code]

text \<open>The answer of the outermost parent to its child: a container agrees, a player checks the weight it can
  carry (\<open>Player::queryAdd\<close> with \<open>FLAG_CHILDISOWNER\<close>).\<close>

definition top_queryAdd :: "item_env \<Rightarrow> item_heap \<Rightarrow> nat \<Rightarrow> u32 \<Rightarrow> u32 \<Rightarrow> parent \<Rightarrow> return_value option" where
  "top_queryAdd e h x amount flags cylinder =
     do {
       top \<leftarrow> carrier h cylinder;
       case top of
         None \<Rightarrow> Some RETURNVALUE_NOERROR
       | Some pl \<Rightarrow>
           if hasBitSet FLAG_NOLIMIT flags \<or> ie_hasCapacity e h pl x amount then Some RETURNVALUE_NOERROR
           else Some RETURNVALUE_NOTENOUGHCAPACITY
     }"

definition container_queryAdd ::
    "item_env \<Rightarrow> item_heap \<Rightarrow> nat \<Rightarrow> int \<Rightarrow> nat \<Rightarrow> u32 \<Rightarrow> u32 \<Rightarrow> return_value option" where
  "container_queryAdd e h c index x amount flags =
     do {
       ci \<leftarrow> h c;
       co \<leftarrow> i_container ci;
       i \<leftarrow> h x;
       if hasBitSet FLAG_CHILDISOWNER flags then Some RETURNVALUE_NOERROR
       else if \<not> c_unlocked co then Some RETURNVALUE_NOTPOSSIBLE
       else if \<not> ie_pickupable e (i_id i) then Some RETURNVALUE_CANNOTPICKUP
       else if x = c then Some RETURNVALUE_THISISIMPOSSIBLE
       else do {
         refusal \<leftarrow> query_parents h (\<not> hasBitSet FLAG_NOLIMIT flags) x (i_parent ci);
         case refusal of
           Some r \<Rightarrow> Some r
         | None \<Rightarrow>
             if \<not> hasBitSet FLAG_NOLIMIT flags \<and> index = INDEX_WHEREEVER
                \<and> length (c_itemlist co) \<ge> unat (c_maxSize co)
             then Some RETURNVALUE_CONTAINERNOTENOUGHROOM
             else top_queryAdd e h x amount flags (i_parent ci)
       }
     }"

definition inbox_queryAdd :: "item_env \<Rightarrow> item_heap \<Rightarrow> nat \<Rightarrow> nat \<Rightarrow> u32 \<Rightarrow> return_value option" where
  "inbox_queryAdd e h c x flags =
     do {
       i \<leftarrow> h x;
       if \<not> hasBitSet FLAG_NOLIMIT flags then Some RETURNVALUE_CONTAINERNOTENOUGHROOM
       else if x = c then Some RETURNVALUE_THISISIMPOSSIBLE
       else if \<not> ie_pickupable e (i_id i) then Some RETURNVALUE_CANNOTPICKUP
       else Some RETURNVALUE_NOERROR
     }"

definition cont_queryAdd ::
    "item_env \<Rightarrow> item_heap \<Rightarrow> nat \<Rightarrow> int \<Rightarrow> nat \<Rightarrow> u32 \<Rightarrow> u32 \<Rightarrow> return_value option" where
  "cont_queryAdd e h c index x amount flags =
     do {
       co \<leftarrow> get_container h c;
       if c_inbox co then inbox_queryAdd e h c x flags else container_queryAdd e h c index x amount flags
     }"

lemma query_parents_refusal:
  "query_parents h limit x p = Some (Some r) \<Longrightarrow>
     r = RETURNVALUE_THISISIMPOSSIBLE \<or> r = RETURNVALUE_CONTAINERNOTENOUGHROOM"
  by (rule query_parents.raw_induct
      [where P = "\<lambda>h limit x p res. \<forall>r. res = Some r \<longrightarrow> r = RETURNVALUE_THISISIMPOSSIBLE \<or> r = RETURNVALUE_CONTAINERNOTENOUGHROOM",
        THEN spec, THEN mp])
    (auto split: option.splits if_splits)

lemma queryAdd_no_exchange: "cont_queryAdd e h c index x n flags = Some r \<Longrightarrow> r \<noteq> RETURNVALUE_NEEDEXCHANGE"
  by (auto simp: cont_queryAdd_def inbox_queryAdd_def container_queryAdd_def top_queryAdd_def
      split: Option.bind_splits option.splits if_splits dest: query_parents_refusal)

text \<open>The room on the stacks that equal the item.\<close>

fun stack_room ::
    "item_env \<Rightarrow> item_heap \<Rightarrow> nat \<Rightarrow> nat \<Rightarrow> u32 \<Rightarrow> nat list \<Rightarrow> int \<Rightarrow> u32 \<Rightarrow> u32 option" where
  "stack_room e h c x flags [] slotIndex n = Some n"
| "stack_room e h c x flags (y # ys) slotIndex n =
     do {
       i \<leftarrow> h x;
       j \<leftarrow> h y;
       if y \<noteq> x \<and> item_equals j i \<and> i_count j < 100 then do {
         let remainder = ucast (100 - i_count j);
         r \<leftarrow> cont_queryAdd e h c slotIndex x remainder flags;
         stack_room e h c x flags ys (slotIndex + 1) (if r = RETURNVALUE_NOERROR then n + remainder else n)
       } else stack_room e h c x flags ys slotIndex n
     }"

definition getItemByIndex :: "container \<Rightarrow> int \<Rightarrow> nat option" where
  "getItemByIndex co index =
     (if 0 \<le> index \<and> nat index < length (c_itemlist co) then Some (c_itemlist co ! nat index) else None)"

definition freeSlots :: "container \<Rightarrow> nat" where
  "freeSlots co = nat (max (int (unat (c_maxSize co)) - int (length (c_itemlist co))) 0)"

definition queryMaxCount ::
    "item_env \<Rightarrow> item_heap \<Rightarrow> nat \<Rightarrow> int \<Rightarrow> nat \<Rightarrow> u32 \<Rightarrow> u32 \<Rightarrow> (return_value \<times> u32) option" where
  "queryMaxCount e h c index x amount flags =
     do {
       co \<leftarrow> get_container h c;
       i \<leftarrow> h x;
       if hasBitSet FLAG_NOLIMIT flags then Some (RETURNVALUE_NOERROR, max 1 amount)
       else if isStackable e i then do {
         n \<leftarrow> (if index = INDEX_WHEREEVER then stack_room e h c x flags (c_itemlist co) 0 0
              else (case getItemByIndex co index of
                      None \<Rightarrow> Some 0
                    | Some y \<Rightarrow> do {
                        j \<leftarrow> h y;
                        if item_equals i j \<and> i_count j < 100 then do {
                          let remainder = ucast (100 - i_count j);
                          r \<leftarrow> cont_queryAdd e h c index x remainder flags;
                          Some (if r = RETURNVALUE_NOERROR then remainder else 0)
                        } else Some 0
                      }));
         let maxQueryCount = of_nat (freeSlots co * 100) + n;
         Some (if maxQueryCount < amount then RETURNVALUE_CONTAINERNOTENOUGHROOM else RETURNVALUE_NOERROR,
               maxQueryCount)
       } else (let maxQueryCount = of_nat (freeSlots co)
               in Some (if maxQueryCount = 0 then RETURNVALUE_CONTAINERNOTENOUGHROOM else RETURNVALUE_NOERROR,
                        maxQueryCount))
     }"

definition getThingIndex :: "container \<Rightarrow> nat \<Rightarrow> nat option" where
  "getThingIndex co x = index_of x (c_itemlist co)"

definition queryRemove :: "item_env \<Rightarrow> item_heap \<Rightarrow> nat \<Rightarrow> nat \<Rightarrow> u32 \<Rightarrow> u32 \<Rightarrow> return_value option" where
  "queryRemove e h c x amount flags =
     do {
       co \<leftarrow> get_container h c;
       i \<leftarrow> h x;
       if getThingIndex co x = None then Some RETURNVALUE_NOTPOSSIBLE
       else if amount = 0 \<or> (isStackable e i \<and> amount > ucast (i_count i)) then Some RETURNVALUE_NOTPOSSIBLE
       else if \<not> ie_moveable e (i_id i) \<and> \<not> hasBitSet FLAG_IGNORENOTMOVEABLE flags
       then Some RETURNVALUE_NOTMOVEABLE
       else Some RETURNVALUE_NOERROR
     }"

text \<open>The first stack that can take the item.\<close>

fun find_stack :: "item_heap \<Rightarrow> nat \<Rightarrow> nat list \<Rightarrow> nat \<Rightarrow> (nat \<times> nat) option option" where
  "find_stack h x [] n = Some None"
| "find_stack h x (y # ys) n =
     do {
       i \<leftarrow> h x;
       j \<leftarrow> h y;
       if y \<noteq> x \<and> item_equals j i \<and> i_count j < 100 then Some (Some (y, n)) else find_stack h x ys (Suc n)
     }"

text \<open>The destination within the container: cylinder, index and the item found there.\<close>

definition queryDestination ::
    "item_env \<Rightarrow> item_heap \<Rightarrow> nat \<Rightarrow> int \<Rightarrow> nat \<Rightarrow> nat option \<Rightarrow> u32 \<Rightarrow> (nat \<times> int \<times> nat option) option" where
  "queryDestination e h c index x destItem flags =
     do {
       ci \<leftarrow> h c;
       co \<leftarrow> i_container ci;
       i \<leftarrow> h x;
       if \<not> c_unlocked co then Some (c, index, None)
       else if index = 254 then
         Some (case parent_container (i_parent ci) of Some p \<Rightarrow> p | None \<Rightarrow> c, INDEX_WHEREEVER, None)
       else do {
         let (index, destItem) =
           (if index = 255 \<or> index \<ge> int (unat (c_maxSize co)) then (INDEX_WHEREEVER, None) else (index, destItem));
         stack \<leftarrow> (if ie_autoStack e \<and> \<not> hasBitSet FLAG_IGNOREAUTOSTACK flags \<and> isStackable e i
                     \<and> i_parent i \<noteq> InContainer c
                  then find_stack h x (c_itemlist co) 0 else Some None);
         case stack of
           Some (y, n) \<Rightarrow> Some (c, int n, Some y)
         | None \<Rightarrow>
             if index \<noteq> INDEX_WHEREEVER then
               (let destItem = (case getItemByIndex co index of None \<Rightarrow> destItem | Some y \<Rightarrow> Some y)
                in case destItem of
                     None \<Rightarrow> Some (c, index, destItem)
                   | Some y \<Rightarrow> do {
                       j \<leftarrow> h y;
                       Some (if i_container j \<noteq> None then (y, INDEX_WHEREEVER, None) else (c, index, destItem))
                     })
             else Some (c, index, destItem)
       }
     }"

subsection \<open>Changes\<close>

definition container_addThing :: "item_env \<Rightarrow> int \<Rightarrow> nat \<Rightarrow> nat \<Rightarrow> item_heap \<Rightarrow> item_heap option" where
  "container_addThing e index x c h =
     do {
       co \<leftarrow> get_container h c;
       if index \<ge> int (unat (c_maxSize co)) then Some h
       else do {
         h \<leftarrow> item_setParent (InContainer c) x h;
         h \<leftarrow> mod_item (mod_container (\<lambda>co. co \<lparr> c_itemlist := x # c_itemlist co \<rparr>)) c h;
         i \<leftarrow> h x;
         updateItemWeight (getWeight e i) c h
       }
     }"

definition container_addItemBack :: "item_env \<Rightarrow> nat \<Rightarrow> nat \<Rightarrow> item_heap \<Rightarrow> item_heap option" where
  "container_addItemBack e x c h =
     do {
       co \<leftarrow> get_container h c;
       h \<leftarrow> mod_item (mod_container (\<lambda>co. co \<lparr> c_itemlist := c_itemlist co @ [x] \<rparr>)) c h;
       h \<leftarrow> item_setParent (InContainer c) x h;
       i \<leftarrow> h x;
       updateItemWeight (getWeight e i) c h
     }"

text \<open>The new type and subtype of an item.\<close>

definition container_updateThing ::
    "item_env \<Rightarrow> nat \<Rightarrow> u16 \<Rightarrow> u32 \<Rightarrow> nat \<Rightarrow> item_heap \<Rightarrow> item_heap option" where
  "container_updateThing e x itemId amount c h =
     do {
       co \<leftarrow> get_container h c;
       case getThingIndex co x of
         None \<Rightarrow> Some h
       | Some _ \<Rightarrow> do {
           i \<leftarrow> h x;
           let i' = setSubType (ie_items e) (ucast amount) (item_setID (ie_items e) itemId i);
           updateItemWeight (getWeight e i' - getWeight e i) c (h(x \<mapsto> i'))
         }
     }"

definition container_replaceThing :: "item_env \<Rightarrow> nat \<Rightarrow> nat \<Rightarrow> nat \<Rightarrow> item_heap \<Rightarrow> item_heap option" where
  "container_replaceThing e index x c h =
     do {
       co \<leftarrow> get_container h c;
       case getItemByIndex co (int index) of
         None \<Rightarrow> Some h
       | Some y \<Rightarrow> do {
           h \<leftarrow> mod_item (mod_container (\<lambda>co. co \<lparr> c_itemlist := (c_itemlist co)[index := x] \<rparr>)) c h;
           h \<leftarrow> item_setParent (InContainer c) x h;
           i \<leftarrow> h x;
           j \<leftarrow> h y;
           h \<leftarrow> updateItemWeight (getWeight e i - getWeight e j) c h;
           item_setParent NoParent y h
         }
     }"

definition container_removeThing :: "item_env \<Rightarrow> nat \<Rightarrow> u32 \<Rightarrow> nat \<Rightarrow> item_heap \<Rightarrow> item_heap option" where
  "container_removeThing e x amount c h =
     do {
       co \<leftarrow> get_container h c;
       i \<leftarrow> h x;
       case getThingIndex co x of
         None \<Rightarrow> Some h
       | Some index \<Rightarrow>
           if isStackable e i \<and> amount \<noteq> ucast (i_count i) then
             (let i' = i \<lparr> i_count := word_of_int (max 0 (sint (ucast (i_count i) - amount :: u32))) \<rparr>
              in updateItemWeight (getWeight e i' - getWeight e i) c (h(x \<mapsto> i')))
           else do {
             h \<leftarrow> updateItemWeight (- getWeight e i) c h;
             h \<leftarrow> item_setParent NoParent x h;
             mod_item (mod_container (\<lambda>co. co \<lparr> c_itemlist := take index (c_itemlist co) @ drop (Suc index) (c_itemlist co) \<rparr>)) c h
           }
     }"

subsection \<open>Moving and removing\<close>

text \<open>The search of \<open>internalMoveItem\<close> for the destination, at most sixteen rounds
  (\<open>MAP_MAX_LAYERS\<close>).\<close>

fun move_destination ::
    "item_env \<Rightarrow> item_heap \<Rightarrow> nat \<Rightarrow> nat \<Rightarrow> int \<Rightarrow> nat \<Rightarrow> nat option \<Rightarrow> u32 \<Rightarrow> (nat \<times> int \<times> nat option \<times> u32) option"
  where
  "move_destination e h 0 to index x toItem flags = Some (to, index, toItem, flags)"
| "move_destination e h (Suc n) to index x toItem flags =
     do {
       (sub, index, toItem) \<leftarrow> queryDestination e h to index x toItem flags;
       if sub = to then Some (to, index, toItem, flags)
       else move_destination e h n sub index x toItem 0
     }"

text \<open>What happens to a stack after it was taken out: the part that fits goes to the item at the
  destination, the rest becomes a new item (a clone at the address \<open>fresh\<close>). The result is the item to add.\<close>

definition move_stack ::
    "item_env \<Rightarrow> nat \<Rightarrow> nat option \<Rightarrow> nat \<Rightarrow> u32 \<Rightarrow> nat \<Rightarrow> item_heap \<Rightarrow> (nat option \<times> item_heap) option" where
  "move_stack e x toItem to m fresh h =
     do {
       i \<leftarrow> h x;
       (n, h) \<leftarrow> (case toItem of
          None \<Rightarrow> Some (0, h)
        | Some y \<Rightarrow> do {
            j \<leftarrow> h y;
            if \<not> isRune e i \<and> item_equals i j then do {
              let n = min (100 - ucast (i_count j)) m;
              h \<leftarrow> container_updateThing e y (i_id j) (ucast (i_count j) + n) to h;
              Some (n, h)
            } else Some (0, h)
          });
       if sint (m - n) > 0 then do {
         j \<leftarrow> item_clone (ie_items e) i;
         Some (Some fresh, h(fresh \<mapsto> j \<lparr> i_count := ucast (m - n) \<rparr>))
       } else Some (None, h)
     }"

definition internalMoveItem ::
    "item_env \<Rightarrow> nat \<Rightarrow> nat \<Rightarrow> int \<Rightarrow> nat \<Rightarrow> u32 \<Rightarrow> u32 \<Rightarrow> nat \<Rightarrow> item_heap \<Rightarrow> (return_value \<times> item_heap) option" where
  "internalMoveItem e from to index x amount flags fresh h =
     do {
       (to, index, toItem, flags) \<leftarrow> move_destination e h 16 to index x None flags;
       if toItem = Some x then Some (RETURNVALUE_NOERROR, h)
       else do {
         ret \<leftarrow> cont_queryAdd e h to index x amount flags;
         if ret \<noteq> RETURNVALUE_NOERROR then Some (ret, h)
         else do {
           (retMax, maxQueryCount) \<leftarrow> queryMaxCount e h to index x amount flags;
           if retMax \<noteq> RETURNVALUE_NOERROR \<and> maxQueryCount = 0 then Some (retMax, h)
           else do {
             i \<leftarrow> h x;
             let m = (if isStackable e i
                      then (if isRune e i then min (ucast (i_count i)) maxQueryCount else min amount maxQueryCount)
                      else maxQueryCount);
             ret \<leftarrow> queryRemove e h from x m flags;
             if ret \<noteq> RETURNVALUE_NOERROR then Some (ret, h)
             else do {
               h \<leftarrow> container_removeThing e x m from h;
               (moveItem, h) \<leftarrow> (if isStackable e i then move_stack e x toItem to m fresh h else Some (Some x, h));
               h \<leftarrow> (case moveItem of None \<Rightarrow> Some h | Some z \<Rightarrow> container_addThing e index z to h);
               Some (if isStackable e i \<and> maxQueryCount < amount then retMax else ret, h)
             }
           }
         }
       }
     }"

definition internalRemoveItem ::
    "item_env \<Rightarrow> nat \<Rightarrow> u32 \<Rightarrow> bool \<Rightarrow> u32 \<Rightarrow> bool \<Rightarrow> item_heap \<Rightarrow> (return_value \<times> item_heap) option" where
  "internalRemoveItem e x amount test flags canRemove h =
     do {
       i \<leftarrow> h x;
       case i_parent i of
         InContainer c \<Rightarrow> do {
           let amount = (if amount = - 1 then ucast (i_count i) else amount);
           ret \<leftarrow> queryRemove e h c x amount (flags OR FLAG_IGNORENOTMOVEABLE);
           if ret \<noteq> RETURNVALUE_NOERROR then Some (ret, h)
           else if \<not> canRemove then Some (RETURNVALUE_NOTPOSSIBLE, h)
           else if test then Some (RETURNVALUE_NOERROR, h)
           else do {
             h \<leftarrow> container_removeThing e x amount c h;
             Some (RETURNVALUE_NOERROR, h)
           }
         }
       | _ \<Rightarrow> Some (RETURNVALUE_NOTPOSSIBLE, h)
     }"

end
