(* ===== verification/Container_Forest.thy ===== *)
theory Container_Forest
  imports Container_Items
begin

text \<open>
  The invariant of the item heap: the lists of the containers and the parent pointers of the items
  describe the same forest, and the weight that every container keeps is the weight of its contents.
\<close>

subsection \<open>Structure\<close>

text \<open>Everything but the kept weights.\<close>

type_synonym container_shape = "u16 \<times> nat list \<times> bool \<times> bool"

definition shape :: "container \<Rightarrow> container_shape" where
  "shape co = (c_maxSize co, c_itemlist co, c_unlocked co, c_inbox co)"

definition skeleton :: "item_heap \<Rightarrow> nat \<Rightarrow> ((u16 \<times> item_class) \<times> u8 \<times> item_attributes option \<times> parent \<times> container_shape option) option" where
  "skeleton h x = map_option (\<lambda>i. ((i_id i, i_class i), i_count i, i_attributes i, i_parent i, map_option shape (i_container i))) (h x)"

definition items_of :: "item_heap \<Rightarrow> nat \<Rightarrow> nat list" where
  "items_of h c = (case get_container h c of None \<Rightarrow> [] | Some co \<Rightarrow> c_itemlist co)"

definition parent_rel :: "item_heap \<Rightarrow> (nat \<times> nat) set" where
  "parent_rel h = {(x, c). \<exists>i. h x = Some i \<and> i_parent i = InContainer c}"

definition is_container :: "item_heap \<Rightarrow> nat \<Rightarrow> bool" where
  "is_container h c \<longleftrightarrow> get_container h c \<noteq> None"

definition forest :: "item_heap \<Rightarrow> bool" where
  "forest h \<longleftrightarrow> finite (dom h) \<and> acyclic (parent_rel h)
     \<and> (\<forall>c. distinct (items_of h c))
     \<and> (\<forall>x c. x \<in> set (items_of h c) \<longleftrightarrow> (x, c) \<in> parent_rel h)
     \<and> (\<forall>x c. (x, c) \<in> parent_rel h \<longrightarrow> is_container h c)"

lemma forestD:
  assumes "forest h"
  shows "finite (dom h)" "acyclic (parent_rel h)" "distinct (items_of h c)"
    "x \<in> set (items_of h c) \<longleftrightarrow> (x, c) \<in> parent_rel h" "(x, c) \<in> parent_rel h \<Longrightarrow> is_container h c"
  using assms unfolding forest_def by blast+

lemma parent_rel_Some: "(x, c) \<in> parent_rel h \<longleftrightarrow> (\<exists>i. h x = Some i \<and> i_parent i = InContainer c)"
  by (simp add: parent_rel_def)

lemma skeleton_Some:
  assumes "skeleton h' = skeleton h" "h x = Some i"
  shows "\<exists>i'. h' x = Some i' \<and> i_id i' = i_id i \<and> i_class i' = i_class i \<and> i_count i' = i_count i \<and> i_attributes i' = i_attributes i
    \<and> i_parent i' = i_parent i \<and> map_option shape (i_container i') = map_option shape (i_container i)"
  using assms(2) fun_cong [OF assms(1), of x] by (auto simp: skeleton_def)

lemma skeleton_dom: "skeleton h' = skeleton h \<Longrightarrow> dom h' = dom h"
proof -
  have "dom h = {x. skeleton h x \<noteq> None}" for h by (auto simp: skeleton_def)
  then show "skeleton h' = skeleton h \<Longrightarrow> dom h' = dom h" by simp
qed

lemma skeleton_parent_rel: "skeleton h' = skeleton h \<Longrightarrow> parent_rel h' = parent_rel h"
  using skeleton_Some [of h' h] skeleton_Some [of h h'] unfolding parent_rel_def by fastforce

lemma skeleton_get_container:
  assumes "skeleton h' = skeleton h" "get_container h c = Some co"
  shows "\<exists>co'. get_container h' c = Some co' \<and> shape co' = shape co"
proof -
  obtain i where i: "h c = Some i" "i_container i = Some co" using assms(2) by (cases "h c") (auto simp: get_container_def)
  then show ?thesis using skeleton_Some [OF assms(1) i(1)] by (auto simp: get_container_def)
qed

lemma skeleton_shape:
  assumes "skeleton h' = skeleton h"
  shows "map_option shape (get_container h' c) = map_option shape (get_container h c)"
  using fun_cong [OF assms, of c]
  by (cases "h c"; cases "h' c") (auto simp: skeleton_def get_container_def)

lemma skeleton_items_of:
  assumes "skeleton h' = skeleton h"
  shows "items_of h' c = items_of h c" "is_container h' c = is_container h c"
  using skeleton_shape [OF assms, of c]
  by (cases "get_container h c"; cases "get_container h' c"; simp add: items_of_def is_container_def shape_def)+

lemma skeleton_forest:
  assumes "skeleton h' = skeleton h"
  shows "forest h' = forest h"
  unfolding forest_def skeleton_dom [OF assms] skeleton_parent_rel [OF assms] skeleton_items_of [OF assms] ..

lemma forest_wf: "forest h \<Longrightarrow> wf ((parent_rel h)\<inverse>)"
proof (rule finite_acyclic_wf_converse)
  assume f: "forest h"
  have "parent_rel h \<subseteq> (\<lambda>x. (x, the (parent_container (i_parent (the (h x)))))) ` dom h"
  proof
    fix r assume "r \<in> parent_rel h"
    then obtain x c i where "r = (x, c)" "h x = Some i" "i_parent i = InContainer c" by (auto simp: parent_rel_def)
    then have "r = (x, the (parent_container (i_parent (the (h x)))))" "x \<in> dom h" by (auto simp: parent_container_def)
    then show "r \<in> (\<lambda>x. (x, the (parent_container (i_parent (the (h x)))))) ` dom h" by blast
  qed
  then show "finite (parent_rel h)" by (rule finite_surj [OF forestD(1) [OF f]])
  show "acyclic (parent_rel h)" by (rule forestD(2) [OF f])
qed

lemma forest_induct [consumes 1, case_names child]:
  assumes "forest h" "\<And>x. (\<And>c. (x, c) \<in> parent_rel h \<Longrightarrow> P c) \<Longrightarrow> P x"
  shows "P x"
  using wf_induct_rule [OF forest_wf [OF assms(1)], of P x] assms(2) by blast

lemma parent_unique: "(x, c) \<in> parent_rel h \<Longrightarrow> (x, d) \<in> parent_rel h \<Longrightarrow> c = d"
  by (auto simp: parent_rel_def)

lemma forest_irrefl: "forest h \<Longrightarrow> (x, x) \<notin> parent_rel h"
proof
  assume "forest h" "(x, x) \<in> parent_rel h"
  then show False using forestD(2) [of h] r_into_trancl [of x x "parent_rel h"] by (simp add: acyclic_def)
qed

subsection \<open>Weights\<close>

definition weight_at :: "item_env \<Rightarrow> item_heap \<Rightarrow> nat \<Rightarrow> u32" where
  "weight_at e h x = (case h x of None \<Rightarrow> 0 | Some i \<Rightarrow> getWeight e i)"

definition total_at :: "item_heap \<Rightarrow> nat \<Rightarrow> u32" where
  "total_at h c = (case get_container h c of None \<Rightarrow> 0 | Some co \<Rightarrow> c_totalWeight co)"

text \<open>The kept weights are right but for the differences \<open>\<delta>\<close>.\<close>

definition weights_off :: "item_env \<Rightarrow> (nat \<Rightarrow> u32) \<Rightarrow> item_heap \<Rightarrow> bool" where
  "weights_off e \<delta> h \<longleftrightarrow>
     (\<forall>c. is_container h c \<longrightarrow> total_at h c + \<delta> c = (\<Sum>x \<in> set (items_of h c). weight_at e h x))"

definition weights_ok :: "item_env \<Rightarrow> item_heap \<Rightarrow> bool" where
  "weights_ok e = weights_off e (\<lambda>_. 0)"

lemma sum_change:
  fixes f g :: "'a \<Rightarrow> 'b::ab_group_add"
  assumes "finite A" "\<And>y. y \<in> A \<Longrightarrow> y \<noteq> x \<Longrightarrow> g y = f y"
  shows "sum g A = sum f A + (if x \<in> A then g x - f x else 0)"
proof (cases "x \<in> A")
  case True
  have "sum g (A - {x}) = sum f (A - {x})" using assms(2) by (intro sum.cong) auto
  then show ?thesis using True sum.remove [OF assms(1) True, of g] sum.remove [OF assms(1) True, of f] by simp
next
  case False
  then have "sum g A = sum f A" using assms(2) by (intro sum.cong) auto
  then show ?thesis using False by simp
qed

text \<open>Changing one item, but not where it is or what it contains.\<close>

lemma weights_off_item:
  assumes "forest h" "weights_off e \<delta> h" "h x = Some i" "i_parent i' = i_parent i"
    "map_option shape (i_container i') = map_option shape (i_container i)"
    "\<delta>' = (\<lambda>c. \<delta> c + (if i_parent i = InContainer c then getWeight e i' - getWeight e i else 0)
        - (if c = x then total_at (h(x \<mapsto> i')) x - total_at h x else 0))"
  shows "weights_off e \<delta>' (h(x \<mapsto> i'))"
  unfolding weights_off_def
proof (intro allI impI)
  fix c assume c: "is_container (h(x \<mapsto> i')) c"
  let ?h' = "h(x \<mapsto> i')"
  have sh: "map_option shape (get_container ?h' c) = map_option shape (get_container h c)"
    using assms(3,5) by (simp add: get_container_def)
  then have ic: "is_container h c" and it: "items_of ?h' c = items_of h c"
    using c by (cases "get_container h c"; cases "get_container ?h' c"; simp add: is_container_def items_of_def shape_def)+
  have s: "(\<Sum>y \<in> set (items_of h c). weight_at e ?h' y) = (\<Sum>y \<in> set (items_of h c). weight_at e h y)
      + (if x \<in> set (items_of h c) then weight_at e ?h' x - weight_at e h x else 0)"
    by (rule sum_change) (auto simp: weight_at_def)
  have m: "x \<in> set (items_of h c) \<longleftrightarrow> i_parent i = InContainer c"
    using forestD(4) [OF assms(1), of x c] assms(3) by (simp add: parent_rel_def)
  have "total_at h c + \<delta> c = (\<Sum>y \<in> set (items_of h c). weight_at e h y)"
    using assms(2) ic by (simp add: weights_off_def)
  moreover have "total_at ?h' c = total_at h c + (if c = x then total_at ?h' x - total_at h x else 0)"
    by (simp add: total_at_def get_container_def)
  moreover have "weight_at e ?h' x - weight_at e h x = getWeight e i' - getWeight e i"
    using assms(3) by (simp add: weight_at_def)
  ultimately show "total_at ?h' c + \<delta>' c = (\<Sum>y \<in> set (items_of ?h' c). weight_at e ?h' y)"
    unfolding it s assms(6) by (simp add: m)
qed

lemma weight_total:
  assumes "i_container i = Some co"
  shows "getWeight e (i \<lparr> i_container := Some (co \<lparr> c_totalWeight := c_totalWeight co + d \<rparr>) \<rparr>) = getWeight e i + d"
  using assms by (simp add: getWeight_def item_weight_def getBaseWeight_def item_has_def item_getInt_def Let_def)

lemma updateItemWeight_ok:
  assumes "forest h0" "skeleton h = skeleton h0" "is_container h c" "weights_off e \<delta> h"
  shows "\<exists>h'. updateItemWeight d c h = Some h' \<and> skeleton h' = skeleton h0
    \<and> weights_off e (\<delta>(c := \<delta> c - d)) h' \<and> (\<forall>y. (c, y) \<notin> (parent_rel h0)\<^sup>* \<longrightarrow> h' y = h y)"
  using assms(1) assms(2-4)
proof (induction c arbitrary: h \<delta> rule: forest_induct)
  case (child c)
  obtain i co where i: "h c = Some i" "i_container i = Some co"
    using child.prems(2) by (cases "h c") (auto simp: is_container_def get_container_def)
  let ?i' = "i \<lparr> i_container := Some (co \<lparr> c_totalWeight := c_totalWeight co + d \<rparr>) \<rparr>"
  let ?h1 = "h(c \<mapsto> ?i')"
  have sk: "skeleton ?h1 = skeleton h"
    using i by (auto simp: skeleton_def fun_eq_iff shape_def)
  have f: "forest h" using skeleton_forest [OF child.prems(1)] assms(1) by simp
  have off: "weights_off e (\<lambda>z. \<delta> z + (if i_parent i = InContainer z then d else 0) - (if z = c then d else 0)) ?h1"
    using i by (intro weights_off_item [OF f child.prems(3) i(1)])
      (auto simp: shape_def total_at_def get_container_def weight_total [OF i(2)] fun_eq_iff)
  have keep: "h' y = h y" if "h' y = ?h1 y" "(c, y) \<notin> (parent_rel h0)\<^sup>*" for h' :: item_heap and y
    using that by auto
  show ?case
  proof (cases "parent_container (i_parent i)")
    case None
    then have "updateItemWeight d c h = Some ?h1"
      by (subst updateItemWeight.simps) (simp add: i Let_def)
    moreover have "(\<lambda>z. \<delta> z + (if i_parent i = InContainer z then d else 0) - (if z = c then d else 0)) = \<delta>(c := \<delta> c - d)"
      using None by (auto simp: parent_container_def fun_eq_iff split: parent.splits)
    then have "weights_off e (\<delta>(c := \<delta> c - d)) ?h1" using off by (simp only:)
    moreover have "skeleton ?h1 = skeleton h0" using sk child.prems(1) by simp
    moreover have "\<forall>y. (c, y) \<notin> (parent_rel h0)\<^sup>* \<longrightarrow> ?h1 y = h y" using keep [of ?h1] by blast
    ultimately show ?thesis by blast
  next
    case (Some p)
    then have ip: "i_parent i = InContainer p" by (auto simp: parent_container_def split: parent.splits)
    have cp: "(c, p) \<in> parent_rel h0"
      using i(1) ip unfolding skeleton_parent_rel [OF child.prems(1), symmetric] by (simp add: parent_rel_def)
    have pc: "p \<noteq> c" using forest_irrefl [OF assms(1)] cp by auto
    have ic: "is_container ?h1 p"
      using forestD(5) [OF assms(1) cp] skeleton_items_of(2) [OF sk] skeleton_items_of(2) [OF child.prems(1)] by simp
    let ?\<delta>1 = "\<lambda>z. \<delta> z + (if i_parent i = InContainer z then d else 0) - (if z = c then d else 0)"
    have e: "?\<delta>1(p := ?\<delta>1 p - d) = \<delta>(c := \<delta> c - d)"
      using ip pc by (auto simp: fun_eq_iff)
    have "skeleton ?h1 = skeleton h0" using sk child.prems(1) by simp
    from child.IH [OF cp this ic off] obtain h' where h': "updateItemWeight d p ?h1 = Some h'"
      "skeleton h' = skeleton h0" "weights_off e (?\<delta>1(p := ?\<delta>1 p - d)) h'"
      "\<forall>y. (p, y) \<notin> (parent_rel h0)\<^sup>* \<longrightarrow> h' y = ?h1 y" by blast
    have "weights_off e (\<delta>(c := \<delta> c - d)) h'" using h'(3) unfolding e .
    moreover have "updateItemWeight d c h = Some h'"
      by (subst updateItemWeight.simps) (simp add: i Some Let_def h'(1))
    moreover have "h' y = h y" if "(c, y) \<notin> (parent_rel h0)\<^sup>*" for y
    proof (rule keep [OF _ that])
      have "(p, y) \<notin> (parent_rel h0)\<^sup>*" using that converse_rtrancl_into_rtrancl [OF cp] by blast
      then show "h' y = ?h1 y" using h'(4) by blast
    qed
    ultimately show ?thesis using h'(2) by blast
  qed
qed

end
