(* ===== verification/Item_Conservation.thy ===== *)
theory Item_Conservation
  imports Item_Moves
begin

text \<open>
  \<open>Game::internalMoveItem\<close> between containers: it always answers, keeps the invariant of the heap, and
  the amount of every type of item stays the same.
\<close>

subsection \<open>Queries\<close>

lemma rtrancl_ancestors: "(c, x) \<in> (parent_rel h)\<^sup>* \<longleftrightarrow> x = c \<or> x \<in> proper_ancestors h c"
  by (auto simp: proper_ancestors_def rtrancl_eq_or_trancl)

lemma get_containerE:
  assumes "is_container h c"
  obtains ci co where "h c = Some ci" "i_container ci = Some co" "get_container h c = Some co"
  using assms by (cases "h c") (auto simp: is_container_def get_container_def)

lemma top_queryAdd_answers:
  assumes "forest h" "h c = Some ci"
  shows "\<exists>r. top_queryAdd e h x n flags (i_parent ci) = Some r \<and> r \<noteq> RETURNVALUE_NEEDEXCHANGE"
  using carrier_answers [OF assms] by (auto simp: top_queryAdd_def split: option.split)

lemma container_queryAdd_answers:
  assumes "forest h" "h c = Some ci" "i_container ci = Some co" "h x = Some i"
  shows "\<exists>r. container_queryAdd e h c index x n flags = Some r
    \<and> (r = RETURNVALUE_NOERROR \<and> \<not> hasBitSet FLAG_CHILDISOWNER flags \<longrightarrow>
        (c, x) \<notin> (parent_rel h)\<^sup>* \<and> c_unlocked co)"
proof -
  obtain q where q: "query_parents h (\<not> hasBitSet FLAG_NOLIMIT flags) x (i_parent ci) = Some q"
    "q = None \<longrightarrow> x \<notin> proper_ancestors h c" "q \<noteq> Some RETURNVALUE_NOERROR"
    using query_parents_answers [OF assms(1,2)] by blast
  obtain t where t: "top_queryAdd e h x n flags (i_parent ci) = Some t"
    using top_queryAdd_answers [OF assms(1,2)] by blast
  show ?thesis
    using q t assms(2-4)
    by (cases q) (auto simp: container_queryAdd_def rtrancl_ancestors)
qed

lemma cont_queryAdd_answers:
  assumes "forest h" "inboxes_ok h" "is_container h c" "h x = Some i"
  shows "\<exists>r. cont_queryAdd e h c index x n flags = Some r
    \<and> (r = RETURNVALUE_NOERROR \<and> \<not> hasBitSet FLAG_CHILDISOWNER flags \<longrightarrow>
        (c, x) \<notin> (parent_rel h)\<^sup>* \<and> (\<forall>co. get_container h c = Some co \<longrightarrow> c_unlocked co))"
proof -
  obtain ci co where c: "h c = Some ci" "i_container ci = Some co" "get_container h c = Some co"
    using assms(3) by (rule get_containerE)
  show ?thesis
  proof (cases "c_inbox co")
    case False
    then show ?thesis using container_queryAdd_answers [OF assms(1) c(1,2) assms(4)] c(3)
      by (fastforce simp: cont_queryAdd_def)
  next
    case True
    then have u: "c_unlocked co" "parent_container (i_parent ci) = None"
      using assms(2) c(1,2) by (auto simp: inboxes_ok_def)
    then have "proper_ancestors h c = {}"
      using proper_ancestors_step [where h = h and c = c and ci = ci, OF c(1)] by simp
    then show ?thesis using True u c assms(4)
      by (auto simp: cont_queryAdd_def inbox_queryAdd_def rtrancl_ancestors)
  qed
qed

lemma live_items: "forest h \<Longrightarrow> y \<in> set (items_of h c) \<Longrightarrow> \<exists>j. h y = Some j \<and> i_parent j = InContainer c"
  using forestD(4) [of h y c] by (auto simp: parent_rel_def)

lemma stack_room_answers:
  assumes "forest h" "inboxes_ok h" "is_container h c" "h x = Some i" "\<forall>y \<in> set ys. h y \<noteq> None"
  shows "\<exists>r. stack_room e h c x flags ys s n = Some r"
  using assms(5)
proof (induction ys arbitrary: s n)
  case (Cons y ys)
  obtain j where "h y = Some j" using Cons.prems by auto
  moreover obtain r where "cont_queryAdd e h c s x (ucast (100 - i_count j)) flags = Some r"
    using cont_queryAdd_answers [OF assms(1-4)] by blast
  ultimately show ?case using Cons.IH Cons.prems assms(4) by (auto simp: Let_def)
qed simp

lemma queryMaxCount_answers:
  assumes "forest h" "inboxes_ok h" "is_container h c" "h x = Some i"
  shows "\<exists>r m. queryMaxCount e h c index x n flags = Some (r, m)"
proof -
  obtain ci co where c: "h c = Some ci" "i_container ci = Some co" "get_container h c = Some co"
    using assms(3) by (rule get_containerE)
  have live: "\<forall>y \<in> set (c_itemlist co). h y \<noteq> None"
    using live_items [OF assms(1), of _ c] c(3) by (fastforce simp: items_of_def)
  obtain s where s: "stack_room e h c x flags (c_itemlist co) 0 0 = Some s"
    using stack_room_answers [OF assms live] by blast
  have by_index: "\<exists>s. (case getItemByIndex co index of
                      None \<Rightarrow> Some 0
                    | Some y \<Rightarrow> do {
                        j \<leftarrow> h y;
                        if item_equals i j \<and> i_count j < 100 then do {
                          let remainder = ucast (100 - i_count j);
                          r \<leftarrow> cont_queryAdd e h c index x remainder flags;
                          Some (if r = RETURNVALUE_NOERROR then remainder else 0)
                        } else Some 0
                      }) = Some (s :: u32)"
  proof (cases "getItemByIndex co index")
    case (Some y)
    then have "y \<in> set (c_itemlist co)" by (auto simp: getItemByIndex_def split: if_splits)
    then obtain j where "h y = Some j" using live by auto
    moreover obtain r where "cont_queryAdd e h c index x (ucast (100 - i_count j)) flags = Some r"
      using cont_queryAdd_answers [OF assms] by blast
    ultimately show ?thesis using Some by (auto simp: Let_def)
  qed simp
  show ?thesis
  proof (cases "hasBitSet FLAG_NOLIMIT flags \<or> \<not> isStackable e i")
    case True
    then show ?thesis using c(3) assms(4) by (auto simp: queryMaxCount_def Let_def)
  next
    case False
    then show ?thesis using c(3) assms(4) s by_index
      by (cases "index = INDEX_WHEREEVER") (auto simp: queryMaxCount_def Let_def)
  qed
qed

lemma queryRemove_answers:
  assumes "is_container h c" "h x = Some i"
  shows "\<exists>r. queryRemove e h c x m flags = Some r \<and> (r = RETURNVALUE_NOERROR \<longrightarrow>
    x \<in> set (items_of h c) \<and> m \<noteq> 0 \<and> (isStackable e i \<longrightarrow> m \<le> ucast (i_count i)))"
proof -
  obtain ci co where "get_container h c = Some co" using assms(1) by (rule get_containerE)
  then show ?thesis using assms(2) index_of_None [of x "c_itemlist co"]
    by (auto simp: queryRemove_def getThingIndex_def items_of_def not_less)
qed

subsection \<open>The destination\<close>

definition fits :: "item_heap \<Rightarrow> bool" where
  "fits h \<longleftrightarrow> (\<forall>c co. get_container h c = Some co \<longrightarrow> length (c_itemlist co) \<le> unat (c_maxSize co))"

definition dest_ok :: "item_heap \<Rightarrow> nat \<Rightarrow> int \<Rightarrow> nat option \<Rightarrow> bool" where
  "dest_ok h c index toItem \<longleftrightarrow> (\<exists>co. get_container h c = Some co
     \<and> (c_unlocked co \<longrightarrow> index < int (unat (c_maxSize co)))
     \<and> (\<forall>y. toItem = Some y \<longrightarrow> y \<in> set (c_itemlist co)))"

lemma find_stack_answers:
  assumes "\<forall>y \<in> set ys. h y \<noteq> None" "h x = Some i"
  shows "\<exists>r. find_stack h x ys k = Some r \<and> (\<forall>y n. r = Some (y, n) \<longrightarrow> y \<in> set ys \<and> n < k + length ys)"
  using assms(1)
proof (induction ys arbitrary: k)
  case (Cons z ys)
  obtain j where j: "h z = Some j" using Cons.prems by auto
  obtain r where r: "find_stack h x ys (Suc k) = Some r" "\<forall>y n. r = Some (y, n) \<longrightarrow> y \<in> set ys \<and> n < Suc k + length ys"
    using Cons.IH [of "Suc k"] Cons.prems by auto
  then show ?case using j assms(2) by (auto simp del: split_paired_Ex)
qed simp

lemma minus_one_less_unat: "- 1 < int (unat (w :: u16))"
  by linarith

lemma queryDestination_answers:
  assumes "forest h" "fits h" "is_container h c" "h x = Some i"
  shows "\<exists>c' index' d. queryDestination e h c index x None flags = Some (c', index', d)
    \<and> dest_ok h c' index' d \<and> (c' \<noteq> c \<longrightarrow> index' = INDEX_WHEREEVER \<and> d = None)"
proof -
  obtain ci co where c: "h c = Some ci" "i_container ci = Some co" "get_container h c = Some co"
    using assms(3) by (rule get_containerE)
  have live: "\<forall>y \<in> set (c_itemlist co). h y \<noteq> None"
    using live_items [OF assms(1), of _ c] c(3) by (fastforce simp: items_of_def)
  have len: "length (c_itemlist co) \<le> unat (c_maxSize co)" using assms(2) c(3) by (simp add: fits_def)
  note neg = minus_one_less_unat
  obtain s where s: "find_stack h x (c_itemlist co) 0 = Some s"
    "\<forall>y n. s = Some (y, n) \<longrightarrow> y \<in> set (c_itemlist co) \<and> n < length (c_itemlist co)"
    using find_stack_answers [OF live assms(4), of 0] by auto
  define idx where "idx = (if index = 255 \<or> index \<ge> int (unat (c_maxSize co)) then INDEX_WHEREEVER else index)"
  have idx: "idx < int (unat (c_maxSize co))" using neg by (auto simp: idx_def INDEX_WHEREEVER_def)
  define stack where "stack = (if ie_autoStack e \<and> \<not> hasBitSet FLAG_IGNOREAUTOSTACK flags \<and> isStackable e i
                     \<and> i_parent i \<noteq> InContainer c
                  then s else None)"
  have st: "y \<in> set (c_itemlist co) \<and> int n < int (unat (c_maxSize co))" if "stack = Some (y, n)" for y n
  proof -
    have "s = Some (y, n)" using that by (simp add: stack_def split: if_splits)
    then have yn: "y \<in> set (c_itemlist co) \<and> n < length (c_itemlist co)" using s(2) by blast
    then have "n < unat (c_maxSize co)" using len by linarith
    then show ?thesis using yn by (simp only: of_nat_less_iff)
  qed
  have tail: "queryDestination e h c index x None flags =
      (case stack of
         Some (y, n) \<Rightarrow> Some (c, int n, Some y)
       | None \<Rightarrow>
           if idx \<noteq> INDEX_WHEREEVER then
             (case getItemByIndex co idx of
                None \<Rightarrow> Some (c, idx, None)
              | Some y \<Rightarrow> Option.bind (h y) (\<lambda>j. Some (if i_container j \<noteq> None then (y, INDEX_WHEREEVER, None) else (c, idx, Some y))))
           else Some (c, idx, None))" if "c_unlocked co" "index \<noteq> 254"
  proof -
    have p: "(if index = 255 \<or> index \<ge> int (unat (c_maxSize co)) then (INDEX_WHEREEVER, None) else (index, None))
      = (idx, None :: nat option)" unfolding idx_def by (rule if_distrib [symmetric])
    have q: "(if ie_autoStack e \<and> \<not> hasBitSet FLAG_IGNOREAUTOSTACK flags \<and> isStackable e i
                     \<and> i_parent i \<noteq> InContainer c
                  then find_stack h x (c_itemlist co) 0 else Some None) = Some stack"
      using s(1) by (simp add: stack_def)
    show ?thesis
      using that unfolding queryDestination_def c(1,2) assms(4) bind.bind_lunit p Let_def prod.case q
      by (cases stack; cases "getItemByIndex co idx"; cases "h (the (getItemByIndex co idx))") auto
  qed
  consider (locked) "\<not> c_unlocked co" | (up) "c_unlocked co" "index = 254" | (go) "c_unlocked co" "index \<noteq> 254" by blast
  then show ?thesis
  proof cases
    case locked
    then show ?thesis using c assms(4) by (auto simp: queryDestination_def dest_ok_def)
  next
    case up
    let ?c' = "case parent_container (i_parent ci) of Some p \<Rightarrow> p | None \<Rightarrow> c"
    have "is_container h ?c'"
      using assms(3) forest_parent [OF assms(1) c(1)]
      by (auto simp: is_container_def get_container_def split: option.split)
    then show ?thesis using up c assms(4) neg
      by (auto simp: queryDestination_def dest_ok_def is_container_def INDEX_WHEREEVER_def)
  next
    case go
    show ?thesis
    proof (cases stack)
      case (Some yn)
      then show ?thesis using tail [OF go] st c(3) by (cases yn) (auto simp: dest_ok_def)
    next
      case None
      show ?thesis
      proof (cases "idx \<noteq> INDEX_WHEREEVER \<and> getItemByIndex co idx \<noteq> None")
        case False
        then have "queryDestination e h c index x None flags = Some (c, idx, None)"
          using tail [OF go] None by auto
        then show ?thesis using c(3) idx by (auto simp: dest_ok_def)
      next
        case True
        then obtain y where y: "getItemByIndex co idx = Some y" by blast
        then have mem: "y \<in> set (c_itemlist co)" by (auto simp: getItemByIndex_def split: if_splits)
        obtain j where j: "h y = Some j" using live mem by auto
        show ?thesis
        proof (cases "i_container j")
          case None
          then have "queryDestination e h c index x None flags = Some (c, idx, Some y)"
            using tail [OF go] \<open>stack = None\<close> True y j by simp
          then show ?thesis using c(3) idx mem by (auto simp: dest_ok_def)
        next
          case (Some co')
          then have "queryDestination e h c index x None flags = Some (y, INDEX_WHEREEVER, None)"
            using tail [OF go] \<open>stack = None\<close> True y j by simp
          then show ?thesis using Some j neg by (auto simp: dest_ok_def get_container_def INDEX_WHEREEVER_def)
        qed
      qed
    qed
  qed
qed

lemma dest_ok_container: "dest_ok h c idx d \<Longrightarrow> is_container h c"
  by (auto simp: dest_ok_def is_container_def)

lemma move_destination_answers:
  assumes "forest h" "fits h" "h x = Some i" "is_container h to" "n = 0 \<Longrightarrow> index = INDEX_WHEREEVER"
    "\<not> hasBitSet FLAG_CHILDISOWNER flags"
  shows "\<exists>to' index' d flags'. move_destination e h n to index x None flags = Some (to', index', d, flags')
    \<and> dest_ok h to' index' d \<and> \<not> hasBitSet FLAG_CHILDISOWNER flags'"
  using assms(4-6)
proof (induction n arbitrary: to index flags)
  case 0
  then obtain co where "get_container h to = Some co" by (auto simp: is_container_def)
  then show ?case using 0 minus_one_less_unat by (auto simp: dest_ok_def INDEX_WHEREEVER_def simp del: of_nat_unat)
next
  case (Suc n)
  obtain c' idx' d where q: "queryDestination e h to index x None flags = Some (c', idx', d)"
    "dest_ok h c' idx' d" "c' \<noteq> to \<longrightarrow> idx' = INDEX_WHEREEVER \<and> d = None"
    using queryDestination_answers [OF assms(1,2) Suc.prems(1) assms(3)] by blast
  show ?case
  proof (cases "c' = to")
    case True
    then show ?thesis using q Suc.prems(3) by simp
  next
    case False
    have "\<not> hasBitSet FLAG_CHILDISOWNER 0" by (simp add: hasBitSet_def)
    then show ?thesis
      using Suc.IH [of c' idx' 0] q False dest_ok_container [OF q(2)] by simp
  qed
qed

subsection \<open>Stacks\<close>

lemma fresh_item:
  assumes "heap_ok e h" "h z = None" "i_parent i = NoParent" "i_container i = None"
    "ie_stackable e (i_id i) \<Longrightarrow> 0 < i_count i \<and> i_count i \<le> 100"
  shows "heap_ok e (h(z \<mapsto> i))" "parent_rel (h(z \<mapsto> i)) = parent_rel h"
    "get_container (h(z \<mapsto> i)) = get_container h" "amount_of e (h(z \<mapsto> i)) t = amount_of e h t"
proof -
  note f = heap_okD(1) [OF assms(1)]
  let ?h = "h(z \<mapsto> i)"
  show r: "parent_rel ?h = parent_rel h" using assms(2,3) by (auto simp: parent_rel_def split: if_splits)
  show g: "get_container ?h = get_container h" using assms(2,4) by (auto simp: get_container_def fun_eq_iff)
  then have it: "items_of ?h = items_of h" "is_container ?h = is_container h" "total_at ?h = total_at h"
    by (simp_all add: items_of_def is_container_def total_at_def fun_eq_iff)
  have "finite (dom ?h)" using heap_okD(4) [OF assms(1)] by simp
  then have "forest ?h" using f unfolding forest_def r it by blast
  moreover have "weights_off e (\<lambda>_. 0) ?h"
    unfolding weights_off_def it
  proof (intro allI impI)
    fix c assume c: "is_container h c"
    have "weight_at e ?h y = weight_at e h y" if "y \<in> set (items_of h c)" for y
      using live_items [OF f that] assms(2) by (auto simp: weight_at_def)
    then have "(\<Sum>y \<in> set (items_of h c). weight_at e ?h y) = (\<Sum>y \<in> set (items_of h c). weight_at e h y)"
      by (intro sum.cong) auto
    then show "total_at h c + 0 = (\<Sum>y \<in> set (items_of h c). weight_at e ?h y)"
      using heap_okD(2) [OF assms(1)] c by (simp add: weights_off_def)
  qed
  moreover have "stacks_ok e ?h" using heap_okD(3) [OF assms(1)] assms(4,5) by (auto simp: stacks_ok_def)
  ultimately show "heap_ok e ?h" by (simp add: heap_ok_def weights_ok_def)
  have "item_amount e t i = 0" using assms(3) by (simp add: item_amount_def)
  then show "amount_of e ?h t = amount_of e h t"
    using amount_of_upd [OF heap_okD(4) [OF assms(1)], of e z i t] assms(2) by simp
qed

text \<open>The types of stacks are plain: no fluids, no class of their own, none of the rings that
  \<open>Item::CreateItem\<close> replaces.\<close>

definition plain_type :: "item_type \<Rightarrow> bool" where
  "plain_type it \<longleftrightarrow> it_group it \<notin> {ITEM_GROUP_DEPRECATED, ITEM_GROUP_SPLASH, ITEM_GROUP_FLUID, ITEM_GROUP_CONTAINER}
     \<and> it_type it \<notin> {ITEM_TYPE_DEPOT, ITEM_TYPE_REWARDCHEST, ITEM_TYPE_TELEPORT, ITEM_TYPE_MAGICFIELD, ITEM_TYPE_DOOR,
          ITEM_TYPE_TRASHHOLDER, ITEM_TYPE_MAILBOX, ITEM_TYPE_BED}
     \<and> it_id it \<noteq> 0 \<and> \<not> (2210 \<le> it_id it \<and> it_id it \<le> 2212) \<and> it_id it \<noteq> 2215 \<and> it_id it \<noteq> 2216
     \<and> \<not> (2202 \<le> it_id it \<and> it_id it \<le> 2206)"

definition stack_types_ok :: "item_env \<Rightarrow> bool" where
  "stack_types_ok e \<longleftrightarrow> (\<forall>t. ie_stackable e t \<longrightarrow> plain_type (ie_items e t))"

lemma unat_ucast_less: "unat (w :: 'a::len word) < 2 ^ LENGTH('b) \<Longrightarrow> unat (ucast w :: 'b::len word) = unat w"
  by (simp add: unsigned_ucast_eq take_bit_nat_eq_self_iff)

text \<open>Setting the count of a stack, setting its type and cloning it.\<close>

lemma item_setID_sel [simp]:
  "i_id (item_setID types t i) = t" "i_count (item_setID types t i) = i_count i"
  "i_parent (item_setID types t i) = i_parent i" "i_container (item_setID types t i) = i_container i"
  by (simp_all add: item_setID_def Let_def item_remove_def setDuration_def setDecaying_def item_setInt_def)

lemma clone_stack:
  assumes "stack_types_ok e" "ie_stackable e (i_id i)"
  obtains j where "item_clone (ie_items e) i = Some j" "i_id j = i_id i" "i_parent j = NoParent" "i_container j = None"
proof -
  let ?j = "item_new (ie_items e) (i_id i) (if i_count i = 0 then 1 else ucast (i_count i))"
  have p: "plain_type (ie_items e (i_id i))" using assms by (simp add: stack_types_ok_def)
  have z: "(ucast (i_count i) :: u16) = 0 \<longleftrightarrow> i_count i = 0"
    using unat_u8_bound [of "i_count i"] unat_ucast_less [where 'b = 16, of "i_count i"] by (simp add: word_unat_eq_iff)
  then have "createItem (ie_items e) (i_id i) (ucast (i_count i)) = Some ?j"
    using p assms(2) by (auto simp: plain_type_def createItem_def Let_def)
  moreover have "i_id ?j = i_id i" "i_parent ?j = NoParent" "i_container ?j = None"
    by (simp_all add: item_new_def Let_def setDuration_def item_setInt_def setCharges_def setFluidType_def)
  ultimately show thesis using that by (cases "i_attributes i") (auto simp: item_clone_def)
qed

text \<open>The amount that fits on a stack.\<close>

lemma stack_merge:
  assumes "(a :: u8) \<le> 100" "(m :: u32) \<le> 100"
  shows "unat (min (100 - ucast a) m) = min (100 - unat a) (unat m)"
    "unat (ucast (ucast (ucast a + min (100 - ucast a) m) :: u16) :: u8) = unat a + min (100 - unat a) (unat m)"
proof -
  have a: "unat a \<le> 100" using assms(1) by (simp add: word_le_nat_alt)
  have m: "unat m \<le> 100" using assms(2) by (simp add: word_le_nat_alt)
  have ua: "unat (ucast a :: u32) = unat a"
    using unat_u8_bound [of a] by (simp add: unsigned_ucast_eq take_bit_nat_eq_self_iff)
  have "(ucast a :: u32) \<le> 100" using a ua by (simp add: word_le_nat_alt)
  then have s: "unat (100 - ucast a :: u32) = 100 - unat a" using ua by (simp add: unat_sub)
  then show n: "unat (min (100 - ucast a) m) = min (100 - unat a) (unat m)"
    by (simp add: min_def word_le_nat_alt)
  have x: "unat (ucast a + min (100 - ucast a) m :: u32) = unat a + min (100 - unat a) (unat m)"
    using a m n ua by (subst unat_add_lem [THEN iffD1]) auto
  have l: "unat a + min (100 - unat a) (unat m) < 256" using a by linarith
  have "unat (ucast (ucast a + min (100 - ucast a) m :: u32) :: u16) = unat a + min (100 - unat a) (unat m)"
    using l by (subst unat_ucast_less) (simp_all only: x, simp)
  then show "unat (ucast (ucast (ucast a + min (100 - ucast a) m) :: u16) :: u8) = unat a + min (100 - unat a) (unat m)"
    using l by (subst unat_ucast_less) (simp_all only:, simp)
qed

lemma merge_item:
  assumes "heap_ok e h" "stack_types_ok e" "h y = Some j" "get_container h c = Some co" "y \<in> set (c_itemlist co)"
    "ie_stackable e (i_id j)" "m \<le> 100"
  shows "\<exists>h'. container_updateThing e y (i_id j) (ucast (i_count j) + min (100 - ucast (i_count j)) m) c h = Some h'
    \<and> heap_ok e h' \<and> parent_rel h' = parent_rel h \<and> dom h' = dom h
    \<and> map_option shape (get_container h' z) = map_option shape (get_container h z)
    \<and> amount_of e h' t = amount_of e h t + (if t = i_id j then min (100 - unat (i_count j)) (unat m) else 0)"
proof -
  note f = heap_okD(1) [OF assms(1)]
  have st: "i_container j = None" "0 < i_count j" "i_count j \<le> 100"
    using heap_okD(3) [OF assms(1)] assms(3,6) by (auto simp: stacks_ok_def)
  have "y \<in> set (items_of h c)" using assms(4,5) by (simp add: items_of_def)
  from live_items [OF f this] have yc: "i_parent j = InContainer c" using assms(3) by auto
  obtain k where k: "getThingIndex co y = Some k"
    using index_of_member [OF assms(5)] by (auto simp: getThingIndex_def)
  let ?n = "ucast (i_count j) + min (100 - ucast (i_count j)) m"
  let ?j = "setSubType (ie_items e) (ucast ?n) (item_setID (ie_items e) (i_id j) j)"
  have fl: "\<not> isFluidContainer (ie_items e (i_id j))" "\<not> isSplash (ie_items e (i_id j))"
    using assms(2,6) by (auto simp: stack_types_ok_def plain_type_def isFluidContainer_def isSplash_def)
  have j': "i_id ?j = i_id j" "i_parent ?j = i_parent j" "i_container ?j = None" "i_count ?j = ucast (ucast ?n :: u16)"
    using fl assms(6) st(1) by (simp_all add: setSubType_def)
  note n = stack_merge [OF st(3) assms(7)]
  have cnt: "unat (i_count ?j) = unat (i_count j) + min (100 - unat (i_count j)) (unat m)"
    unfolding j'(4) by (rule n(2))
  have le: "unat (i_count j) \<le> 100" and pos: "0 < unat (i_count j)"
    using st(2,3) by (auto simp: word_le_nat_alt word_less_nat_alt)
  have "0 < unat (i_count ?j)" "unat (i_count ?j) \<le> 100" unfolding cnt using le pos by simp_all
  then have "0 < i_count ?j \<and> i_count ?j \<le> 100" by (simp add: word_le_nat_alt word_less_nat_alt)
  then obtain h' where h': "updateItemWeight (getWeight e ?j - getWeight e j) c (h(y \<mapsto> ?j)) = Some h'"
    "heap_ok e h'" "skeleton h' = skeleton (h(y \<mapsto> ?j))"
    using change_item [OF assms(1,3) yc st(1) j'(2,3)] by blast
  have run: "container_updateThing e y (i_id j) ?n c h = Some h'"
    using assms(3,4) k h'(1) by (simp add: container_updateThing_def Let_def)
  have r: "parent_rel (h(y \<mapsto> ?j)) = parent_rel h"
    using assms(3) j'(2) by (auto simp: parent_rel_def split: if_splits)
  have g: "get_container (h(y \<mapsto> ?j)) = get_container h"
    using assms(3) st(1) j'(3) by (auto simp: get_container_def fun_eq_iff)
  have a: "amount_of e (h(y \<mapsto> ?j)) t + item_amount e t j = amount_of e h t + item_amount e t ?j"
    using amount_of_upd [OF heap_okD(4) [OF assms(1)], of e y ?j t] assms(3) by simp
  have "item_amount e t ?j = item_amount e t j + (if t = i_id j then min (100 - unat (i_count j)) (unat m) else 0)"
    using assms(6) yc cnt by (auto simp: item_amount_def j'(1,2))
  then have "amount_of e h' t = amount_of e h t + (if t = i_id j then min (100 - unat (i_count j)) (unat m) else 0)"
    using a skeleton_amount [OF h'(3)] by simp
  moreover have "dom h' = dom h" using skeleton_dom [OF h'(3)] assms(3) by auto
  moreover have "parent_rel h' = parent_rel h" using skeleton_parent_rel [OF h'(3)] r by simp
  moreover have "map_option shape (get_container h' z) = map_option shape (get_container h z)"
    using skeleton_shape [OF h'(3), of z] g by simp
  ultimately show ?thesis using run h'(2) by blast
qed

end
