(* ===== verification/Move_Item.thy ===== *)
theory Move_Item
  imports Item_Conservation
begin

text \<open>
  What \<open>Game::internalMoveItem\<close> does to the items when it gets past its queries: taking out a part or the
  whole of a stack, merging it, adding the rest; and the conservation of every type of item.
\<close>

subsection \<open>Keeping the containers\<close>

definition same_boxes :: "item_heap \<Rightarrow> item_heap \<Rightarrow> bool" where
  "same_boxes h h' \<longleftrightarrow> parent_rel h' = parent_rel h \<and> dom h \<subseteq> dom h'
     \<and> (\<forall>z. map_option shape (get_container h' z) = map_option shape (get_container h z))"

lemma same_boxesD:
  assumes "same_boxes h h'"
  shows "parent_rel h' = parent_rel h" "dom h \<subseteq> dom h'"
    "map_option shape (get_container h' z) = map_option shape (get_container h z)"
  using assms unfolding same_boxes_def by blast+

lemma same_boxes_refl: "same_boxes h h"
  by (simp add: same_boxes_def)

lemma same_boxes_trans: "same_boxes h h' \<Longrightarrow> same_boxes h' h'' \<Longrightarrow> same_boxes h h''"
  unfolding same_boxes_def by (metis subset_trans)

lemma same_boxes_container:
  assumes "same_boxes h h'" "get_container h c = Some co"
  shows "\<exists>co'. get_container h' c = Some co' \<and> c_maxSize co' = c_maxSize co \<and> c_itemlist co' = c_itemlist co"
  using same_boxesD(3) [OF assms(1), of c] assms(2) by (cases "get_container h' c") (auto simp: shape_def)

lemma same_boxes_skeleton: "skeleton h' = skeleton h \<Longrightarrow> same_boxes h h'"
  unfolding same_boxes_def using skeleton_parent_rel skeleton_dom skeleton_shape by blast

lemma same_boxes_item:
  assumes "h x = Some i" "i_parent i' = i_parent i" "i_container i = None" "i_container i' = None"
  shows "same_boxes h (h(x \<mapsto> i'))"
proof -
  have "parent_rel (h(x \<mapsto> i')) = parent_rel h" using assms(1,2) by (auto simp: parent_rel_def split: if_splits)
  moreover have "get_container (h(x \<mapsto> i')) = get_container h"
    using assms by (auto simp: get_container_def fun_eq_iff)
  ultimately show ?thesis by (auto simp: same_boxes_def)
qed

lemma skeleton_plain_item:
  assumes "skeleton h' = skeleton h" "h x = Some i" "i_container i = None"
  shows "h' x = Some i"
proof -
  from skeleton_Some [OF assms(1,2)] obtain i' where i': "h' x = Some i'" "i_id i' = i_id i" "i_count i' = i_count i" "i_class i' = i_class i"
    "i_attributes i' = i_attributes i" "i_parent i' = i_parent i"
    "map_option shape (i_container i') = map_option shape (i_container i)" by blast
  have "i_container i' = i_container i" using i'(7) assms(3) by simp
  then have "i' = i" using i'(2-6) by simp
  then show ?thesis using i'(1) by simp
qed

subsection \<open>Small numbers\<close>

lemma sint_small: "unat (d :: u32) \<le> 100 \<Longrightarrow> sint d = int (unat d)"
proof -
  assume a: "unat d \<le> 100"
  have "uint d = int (unat d)" by simp
  then have "uint d \<le> 100" using a by linarith
  moreover have "signed_take_bit 31 (uint d) = uint d"
    using \<open>uint d \<le> 100\<close> by (intro signed_take_bit_int_eq_self) (auto intro: order_trans [OF _ uint_ge_0])
  ultimately show ?thesis by (simp add: sint_uint)
qed

lemma small_diff:
  assumes "(n :: u32) \<le> m" "m \<le> 100"
  shows "unat (m - n) = unat m - unat n" "sint (m - n) = int (unat m - unat n)" "sint (m - n) > 0 \<longleftrightarrow> n < m"
    "unat (ucast (m - n) :: u8) = unat m - unat n"
proof -
  have le: "unat n \<le> unat m" "unat m \<le> 100" using assms by (simp_all add: word_le_nat_alt)
  show u: "unat (m - n) = unat m - unat n" using assms(1) by (simp add: unat_sub)
  have d: "unat (m - n) \<le> 100" using u le by simp
  show s: "sint (m - n) = int (unat m - unat n)" using sint_small [OF d] unfolding u .
  show "sint (m - n) > 0 \<longleftrightarrow> n < m" unfolding s by (simp only: word_less_nat_alt of_nat_0_less_iff zero_less_diff)
  show "unat (ucast (m - n) :: u8) = unat m - unat n"
    using u le by (simp add: unsigned_ucast_eq take_bit_nat_eq_self_iff)
qed

lemma u8_of_small_diff:
  assumes "(c :: u8) \<le> 100" "(m :: u32) \<le> ucast c"
  shows "unat (word_of_int (max 0 (sint (ucast c - m :: u32))) :: u8) = unat c - unat m"
    "unat m \<le> unat c" "m \<le> 100" "unat m = unat c \<longleftrightarrow> m = ucast c"
proof -
  have uc: "unat (ucast c :: u32) = unat c"
    using unat_u8_bound [of c] by (simp add: unsigned_ucast_eq take_bit_nat_eq_self_iff)
  have c: "unat c \<le> 100" using assms(1) by (simp add: word_le_nat_alt)
  have c2: "(ucast c :: u32) \<le> 100" using c uc by (simp add: word_le_nat_alt)
  show "unat m \<le> unat c" using assms(2) uc by (simp add: word_le_nat_alt)
  show "m \<le> 100" using assms(2) c2 by (rule order_trans)
  show "unat m = unat c \<longleftrightarrow> m = ucast c" using uc by (simp add: word_unat_eq_iff)
  have s: "sint (ucast c - m :: u32) = int (unat c - unat m)" using small_diff(2) [OF assms(2) c2] uc by simp
  have "unat (of_nat (unat c - unat m) :: u8) = unat c - unat m"
    using c by (simp add: unat_of_nat take_bit_nat_eq_self_iff)
  then show "unat (word_of_int (max 0 (sint (ucast c - m :: u32))) :: u8) = unat c - unat m"
    unfolding s by simp
qed

subsection \<open>Taking out a part\<close>

lemma stack_item:
  assumes "heap_ok e h" "h x = Some i" "isStackable e i"
  shows "i_container i = None" "0 < i_count i" "i_count i \<le> 100"
  using heap_okD(3) [OF assms(1)] assms(2,3) by (auto simp: stacks_ok_def isStackable_def)

lemma remove_part:
  assumes "heap_ok e h" "h x = Some i" "i_parent i = InContainer c" "isStackable e i" "m \<noteq> ucast (i_count i)"
    "m \<le> ucast (i_count i)"
  shows "\<exists>h' i'. container_removeThing e x m c h = Some h' \<and> heap_ok e h' \<and> same_boxes h h' \<and> dom h' = dom h
    \<and> h' x = Some i' \<and> i_id i' = i_id i
    \<and> (\<forall>t. amount_of e h' t + (if t = i_id i then unat m else 0) = amount_of e h t)"
proof -
  note f = heap_okD(1) [OF assms(1)]
  note st = stack_item [OF assms(1,2,4)]
  note d = u8_of_small_diff [OF st(3) assms(6)]
  let ?i = "i \<lparr> i_count := word_of_int (max 0 (sint (ucast (i_count i) - m :: u32))) \<rparr>"
  have xc: "(x, c) \<in> parent_rel h" using assms(2,3) by (simp add: parent_rel_def)
  have ic: "is_container h c" by (rule forestD(5) [OF f xc])
  obtain ci co where c: "h c = Some ci" "i_container ci = Some co" "get_container h c = Some co"
    using ic by (rule get_containerE)
  have "x \<in> set (c_itemlist co)" using forestD(4) [OF f, of x c] xc c(3) by (simp add: items_of_def)
  from index_of_member [OF this] obtain k where k: "getThingIndex co x = Some k"
    by (auto simp: getThingIndex_def)
  have cnt: "unat (i_count ?i) = unat (i_count i) - unat m" using d(1) by simp
  have "unat m \<noteq> unat (i_count i)" using assms(5) d(4) by simp
  then have "0 < unat (i_count ?i)" "unat (i_count ?i) \<le> 100"
    unfolding cnt using d(2) st(3) by (simp_all add: word_le_nat_alt)
  then have "0 < i_count ?i \<and> i_count ?i \<le> 100" by (simp only: word_le_nat_alt word_less_nat_alt) simp
  then obtain h' where h': "updateItemWeight (getWeight e ?i - getWeight e i) c (h(x \<mapsto> ?i)) = Some h'"
    "heap_ok e h'" "skeleton h' = skeleton (h(x \<mapsto> ?i))"
    using change_item [OF assms(1-3) st(1), of ?i] st(1) by auto
  have run: "container_removeThing e x m c h = Some h'"
    using assms(2,4,5) c(3) k h'(1) by (simp add: container_removeThing_def Let_def)
  have x: "h' x = Some ?i" by (rule skeleton_plain_item [OF h'(3)]) (simp_all add: st(1))
  have b: "same_boxes h h'"
    by (rule same_boxes_trans [OF same_boxes_item same_boxes_skeleton [OF h'(3)]])
      (rule assms(2), simp, rule st(1), simp add: st(1))
  have "dom h' = dom h" using skeleton_dom [OF h'(3)] assms(2) by auto
  moreover have "item_amount e t i = item_amount e t ?i + (if t = i_id i then unat m else 0)" for t
    using assms(3,4) cnt d(2) by (auto simp: item_amount_def isStackable_def)
  then have "amount_of e h' t + (if t = i_id i then unat m else 0) = amount_of e h t" for t
    using amount_of_upd [OF heap_okD(4) [OF assms(1)], of e x ?i t] skeleton_amount [OF h'(3)] assms(2)
    by (simp add: add.assoc del: fun_upd_apply)
  ultimately show ?thesis using run h'(2) b x by (intro exI [of _ h'] exI [of _ ?i]) simp
qed

subsection \<open>The stack in the hand\<close>

lemma move_stack_ok:
  assumes "heap_ok e h" "stack_types_ok e" "h x = Some i" "isStackable e i" "get_container h to = Some co"
    "m \<le> 100" "h fresh = None" "\<And>y. toItem = Some y \<Longrightarrow> y \<in> set (c_itemlist co)"
  shows "\<exists>z h' k. move_stack e x toItem to m fresh h = Some (z, h') \<and> heap_ok e h' \<and> same_boxes h h'
    \<and> k \<le> unat m \<and> (\<forall>t. amount_of e h' t = amount_of e h t + (if t = i_id i then k else 0))
    \<and> (case z of None \<Rightarrow> k = unat m
       | Some f \<Rightarrow> f = fresh \<and> (\<exists>j. h' fresh = Some j \<and> i_id j = i_id i \<and> i_parent j = NoParent
           \<and> unat (i_count j) = unat m - k))"
proof -
  have "\<exists>n h1. (case toItem of
          None \<Rightarrow> Some (0, h)
        | Some y \<Rightarrow> do {
            j \<leftarrow> h y;
            if \<not> isRune e i \<and> item_equals i j then do {
              let n = min (100 - ucast (i_count j)) m;
              h \<leftarrow> container_updateThing e y (i_id j) (ucast (i_count j) + n) to h;
              Some (n, h)
            } else Some (0, h)
          }) = Some (n, h1) \<and> heap_ok e h1 \<and> same_boxes h h1 \<and> dom h1 = dom h \<and> n \<le> m
        \<and> (\<forall>t. amount_of e h1 t = amount_of e h t + (if t = i_id i then unat n else 0))" (is "\<exists>n h1. ?C = _ \<and> _")
  proof (cases toItem)
    case None
    then show ?thesis using assms(1) same_boxes_refl by simp
  next
    case (Some y)
    have mem: "y \<in> set (c_itemlist co)" by (rule assms(8) [OF Some])
    then have "y \<in> set (items_of h to)" using assms(5) by (simp add: items_of_def)
    then obtain j where j: "h y = Some j" using live_items [OF heap_okD(1) [OF assms(1)]] by blast
    show ?thesis
    proof (cases "\<not> isRune e i \<and> item_equals i j")
      case False
      then have "?C = Some (0, h)" using Some j by (simp only: option.case bind.bind_lunit if_False)
      then show ?thesis using assms(1) same_boxes_refl by simp
    next
      case True
      then have id: "i_id j = i_id i" by (auto simp: item_equals_def split: if_splits)
      then have s: "ie_stackable e (i_id j)" using assms(4) by (simp add: isStackable_def)
      note st = stack_item [OF assms(1) j, unfolded isStackable_def, OF s]
      let ?n = "min (100 - ucast (i_count j)) m"
      obtain h1 where h1: "container_updateThing e y (i_id j) (ucast (i_count j) + ?n) to h = Some h1"
        using merge_item [OF assms(1,2) j assms(5) mem s assms(6)] by blast
      have a: "heap_ok e h1 \<and> parent_rel h1 = parent_rel h \<and> dom h1 = dom h
          \<and> map_option shape (get_container h1 z) = map_option shape (get_container h z)
          \<and> amount_of e h1 t = amount_of e h t + (if t = i_id j then min (100 - unat (i_count j)) (unat m) else 0)" for z t
        using merge_item [OF assms(1,2) j assms(5) mem s assms(6), of z t] h1 by auto
      have "?C = Some (?n, h1)" using Some j True h1 by (simp add: Let_def)
      moreover have "same_boxes h h1" unfolding same_boxes_def using a by blast
      moreover have "?n \<le> m" by simp
      moreover have "amount_of e h1 t = amount_of e h t + (if t = i_id i then unat ?n else 0)" for t
        using a [of 0 t] id stack_merge(1) [OF st(3) assms(6)] by simp
      ultimately show ?thesis using a by blast
    qed
  qed
  then obtain n h1 where C: "?C = Some (n, h1)" and h1: "heap_ok e h1" "same_boxes h h1" "dom h1 = dom h" "n \<le> m"
    and am: "\<And>t. amount_of e h1 t = amount_of e h t + (if t = i_id i then unat n else 0)" by blast
  note d = small_diff [OF h1(4) assms(6)]
  obtain j where j: "item_clone (ie_items e) i = Some j" "i_id j = i_id i" "i_parent j = NoParent" "i_container j = None"
    using clone_stack [OF assms(2)] assms(4) by (auto simp: isStackable_def)
  have run: "move_stack e x toItem to m fresh h = (if sint (m - n) > 0
       then Some (Some fresh, h1(fresh \<mapsto> j \<lparr> i_count := ucast (m - n) \<rparr>)) else Some (None, h1))"
    unfolding move_stack_def assms(3) bind.bind_lunit C prod.case j(1) ..
  have nm: "unat n \<le> unat m" using h1(4) by (simp add: word_le_nat_alt)
  show ?thesis
  proof (cases "n < m")
    case False
    then have "n = m" using h1(4) by simp
    then have "move_stack e x toItem to m fresh h = Some (None, h1)" using run by simp
    then show ?thesis using h1 am \<open>n = m\<close> by (intro exI [of _ None] exI [of _ h1] exI [of _ "unat m"]) simp
  next
    case True
    let ?j = "j \<lparr> i_count := ucast (m - n) \<rparr>"
    have f: "h1 fresh = None" using h1(3) assms(7) by (metis domIff)
    have c: "unat (i_count ?j) = unat m - unat n" using d(4) by simp
    have "0 < unat (i_count ?j)" "unat (i_count ?j) \<le> 100"
      unfolding c using True assms(6) by (simp_all add: word_less_nat_alt word_le_nat_alt)
    then have p: "0 < i_count ?j \<and> i_count ?j \<le> 100" by (simp only: word_le_nat_alt word_less_nat_alt) simp
    have "heap_ok e (h1(fresh \<mapsto> ?j))" "parent_rel (h1(fresh \<mapsto> ?j)) = parent_rel h1"
      "get_container (h1(fresh \<mapsto> ?j)) = get_container h1" "\<And>t. amount_of e (h1(fresh \<mapsto> ?j)) t = amount_of e h1 t"
      using fresh_item [OF h1(1) f, of ?j] p j by simp_all
    moreover from this have "same_boxes h (h1(fresh \<mapsto> ?j))"
      using h1(2) by (auto simp: same_boxes_def)
    ultimately show ?thesis using run d(3) True am nm c j
      by (intro exI [of _ "Some fresh"] exI [of _ "h1(fresh \<mapsto> ?j)"] exI [of _ "unat n"]) simp
  qed
qed

subsection \<open>The move\<close>

text \<open>What a removal leaves.\<close>

definition taken :: "item_heap \<Rightarrow> nat \<Rightarrow> item_heap \<Rightarrow> bool" where
  "taken h x h' \<longleftrightarrow> dom h' = dom h \<and> parent_rel h' \<subseteq> parent_rel h
     \<and> (\<forall>c co. get_container h c = Some co \<longrightarrow> (\<exists>co'. get_container h' c = Some co'
          \<and> c_maxSize co' = c_maxSize co \<and> set (c_itemlist co) - {x} \<subseteq> set (c_itemlist co')))"

lemma takenD:
  assumes "taken h x h'"
  shows "dom h' = dom h" "(c, y) \<notin> (parent_rel h)\<^sup>* \<Longrightarrow> (c, y) \<notin> (parent_rel h')\<^sup>*"
    "get_container h c = Some co \<Longrightarrow> \<exists>co'. get_container h' c = Some co'
          \<and> c_maxSize co' = c_maxSize co \<and> set (c_itemlist co) - {x} \<subseteq> set (c_itemlist co')"
proof -
  show "dom h' = dom h" using assms by (simp add: taken_def)
  have "parent_rel h' \<subseteq> parent_rel h" using assms by (simp add: taken_def)
  then show "(c, y) \<notin> (parent_rel h)\<^sup>* \<Longrightarrow> (c, y) \<notin> (parent_rel h')\<^sup>*"
    using rtrancl_mono by blast
  show "get_container h c = Some co \<Longrightarrow> \<exists>co'. get_container h' c = Some co'
          \<and> c_maxSize co' = c_maxSize co \<and> set (c_itemlist co) - {x} \<subseteq> set (c_itemlist co')"
    using assms by (simp add: taken_def)
qed

lemma taken_same:
  assumes "same_boxes h h'" "dom h' = dom h"
  shows "taken h x h'"
  unfolding taken_def using assms(2) same_boxesD(1) [OF assms(1)] same_boxes_container [OF assms(1)]
  by (metis Diff_subset order_refl)

lemma not_in_remove1: "y \<notin> set (remove1 x xs) \<Longrightarrow> y \<in> set xs \<Longrightarrow> y = x"
  using in_set_remove1 by fast

lemma taken_detach:
  assumes "forest h" "(x, c) \<in> parent_rel h" "skeleton h' = skeleton (detach x c h)"
  shows "taken h x h'"
proof -
  note d = detach_forest [OF assms(1,2)]
  have "dom (detach x c h) = dom h" by (auto simp: detach_def split: if_splits)
  then have "dom h' = dom h" using skeleton_dom [OF assms(3)] by simp
  moreover have "parent_rel h' \<subseteq> parent_rel h" using skeleton_parent_rel [OF assms(3)] d(2) by blast
  moreover have "\<exists>co'. get_container h' z = Some co' \<and> c_maxSize co' = c_maxSize co
      \<and> set (c_itemlist co) - {x} \<subseteq> set (c_itemlist co')" if z: "get_container h z = Some co" for z co
  proof -
    have "x \<noteq> c" using forest_irrefl [OF assms(1)] assms(2) by auto
    then have "\<exists>co1. get_container (detach x c h) z = Some co1 \<and> c_maxSize co1 = c_maxSize co
        \<and> set (c_itemlist co) - {x} \<subseteq> set (c_itemlist co1)"
      using z by (cases "h z") (auto simp: get_container_def detach_def mod_container_def dest: not_in_remove1)
    then show ?thesis using skeleton_get_container [OF assms(3), of z] by (auto simp: shape_def)
  qed
  ultimately show ?thesis by (simp add: taken_def)
qed

lemma take_out:
  assumes "heap_ok e h" "h x = Some i" "i_parent i = InContainer c" "isStackable e i \<Longrightarrow> m \<le> ucast (i_count i)"
  shows "\<exists>h' i'. container_removeThing e x m c h = Some h' \<and> heap_ok e h' \<and> taken h x h'
    \<and> h' x = Some i' \<and> i_id i' = i_id i \<and> (\<not> isStackable e i \<longrightarrow> i_parent i' = NoParent)
    \<and> (\<forall>t. amount_of e h' t + (if t = i_id i then if isStackable e i then unat m else 1 else 0) = amount_of e h t)"
proof (cases "isStackable e i \<and> m \<noteq> ucast (i_count i)")
  case True
  then obtain h' i' where "container_removeThing e x m c h = Some h'" "heap_ok e h'" "same_boxes h h'" "dom h' = dom h"
    "h' x = Some i'" "i_id i' = i_id i" "\<forall>t. amount_of e h' t + (if t = i_id i then unat m else 0) = amount_of e h t"
    using remove_part [OF assms(1-3), of m] assms(4) by blast
  then show ?thesis using True taken_same [of h h' x] by (intro exI [of _ h'] exI [of _ i']) simp
next
  case False
  note f = heap_okD(1) [OF assms(1)]
  have xc: "(x, c) \<in> parent_rel h" using assms(2,3) by (simp add: parent_rel_def)
  have ne: "x \<noteq> c" using forest_irrefl [OF f] xc by auto
  obtain h' where h': "container_removeThing e x m c h = Some h'" "heap_ok e h'" "skeleton h' = skeleton (detach x c h)"
    using remove_full [OF assms(1-3) False] by blast
  obtain i' where i': "h' x = Some i'" "i_id i' = i_id i" "i_parent i' = NoParent"
    using skeleton_Some [OF h'(3), of x] detach_item(1) [where h = h and x = x and c = c, OF ne assms(2)] by auto
  obtain ci where ci: "h c = Some ci" using forestD(5) [OF f xc] by (rule get_containerE)
  have "item_amount e t i = (if t = i_id i then if isStackable e i then unat m else 1 else 0)" for t
  proof -
    have "unat m = unat (i_count i)" if "isStackable e i"
    proof -
      have "m = ucast (i_count i)" using False that by blast
      then show ?thesis using unat_u8_bound [of "i_count i"] by (simp add: unat_ucast_less)
    qed
    then show ?thesis using assms(3) by (auto simp: item_amount_def isStackable_def)
  qed
  then have "amount_of e h' t + (if t = i_id i then if isStackable e i then unat m else 1 else 0) = amount_of e h t" for t
    using detach_amount [OF heap_okD(4) [OF assms(1)] ne assms(2) ci, of e t] skeleton_amount [OF h'(3)] by simp
  then show ?thesis using h' i' taken_detach [OF f xc h'(3)]
    by (intro exI [of _ h'] exI [of _ i']) simp
qed

lemma put_in:
  assumes "heap_ok e h" "h x = Some i" "i_parent i = NoParent" "get_container h c = Some co"
    "(c, x) \<notin> (parent_rel h)\<^sup>*" "index < int (unat (c_maxSize co))"
  shows "\<exists>h'. container_addThing e index x c h = Some h' \<and> heap_ok e h' \<and> x \<in> set (items_of h' c)
    \<and> (\<forall>t. amount_of e h' t = amount_of e h t + (if t = i_id i then if isStackable e i then unat (i_count i) else 1 else 0))"
proof -
  obtain h' where h': "container_addThing e index x c h = Some h'" "heap_ok e h'" "skeleton h' = skeleton (attach x c h)"
    using add_item [OF assms] by blast
  have xc: "x \<noteq> c" using assms(5) by auto
  have ic: "is_container h c" using assms(4) by (simp add: is_container_def)
  obtain ci where ci: "h c = Some ci" using ic by (rule get_containerE)
  have "x \<in> set (items_of h' c)"
    unfolding skeleton_items_of(1) [OF h'(3)] attach_forest(3) [OF heap_okD(1) [OF assms(1)] assms(2,3) ic assms(5)]
    by simp
  then show ?thesis
    using h' attach_amount [OF heap_okD(4) [OF assms(1)] xc assms(2,3) ci] skeleton_amount [OF h'(3)]
    by (intro exI [of _ h']) (simp add: item_amount_def isStackable_def)
qed

lemma fresh_not_above:
  assumes "forest h" "is_container h c" "h fresh = None"
  shows "(c, fresh) \<notin> (parent_rel h)\<^sup>*"
proof
  assume "(c, fresh) \<in> (parent_rel h)\<^sup>*"
  then show False
  proof (cases rule: rtranclE)
    case base
    then show False using assms(2,3) by (simp add: is_container_def get_container_def)
  next
    case (step z)
    from forestD(5) [OF assms(1) step(2)] show False using assms(3) by (simp add: is_container_def get_container_def)
  qed
qed

text \<open>The second half of a move, from the removal on.\<close>

lemma move_tail:
  assumes "heap_ok e h" "stack_types_ok e" "h x = Some i" "i_parent i = InContainer from" "get_container h to = Some co"
    "(to, x) \<notin> (parent_rel h)\<^sup>*" "index < int (unat (c_maxSize co))" "h fresh = None"
    "\<And>y. toItem = Some y \<Longrightarrow> y \<noteq> x \<and> y \<in> set (c_itemlist co)"
    "isStackable e i \<Longrightarrow> m \<le> ucast (i_count i)"
  shows "\<exists>h1 z h2 h3. container_removeThing e x m from h = Some h1
    \<and> (if isStackable e i then move_stack e x toItem to m fresh h1 else Some (Some x, h1)) = Some (z, h2)
    \<and> (case z of None \<Rightarrow> Some h2 | Some z \<Rightarrow> container_addThing e index z to h2) = Some h3
    \<and> heap_ok e h3 \<and> (\<forall>t. amount_of e h3 t = amount_of e h t)
    \<and> (\<not> isStackable e i \<longrightarrow> x \<in> set (items_of h3 to))"
proof -
  obtain h1 i1 where h1: "container_removeThing e x m from h = Some h1" "heap_ok e h1" "taken h x h1" "h1 x = Some i1"
    "i_id i1 = i_id i" "\<not> isStackable e i \<longrightarrow> i_parent i1 = NoParent"
    "\<And>t. amount_of e h1 t + (if t = i_id i then if isStackable e i then unat m else 1 else 0) = amount_of e h t"
    using take_out [OF assms(1,3,4,10)] by blast
  have s1: "isStackable e i1 = isStackable e i" using h1(5) by (simp add: isStackable_def)
  obtain co1 where co1: "get_container h1 to = Some co1" "c_maxSize co1 = c_maxSize co"
    "set (c_itemlist co) - {x} \<subseteq> set (c_itemlist co1)" using takenD(3) [OF h1(3) assms(5)] by blast
  show ?thesis
  proof (cases "isStackable e i")
    case False
    have p: "i_parent i1 = NoParent" using h1(6) False by simp
    obtain h3 where h3: "container_addThing e index x to h1 = Some h3" "heap_ok e h3" "x \<in> set (items_of h3 to)"
      "\<forall>t. amount_of e h3 t = amount_of e h1 t + (if t = i_id i1 then if isStackable e i1 then unat (i_count i1) else 1 else 0)"
      using put_in [OF h1(2,4) p co1(1) takenD(2) [OF h1(3) assms(6)]] assms(7) co1(2) by auto
    have "amount_of e h3 t = amount_of e h t" for t
      using h3(4) h1(7) [of t] False s1 h1(5) by (cases "t = i_id i") auto
    then show ?thesis using False h1(1) h3 by (intro exI [of _ h1] exI [of _ "Some x"] exI [of _ h1] exI [of _ h3]) simp
  next
    case True
    have m: "m \<le> 100" using u8_of_small_diff(3) stack_item(3) [OF assms(1,3) True] assms(10) [OF True] by blast
    have f1: "h1 fresh = None" using takenD(1) [OF h1(3)] assms(8) by (metis domIff)
    have t1: "y \<in> set (c_itemlist co1)" if "toItem = Some y" for y using assms(9) [OF that] co1(3) by blast
    have st: "isStackable e i1" using s1 True by simp
    obtain z h2 k where z: "move_stack e x toItem to m fresh h1 = Some (z, h2)" "heap_ok e h2" "same_boxes h1 h2"
      "k \<le> unat m" "\<And>t. amount_of e h2 t = amount_of e h1 t + (if t = i_id i1 then k else 0)"
      "case z of None \<Rightarrow> k = unat m
       | Some f \<Rightarrow> f = fresh \<and> (\<exists>j. h2 fresh = Some j \<and> i_id j = i_id i1 \<and> i_parent j = NoParent
           \<and> unat (i_count j) = unat m - k)"
      using move_stack_ok [OF h1(2) assms(2) h1(4) st co1(1) m f1 t1] by blast
    show ?thesis
    proof (cases z)
      case None
      then have "amount_of e h2 t = amount_of e h t" for t
        using z(5) [of t] z(6) h1(5) h1(7) [of t] True by (cases "t = i_id i") auto
      then show ?thesis using True None h1(1) z(1,2) by (intro exI [of _ h1] exI [of _ None] exI [of _ h2] exI [of _ h2]) simp
    next
      case (Some f)
      then obtain j where j: "f = fresh" "h2 fresh = Some j" "i_id j = i_id i1" "i_parent j = NoParent"
        "unat (i_count j) = unat m - k" using z(6) by auto
      obtain co2 where co2: "get_container h2 to = Some co2" "c_maxSize co2 = c_maxSize co1"
        using same_boxes_container [OF z(3) co1(1)] by blast
      have "is_container h1 to" using co1(1) by (simp add: is_container_def)
      then have nf: "(to, fresh) \<notin> (parent_rel h2)\<^sup>*"
        unfolding same_boxesD(1) [OF z(3)] using fresh_not_above [OF heap_okD(1) [OF h1(2)]] f1 by blast
      obtain h3 where h3: "container_addThing e index fresh to h2 = Some h3" "heap_ok e h3"
        "\<forall>t. amount_of e h3 t = amount_of e h2 t + (if t = i_id j then if isStackable e j then unat (i_count j) else 1 else 0)"
        using put_in [OF z(2) j(2,4) co2(1) nf] assms(7) co2(2) co1(2) by auto
      have sj: "isStackable e j" using st j(3) by (simp add: isStackable_def)
      have "amount_of e h3 t = amount_of e h t" for t
        using h3(3) z(5) [of t] z(4) j(3,5) sj h1(5) h1(7) [of t] True by (cases "t = i_id i") auto
      then show ?thesis using True Some j(1) h1(1) z(1) h3
        by (intro exI [of _ h1] exI [of _ "Some fresh"] exI [of _ h2] exI [of _ h3]) simp
    qed
  qed
qed

lemma move_ok:
  assumes "heap_ok e h" "inboxes_ok h" "fits h" "stack_types_ok e" "is_container h from" "is_container h to"
    "h x = Some i" "h fresh = None" "\<not> hasBitSet FLAG_CHILDISOWNER flags"
  shows "\<exists>r h'. internalMoveItem e from to index x amount flags fresh h = Some (r, h')
    \<and> heap_ok e h' \<and> (\<forall>t. amount_of e h' t = amount_of e h t)"
proof -
  note f = heap_okD(1) [OF assms(1)]
  obtain c idx d fl where dest: "move_destination e h 16 to index x None flags = Some (c, idx, d, fl)"
    "dest_ok h c idx d" "\<not> hasBitSet FLAG_CHILDISOWNER fl"
    using move_destination_answers [OF f assms(3,7,6) _ assms(9), where n = 16 and index = index and e = e] by auto
  have ic: "is_container h c" by (rule dest_ok_container [OF dest(2)])
  obtain co where co: "get_container h c = Some co" "c_unlocked co \<Longrightarrow> idx < int (unat (c_maxSize co))"
    "\<And>y. d = Some y \<Longrightarrow> y \<in> set (c_itemlist co)" using dest(2) unfolding dest_ok_def by blast
  obtain q where q: "cont_queryAdd e h c idx x amount fl = Some q"
    "q = RETURNVALUE_NOERROR \<Longrightarrow> (c, x) \<notin> (parent_rel h)\<^sup>* \<and> c_unlocked co"
    using cont_queryAdd_answers [OF f assms(2) ic assms(7)] dest(3) co(1) by blast
  obtain rm mx where mx: "queryMaxCount e h c idx x amount fl = Some (rm, mx)"
    using queryMaxCount_answers [OF f assms(2) ic assms(7)] by blast
  define m where "m = (if isStackable e i
      then (if isRune e i then min (ucast (i_count i)) mx else min amount mx) else mx)"
  obtain r where r: "queryRemove e h from x m fl = Some r" "r = RETURNVALUE_NOERROR \<Longrightarrow>
      x \<in> set (items_of h from) \<and> (isStackable e i \<longrightarrow> m \<le> ucast (i_count i))"
    using queryRemove_answers [OF assms(5,7)] by blast
  have run: "internalMoveItem e from to index x amount flags fresh h =
      (if d = Some x then Some (RETURNVALUE_NOERROR, h)
       else if q \<noteq> RETURNVALUE_NOERROR then Some (q, h)
       else if rm \<noteq> RETURNVALUE_NOERROR \<and> mx = 0 then Some (rm, h)
       else if r \<noteq> RETURNVALUE_NOERROR then Some (r, h)
       else do {
               h1 \<leftarrow> container_removeThing e x m from h;
               (z, h2) \<leftarrow> (if isStackable e i then move_stack e x d c m fresh h1 else Some (Some x, h1));
               h3 \<leftarrow> (case z of None \<Rightarrow> Some h2 | Some z \<Rightarrow> container_addThing e idx z c h2);
               Some (if isStackable e i \<and> mx < amount then rm else r, h3)
             })"
    unfolding internalMoveItem_def dest(1) bind.bind_lunit prod.case q(1) mx assms(7) Let_def
      m_def [symmetric] r(1) ..
  show ?thesis
  proof (cases "d \<noteq> Some x \<and> q = RETURNVALUE_NOERROR \<and> \<not> (rm \<noteq> RETURNVALUE_NOERROR \<and> mx = 0) \<and> r = RETURNVALUE_NOERROR")
    case False
    then show ?thesis unfolding run using assms(1) by auto
  next
    case True
    then have cx: "(c, x) \<notin> (parent_rel h)\<^sup>*" and ul: "c_unlocked co"
      and xm: "x \<in> set (items_of h from)" "isStackable e i \<Longrightarrow> m \<le> ucast (i_count i)" using q(2) r(2) by blast+
    have ip: "i_parent i = InContainer from" using live_items [OF f xm(1)] assms(7) by auto
    have dd: "y \<noteq> x \<and> y \<in> set (c_itemlist co)" if "d = Some y" for y using True co(3) that by blast
    from move_tail [OF assms(1,4,7) ip co(1) cx co(2) [OF ul] assms(8) dd xm(2)]
    obtain h1 z h2 h3 where t: "container_removeThing e x m from h = Some h1"
      "(if isStackable e i then move_stack e x d c m fresh h1 else Some (Some x, h1)) = Some (z, h2)"
      "(case z of None \<Rightarrow> Some h2 | Some z \<Rightarrow> container_addThing e idx z c h2) = Some h3"
      "heap_ok e h3" "\<forall>t. amount_of e h3 t = amount_of e h t" by blast
    have "internalMoveItem e from to index x amount flags fresh h
        = Some (if isStackable e i \<and> mx < amount then rm else r, h3)"
      unfolding run t(1) bind.bind_lunit t(2) prod.case t(3) using True by (metis (full_types))
    then show ?thesis using t(4,5) by blast
  qed
qed

end
