(* ===== verification/Move_Properties.thy ===== *)
theory Move_Properties
  imports Move_Item
begin

text \<open>
  The properties of moves between containers, and two moves at the edge of the capacity, on concrete heaps.
\<close>

subsection \<open>Concrete heaps\<close>

text \<open>Type 1 is a bag, type 2 gold, type 3 a rune. Bag 10 and bag 20 are carried by player 7.\<close>

definition bag :: "u16 \<Rightarrow> nat list \<Rightarrow> u32 \<Rightarrow> parent \<Rightarrow> item" where
  "bag cap xs w p = \<lparr> i_id = 1, i_class = ContainerClass, i_count = 1, i_attributes = None, i_parent = p,
     i_container = Some \<lparr> c_maxSize = cap, c_totalWeight = w, c_itemlist = xs, c_unlocked = True, c_inbox = False \<rparr> \<rparr>"

definition mailbox :: "u16 \<Rightarrow> nat list \<Rightarrow> u32 \<Rightarrow> parent \<Rightarrow> item" where
  "mailbox cap xs w p = mod_container (\<lambda>co. co \<lparr> c_inbox := True \<rparr>) (bag cap xs w p)"

definition stack_of :: "u16 \<Rightarrow> u8 \<Rightarrow> parent \<Rightarrow> item" where
  "stack_of t n p = \<lparr> i_id = t, i_class = PlainItem, i_count = n, i_attributes = None, i_parent = p, i_container = None \<rparr>"

definition plain_item :: item_type where
  "plain_item = \<lparr> it_group = ITEM_GROUP_NONE, it_type = ITEM_TYPE_NONE, it_id = 100, it_stackable = False, it_weight = 10,
     it_decayTime = 0, it_charges = 0, it_decayTo = - 1, it_maxItems = 8, it_hasHeight = False, it_blockSolid = False,
     it_blockProjectile = False, it_blockPathFind = False, it_isVertical = False, it_isHorizontal = False,
     it_pickupable = True, it_moveable = True, it_stopTime = False,
     it_alwaysOnTop = False, it_alwaysOnTopOrder = 0, it_floorChange = 0, it_isHangable = False, it_allowPickupable = False,
     it_forceUse = False, it_lookThrough = False, it_replaceable = True \<rparr>"

definition shop_items :: item_types where
  "shop_items t =
     (if t = 1 then plain_item \<lparr> it_group := ITEM_GROUP_CONTAINER, it_weight := 800 \<rparr>
      else if t = 2 then plain_item \<lparr> it_stackable := True \<rparr>
      else if t = 3 then plain_item \<lparr> it_stackable := True, it_type := ITEM_TYPE_RUNE \<rparr>
      else plain_item)"

definition shop_env :: item_env where
  "shop_env = \<lparr> ie_items = shop_items, ie_autoStack = True, ie_hasCapacity = (\<lambda>_ _ _ _. True) \<rparr>"

definition purse_heap :: item_heap where
  "purse_heap = [10 \<mapsto> bag 2 [11] 600 (OnPlayer 7), 11 \<mapsto> stack_of 2 60 (InContainer 10),
     20 \<mapsto> bag 2 [21] 700 (OnPlayer 7), 21 \<mapsto> stack_of 2 70 (InContainer 20)]"

definition rune_heap :: item_heap where
  "rune_heap = [10 \<mapsto> bag 2 [11] 30 (OnPlayer 7), 11 \<mapsto> stack_of 3 3 (InContainer 10),
     20 \<mapsto> bag 1 [21] 50 (OnPlayer 7), 21 \<mapsto> stack_of 3 5 (InContainer 20)]"

definition mail_heap :: item_heap where
  "mail_heap = [10 \<mapsto> bag 2 [11] 600 (OnPlayer 7), 11 \<mapsto> stack_of 2 60 (InContainer 10),
     20 \<mapsto> mailbox 1 [22, 21] 1500 (OnPlayer 8), 21 \<mapsto> stack_of 2 70 (InContainer 20),
     22 \<mapsto> bag 8 [] 0 (InContainer 20)]"

lemma concrete_forest:
  assumes "finite (dom h)" "\<And>x c. (x, c) \<in> parent_rel h \<Longrightarrow> (f c :: nat) < f x"
    "\<And>c. distinct (items_of h c)" "\<And>x c. x \<in> set (items_of h c) \<longleftrightarrow> (x, c) \<in> parent_rel h"
    "\<And>x c. (x, c) \<in> parent_rel h \<Longrightarrow> is_container h c"
  shows "forest h"
proof -
  have "parent_rel h \<subseteq> (measure f)\<inverse>" using assms(2) by auto
  then have "acyclic (parent_rel h)"
    using acyclic_subset acyclic_converse wf_acyclic wf_measure by metis
  then show ?thesis using assms unfolding forest_def by blast
qed

lemmas heap_defs = purse_heap_def rune_heap_def mail_heap_def bag_def mailbox_def stack_of_def shop_env_def shop_items_def plain_item_def

lemma purse_heap_ok: "heap_ok shop_env purse_heap" "inboxes_ok purse_heap" "fits purse_heap"
  "stack_types_ok shop_env"
proof -
  have "forest purse_heap"
    by (rule concrete_forest [where f = "\<lambda>x. if x = 11 \<or> x = 21 then 1 else 0"])
      (auto simp: heap_defs parent_rel_def items_of_def is_container_def get_container_def split: if_splits option.splits)
  moreover have "weights_ok shop_env purse_heap"
    by (auto simp: weights_ok_def weights_off_def heap_defs items_of_def is_container_def get_container_def total_at_def
        weight_at_def getWeight_def item_weight_def getBaseWeight_def item_has_def Let_def max_def split: if_splits)
  moreover have "stacks_ok shop_env purse_heap"
    by (auto simp: stacks_ok_def heap_defs split: if_splits)
  ultimately show "heap_ok shop_env purse_heap" by (simp add: heap_ok_def)
  show "inboxes_ok purse_heap" by (auto simp: inboxes_ok_def heap_defs split: if_splits)
  show "fits purse_heap" by (auto simp: fits_def heap_defs get_container_def split: if_splits Option.bind_splits)
  show "stack_types_ok shop_env" by (simp add: stack_types_ok_def plain_type_def heap_defs)
qed

text \<open>
  C7. Conservation: on a well-formed heap (the lists of the containers and the parent pointers describe one
  forest, every container knows its weight, stacks hold 1 to 100, no container is over its capacity)
  \<open>internalMoveItem\<close> between two containers always gives an answer: the climbs along the parents end and no
  dangling pointer is read. Whatever the answer, merged stacks, split stacks and partial moves included, the
  heap is again well formed, in particular no container ends up inside itself, and the amount of every type of
  item is the same as before.
\<close>
theorem move_conserves_items:
  assumes "heap_ok e h" "inboxes_ok h" "fits h" "stack_types_ok e" "is_container h from" "is_container h to"
    "h x = Some i" "h fresh = None" "\<not> hasBitSet FLAG_CHILDISOWNER flags"
  shows "\<exists>r h'. internalMoveItem e from to index x amount flags fresh h = Some (r, h')
    \<and> heap_ok e h' \<and> (\<forall>t. amount_of e h' t = amount_of e h t)"
  by (rule move_ok [OF assms])

theorem move_conserves_items_witness:
  "\<exists>r h'. internalMoveItem shop_env 10 20 255 11 60 0 99 purse_heap = Some (r, h')
    \<and> heap_ok shop_env h' \<and> (\<forall>t. amount_of shop_env h' t = amount_of shop_env purse_heap t)"
  by (rule move_conserves_items [OF purse_heap_ok, of _ _ _ "stack_of 2 60 (InContainer 10)"])
    (simp_all add: heap_defs is_container_def get_container_def hasBitSet_def)

definition contents :: "item_heap \<Rightarrow> nat \<Rightarrow> (nat \<times> u16 \<times> u8) list option" where
  "contents h c = map_option (\<lambda>co. map (\<lambda>x. (x, i_id (the (h x)), i_count (the (h x)))) (c_itemlist co)) (get_container h c)"

lemma purse_run:
  "map_option (\<lambda>(r, h). (r, contents h 10, contents h 20)) (internalMoveItem shop_env 10 20 255 11 60 0 99 purse_heap)
    = Some (RETURNVALUE_NOERROR, Some [], Some [(99, 2, 30), (21, 2, 100)])"
  by code_simp

text \<open>
  A stack of runes is moved next to an equal one although the bag is full: the automatic stacking names the
  place of the other stack, at that index \<open>queryAdd\<close> does not compare the size with the capacity and
  \<open>queryMaxCount\<close> counts the room on the stack, but \<open>internalMoveItem\<close> does not merge runes. The bag of one
  place then holds two stacks.
\<close>
lemma rune_overfills_bag:
  "map_option (\<lambda>(r, h). (r, contents h 10, contents h 20)) (internalMoveItem shop_env 10 20 255 11 3 0 99 rune_heap)
    = Some (RETURNVALUE_NOERROR, Some [], Some [(99, 3, 3), (21, 3, 5)])"
  by code_simp

text \<open>
  An item can get lost: an inbox takes items over its capacity (\<open>FLAG_NOLIMIT\<close>); if a stack behind the
  capacity is found for the automatic stacking, its index is not below the capacity, and the call of \<open>addThing\<close>
  for what does not fit on that stack returns without adding anything. The move of 60 coins answers
  \<open>RETURNVALUE_NOERROR\<close>, 30 of them are on the stack and 30 are gone.
\<close>
lemma overfull_inbox_loses_coins:
  "contents mail_heap 10 = Some [(11, 2, 60)] \<and> contents mail_heap 20 = Some [(22, 1, 1), (21, 2, 70)]
   \<and> map_option (\<lambda>(r, h). (r, contents h 10, contents h 20))
      (internalMoveItem shop_env 10 20 INDEX_WHEREEVER 11 60 FLAG_NOLIMIT 99 mail_heap)
    = Some (RETURNVALUE_NOERROR, Some [], Some [(22, 1, 1), (21, 2, 100)])"
  by code_simp

end
