(* ===== verification/Item_Serial.thy ===== *)
theory Item_Serial
  imports Items Otb_Loader
begin

text \<open>
  Saving and loading the attributes of an item, \<open>Item::serializeAttr\<close>, \<open>readAttr\<close> and
  \<open>unserializeAttr\<close> (\<^verbatim>\<open>src/src/item.cpp\<close>), over the property streams.
\<close>

subsection \<open>Tags\<close>

definition ATTR_ACTION_ID :: u8 where "ATTR_ACTION_ID = 4"
definition ATTR_UNIQUE_ID :: u8 where "ATTR_UNIQUE_ID = 5"
definition ATTR_TEXT :: u8 where "ATTR_TEXT = 6"
definition ATTR_DESC :: u8 where "ATTR_DESC = 7"
definition ATTR_TELE_DEST :: u8 where "ATTR_TELE_DEST = 8"
definition ATTR_DEPOT_ID :: u8 where "ATTR_DEPOT_ID = 10"
definition ATTR_RUNE_CHARGES :: u8 where "ATTR_RUNE_CHARGES = 12"
definition ATTR_HOUSEDOORID :: u8 where "ATTR_HOUSEDOORID = 14"
definition ATTR_COUNT :: u8 where "ATTR_COUNT = 15"
definition ATTR_DURATION :: u8 where "ATTR_DURATION = 16"
definition ATTR_DECAYING_STATE :: u8 where "ATTR_DECAYING_STATE = 17"
definition ATTR_WRITTENDATE :: u8 where "ATTR_WRITTENDATE = 18"
definition ATTR_WRITTENBY :: u8 where "ATTR_WRITTENBY = 19"
definition ATTR_SLEEPERGUID :: u8 where "ATTR_SLEEPERGUID = 20"
definition ATTR_SLEEPSTART :: u8 where "ATTR_SLEEPSTART = 21"
definition ATTR_CHARGES :: u8 where "ATTR_CHARGES = 22"
definition ATTR_CONTAINER_ITEMS :: u8 where "ATTR_CONTAINER_ITEMS = 23"
definition ATTR_NAME :: u8 where "ATTR_NAME = 24"
definition ATTR_ARTICLE :: u8 where "ATTR_ARTICLE = 25"
definition ATTR_PLURALNAME :: u8 where "ATTR_PLURALNAME = 26"
definition ATTR_WEIGHT :: u8 where "ATTR_WEIGHT = 27"
definition ATTR_ATTACK :: u8 where "ATTR_ATTACK = 28"
definition ATTR_DEFENSE :: u8 where "ATTR_DEFENSE = 29"
definition ATTR_EXTRADEFENSE :: u8 where "ATTR_EXTRADEFENSE = 30"
definition ATTR_ARMOR :: u8 where "ATTR_ARMOR = 31"
definition ATTR_HITCHANCE :: u8 where "ATTR_HITCHANCE = 32"
definition ATTR_SHOOTRANGE :: u8 where "ATTR_SHOOTRANGE = 33"

lemmas tag_defs = ATTR_ACTION_ID_def ATTR_UNIQUE_ID_def ATTR_TEXT_def ATTR_DESC_def ATTR_TELE_DEST_def ATTR_DEPOT_ID_def
  ATTR_RUNE_CHARGES_def ATTR_HOUSEDOORID_def ATTR_COUNT_def ATTR_DURATION_def ATTR_DECAYING_STATE_def
  ATTR_WRITTENDATE_def ATTR_WRITTENBY_def ATTR_SLEEPERGUID_def ATTR_SLEEPSTART_def ATTR_CHARGES_def
  ATTR_CONTAINER_ITEMS_def ATTR_NAME_def ATTR_ARTICLE_def ATTR_PLURALNAME_def ATTR_WEIGHT_def ATTR_ATTACK_def
  ATTR_DEFENSE_def ATTR_EXTRADEFENSE_def ATTR_ARMOR_def ATTR_HITCHANCE_def ATTR_SHOOTRANGE_def

subsection \<open>Loading\<close>

datatype attr_read = ATTR_READ_CONTINUE | ATTR_READ_ERROR | ATTR_READ_END

text \<open>A value is read and given to a setter.\<close>

definition read_then ::
    "(propstream \<Rightarrow> 'v option \<times> propstream) \<Rightarrow> ('v \<Rightarrow> item \<Rightarrow> item) \<Rightarrow> item \<Rightarrow> propstream \<Rightarrow> attr_read \<times> item \<times> propstream"
  where
  "read_then rd f i ps =
     (case rd ps of
        (None, ps1) \<Rightarrow> (ATTR_READ_ERROR, i, ps1)
      | (Some v, ps1) \<Rightarrow> (ATTR_READ_CONTINUE, f v i, ps1))"

definition skip_then :: "nat \<Rightarrow> item \<Rightarrow> propstream \<Rightarrow> attr_read \<times> item \<times> propstream" where
  "skip_then n i ps =
     (case ps_skip n ps of
        (False, ps1) \<Rightarrow> (ATTR_READ_ERROR, i, ps1)
      | (True, ps1) \<Rightarrow> (ATTR_READ_CONTINUE, i, ps1))"

text \<open>A unique id is taken once, by one item; \<open>ids\<close> are those that the game has registered
  (\<open>Game::addUniqueItem\<close>).\<close>

definition setUniqueId :: "u16 set \<Rightarrow> u16 \<Rightarrow> item \<Rightarrow> item" where
  "setUniqueId ids n i =
     (if item_has ITEM_ATTRIBUTE_UNIQUEID i then i
      else if n \<notin> ids then item_setInt ITEM_ATTRIBUTE_UNIQUEID (ucast n) i else i)"

text \<open>The tags of the derived classes are skipped, the tag of the contents of a container is an error like an
  unknown one.\<close>

definition readAttr_derived :: "u8 \<Rightarrow> item \<Rightarrow> propstream \<Rightarrow> attr_read \<times> item \<times> propstream" where
  "readAttr_derived attr =
     (if attr = ATTR_DEPOT_ID then skip_then 2
      else if attr = ATTR_HOUSEDOORID then skip_then 1
      else if attr = ATTR_SLEEPERGUID then skip_then 4
      else if attr = ATTR_SLEEPSTART then skip_then 4
      else if attr = ATTR_TELE_DEST then skip_then 5
      else (\<lambda>i ps. (ATTR_READ_ERROR, i, ps)))"

definition readAttr_values :: "u8 \<Rightarrow> item \<Rightarrow> propstream \<Rightarrow> attr_read \<times> item \<times> propstream" where
  "readAttr_values attr =
     (if attr = ATTR_NAME then read_then ps_readString (item_setStr ITEM_ATTRIBUTE_NAME)
      else if attr = ATTR_ARTICLE then read_then ps_readString (item_setStr ITEM_ATTRIBUTE_ARTICLE)
      else if attr = ATTR_PLURALNAME then read_then ps_readString (item_setStr ITEM_ATTRIBUTE_PLURALNAME)
      else if attr = ATTR_WEIGHT then read_then (ps_read 4 dec_u32) (item_setInt ITEM_ATTRIBUTE_WEIGHT)
      else if attr = ATTR_ATTACK then read_then (ps_read 4 dec_u32) (item_setInt ITEM_ATTRIBUTE_ATTACK)
      else if attr = ATTR_DEFENSE then read_then (ps_read 4 dec_u32) (item_setInt ITEM_ATTRIBUTE_DEFENSE)
      else if attr = ATTR_EXTRADEFENSE then read_then (ps_read 4 dec_u32) (item_setInt ITEM_ATTRIBUTE_EXTRADEFENSE)
      else if attr = ATTR_ARMOR then read_then (ps_read 4 dec_u32) (item_setInt ITEM_ATTRIBUTE_ARMOR)
      else if attr = ATTR_HITCHANCE then
        read_then (ps_read 1 dec_u8) (\<lambda>n. item_setInt ITEM_ATTRIBUTE_HITCHANCE (scast n))
      else if attr = ATTR_SHOOTRANGE then
        read_then (ps_read 1 dec_u8) (\<lambda>n. item_setInt ITEM_ATTRIBUTE_SHOOTRANGE (ucast n))
      else readAttr_derived attr)"

definition readAttr :: "item_types \<Rightarrow> u16 set \<Rightarrow> u8 \<Rightarrow> item \<Rightarrow> propstream \<Rightarrow> attr_read \<times> item \<times> propstream" where
  "readAttr types ids attr =
     (if attr = ATTR_COUNT \<or> attr = ATTR_RUNE_CHARGES then read_then (ps_read 1 dec_u8) (\<lambda>n. setSubType types (ucast n))
      else if attr = ATTR_ACTION_ID then read_then (ps_read 2 dec_u16) setActionId
      else if attr = ATTR_UNIQUE_ID then read_then (ps_read 2 dec_u16) (setUniqueId ids)
      else if attr = ATTR_TEXT then read_then ps_readString (item_setStr ITEM_ATTRIBUTE_TEXT)
      else if attr = ATTR_WRITTENDATE then read_then (ps_read 4 dec_u32) (item_setInt ITEM_ATTRIBUTE_DATE)
      else if attr = ATTR_WRITTENBY then read_then ps_readString (item_setStr ITEM_ATTRIBUTE_WRITER)
      else if attr = ATTR_DESC then read_then ps_readString (item_setStr ITEM_ATTRIBUTE_DESCRIPTION)
      else if attr = ATTR_CHARGES then read_then (ps_read 2 dec_u16) (setSubType types)
      else if attr = ATTR_DURATION then
        read_then (ps_read 4 dec_u32) (\<lambda>d. setDuration (if sint d < 0 then 0 else d))
      else if attr = ATTR_DECAYING_STATE then
        read_then (ps_read 1 dec_u8) (\<lambda>s i. if s \<noteq> 0 then setDecaying DECAYING_PENDING i else i)
      else readAttr_values attr)"

text \<open>Every iteration reads at least the tag.\<close>

lemma read_then_shrinks:
  "(\<And>r ps1. rd ps = (r, ps1) \<Longrightarrow> length ps1 \<le> length ps) \<Longrightarrow> read_then rd f i ps = (r, j, qs) \<Longrightarrow> length qs \<le> length ps"
  by (auto simp: read_then_def split: option.splits prod.splits)

lemma ps_shrinks:
  "ps_read n dec ps = (r, ps1) \<Longrightarrow> length ps1 \<le> length ps"
  "ps_readString ps = (s, ps1) \<Longrightarrow> length ps1 \<le> length ps"
  by (auto simp: ps_read_def ps_readString_def ps_size_def split: if_splits)

lemma skip_then_shrinks: "skip_then n i ps = (r, j, qs) \<Longrightarrow> length qs \<le> length ps"
  by (auto simp: skip_then_def ps_skip_def split: if_splits)

lemma readAttr_shrinks:
  assumes "readAttr types ids attr i ps = (r, j, qs)"
  shows "length qs \<le> length ps"
proof -
  note s = read_then_shrinks [of "ps_read n dec" ps f i r j qs for n dec f, OF ps_shrinks(1)]
    read_then_shrinks [of ps_readString ps f i r j qs for f, OF ps_shrinks(2)] skip_then_shrinks
  show ?thesis using assms unfolding readAttr_def readAttr_values_def readAttr_derived_def by (auto split: if_splits intro: s)
qed

lemma unserialize_decreases:
  assumes "ps_read 1 dec_u8 ps = (Some attr, ps1)" "readAttr types ids attr i ps1 = (r, j, ps2)"
  shows "length ps2 < length ps"
  using readAttr_shrinks [OF assms(2)] assms(1) by (cases ps) (auto simp: ps_read_def ps_size_def split: if_splits)

function unserializeAttr :: "item_types \<Rightarrow> u16 set \<Rightarrow> item \<Rightarrow> propstream \<Rightarrow> bool \<times> item \<times> propstream" where
  "unserializeAttr types ids i ps =
     (case ps_read 1 dec_u8 ps of
        (None, ps1) \<Rightarrow> (True, i, ps1)
      | (Some attr, ps1) \<Rightarrow>
          if attr = 0 then (True, i, ps1)
          else (case readAttr types ids attr i ps1 of
                  (ATTR_READ_ERROR, j, ps2) \<Rightarrow> (False, j, ps2)
                | (ATTR_READ_END, j, ps2) \<Rightarrow> (True, j, ps2)
                | (ATTR_READ_CONTINUE, j, ps2) \<Rightarrow> unserializeAttr types ids j ps2))"
  by pat_completeness auto
termination
proof (relation "measure (\<lambda>(types, ids, i, ps). length ps)", goal_cases)
  case 2
  then show ?case by (auto simp del: One_nat_def intro: unserialize_decreases [OF sym sym])
qed simp

declare unserializeAttr.simps [simp del]

subsection \<open>Saving\<close>

definition write_if :: "bool \<Rightarrow> u8 \<Rightarrow> (bytes \<Rightarrow> bytes) \<Rightarrow> bytes \<Rightarrow> bytes" where
  "write_if c tag w b = (if c then w (pw_write (enc_u8 tag) b) else b)"

definition serializeAttr :: "item_types \<Rightarrow> item \<Rightarrow> bytes \<Rightarrow> bytes" where
  "serializeAttr types i b =
     (let it = types (i_id i);
          b = write_if (it_stackable it \<or> isFluidContainer it \<or> isSplash it) ATTR_COUNT
                (pw_write (enc_u8 (ucast (getSubType types i)))) b;
          b = write_if (getCharges i \<noteq> 0) ATTR_CHARGES (pw_write (enc_u16 (getCharges i))) b;
          b = write_if (it_moveable it \<and> getActionId i \<noteq> 0) ATTR_ACTION_ID (pw_write (enc_u16 (getActionId i))) b;
          b = write_if (item_getStr ITEM_ATTRIBUTE_TEXT i \<noteq> []) ATTR_TEXT
                (pw_writeString (item_getStr ITEM_ATTRIBUTE_TEXT i)) b;
          b = write_if (item_getInt ITEM_ATTRIBUTE_DATE i \<noteq> 0) ATTR_WRITTENDATE
                (pw_write (enc_u32 (item_getInt ITEM_ATTRIBUTE_DATE i))) b;
          b = write_if (item_getStr ITEM_ATTRIBUTE_WRITER i \<noteq> []) ATTR_WRITTENBY
                (pw_writeString (item_getStr ITEM_ATTRIBUTE_WRITER i)) b;
          b = write_if (item_getStr ITEM_ATTRIBUTE_DESCRIPTION i \<noteq> []) ATTR_DESC
                (pw_writeString (item_getStr ITEM_ATTRIBUTE_DESCRIPTION i)) b;
          b = write_if (item_has ITEM_ATTRIBUTE_DURATION i) ATTR_DURATION
                (pw_write (enc_u32 (item_getInt ITEM_ATTRIBUTE_DURATION i))) b;
          b = write_if (getDecaying i = 1 \<or> getDecaying i = 2) ATTR_DECAYING_STATE
                (pw_write (enc_u8 (getDecaying i))) b;
          b = write_if (item_has ITEM_ATTRIBUTE_NAME i) ATTR_NAME (pw_writeString (item_getStr ITEM_ATTRIBUTE_NAME i)) b;
          b = write_if (item_has ITEM_ATTRIBUTE_ARTICLE i) ATTR_ARTICLE
                (pw_writeString (item_getStr ITEM_ATTRIBUTE_ARTICLE i)) b;
          b = write_if (item_has ITEM_ATTRIBUTE_PLURALNAME i) ATTR_PLURALNAME
                (pw_writeString (item_getStr ITEM_ATTRIBUTE_PLURALNAME i)) b;
          b = write_if (item_has ITEM_ATTRIBUTE_WEIGHT i) ATTR_WEIGHT
                (pw_write (enc_u32 (item_getInt ITEM_ATTRIBUTE_WEIGHT i))) b;
          b = write_if (item_has ITEM_ATTRIBUTE_ATTACK i) ATTR_ATTACK
                (pw_write (enc_u32 (item_getInt ITEM_ATTRIBUTE_ATTACK i))) b;
          b = write_if (item_has ITEM_ATTRIBUTE_DEFENSE i) ATTR_DEFENSE
                (pw_write (enc_u32 (item_getInt ITEM_ATTRIBUTE_DEFENSE i))) b;
          b = write_if (item_has ITEM_ATTRIBUTE_EXTRADEFENSE i) ATTR_EXTRADEFENSE
                (pw_write (enc_u32 (item_getInt ITEM_ATTRIBUTE_EXTRADEFENSE i))) b;
          b = write_if (item_has ITEM_ATTRIBUTE_ARMOR i) ATTR_ARMOR
                (pw_write (enc_u32 (item_getInt ITEM_ATTRIBUTE_ARMOR i))) b;
          b = write_if (item_has ITEM_ATTRIBUTE_HITCHANCE i) ATTR_HITCHANCE
                (pw_write (enc_u8 (ucast (item_getInt ITEM_ATTRIBUTE_HITCHANCE i)))) b
      in write_if (item_has ITEM_ATTRIBUTE_SHOOTRANGE i) ATTR_SHOOTRANGE
                (pw_write (enc_u8 (ucast (item_getInt ITEM_ATTRIBUTE_SHOOTRANGE i)))) b)"

subsection \<open>The fields of a saved item\<close>

text \<open>A field is a tag, the value as the streams of \<open>Otb_Loader\<close> type it, and what loading it does.\<close>

type_synonym attr_field = "bool \<times> u8 \<times> propval \<times> (item \<Rightarrow> item)"

definition saved_fields :: "item_types \<Rightarrow> item \<Rightarrow> attr_field list" where
  "saved_fields types i =
     (let it = types (i_id i); n = \<lambda>t. item_getInt t i; s = \<lambda>t. item_getStr t i; has = \<lambda>t. item_has t i in
     [(it_stackable it \<or> isFluidContainer it \<or> isSplash it, ATTR_COUNT, PU8 (ucast (getSubType types i)),
        setSubType types (ucast (ucast (getSubType types i) :: u8))),
      (getCharges i \<noteq> 0, ATTR_CHARGES, PU16 (getCharges i), setSubType types (getCharges i)),
      (it_moveable it \<and> getActionId i \<noteq> 0, ATTR_ACTION_ID, PU16 (getActionId i), setActionId (getActionId i)),
      (s ITEM_ATTRIBUTE_TEXT \<noteq> [], ATTR_TEXT, PString (s ITEM_ATTRIBUTE_TEXT),
        item_setStr ITEM_ATTRIBUTE_TEXT (s ITEM_ATTRIBUTE_TEXT)),
      (n ITEM_ATTRIBUTE_DATE \<noteq> 0, ATTR_WRITTENDATE, PU32 (n ITEM_ATTRIBUTE_DATE),
        item_setInt ITEM_ATTRIBUTE_DATE (n ITEM_ATTRIBUTE_DATE)),
      (s ITEM_ATTRIBUTE_WRITER \<noteq> [], ATTR_WRITTENBY, PString (s ITEM_ATTRIBUTE_WRITER),
        item_setStr ITEM_ATTRIBUTE_WRITER (s ITEM_ATTRIBUTE_WRITER)),
      (s ITEM_ATTRIBUTE_DESCRIPTION \<noteq> [], ATTR_DESC, PString (s ITEM_ATTRIBUTE_DESCRIPTION),
        item_setStr ITEM_ATTRIBUTE_DESCRIPTION (s ITEM_ATTRIBUTE_DESCRIPTION)),
      (has ITEM_ATTRIBUTE_DURATION, ATTR_DURATION, PU32 (n ITEM_ATTRIBUTE_DURATION),
        setDuration (if sint (n ITEM_ATTRIBUTE_DURATION) < 0 then 0 else n ITEM_ATTRIBUTE_DURATION)),
      (getDecaying i = 1 \<or> getDecaying i = 2, ATTR_DECAYING_STATE, PU8 (getDecaying i),
        setDecaying DECAYING_PENDING),
      (has ITEM_ATTRIBUTE_NAME, ATTR_NAME, PString (s ITEM_ATTRIBUTE_NAME),
        item_setStr ITEM_ATTRIBUTE_NAME (s ITEM_ATTRIBUTE_NAME)),
      (has ITEM_ATTRIBUTE_ARTICLE, ATTR_ARTICLE, PString (s ITEM_ATTRIBUTE_ARTICLE),
        item_setStr ITEM_ATTRIBUTE_ARTICLE (s ITEM_ATTRIBUTE_ARTICLE)),
      (has ITEM_ATTRIBUTE_PLURALNAME, ATTR_PLURALNAME, PString (s ITEM_ATTRIBUTE_PLURALNAME),
        item_setStr ITEM_ATTRIBUTE_PLURALNAME (s ITEM_ATTRIBUTE_PLURALNAME)),
      (has ITEM_ATTRIBUTE_WEIGHT, ATTR_WEIGHT, PU32 (n ITEM_ATTRIBUTE_WEIGHT),
        item_setInt ITEM_ATTRIBUTE_WEIGHT (n ITEM_ATTRIBUTE_WEIGHT)),
      (has ITEM_ATTRIBUTE_ATTACK, ATTR_ATTACK, PU32 (n ITEM_ATTRIBUTE_ATTACK),
        item_setInt ITEM_ATTRIBUTE_ATTACK (n ITEM_ATTRIBUTE_ATTACK)),
      (has ITEM_ATTRIBUTE_DEFENSE, ATTR_DEFENSE, PU32 (n ITEM_ATTRIBUTE_DEFENSE),
        item_setInt ITEM_ATTRIBUTE_DEFENSE (n ITEM_ATTRIBUTE_DEFENSE)),
      (has ITEM_ATTRIBUTE_EXTRADEFENSE, ATTR_EXTRADEFENSE, PU32 (n ITEM_ATTRIBUTE_EXTRADEFENSE),
        item_setInt ITEM_ATTRIBUTE_EXTRADEFENSE (n ITEM_ATTRIBUTE_EXTRADEFENSE)),
      (has ITEM_ATTRIBUTE_ARMOR, ATTR_ARMOR, PU32 (n ITEM_ATTRIBUTE_ARMOR),
        item_setInt ITEM_ATTRIBUTE_ARMOR (n ITEM_ATTRIBUTE_ARMOR)),
      (has ITEM_ATTRIBUTE_HITCHANCE, ATTR_HITCHANCE, PU8 (ucast (n ITEM_ATTRIBUTE_HITCHANCE)),
        item_setInt ITEM_ATTRIBUTE_HITCHANCE (scast (ucast (n ITEM_ATTRIBUTE_HITCHANCE) :: u8))),
      (has ITEM_ATTRIBUTE_SHOOTRANGE, ATTR_SHOOTRANGE, PU8 (ucast (n ITEM_ATTRIBUTE_SHOOTRANGE)),
        item_setInt ITEM_ATTRIBUTE_SHOOTRANGE (ucast (ucast (n ITEM_ATTRIBUTE_SHOOTRANGE) :: u8)))])"

fun fields_bytes :: "attr_field list \<Rightarrow> bytes" where
  "fields_bytes [] = []"
| "fields_bytes ((c, tag, v, f) # fs) = (if c then tag # prop_bytes v else []) @ fields_bytes fs"

fun load_fields :: "attr_field list \<Rightarrow> item \<Rightarrow> item" where
  "load_fields [] j = j"
| "load_fields ((c, tag, v, f) # fs) j = load_fields fs (if c then f j else j)"

lemma write_if_bytes:
  "write_if c tag (pw_write img) b = b @ (if c then tag # img else [])"
  "write_if c tag (pw_writeString s) b = b @ (if c then tag # prop_bytes (PString s) else [])"
  by (simp_all add: write_if_def pw_write_def pw_writeString_def enc_u8_def)

lemma serializeAttr_fields: "serializeAttr types i b = b @ fields_bytes (saved_fields types i)"
  unfolding serializeAttr_def saved_fields_def Let_def write_if_bytes
  by (simp only: fields_bytes.simps prop_bytes.simps append_assoc append_Nil2)

definition field_loads :: "item_types \<Rightarrow> u16 set \<Rightarrow> attr_field \<Rightarrow> bool" where
  "field_loads types ids fd \<longleftrightarrow> (case fd of (c, tag, v, f) \<Rightarrow>
     c \<longrightarrow> tag \<noteq> 0 \<and> (\<forall>j rest. readAttr types ids tag j (prop_bytes v @ rest) = (ATTR_READ_CONTINUE, f j, rest)))"

lemma unserialize_fields:
  assumes "list_all (field_loads types ids) fs"
  shows "unserializeAttr types ids j (fields_bytes fs @ 0 # rest) = (True, load_fields fs j, rest)"
  using assms
proof (induction fs arbitrary: j)
  case Nil
  then show ?case by (subst unserializeAttr.simps) (simp add: ps_read_def ps_size_def dec_u8_def)
next
  case (Cons fd fs)
  obtain c tag v f where fd: "fd = (c, tag, v, f)" by (cases fd)
  show ?case
  proof (cases c)
    case False
    then show ?thesis using Cons fd by simp
  next
    case True
    have "ps_read 1 dec_u8 (tag # prop_bytes v @ fields_bytes fs @ 0 # rest) = (Some tag, prop_bytes v @ fields_bytes fs @ 0 # rest)"
      by (simp add: ps_read_def ps_size_def dec_u8_def)
    then show ?thesis using Cons fd True
      by (subst unserializeAttr.simps) (simp add: field_loads_def)
  qed
qed

lemma read_then_prop:
  "read_then (ps_read 1 dec_u8) f8 j (prop_bytes (PU8 a) @ rest) = (ATTR_READ_CONTINUE, f8 a j, rest)"
  "read_then (ps_read 2 dec_u16) f16 j (prop_bytes (PU16 b) @ rest) = (ATTR_READ_CONTINUE, f16 b j, rest)"
  "read_then (ps_read 4 dec_u32) f32 j (prop_bytes (PU32 c) @ rest) = (ATTR_READ_CONTINUE, f32 c j, rest)"
  "length s \<le> 65535 \<Longrightarrow>
     read_then ps_readString fs j (prop_bytes (PString s) @ rest) = (ATTR_READ_CONTINUE, fs s j, rest)"
  using u8c.ps_read_enc [of a rest] u16c.ps_read_enc [of b rest] u32c.ps_read_enc [of c rest] ps_readString_bytes [of s rest]
  by (simp_all add: read_then_def del: prop_bytes.simps(5))

definition strings_fit :: "item \<Rightarrow> bool" where
  "strings_fit i \<longleftrightarrow> (\<forall>t \<in> set attr_types. length (item_getStr t i) \<le> 65535)"

lemma declared [simp]:
  "ITEM_ATTRIBUTE_ACTIONID \<in> set attr_types" "ITEM_ATTRIBUTE_UNIQUEID \<in> set attr_types"
  "ITEM_ATTRIBUTE_DESCRIPTION \<in> set attr_types" "ITEM_ATTRIBUTE_TEXT \<in> set attr_types"
  "ITEM_ATTRIBUTE_DATE \<in> set attr_types" "ITEM_ATTRIBUTE_WRITER \<in> set attr_types"
  "ITEM_ATTRIBUTE_NAME \<in> set attr_types" "ITEM_ATTRIBUTE_ARTICLE \<in> set attr_types"
  "ITEM_ATTRIBUTE_PLURALNAME \<in> set attr_types" "ITEM_ATTRIBUTE_WEIGHT \<in> set attr_types"
  "ITEM_ATTRIBUTE_ATTACK \<in> set attr_types" "ITEM_ATTRIBUTE_DEFENSE \<in> set attr_types"
  "ITEM_ATTRIBUTE_EXTRADEFENSE \<in> set attr_types" "ITEM_ATTRIBUTE_ARMOR \<in> set attr_types"
  "ITEM_ATTRIBUTE_HITCHANCE \<in> set attr_types" "ITEM_ATTRIBUTE_SHOOTRANGE \<in> set attr_types"
  "ITEM_ATTRIBUTE_OWNER \<in> set attr_types" "ITEM_ATTRIBUTE_DURATION \<in> set attr_types"
  "ITEM_ATTRIBUTE_DECAYSTATE \<in> set attr_types" "ITEM_ATTRIBUTE_CORPSEOWNER \<in> set attr_types"
  "ITEM_ATTRIBUTE_CHARGES \<in> set attr_types" "ITEM_ATTRIBUTE_FLUIDTYPE \<in> set attr_types"
  "ITEM_ATTRIBUTE_DOORID \<in> set attr_types"
  by code_simp+

lemma saved_fields_load:
  assumes "strings_fit i"
  shows "list_all (field_loads types ids) (saved_fields types i)"
proof -
  have s: "length (item_getStr t i) \<le> 65535" if "t \<in> set attr_types" for t
    using assms that by (simp add: strings_fit_def)
  show ?thesis
    unfolding saved_fields_def Let_def list.pred_inject field_loads_def prod.case readAttr_def readAttr_values_def readAttr_derived_def
    by (intro conjI impI allI) (auto simp: tag_defs read_then_prop s simp del: prop_bytes.simps One_nat_def)
qed

end
