(* ===== verification/Item_Roundtrip.thy ===== *)
theory Item_Roundtrip
  imports Item_Serial
begin

text \<open>
  What a saved item is after loading: the attributes of the item as a map, the effect of every saved field on
  it, and the round trip.
\<close>

subsection \<open>The map of an item\<close>

definition item_ok :: "item \<Rightarrow> bool" where
  "item_ok i \<longleftrightarrow> (\<forall>a. i_attributes i = Some a \<longrightarrow> attrs_ok a)"

definition item_view :: "item \<Rightarrow> u32 \<rightharpoonup> attr_value" where
  "item_view i = (case i_attributes i of None \<Rightarrow> Map.empty | Some a \<Rightarrow> attr_view a)"

lemma item_getAttributes_ok: "item_ok i \<Longrightarrow> attrs_ok (item_getAttributes i)"
  "attr_view (item_getAttributes i) = item_view i"
  by (simp_all add: item_ok_def item_getAttributes_def item_view_def no_attributes_ok split: option.split)

lemma item_setInt_ok:
  assumes "item_ok i" "t \<in> set attr_types" "isIntAttrType t"
  shows "item_ok (item_setInt t n i)" "item_view (item_setInt t n i) = (item_view i)(t \<mapsto> AttrInt (scast n))"
  using attrs_setInt_ok [OF item_getAttributes_ok(1) [OF assms(1)] assms(2,3)]
  by (simp_all add: item_ok_def item_view_def item_setInt_def item_getAttributes_ok(2) [unfolded item_view_def])

lemma item_setStr_ok:
  assumes "item_ok i" "t \<in> set attr_types" "isStrAttrType t" "s \<noteq> []"
  shows "item_ok (item_setStr t s i)" "item_view (item_setStr t s i) = (item_view i)(t \<mapsto> AttrStr s)"
  using attrs_setStr_ok [OF item_getAttributes_ok(1) [OF assms(1)] assms(2,3), of s] assms(4)
  by (simp_all add: item_ok_def item_view_def item_setStr_def item_getAttributes_ok(2) [unfolded item_view_def])

lemma item_get_view:
  assumes "item_ok i" "t \<in> set attr_types"
  shows "item_has t i \<longleftrightarrow> item_view i t \<noteq> None"
    "isIntAttrType t \<Longrightarrow> item_getInt t i = ucast (case item_view i t of None \<Rightarrow> 0 | Some v \<Rightarrow> attr_int v)"
    "isStrAttrType t \<Longrightarrow> item_getStr t i = (case item_view i t of None \<Rightarrow> [] | Some v \<Rightarrow> attr_str v)"
    "isStrAttrType t \<Longrightarrow> item_has t i \<longleftrightarrow> item_getStr t i \<noteq> []"
proof -
  show h: "item_has t i \<longleftrightarrow> item_view i t \<noteq> None"
    using assms attr_view_has by (auto simp: item_ok_def item_has_def item_view_def split: option.split)
  show "isIntAttrType t \<Longrightarrow> item_getInt t i = ucast (case item_view i t of None \<Rightarrow> 0 | Some v \<Rightarrow> attr_int v)"
    using assms attrs_get_view(1) by (auto simp: item_ok_def item_getInt_def item_view_def split: option.split)
  show g: "isStrAttrType t \<Longrightarrow> item_getStr t i = (case item_view i t of None \<Rightarrow> [] | Some v \<Rightarrow> attr_str v)"
    using assms attrs_get_view(2) by (auto simp: item_ok_def item_getStr_def item_view_def split: option.split)
  have "attr_str v \<noteq> []" if "isStrAttrType t" "item_view i t = Some v" for v
  proof -
    have "value_typed (t, v)"
      using that(2) assms(1) attr_view_typed by (auto simp: item_ok_def item_view_def split: option.splits)
    then show ?thesis using that(1) attr_types_disjoint [OF assms(2)] by (cases v) (auto simp: attr_str_def)
  qed
  then show "isStrAttrType t \<Longrightarrow> item_has t i \<longleftrightarrow> item_getStr t i \<noteq> []" using g h by (auto split: option.splits)
qed

lemmas attr_defs = ITEM_ATTRIBUTE_ACTIONID_def ITEM_ATTRIBUTE_UNIQUEID_def ITEM_ATTRIBUTE_DESCRIPTION_def
  ITEM_ATTRIBUTE_TEXT_def ITEM_ATTRIBUTE_DATE_def ITEM_ATTRIBUTE_WRITER_def ITEM_ATTRIBUTE_NAME_def
  ITEM_ATTRIBUTE_ARTICLE_def ITEM_ATTRIBUTE_PLURALNAME_def ITEM_ATTRIBUTE_WEIGHT_def ITEM_ATTRIBUTE_ATTACK_def
  ITEM_ATTRIBUTE_DEFENSE_def ITEM_ATTRIBUTE_EXTRADEFENSE_def ITEM_ATTRIBUTE_ARMOR_def ITEM_ATTRIBUTE_HITCHANCE_def
  ITEM_ATTRIBUTE_SHOOTRANGE_def ITEM_ATTRIBUTE_OWNER_def ITEM_ATTRIBUTE_DURATION_def ITEM_ATTRIBUTE_DECAYSTATE_def
  ITEM_ATTRIBUTE_CORPSEOWNER_def ITEM_ATTRIBUTE_CHARGES_def ITEM_ATTRIBUTE_FLUIDTYPE_def ITEM_ATTRIBUTE_DOORID_def

lemma int_kinds [simp]:
  "isIntAttrType ITEM_ATTRIBUTE_ACTIONID" "isIntAttrType ITEM_ATTRIBUTE_UNIQUEID" "isIntAttrType ITEM_ATTRIBUTE_DATE"
  "isIntAttrType ITEM_ATTRIBUTE_WEIGHT" "isIntAttrType ITEM_ATTRIBUTE_ATTACK" "isIntAttrType ITEM_ATTRIBUTE_DEFENSE"
  "isIntAttrType ITEM_ATTRIBUTE_EXTRADEFENSE" "isIntAttrType ITEM_ATTRIBUTE_ARMOR"
  "isIntAttrType ITEM_ATTRIBUTE_HITCHANCE" "isIntAttrType ITEM_ATTRIBUTE_SHOOTRANGE"
  "isIntAttrType ITEM_ATTRIBUTE_DURATION" "isIntAttrType ITEM_ATTRIBUTE_DECAYSTATE"
  "isIntAttrType ITEM_ATTRIBUTE_CHARGES" "isIntAttrType ITEM_ATTRIBUTE_FLUIDTYPE"
  by (simp_all add: attr_defs isIntAttrType_def)

lemma str_kinds [simp]:
  "isStrAttrType ITEM_ATTRIBUTE_DESCRIPTION" "isStrAttrType ITEM_ATTRIBUTE_TEXT" "isStrAttrType ITEM_ATTRIBUTE_WRITER"
  "isStrAttrType ITEM_ATTRIBUTE_NAME" "isStrAttrType ITEM_ATTRIBUTE_ARTICLE" "isStrAttrType ITEM_ATTRIBUTE_PLURALNAME"
  by (simp_all add: attr_defs isStrAttrType_def)

subsection \<open>Effects of the fields\<close>

definition upd_view :: "bool \<Rightarrow> (u32 \<rightharpoonup> attr_value) \<Rightarrow> (u32 \<rightharpoonup> attr_value) \<Rightarrow> (u32 \<rightharpoonup> attr_value)" where
  "upd_view c u m = (if c then m ++ u else m)"

lemma upd_view_lookup [simp]:
  "k \<noteq> t \<Longrightarrow> upd_view c [k \<mapsto> v] m t = m t"
  "upd_view c [t \<mapsto> v] m t = (if c then Some v else m t)"
  "upd_view c Map.empty m = m"
  by (simp_all add: upd_view_def)

text \<open>The condition of a field, what it sets, and the count it sets.\<close>

type_synonym field_effect = "bool \<times> (u32 \<rightharpoonup> attr_value) \<times> u8 option"

definition has_effect :: "item \<Rightarrow> attr_field \<Rightarrow> field_effect \<Rightarrow> bool" where
  "has_effect i fd eff \<longleftrightarrow> (case (fd, eff) of ((c, tag, v, f), (c', u, k)) \<Rightarrow>
     c' = c \<and> (c \<longrightarrow> (\<forall>j. item_ok j \<longrightarrow> i_id j = i_id i \<longrightarrow>
       item_ok (f j) \<and> i_id (f j) = i_id i \<and> item_view (f j) = item_view j ++ u
       \<and> i_count (f j) = (case k of None \<Rightarrow> i_count j | Some n \<Rightarrow> n))))"

definition effects_view :: "field_effect list \<Rightarrow> (u32 \<rightharpoonup> attr_value) \<Rightarrow> (u32 \<rightharpoonup> attr_value)" where
  "effects_view = fold (\<lambda>(c, u, k). upd_view c u)"

definition effects_count :: "field_effect list \<Rightarrow> u8 \<Rightarrow> u8" where
  "effects_count = fold (\<lambda>(c, u, k) n. if c then case k of None \<Rightarrow> n | Some m \<Rightarrow> m else n)"

lemma load_fields_effects:
  assumes "list_all2 (has_effect i) fs effs" "item_ok j" "i_id j = i_id i"
  shows "item_ok (load_fields fs j) \<and> i_id (load_fields fs j) = i_id i
    \<and> item_view (load_fields fs j) = effects_view effs (item_view j)
    \<and> i_count (load_fields fs j) = effects_count effs (i_count j)"
  using assms
proof (induction fs effs arbitrary: j rule: list_all2_induct)
  case Nil
  then show ?case by (simp add: effects_view_def effects_count_def)
next
  case (Cons fd fs eff effs)
  obtain c tag v f where fd: "fd = (c, tag, v, f)" by (cases fd)
  obtain u k where eff: "eff = (c, u, k)" using Cons.hyps(1) by (cases eff) (auto simp: has_effect_def fd)
  show ?case
  proof (cases c)
    case False
    then show ?thesis using Cons.IH [of j] Cons.prems
      by (simp add: fd eff effects_view_def effects_count_def upd_view_def)
  next
    case True
    then have "item_ok (f j)" "i_id (f j) = i_id i" "item_view (f j) = item_view j ++ u"
      "i_count (f j) = (case k of None \<Rightarrow> i_count j | Some n \<Rightarrow> n)"
      using Cons.hyps(1) Cons.prems by (auto simp: has_effect_def fd eff)
    then show ?thesis using Cons.IH [of "f j"] True
      by (simp add: fd eff effects_view_def effects_count_def upd_view_def)
  qed
qed

lemma int_effect:
  assumes "t \<in> set attr_types" "isIntAttrType t"
  shows "has_effect i (c, tag, v, item_setInt t n) (c, [t \<mapsto> AttrInt (scast n)], None)"
  using item_setInt_ok [OF _ assms] by (simp add: has_effect_def) (simp add: item_setInt_def)

lemma str_effect:
  assumes "t \<in> set attr_types" "isStrAttrType t" "c \<Longrightarrow> s \<noteq> []"
  shows "has_effect i (c, tag, v, item_setStr t s) (c, [t \<mapsto> AttrStr s], None)"
  using item_setStr_ok [OF _ assms(1,2)] assms(3) by (simp add: has_effect_def) (simp add: item_setStr_def)

subsection \<open>Items that survive\<close>

text \<open>The values have to fit the fields: charges only count for types that have charges, the action id only for
  moveable items, and the narrow fields have one byte.\<close>

definition storable :: "item_types \<Rightarrow> item \<Rightarrow> bool" where
  "storable types i \<longleftrightarrow> strings_fit i
     \<and> item_getInt ITEM_ATTRIBUTE_CHARGES i < 65536
     \<and> (getCharges i = 0 \<or> it_charges (types (i_id i)) \<noteq> 0 \<and> \<not> it_stackable (types (i_id i))
          \<and> \<not> isFluidContainer (types (i_id i)) \<and> \<not> isSplash (types (i_id i)))
     \<and> item_getInt ITEM_ATTRIBUTE_ACTIONID i < 65536
     \<and> (getActionId i = 0 \<or> it_moveable (types (i_id i)) \<and> 100 \<le> getActionId i)
     \<and> 0 \<le> sint (item_getInt ITEM_ATTRIBUTE_DURATION i)
     \<and> item_getInt ITEM_ATTRIBUTE_DECAYSTATE i \<le> 2
     \<and> - 128 \<le> sint (item_getInt ITEM_ATTRIBUTE_HITCHANCE i) \<and> sint (item_getInt ITEM_ATTRIBUTE_HITCHANCE i) < 128
     \<and> item_getInt ITEM_ATTRIBUTE_SHOOTRANGE i < 256
     \<and> item_getInt ITEM_ATTRIBUTE_FLUIDTYPE i < 256"

definition int_image :: "u32 \<Rightarrow> item \<Rightarrow> (u32 \<rightharpoonup> attr_value)" where
  "int_image t i = [t \<mapsto> AttrInt (scast (item_getInt t i))]"

definition str_image :: "u32 \<Rightarrow> item \<Rightarrow> (u32 \<rightharpoonup> attr_value)" where
  "str_image t i = [t \<mapsto> AttrStr (item_getStr t i)]"

definition saved_effects :: "item_types \<Rightarrow> item \<Rightarrow> field_effect list" where
  "saved_effects types i =
     (let it = types (i_id i); fluid = isFluidContainer it \<or> isSplash it in
     [(it_stackable it \<or> isFluidContainer it \<or> isSplash it,
        if fluid then int_image ITEM_ATTRIBUTE_FLUIDTYPE i else Map.empty,
        if fluid then None else Some (i_count i)),
      (getCharges i \<noteq> 0, int_image ITEM_ATTRIBUTE_CHARGES i, None),
      (it_moveable it \<and> getActionId i \<noteq> 0, int_image ITEM_ATTRIBUTE_ACTIONID i, None),
      (item_getStr ITEM_ATTRIBUTE_TEXT i \<noteq> [], str_image ITEM_ATTRIBUTE_TEXT i, None),
      (item_getInt ITEM_ATTRIBUTE_DATE i \<noteq> 0, int_image ITEM_ATTRIBUTE_DATE i, None),
      (item_getStr ITEM_ATTRIBUTE_WRITER i \<noteq> [], str_image ITEM_ATTRIBUTE_WRITER i, None),
      (item_getStr ITEM_ATTRIBUTE_DESCRIPTION i \<noteq> [], str_image ITEM_ATTRIBUTE_DESCRIPTION i, None),
      (item_has ITEM_ATTRIBUTE_DURATION i, int_image ITEM_ATTRIBUTE_DURATION i, None),
      (getDecaying i = 1 \<or> getDecaying i = 2, [ITEM_ATTRIBUTE_DECAYSTATE \<mapsto> AttrInt 2], None),
      (item_has ITEM_ATTRIBUTE_NAME i, str_image ITEM_ATTRIBUTE_NAME i, None),
      (item_has ITEM_ATTRIBUTE_ARTICLE i, str_image ITEM_ATTRIBUTE_ARTICLE i, None),
      (item_has ITEM_ATTRIBUTE_PLURALNAME i, str_image ITEM_ATTRIBUTE_PLURALNAME i, None),
      (item_has ITEM_ATTRIBUTE_WEIGHT i, int_image ITEM_ATTRIBUTE_WEIGHT i, None),
      (item_has ITEM_ATTRIBUTE_ATTACK i, int_image ITEM_ATTRIBUTE_ATTACK i, None),
      (item_has ITEM_ATTRIBUTE_DEFENSE i, int_image ITEM_ATTRIBUTE_DEFENSE i, None),
      (item_has ITEM_ATTRIBUTE_EXTRADEFENSE i, int_image ITEM_ATTRIBUTE_EXTRADEFENSE i, None),
      (item_has ITEM_ATTRIBUTE_ARMOR i, int_image ITEM_ATTRIBUTE_ARMOR i, None),
      (item_has ITEM_ATTRIBUTE_HITCHANCE i, int_image ITEM_ATTRIBUTE_HITCHANCE i, None),
      (item_has ITEM_ATTRIBUTE_SHOOTRANGE i, int_image ITEM_ATTRIBUTE_SHOOTRANGE i, None)])"

lemma narrow_u32:
  "(w :: u32) < 65536 \<Longrightarrow> ucast (ucast w :: u16) = w"
  "(w :: u32) < 256 \<Longrightarrow> ucast (ucast w :: u8) = w"
  by (simp_all add: word_unat_eq_iff unsigned_ucast_eq unsigned_take_bit_eq word_less_nat_alt take_bit_nat_eq_self_iff)

lemma narrow_int8: "- 128 \<le> sint (w :: u32) \<Longrightarrow> sint w < 128 \<Longrightarrow> scast (ucast w :: u8) = w"
proof -
  assume a: "- 128 \<le> sint w" "sint w < 128"
  have "sint (ucast w :: u8) = signed_take_bit 7 (uint w)"
    by (simp add: sint_uint unsigned_ucast_eq signed_take_bit_take_bit)
  also have "\<dots> = signed_take_bit 7 (sint w)" by (simp add: sint_uint min_def)
  also have "signed_take_bit 7 (sint w) = sint w" using a by (intro signed_take_bit_int_eq_self) auto
  finally have s: "sint (ucast w :: u8) = sint w" .
  have "(scast (ucast w :: u8) :: u32) = word_of_int (sint (ucast w :: u8))" by (rule scast_eq)
  also have "\<dots> = w" unfolding s by simp
  finally show ?thesis .
qed

lemma scast_ucast_u32 [simp]: "ucast (scast (w :: u32) :: u64) = w"
  by (rule bit_word_eqI) (auto simp: bit_simps)

lemma widen_u16: "(ucast (x :: u16) :: u8) = ucast (ucast x :: u32)"
  by (rule bit_word_eqI) (auto simp: bit_simps)

lemma count_effect:
  assumes "storable types i" "f = setSubType types (ucast (ucast (getSubType types i) :: u8))"
    "fluid \<longleftrightarrow> isFluidContainer (types (i_id i)) \<or> isSplash (types (i_id i))"
  shows "has_effect i (it_stackable (types (i_id i)) \<or> isFluidContainer (types (i_id i)) \<or> isSplash (types (i_id i)), tag, v, f)
     (it_stackable (types (i_id i)) \<or> isFluidContainer (types (i_id i)) \<or> isSplash (types (i_id i)),
      if fluid then int_image ITEM_ATTRIBUTE_FLUIDTYPE i else Map.empty, if fluid then None else Some (i_count i))"
proof (cases fluid)
  case True
  then have g: "isFluidContainer (types (i_id i)) \<or> isSplash (types (i_id i))" using assms(3) by simp
  have n: "item_getInt ITEM_ATTRIBUTE_FLUIDTYPE i < 256" using assms(1) by (simp add: storable_def)
  have "(ucast (ucast (ucast (item_getInt ITEM_ATTRIBUTE_FLUIDTYPE i) :: u16) :: u8) :: u16)
    = ucast (ucast (ucast (item_getInt ITEM_ATTRIBUTE_FLUIDTYPE i) :: u8) :: u32)"
    by (rule bit_word_eqI) (auto simp: bit_simps)
  then have "(ucast (ucast (getSubType types i) :: u8) :: u16) = ucast (item_getInt ITEM_ATTRIBUTE_FLUIDTYPE i)"
    using g narrow_u32(2) [OF n] by (simp add: getSubType_def Let_def getFluidType_def)
  moreover have "(ucast (ucast (item_getInt ITEM_ATTRIBUTE_FLUIDTYPE i) :: u16) :: u32) = item_getInt ITEM_ATTRIBUTE_FLUIDTYPE i"
    using n by (intro narrow_u32(1)) (simp add: word_less_nat_alt)
  ultimately show ?thesis using True g item_setInt_ok [of _ ITEM_ATTRIBUTE_FLUIDTYPE]
    by (simp add: has_effect_def assms(2) setSubType_def Let_def setFluidType_def int_image_def)
      (simp add: item_setInt_def)
next
  case False
  then have g: "\<not> isFluidContainer (types (i_id i))" "\<not> isSplash (types (i_id i))" using assms(3) by auto
  have "(ucast (ucast (ucast (ucast (i_count i) :: u16) :: u8) :: u16) :: u8) = i_count i"
    by (rule bit_word_eqI) (auto simp: bit_simps)
  then show ?thesis using False g
    by (auto simp: has_effect_def assms(2) setSubType_def getSubType_def Let_def item_ok_def item_view_def)
qed

lemma setter_eqs:
  "setDuration n = item_setInt ITEM_ATTRIBUTE_DURATION n"
  "setDecaying DECAYING_PENDING = item_setInt ITEM_ATTRIBUTE_DECAYSTATE 2"
  by (simp_all add: fun_eq_iff setDuration_def setDecaying_def decay_code_def)

lemma saved_effects_ok:
  assumes "item_ok i" "storable types i"
  shows "list_all2 (has_effect i) (saved_fields types i) (saved_effects types i)"
proof -
  note st = assms(2) [unfolded storable_def]
  have ch: "has_effect i (getCharges i \<noteq> 0, tag, v, setSubType types (getCharges i))
      (getCharges i \<noteq> 0, int_image ITEM_ATTRIBUTE_CHARGES i, None)" for tag v
    using st item_setInt_ok [of _ ITEM_ATTRIBUTE_CHARGES] narrow_u32(1) [of "item_getInt ITEM_ATTRIBUTE_CHARGES i"]
    by (auto simp: has_effect_def setSubType_def Let_def setCharges_def getCharges_def int_image_def)
      (auto simp: item_setInt_def)
  have ac: "has_effect i (it_moveable (types (i_id i)) \<and> getActionId i \<noteq> 0, tag, v, setActionId (getActionId i))
      (it_moveable (types (i_id i)) \<and> getActionId i \<noteq> 0, int_image ITEM_ATTRIBUTE_ACTIONID i, None)" for tag v
    using st item_setInt_ok [of _ ITEM_ATTRIBUTE_ACTIONID] narrow_u32(1) [of "item_getInt ITEM_ATTRIBUTE_ACTIONID i"]
    by (auto simp: has_effect_def setActionId_def getActionId_def int_image_def)
      (auto simp: item_setInt_def)
  have du: "has_effect i (item_has ITEM_ATTRIBUTE_DURATION i, tag, v,
        setDuration (if sint (item_getInt ITEM_ATTRIBUTE_DURATION i) < 0 then 0 else item_getInt ITEM_ATTRIBUTE_DURATION i))
      (item_has ITEM_ATTRIBUTE_DURATION i, int_image ITEM_ATTRIBUTE_DURATION i, None)" for tag v
    using st int_effect [of ITEM_ATTRIBUTE_DURATION] by (simp add: setter_eqs int_image_def)
  have de: "has_effect i (c, tag, v, setDecaying DECAYING_PENDING) (c, [ITEM_ATTRIBUTE_DECAYSTATE \<mapsto> AttrInt 2], None)" for c tag v
    using int_effect [of ITEM_ATTRIBUTE_DECAYSTATE i c tag v 2] by (simp add: setter_eqs)
  have hc: "has_effect i (c, tag, v, item_setInt ITEM_ATTRIBUTE_HITCHANCE (scast (ucast (item_getInt ITEM_ATTRIBUTE_HITCHANCE i) :: u8)))
      (c, int_image ITEM_ATTRIBUTE_HITCHANCE i, None)" for c tag v
    using st int_effect [of ITEM_ATTRIBUTE_HITCHANCE] by (simp add: int_image_def narrow_int8)
  have sr: "has_effect i (c, tag, v, item_setInt ITEM_ATTRIBUTE_SHOOTRANGE (ucast (ucast (item_getInt ITEM_ATTRIBUTE_SHOOTRANGE i) :: u8)))
      (c, int_image ITEM_ATTRIBUTE_SHOOTRANGE i, None)" for c tag v
    using st int_effect [of ITEM_ATTRIBUTE_SHOOTRANGE] by (simp add: int_image_def narrow_u32(2))
  have ne: "item_has t i \<Longrightarrow> item_getStr t i \<noteq> []" if "t \<in> set attr_types" "isStrAttrType t" for t
    using item_get_view(4) [OF assms(1) that] by simp
  show ?thesis
    unfolding saved_fields_def saved_effects_def Let_def list.rel_inject
    by (intro conjI TrueI) (rule count_effect [OF assms(2)] ch ac du de hc sr
        | (simp add: int_image_def int_effect; fail)
        | (simp add: str_image_def, rule str_effect, simp, simp, simp add: ne))+
qed

subsection \<open>The round trip\<close>

lemma upd_view_if: "upd_view c (if b then u else Map.empty) m = upd_view (c \<and> b) u m"
  by (simp add: upd_view_def)

lemma effects_has_int:
  "t \<in> {ITEM_ATTRIBUTE_DURATION, ITEM_ATTRIBUTE_WEIGHT, ITEM_ATTRIBUTE_ATTACK, ITEM_ATTRIBUTE_DEFENSE,
     ITEM_ATTRIBUTE_EXTRADEFENSE, ITEM_ATTRIBUTE_ARMOR, ITEM_ATTRIBUTE_HITCHANCE, ITEM_ATTRIBUTE_SHOOTRANGE} \<Longrightarrow>
   effects_view (saved_effects types i) m t = (if item_has t i then Some (AttrInt (scast (item_getInt t i))) else m t)"
  by (elim insertE emptyE)
    (simp_all only: effects_view_def saved_effects_def Let_def int_image_def str_image_def upd_view_if fold_simps prod.case,
      simp_all only: upd_view_lookup attr_defs, simp_all del: if_split)

lemma effects_has_str:
  "t \<in> {ITEM_ATTRIBUTE_NAME, ITEM_ATTRIBUTE_ARTICLE, ITEM_ATTRIBUTE_PLURALNAME} \<Longrightarrow>
   effects_view (saved_effects types i) m t = (if item_has t i then Some (AttrStr (item_getStr t i)) else m t)"
  by (elim insertE emptyE)
    (simp_all only: effects_view_def saved_effects_def Let_def int_image_def str_image_def upd_view_if fold_simps prod.case,
      simp_all only: upd_view_lookup attr_defs, simp_all del: if_split)

lemma effects_text:
  "effects_view (saved_effects types i) m ITEM_ATTRIBUTE_TEXT =
     (if item_getStr ITEM_ATTRIBUTE_TEXT i \<noteq> [] then Some (AttrStr (item_getStr ITEM_ATTRIBUTE_TEXT i)) else m ITEM_ATTRIBUTE_TEXT)"
  by (simp only: effects_view_def saved_effects_def Let_def int_image_def str_image_def upd_view_if fold_simps prod.case,
      simp only: upd_view_lookup attr_defs, simp del: if_split)

lemma effects_writer:
  "effects_view (saved_effects types i) m ITEM_ATTRIBUTE_WRITER =
     (if item_getStr ITEM_ATTRIBUTE_WRITER i \<noteq> [] then Some (AttrStr (item_getStr ITEM_ATTRIBUTE_WRITER i)) else m ITEM_ATTRIBUTE_WRITER)"
  by (simp only: effects_view_def saved_effects_def Let_def int_image_def str_image_def upd_view_if fold_simps prod.case,
      simp only: upd_view_lookup attr_defs, simp del: if_split)

lemma effects_description:
  "effects_view (saved_effects types i) m ITEM_ATTRIBUTE_DESCRIPTION =
     (if item_getStr ITEM_ATTRIBUTE_DESCRIPTION i \<noteq> [] then Some (AttrStr (item_getStr ITEM_ATTRIBUTE_DESCRIPTION i)) else m ITEM_ATTRIBUTE_DESCRIPTION)"
  by (simp only: effects_view_def saved_effects_def Let_def int_image_def str_image_def upd_view_if fold_simps prod.case,
      simp only: upd_view_lookup attr_defs, simp del: if_split)

lemma effects_ne_str:
  "t \<in> {ITEM_ATTRIBUTE_TEXT, ITEM_ATTRIBUTE_WRITER, ITEM_ATTRIBUTE_DESCRIPTION} \<Longrightarrow>
   effects_view (saved_effects types i) m t = (if item_getStr t i \<noteq> [] then Some (AttrStr (item_getStr t i)) else m t)"
  by (elim insertE emptyE) (simp_all only: effects_text effects_writer effects_description)

lemma effects_other:
  "effects_view (saved_effects types i) m ITEM_ATTRIBUTE_CHARGES =
     (if getCharges i \<noteq> 0 then Some (AttrInt (scast (item_getInt ITEM_ATTRIBUTE_CHARGES i))) else m ITEM_ATTRIBUTE_CHARGES)"
  "effects_view (saved_effects types i) m ITEM_ATTRIBUTE_ACTIONID =
     (if it_moveable (types (i_id i)) \<and> getActionId i \<noteq> 0 then Some (AttrInt (scast (item_getInt ITEM_ATTRIBUTE_ACTIONID i)))
      else m ITEM_ATTRIBUTE_ACTIONID)"
  "effects_view (saved_effects types i) m ITEM_ATTRIBUTE_DATE =
     (if item_getInt ITEM_ATTRIBUTE_DATE i \<noteq> 0 then Some (AttrInt (scast (item_getInt ITEM_ATTRIBUTE_DATE i)))
      else m ITEM_ATTRIBUTE_DATE)"
  "effects_view (saved_effects types i) m ITEM_ATTRIBUTE_DECAYSTATE =
     (if getDecaying i = 1 \<or> getDecaying i = 2 then Some (AttrInt 2) else m ITEM_ATTRIBUTE_DECAYSTATE)"
  "effects_view (saved_effects types i) m ITEM_ATTRIBUTE_FLUIDTYPE =
     (if isFluidContainer (types (i_id i)) \<or> isSplash (types (i_id i))
      then Some (AttrInt (scast (item_getInt ITEM_ATTRIBUTE_FLUIDTYPE i))) else m ITEM_ATTRIBUTE_FLUIDTYPE)"
  by (simp_all only: effects_view_def saved_effects_def Let_def int_image_def str_image_def upd_view_if fold_simps prod.case,
      simp_all only: upd_view_lookup attr_defs, simp_all del: if_split)

lemma effects_count_stack:
  "effects_count (saved_effects types i) n =
     (if it_stackable (types (i_id i)) \<and> \<not> isFluidContainer (types (i_id i)) \<and> \<not> isSplash (types (i_id i))
      then i_count i else n)"
  by (simp only: effects_count_def saved_effects_def Let_def fold_simps prod.case option.case if_cancel)
    auto

definition saved_ints :: "u32 list" where
  "saved_ints = [ITEM_ATTRIBUTE_CHARGES, ITEM_ATTRIBUTE_ACTIONID, ITEM_ATTRIBUTE_DATE, ITEM_ATTRIBUTE_DURATION,
     ITEM_ATTRIBUTE_WEIGHT, ITEM_ATTRIBUTE_ATTACK, ITEM_ATTRIBUTE_DEFENSE, ITEM_ATTRIBUTE_EXTRADEFENSE,
     ITEM_ATTRIBUTE_ARMOR, ITEM_ATTRIBUTE_HITCHANCE, ITEM_ATTRIBUTE_SHOOTRANGE]"

definition saved_strs :: "u32 list" where
  "saved_strs = [ITEM_ATTRIBUTE_TEXT, ITEM_ATTRIBUTE_WRITER, ITEM_ATTRIBUTE_DESCRIPTION, ITEM_ATTRIBUTE_NAME,
     ITEM_ATTRIBUTE_ARTICLE, ITEM_ATTRIBUTE_PLURALNAME]"

text \<open>A new item of the type: the only attributes are defaults that the saved item has too.\<close>

definition blank_for :: "item_types \<Rightarrow> item \<Rightarrow> item \<Rightarrow> bool" where
  "blank_for types i j \<longleftrightarrow> item_ok j \<and> i_id j = i_id i \<and> (\<forall>t. item_view j t = None
     \<or> t = ITEM_ATTRIBUTE_CHARGES \<and> getCharges i \<noteq> 0 \<or> t = ITEM_ATTRIBUTE_DURATION \<and> item_has t i
     \<or> t = ITEM_ATTRIBUTE_FLUIDTYPE)"

lemma blank_viewD:
  assumes "blank_for types i j"
  shows "getCharges i = 0 \<Longrightarrow> item_view j ITEM_ATTRIBUTE_CHARGES = None"
    "\<not> item_has ITEM_ATTRIBUTE_DURATION i \<Longrightarrow> item_view j ITEM_ATTRIBUTE_DURATION = None"
    "t \<in> set attr_types - {ITEM_ATTRIBUTE_CHARGES, ITEM_ATTRIBUTE_DURATION, ITEM_ATTRIBUTE_FLUIDTYPE} \<Longrightarrow> item_view j t = None"
proof -
  have b: "item_view j t = None \<or> t = ITEM_ATTRIBUTE_CHARGES \<and> getCharges i \<noteq> 0
      \<or> t = ITEM_ATTRIBUTE_DURATION \<and> item_has t i \<or> t = ITEM_ATTRIBUTE_FLUIDTYPE" for t
    using assms by (simp add: blank_for_def)
  show "getCharges i = 0 \<Longrightarrow> item_view j ITEM_ATTRIBUTE_CHARGES = None"
    using b [of ITEM_ATTRIBUTE_CHARGES] by (auto simp: attr_defs)
  show "\<not> item_has ITEM_ATTRIBUTE_DURATION i \<Longrightarrow> item_view j ITEM_ATTRIBUTE_DURATION = None"
    using b [of ITEM_ATTRIBUTE_DURATION] by (auto simp: attr_defs)
  show "t \<in> set attr_types - {ITEM_ATTRIBUTE_CHARGES, ITEM_ATTRIBUTE_DURATION, ITEM_ATTRIBUTE_FLUIDTYPE} \<Longrightarrow> item_view j t = None"
    using b [of t] by blast
qed

lemma attr_distinct [simp]:
  "t \<in> {ITEM_ATTRIBUTE_ACTIONID, ITEM_ATTRIBUTE_DATE, ITEM_ATTRIBUTE_WEIGHT, ITEM_ATTRIBUTE_ATTACK, ITEM_ATTRIBUTE_DEFENSE,
     ITEM_ATTRIBUTE_EXTRADEFENSE, ITEM_ATTRIBUTE_ARMOR, ITEM_ATTRIBUTE_HITCHANCE, ITEM_ATTRIBUTE_SHOOTRANGE,
     ITEM_ATTRIBUTE_TEXT, ITEM_ATTRIBUTE_WRITER, ITEM_ATTRIBUTE_DESCRIPTION, ITEM_ATTRIBUTE_NAME, ITEM_ATTRIBUTE_ARTICLE,
     ITEM_ATTRIBUTE_PLURALNAME, ITEM_ATTRIBUTE_DECAYSTATE} \<Longrightarrow>
   t \<in> set attr_types - {ITEM_ATTRIBUTE_CHARGES, ITEM_ATTRIBUTE_DURATION, ITEM_ATTRIBUTE_FLUIDTYPE}"
  by (elim insertE emptyE) (simp_all, simp_all add: attr_defs)

lemma item_getInt_effect:
  assumes "item_ok i" "item_ok j" "t \<in> set attr_types" "isIntAttrType t"
    "item_view j t = (if c then Some (AttrInt (scast (item_getInt t i))) else None)" "\<not> c \<Longrightarrow> item_getInt t i = 0"
  shows "item_getInt t j = item_getInt t i"
  using item_get_view(2) [OF assms(2-4)] assms(5,6) by (auto simp: attr_int_def)

lemma item_getStr_effect:
  assumes "item_ok j" "t \<in> set attr_types" "isStrAttrType t"
    "item_view j t = (if c then Some (AttrStr (item_getStr t i)) else None)" "\<not> c \<Longrightarrow> item_getStr t i = []"
  shows "item_getStr t j = item_getStr t i"
  using item_get_view(3) [OF assms(1-3)] assms(4,5) by (auto simp: attr_str_def)

lemma not_has_zero:
  assumes "item_ok i" "t \<in> set attr_types" "\<not> item_has t i"
  shows "isIntAttrType t \<Longrightarrow> item_getInt t i = 0" "isStrAttrType t \<Longrightarrow> item_getStr t i = []"
  using item_get_view [OF assms(1,2)] assms(3) by auto

lemma saved_loads:
  assumes "item_ok i" "storable types i" "blank_for types i j0"
  obtains j where "unserializeAttr types ids j0 (serializeAttr types i [] @ 0 # rest) = (True, j, rest)"
    "item_ok j" "i_id j = i_id i" "item_view j = effects_view (saved_effects types i) (item_view j0)"
    "i_count j = effects_count (saved_effects types i) (i_count j0)"
proof -
  have "strings_fit i" using assms(2) by (simp add: storable_def)
  from unserialize_fields [OF saved_fields_load [OF this], of types ids j0 rest]
  have u: "unserializeAttr types ids j0 (serializeAttr types i [] @ 0 # rest) = (True, load_fields (saved_fields types i) j0, rest)"
    by (simp add: serializeAttr_fields)
  have "item_ok j0" "i_id j0 = i_id i" using assms(3) by (simp_all add: blank_for_def)
  from load_fields_effects [OF saved_effects_ok [OF assms(1,2)] this] u show thesis using that by blast
qed

lemma saved_values:
  assumes "item_ok i" "storable types i" "blank_for types i j0" "item_ok j"
    "item_view j = effects_view (saved_effects types i) (item_view j0)"
  shows "t \<in> set saved_ints \<Longrightarrow> item_getInt t j = item_getInt t i"
    "t \<in> set saved_strs \<Longrightarrow> item_getStr t j = item_getStr t i"
proof -
  note b = blank_viewD [OF assms(3)]
  note st = assms(2) [unfolded storable_def]
  note z = not_has_zero [OF assms(1)]
  have h: "item_getInt t j = item_getInt t i"
    if "t \<in> {ITEM_ATTRIBUTE_DURATION, ITEM_ATTRIBUTE_WEIGHT, ITEM_ATTRIBUTE_ATTACK, ITEM_ATTRIBUTE_DEFENSE,
     ITEM_ATTRIBUTE_EXTRADEFENSE, ITEM_ATTRIBUTE_ARMOR, ITEM_ATTRIBUTE_HITCHANCE, ITEM_ATTRIBUTE_SHOOTRANGE}" for t
  proof (rule item_getInt_effect [OF assms(1,4)])
    show d: "t \<in> set attr_types" and k: "isIntAttrType t" using that by auto
    show "item_view j t = (if item_has t i then Some (AttrInt (scast (item_getInt t i))) else None)"
      unfolding assms(5) effects_has_int [OF that] using b(2) b(3) [OF attr_distinct, of t] that by auto
    show "\<not> item_has t i \<Longrightarrow> item_getInt t i = 0" using z(1) [OF d _ k] by blast
  qed
  have ch: "item_getInt ITEM_ATTRIBUTE_CHARGES j = item_getInt ITEM_ATTRIBUTE_CHARGES i"
  proof (rule item_getInt_effect [OF assms(1,4), where c = "getCharges i \<noteq> 0"])
    show "item_view j ITEM_ATTRIBUTE_CHARGES =
        (if getCharges i \<noteq> 0 then Some (AttrInt (scast (item_getInt ITEM_ATTRIBUTE_CHARGES i))) else None)"
      unfolding assms(5) effects_other(1) using b(1) by auto
    show "\<not> getCharges i \<noteq> 0 \<Longrightarrow> item_getInt ITEM_ATTRIBUTE_CHARGES i = 0"
      using narrow_u32(1) [of "item_getInt ITEM_ATTRIBUTE_CHARGES i"] st by (auto simp: getCharges_def)
  qed simp_all
  have ac: "item_getInt ITEM_ATTRIBUTE_ACTIONID j = item_getInt ITEM_ATTRIBUTE_ACTIONID i"
  proof (rule item_getInt_effect [OF assms(1,4), where c = "it_moveable (types (i_id i)) \<and> getActionId i \<noteq> 0"])
    show "item_view j ITEM_ATTRIBUTE_ACTIONID = (if it_moveable (types (i_id i)) \<and> getActionId i \<noteq> 0
        then Some (AttrInt (scast (item_getInt ITEM_ATTRIBUTE_ACTIONID i))) else None)"
      unfolding assms(5) effects_other(2) using b(3) [OF attr_distinct, of ITEM_ATTRIBUTE_ACTIONID] by auto
    show "\<not> (it_moveable (types (i_id i)) \<and> getActionId i \<noteq> 0) \<Longrightarrow> item_getInt ITEM_ATTRIBUTE_ACTIONID i = 0"
      using narrow_u32(1) [of "item_getInt ITEM_ATTRIBUTE_ACTIONID i"] st by (auto simp: getActionId_def)
  qed simp_all
  have da: "item_getInt ITEM_ATTRIBUTE_DATE j = item_getInt ITEM_ATTRIBUTE_DATE i"
    by (rule item_getInt_effect [OF assms(1,4), where c = "item_getInt ITEM_ATTRIBUTE_DATE i \<noteq> 0"])
      (auto simp: assms(5) effects_other(3) b(3) [OF attr_distinct])
  show "t \<in> set saved_ints \<Longrightarrow> item_getInt t j = item_getInt t i"
    using h ch ac da by (auto simp: saved_ints_def)
  have s1: "item_getStr t j = item_getStr t i"
    if "t \<in> {ITEM_ATTRIBUTE_NAME, ITEM_ATTRIBUTE_ARTICLE, ITEM_ATTRIBUTE_PLURALNAME}" for t
  proof (rule item_getStr_effect [OF assms(4)])
    show d: "t \<in> set attr_types" and k: "isStrAttrType t" using that by auto
    show "item_view j t = (if item_has t i then Some (AttrStr (item_getStr t i)) else None)"
      unfolding assms(5) effects_has_str [OF that] using b(3) [OF attr_distinct, of t] that by auto
    show "\<not> item_has t i \<Longrightarrow> item_getStr t i = []" using z(2) [OF d _ k] by blast
  qed
  have s2: "item_getStr t j = item_getStr t i"
    if "t \<in> {ITEM_ATTRIBUTE_TEXT, ITEM_ATTRIBUTE_WRITER, ITEM_ATTRIBUTE_DESCRIPTION}" for t
  proof (rule item_getStr_effect [OF assms(4)])
    show "t \<in> set attr_types" "isStrAttrType t" using that by auto
    show "item_view j t = (if item_getStr t i \<noteq> [] then Some (AttrStr (item_getStr t i)) else None)"
      unfolding assms(5) effects_ne_str [OF that] using b(3) [OF attr_distinct, of t] that by auto
  qed simp
  show "t \<in> set saved_strs \<Longrightarrow> item_getStr t j = item_getStr t i"
    using s1 s2 by (auto simp: saved_strs_def)
qed

text \<open>
  C9. Saving and loading: what \<open>serializeAttr\<close> writes for an item, followed by the end tag, is accepted by
  \<open>unserializeAttr\<close> on a new item of the same type, which consumes exactly these bytes. If the values fit their
  fields (\<open>storable\<close>), the loaded item has the same numbers and texts, the same charges, the same fluid or
  count of a stack, and an item that was decaying waits to decay again.
\<close>
theorem saved_item_loads_back:
  assumes "item_ok i" "storable types i" "blank_for types i j0"
  shows "\<exists>j. unserializeAttr types ids j0 (serializeAttr types i [] @ 0 # rest) = (True, j, rest)
    \<and> i_id j = i_id i \<and> map (\<lambda>t. item_getInt t j) saved_ints = map (\<lambda>t. item_getInt t i) saved_ints
    \<and> map (\<lambda>t. item_getStr t j) saved_strs = map (\<lambda>t. item_getStr t i) saved_strs
    \<and> getDecaying j = (if getDecaying i = 0 then 0 else 2)
    \<and> (it_stackable (types (i_id i)) \<or> isFluidContainer (types (i_id i)) \<or> isSplash (types (i_id i))
        \<longrightarrow> getSubType types j = getSubType types i)"
proof -
  obtain j where j: "unserializeAttr types ids j0 (serializeAttr types i [] @ 0 # rest) = (True, j, rest)"
    "item_ok j" "i_id j = i_id i" "item_view j = effects_view (saved_effects types i) (item_view j0)"
    "i_count j = effects_count (saved_effects types i) (i_count j0)"
    by (rule saved_loads [OF assms])
  note v = saved_values [OF assms j(2,4)]
  note st = assms(2) [unfolded storable_def]
  have d0: "item_view j0 ITEM_ATTRIBUTE_DECAYSTATE = None"
    using blank_viewD(3) [OF assms(3) attr_distinct] by simp
  have "item_getInt ITEM_ATTRIBUTE_DECAYSTATE i = 0 \<or> item_getInt ITEM_ATTRIBUTE_DECAYSTATE i = 1
      \<or> item_getInt ITEM_ATTRIBUTE_DECAYSTATE i = 2"
  proof -
    have "unat (item_getInt ITEM_ATTRIBUTE_DECAYSTATE i) \<le> 2" using st by (simp add: word_le_nat_alt)
    then show ?thesis by (simp add: word_unat_eq_iff) linarith
  qed
  then have "getDecaying i = 0 \<or> getDecaying i = 1 \<or> getDecaying i = 2" by (auto simp: getDecaying_def)
  then have "getDecaying j = (if getDecaying i = 0 then 0 else 2)"
    using item_get_view(2) [OF j(2), of ITEM_ATTRIBUTE_DECAYSTATE] d0
    by (auto simp: j(4) effects_other(4) getDecaying_def [of j] attr_int_def)
  moreover have "getSubType types j = getSubType types i"
    if "it_stackable (types (i_id i)) \<or> isFluidContainer (types (i_id i)) \<or> isSplash (types (i_id i))"
  proof (cases "isFluidContainer (types (i_id i)) \<or> isSplash (types (i_id i))")
    case True
    then have "item_getInt ITEM_ATTRIBUTE_FLUIDTYPE j = item_getInt ITEM_ATTRIBUTE_FLUIDTYPE i"
      by (intro item_getInt_effect [OF assms(1) j(2), where c = True]) (simp_all add: j(4) effects_other(5))
    then show ?thesis using True by (simp add: getSubType_def Let_def j(3) getFluidType_def)
  next
    case False
    then show ?thesis using that by (simp add: getSubType_def Let_def j(3,5) effects_count_stack)
  qed
  ultimately show ?thesis using j(1,3) v by (intro exI [of _ j]) auto
qed

definition potion_types :: item_types where
  "potion_types t = \<lparr> it_group = ITEM_GROUP_NONE, it_type = ITEM_TYPE_NONE, it_id = t, it_stackable = (t = 7), it_weight = 10,
     it_decayTime = 0, it_charges = 0, it_decayTo = - 1, it_maxItems = 8, it_hasHeight = False, it_blockSolid = False,
     it_blockProjectile = False, it_blockPathFind = False, it_isVertical = False, it_isHorizontal = False,
     it_pickupable = True, it_moveable = True, it_stopTime = False,
     it_alwaysOnTop = False, it_alwaysOnTopOrder = 0, it_floorChange = 0, it_isHangable = False, it_allowPickupable = False,
     it_forceUse = False, it_lookThrough = False, it_replaceable = True \<rparr>"

definition signed_sword :: item where
  "signed_sword = item_setStr ITEM_ATTRIBUTE_TEXT [72, 105] (item_setInt ITEM_ATTRIBUTE_ATTACK 50
     (setActionId 2000 (item_new potion_types 9 1)))"

theorem saved_item_loads_back_witness:
  "let i = signed_sword; j0 = item_new potion_types 9 1 in
   \<exists>j. unserializeAttr potion_types {} j0 (serializeAttr potion_types i [] @ 0 # [1, 2]) = (True, j, [1, 2])
    \<and> i_id j = i_id i \<and> map (\<lambda>t. item_getInt t j) saved_ints = map (\<lambda>t. item_getInt t i) saved_ints
    \<and> map (\<lambda>t. item_getStr t j) saved_strs = map (\<lambda>t. item_getStr t i) saved_strs
    \<and> getDecaying j = (if getDecaying i = 0 then 0 else 2)
    \<and> (it_stackable (potion_types (i_id i)) \<or> isFluidContainer (potion_types (i_id i)) \<or> isSplash (potion_types (i_id i))
        \<longrightarrow> getSubType potion_types j = getSubType potion_types i)"
proof -
  have n: "item_ok (item_new potion_types 9 1)" "item_view (item_new potion_types 9 1) = Map.empty"
    by (simp_all add: item_new_def potion_types_def Let_def isFluidContainer_def isSplash_def item_ok_def item_view_def)
  have "item_ok signed_sword"
    unfolding signed_sword_def setActionId_def by (intro item_setStr_ok item_setInt_ok n) simp_all
  moreover
  have "\<forall>t \<in> set attr_types. length (item_getStr t signed_sword) \<le> 2" by code_simp
  then have f: "strings_fit signed_sword" by (force simp: strings_fit_def)
  have "storable potion_types signed_sword"
    unfolding storable_def by (intro conjI, rule f) code_simp+
  moreover have "blank_for potion_types signed_sword (item_new potion_types 9 1)"
  proof -
    have "i_id (item_new potion_types 9 1) = i_id signed_sword" by code_simp
    then show ?thesis using n by (simp add: blank_for_def)
  qed
  ultimately show ?thesis unfolding Let_def by (rule saved_item_loads_back)
qed

text \<open>A stack that also has the attribute for charges comes back with the charges as its count: both are read with
  \<open>setSubType\<close>.\<close>

lemma charged_stack_changes_count:
  "let i = setCharges 3 (item_new potion_types 7 50); (ok, j, rest) = unserializeAttr potion_types {}
       (item_new potion_types 7 0) (serializeAttr potion_types i [] @ [0])
   in ok \<and> i_count i = 50 \<and> i_count j = 3"
proof -
  let ?i = "setCharges 3 (item_new potion_types 7 50)"
  have s: "serializeAttr potion_types ?i [] @ [0] = [15, 50, 22, 3, 0, 0]" by code_simp
  have t: "readAttr potion_types {} 15 (item_new potion_types 7 0) [50, 22, 3, 0, 0]
      = (ATTR_READ_CONTINUE, item_new potion_types 7 50, [22, 3, 0, 0])"
    "readAttr potion_types {} 22 (item_new potion_types 7 50) [3, 0, 0]
      = (ATTR_READ_CONTINUE, item_new potion_types 7 3, [0])"
    "i_count ?i = 50" "i_count (item_new potion_types 7 3) = 3" by code_simp+
  have p: "ps_read 1 dec_u8 (b # bs) = (Some b, bs)" for b bs
    by (simp add: ps_read_def ps_size_def dec_u8_def)
  have "unserializeAttr potion_types {} (item_new potion_types 7 0) [15, 50, 22, 3, 0, 0] = (True, item_new potion_types 7 3, [])"
    by (subst unserializeAttr.simps, simp only: p prod.case option.case t attr_read.case, simp,
        subst unserializeAttr.simps, simp only: p prod.case option.case t attr_read.case, simp,
        subst unserializeAttr.simps, simp only: p prod.case option.case, simp)
  then show ?thesis using s t by simp
qed

end
