(* ===== verification/Tile_Things.thy ===== *)
theory Tile_Things
  imports Items Otx_Enums
begin

text \<open>
  The things on a tile, \<^verbatim>\<open>class Tile\<close> (\<^verbatim>\<open>src/src/tile.h\<close>, \<^verbatim>\<open>tile.cpp\<close>): the ground, one vector with the
  down items in front and the top items behind, the creatures, and the flags that summarise the items. Items and
  creatures are addresses; an item that leaves a tile is released later, so every address here has an object.
  A vector that does not exist yet is the empty list.
\<close>

subsection \<open>Tiles\<close>

definition TILESTATE_FLOORCHANGE_DOWN :: u32 where "TILESTATE_FLOORCHANGE_DOWN = push_bit 0 1"
definition TILESTATE_FLOORCHANGE_NORTH :: u32 where "TILESTATE_FLOORCHANGE_NORTH = push_bit 1 1"
definition TILESTATE_FLOORCHANGE_SOUTH :: u32 where "TILESTATE_FLOORCHANGE_SOUTH = push_bit 2 1"
definition TILESTATE_FLOORCHANGE_EAST :: u32 where "TILESTATE_FLOORCHANGE_EAST = push_bit 3 1"
definition TILESTATE_FLOORCHANGE_WEST :: u32 where "TILESTATE_FLOORCHANGE_WEST = push_bit 4 1"
definition TILESTATE_FLOORCHANGE_SOUTH_ALT :: u32 where "TILESTATE_FLOORCHANGE_SOUTH_ALT = push_bit 5 1"
definition TILESTATE_FLOORCHANGE_EAST_ALT :: u32 where "TILESTATE_FLOORCHANGE_EAST_ALT = push_bit 6 1"
definition TILESTATE_PROTECTIONZONE :: u32 where "TILESTATE_PROTECTIONZONE = push_bit 7 1"
definition TILESTATE_NOPVPZONE :: u32 where "TILESTATE_NOPVPZONE = push_bit 8 1"
definition TILESTATE_NOLOGOUT :: u32 where "TILESTATE_NOLOGOUT = push_bit 9 1"
definition TILESTATE_PVPZONE :: u32 where "TILESTATE_PVPZONE = push_bit 10 1"
definition TILESTATE_TELEPORT :: u32 where "TILESTATE_TELEPORT = push_bit 11 1"
definition TILESTATE_MAGICFIELD :: u32 where "TILESTATE_MAGICFIELD = push_bit 12 1"
definition TILESTATE_MAILBOX :: u32 where "TILESTATE_MAILBOX = push_bit 13 1"
definition TILESTATE_TRASHHOLDER :: u32 where "TILESTATE_TRASHHOLDER = push_bit 14 1"
definition TILESTATE_BED :: u32 where "TILESTATE_BED = push_bit 15 1"
definition TILESTATE_DEPOT :: u32 where "TILESTATE_DEPOT = push_bit 16 1"
definition TILESTATE_BLOCKSOLID :: u32 where "TILESTATE_BLOCKSOLID = push_bit 17 1"
definition TILESTATE_BLOCKPATH :: u32 where "TILESTATE_BLOCKPATH = push_bit 18 1"
definition TILESTATE_IMMOVABLEBLOCKSOLID :: u32 where "TILESTATE_IMMOVABLEBLOCKSOLID = push_bit 19 1"
definition TILESTATE_IMMOVABLEBLOCKPATH :: u32 where "TILESTATE_IMMOVABLEBLOCKPATH = push_bit 20 1"
definition TILESTATE_IMMOVABLENOFIELDBLOCKPATH :: u32 where "TILESTATE_IMMOVABLENOFIELDBLOCKPATH = push_bit 21 1"
definition TILESTATE_NOFIELDBLOCKPATH :: u32 where "TILESTATE_NOFIELDBLOCKPATH = push_bit 22 1"
definition TILESTATE_SUPPORTS_HANGABLE :: u32 where "TILESTATE_SUPPORTS_HANGABLE = push_bit 23 1"

definition TILESTATE_FLOORCHANGE :: u32 where
  "TILESTATE_FLOORCHANGE = TILESTATE_FLOORCHANGE_DOWN OR TILESTATE_FLOORCHANGE_NORTH OR TILESTATE_FLOORCHANGE_SOUTH
     OR TILESTATE_FLOORCHANGE_EAST OR TILESTATE_FLOORCHANGE_WEST OR TILESTATE_FLOORCHANGE_SOUTH_ALT
     OR TILESTATE_FLOORCHANGE_EAST_ALT"

lemmas tilestate_defs = TILESTATE_FLOORCHANGE_DOWN_def TILESTATE_FLOORCHANGE_NORTH_def TILESTATE_FLOORCHANGE_SOUTH_def
  TILESTATE_FLOORCHANGE_EAST_def TILESTATE_FLOORCHANGE_WEST_def TILESTATE_FLOORCHANGE_SOUTH_ALT_def
  TILESTATE_FLOORCHANGE_EAST_ALT_def TILESTATE_PROTECTIONZONE_def TILESTATE_NOPVPZONE_def TILESTATE_NOLOGOUT_def
  TILESTATE_PVPZONE_def TILESTATE_TELEPORT_def TILESTATE_MAGICFIELD_def TILESTATE_MAILBOX_def TILESTATE_TRASHHOLDER_def
  TILESTATE_BED_def TILESTATE_DEPOT_def TILESTATE_BLOCKSOLID_def TILESTATE_BLOCKPATH_def TILESTATE_IMMOVABLEBLOCKSOLID_def
  TILESTATE_IMMOVABLEBLOCKPATH_def TILESTATE_IMMOVABLENOFIELDBLOCKPATH_def TILESTATE_NOFIELDBLOCKPATH_def
  TILESTATE_SUPPORTS_HANGABLE_def

record tile =
  t_ground :: "nat option"
  t_items :: "nat list"
  t_downItemCount :: u16
  t_creatures :: "nat list"
  t_flags :: u32

type_synonym item_store = "nat \<Rightarrow> item"

definition downItems :: "tile \<Rightarrow> nat list" where
  "downItems t = take (unat (t_downItemCount t)) (t_items t)"

definition topItems :: "tile \<Rightarrow> nat list" where
  "topItems t = drop (unat (t_downItemCount t)) (t_items t)"

definition getTopItemCount :: "tile \<Rightarrow> nat" where
  "getTopItemCount t = length (t_items t) - unat (t_downItemCount t)"

definition getThingCount :: "tile \<Rightarrow> nat" where
  "getThingCount t = length (t_creatures t) + length (t_items t) + (if t_ground t \<noteq> None then 1 else 0)"

definition hasFlag :: "tile \<Rightarrow> u32 \<Rightarrow> bool" where
  "hasFlag t flag \<longleftrightarrow> t_flags t AND flag \<noteq> 0"

definition setFlag :: "u32 \<Rightarrow> tile \<Rightarrow> tile" where
  "setFlag flag t = t \<lparr> t_flags := t_flags t OR flag \<rparr>"

definition resetFlag :: "u32 \<Rightarrow> tile \<Rightarrow> tile" where
  "resetFlag flag t = t \<lparr> t_flags := t_flags t AND NOT flag \<rparr>"

definition tile_hasProperty :: "item_types \<Rightarrow> item_store \<Rightarrow> tile \<Rightarrow> item_property \<Rightarrow> bool" where
  "tile_hasProperty types h t p \<longleftrightarrow>
     (case t_ground t of None \<Rightarrow> False | Some g \<Rightarrow> item_hasProperty types p (h g))
     \<or> list_ex (\<lambda>x. item_hasProperty types p (h x)) (t_items t)"

definition tile_hasProperty_without :: "item_types \<Rightarrow> item_store \<Rightarrow> tile \<Rightarrow> nat \<Rightarrow> item_property \<Rightarrow> bool" where
  "tile_hasProperty_without types h t exclude p \<longleftrightarrow>
     (case t_ground t of None \<Rightarrow> False | Some g \<Rightarrow> exclude \<noteq> g \<and> item_hasProperty types p (h g))
     \<or> list_ex (\<lambda>x. x \<noteq> exclude \<and> item_hasProperty types p (h x)) (t_items t)"

fun height_reached :: "item_types \<Rightarrow> item_store \<Rightarrow> u32 \<Rightarrow> nat list \<Rightarrow> u32 \<Rightarrow> bool" where
  "height_reached types h n [] height = False"
| "height_reached types h n (x # xs) height =
     (let height = (if item_hasProperty types CONST_PROP_HASHEIGHT (h x) then height + 1 else height)
      in n = height \<or> height_reached types h n xs height)"

definition hasHeight :: "item_types \<Rightarrow> item_store \<Rightarrow> u32 \<Rightarrow> tile \<Rightarrow> bool" where
  "hasHeight types h n t =
     (case t_ground t of
        None \<Rightarrow> height_reached types h n (t_items t) 0
      | Some g \<Rightarrow>
          (let height = (if item_hasProperty types CONST_PROP_HASHEIGHT (h g) then 1 else 0)
           in n = height \<or> height_reached types h n (t_items t) height))"

subsection \<open>Flags\<close>

definition set_if :: "bool \<Rightarrow> u32 \<Rightarrow> tile \<Rightarrow> tile" where
  "set_if c flag t = (if c then setFlag flag t else t)"

definition reset_if :: "bool \<Rightarrow> u32 \<Rightarrow> tile \<Rightarrow> tile" where
  "reset_if c flag t = (if c then resetFlag flag t else t)"

definition setTileFlags :: "item_types \<Rightarrow> item \<Rightarrow> tile \<Rightarrow> tile" where
  "setTileFlags types i t =
     (let has = \<lambda>p. item_hasProperty types p i;
          fc = it_floorChange (types (i_id i));
          t = set_if (\<not> hasFlag t TILESTATE_FLOORCHANGE \<and> fc \<noteq> 0) (ucast fc) t;
          t = set_if (has CONST_PROP_IMMOVABLEBLOCKSOLID) TILESTATE_IMMOVABLEBLOCKSOLID t;
          t = set_if (has CONST_PROP_BLOCKPATH) TILESTATE_BLOCKPATH t;
          t = set_if (has CONST_PROP_NOFIELDBLOCKPATH) TILESTATE_NOFIELDBLOCKPATH t;
          t = set_if (has CONST_PROP_IMMOVABLENOFIELDBLOCKPATH) TILESTATE_IMMOVABLENOFIELDBLOCKPATH t;
          t = set_if (i_class i = Teleport) TILESTATE_TELEPORT t;
          t = set_if (i_class i = MagicField) TILESTATE_MAGICFIELD t;
          t = set_if (i_class i = Mailbox) TILESTATE_MAILBOX t;
          t = set_if (i_class i = TrashHolder) TILESTATE_TRASHHOLDER t;
          t = set_if (has CONST_PROP_BLOCKSOLID) TILESTATE_BLOCKSOLID t;
          t = set_if (i_class i = BedItem) TILESTATE_BED t;
          t = set_if (i_class i = DepotLocker) TILESTATE_DEPOT t
      in set_if (has CONST_PROP_SUPPORTHANGABLE) TILESTATE_SUPPORTS_HANGABLE t)"

definition resetTileFlags :: "item_types \<Rightarrow> item_store \<Rightarrow> nat \<Rightarrow> tile \<Rightarrow> tile" where
  "resetTileFlags types h x t =
     (let i = h x;
          last = \<lambda>p. item_hasProperty types p i \<and> \<not> tile_hasProperty_without types h t x p;
          t = reset_if (it_floorChange (types (i_id i)) \<noteq> 0) TILESTATE_FLOORCHANGE t;
          t = reset_if (last CONST_PROP_BLOCKSOLID) TILESTATE_BLOCKSOLID t;
          t = reset_if (last CONST_PROP_IMMOVABLEBLOCKSOLID) TILESTATE_IMMOVABLEBLOCKSOLID t;
          t = reset_if (last CONST_PROP_BLOCKPATH) TILESTATE_BLOCKPATH t;
          t = reset_if (last CONST_PROP_NOFIELDBLOCKPATH) TILESTATE_NOFIELDBLOCKPATH t;
          t = reset_if (last CONST_PROP_IMMOVABLEBLOCKPATH) TILESTATE_IMMOVABLEBLOCKPATH t;
          t = reset_if (last CONST_PROP_IMMOVABLENOFIELDBLOCKPATH) TILESTATE_IMMOVABLENOFIELDBLOCKPATH t;
          t = reset_if (i_class i = Teleport) TILESTATE_TELEPORT t;
          t = reset_if (i_class i = MagicField) TILESTATE_MAGICFIELD t;
          t = reset_if (i_class i = Mailbox) TILESTATE_MAILBOX t;
          t = reset_if (i_class i = TrashHolder) TILESTATE_TRASHHOLDER t;
          t = reset_if (i_class i = BedItem) TILESTATE_BED t;
          t = reset_if (i_class i = DepotLocker) TILESTATE_DEPOT t
      in reset_if (item_hasProperty types CONST_PROP_SUPPORTHANGABLE i) TILESTATE_SUPPORTS_HANGABLE t)"

subsection \<open>Indexes\<close>

text \<open>A thing is an item or a creature.\<close>

datatype thing = ThingItem nat | ThingCreature nat

definition isAlwaysOnTop :: "item_types \<Rightarrow> item_store \<Rightarrow> nat \<Rightarrow> bool" where
  "isAlwaysOnTop types h x = it_alwaysOnTop (types (i_id (h x)))"

text \<open>The index counts from the ground over the top items and the creatures to the down items.\<close>

definition tile_getThingIndex :: "item_types \<Rightarrow> item_store \<Rightarrow> thing \<Rightarrow> tile \<Rightarrow> nat option" where
  "tile_getThingIndex types h th t =
     (let n = (if t_ground t = None then 0 else 1) in
      case th of
        ThingItem x \<Rightarrow>
          if t_ground t = Some x then Some 0
          else if isAlwaysOnTop types h x then map_option (\<lambda>k. n + k) (index_of x (topItems t))
          else map_option (\<lambda>k. n + getTopItemCount t + length (t_creatures t) + k) (index_of x (downItems t))
      | ThingCreature c \<Rightarrow> map_option (\<lambda>k. n + getTopItemCount t + k) (index_of c (t_creatures t)))"

definition tile_getThing :: "nat \<Rightarrow> tile \<Rightarrow> thing option" where
  "tile_getThing index t =
     (case t_ground t of
        Some g \<Rightarrow>
          if index = 0 then Some (ThingItem g)
          else
            (let index = index - 1 in
             if index < getTopItemCount t then Some (ThingItem (t_items t ! (unat (t_downItemCount t) + index)))
             else
               (let index = index - getTopItemCount t in
                if index < length (t_creatures t) then Some (ThingCreature (t_creatures t ! index))
                else
                  (let index = index - length (t_creatures t) in
                   if index < unat (t_downItemCount t) then Some (ThingItem (t_items t ! index)) else None)))
      | None \<Rightarrow>
          if index < getTopItemCount t then Some (ThingItem (t_items t ! (unat (t_downItemCount t) + index)))
          else
            (let index = index - getTopItemCount t in
             if index < length (t_creatures t) then Some (ThingCreature (t_creatures t ! index))
             else
               (let index = index - length (t_creatures t) in
                if index < unat (t_downItemCount t) then Some (ThingItem (t_items t ! index)) else None)))"

end
