(* ===== verification/Tile_Ops.thy ===== *)
theory Tile_Ops
  imports Tile_Things
begin

text \<open>
  The operations that change the things on a tile (\<^verbatim>\<open>Tile\<close> in \<^verbatim>\<open>src/src/tile.cpp\<close>) and the change of an item
  that lies on one (\<open>Game::transformItem\<close>, \<^verbatim>\<open>game.cpp\<close>). What the spectators and scripts are told is
  output. The state holds the items by address, the tile, the items handed to \<open>ReleaseItem\<close> and the next
  address of an allocation. \<open>None\<close> is a loop that does not end or an index outside the vectors.
\<close>

subsection \<open>Adding and removing\<close>

record tile_state =
  ts_store :: item_store
  ts_tile :: tile
  ts_released :: "nat list"
  ts_next :: nat
  ts_housed :: "nat \<Rightarrow> bool"

abbreviation item_at :: "tile_state \<Rightarrow> nat \<Rightarrow> item" where
  "item_at s x \<equiv> ts_store s x"

abbreviation type_at :: "item_types \<Rightarrow> tile_state \<Rightarrow> nat \<Rightarrow> item_type" where
  "type_at types s x \<equiv> types (i_id (ts_store s x))"

definition on_item :: "(item \<Rightarrow> item) \<Rightarrow> nat \<Rightarrow> tile_state \<Rightarrow> tile_state" where
  "on_item f x s = s \<lparr> ts_store := (ts_store s)(x := f (ts_store s x)) \<rparr>"

definition on_tile :: "(tile \<Rightarrow> tile) \<Rightarrow> tile_state \<Rightarrow> tile_state" where
  "on_tile f s = s \<lparr> ts_tile := f (ts_tile s) \<rparr>"

definition set_parent :: "parent \<Rightarrow> nat \<Rightarrow> tile_state \<Rightarrow> tile_state" where
  "set_parent p = on_item (\<lambda>i. i \<lparr> i_parent := p \<rparr>)"

definition release :: "nat \<Rightarrow> tile_state \<Rightarrow> tile_state" where
  "release x s = s \<lparr> ts_released := ts_released s @ [x] \<rparr>"

definition flags_for :: "item_types \<Rightarrow> nat \<Rightarrow> tile_state \<Rightarrow> tile_state" where
  "flags_for types x s = on_tile (setTileFlags types (ts_store s x)) s"

definition flags_without :: "item_types \<Rightarrow> nat \<Rightarrow> tile_state \<Rightarrow> tile_state" where
  "flags_without types x s = on_tile (resetTileFlags types (ts_store s) x) s"

text \<open>The vector with other down or top items; the count follows with the 16 bit arithmetic of
  \<open>addDownItemCount\<close>.\<close>

definition with_top :: "nat list \<Rightarrow> tile \<Rightarrow> tile" where
  "with_top xs t = t \<lparr> t_items := downItems t @ xs \<rparr>"

definition with_down :: "nat list \<Rightarrow> u16 \<Rightarrow> tile \<Rightarrow> tile" where
  "with_down xs increment t =
     t \<lparr> t_items := xs @ topItems t, t_downItemCount := t_downItemCount t + increment \<rparr>"

definition tile_removeItem :: "item_types \<Rightarrow> nat \<Rightarrow> u32 \<Rightarrow> tile_state \<Rightarrow> tile_state" where
  "tile_removeItem types x n s =
     (let t = ts_tile s; i = ts_store s x in
      case tile_getThingIndex types (ts_store s) (ThingItem x) t of
        None \<Rightarrow> s
      | Some _ \<Rightarrow>
          if t_ground t = Some x then
            flags_without types x (on_tile (\<lambda>t. t \<lparr> t_ground := None \<rparr>) (set_parent NoParent x s))
          else if isAlwaysOnTop types (ts_store s) x then
            if x \<notin> set (topItems t) then s
            else flags_without types x (on_tile (with_top (remove1 x (topItems t))) (set_parent NoParent x s))
          else if x \<notin> set (downItems t) then s
          else if it_stackable (types (i_id i)) \<and> n \<noteq> ucast (i_count i) then
            (let newCount = of_int (max 0 (sint (ucast (i_count i) - n :: u32)))
             in on_item (\<lambda>i. i \<lparr> i_count := newCount \<rparr>) x s)
          else flags_without types x
                 (on_tile (with_down (remove1 x (downItems t)) (- 1)) (set_parent NoParent x s)))"

text \<open>An item that takes the place of another: the old one is removed and given to \<open>ReleaseItem\<close>.\<close>

definition discard :: "item_types \<Rightarrow> nat \<Rightarrow> tile_state \<Rightarrow> tile_state" where
  "discard types x s = release x (set_parent NoParent x (tile_removeItem types x 1 s))"

fun insert_where :: "('a \<Rightarrow> bool) \<Rightarrow> 'a \<Rightarrow> 'a list \<Rightarrow> 'a list" where
  "insert_where P x [] = [x]"
| "insert_where P x (y # ys) = (if P y then x # y # ys else y # insert_where P x ys)"

text \<open>The loop over the fields starts again after each removal; what it has passed before holds no
  field. The flag tells whether the new field may be placed.\<close>

partial_function (option) replace_fields :: "item_types \<Rightarrow> tile_state \<Rightarrow> (tile_state \<times> bool) option" where
  "replace_fields types s =
     (case find (\<lambda>y. i_class (ts_store s y) = MagicField) (downItems (ts_tile s)) of
        None \<Rightarrow> Some (s, True)
      | Some y \<Rightarrow>
          if it_replaceable (types (i_id (ts_store s y))) then replace_fields types (discard types y s)
          else Some (s, False))"

declare replace_fields.simps [code]

definition tile_addItem :: "item_types \<Rightarrow> nat \<Rightarrow> tile_state \<Rightarrow> tile_state option" where
  "tile_addItem types x s =
     (if 0xFFFF \<le> length (t_items (ts_tile s)) then Some s
      else
        (let s = set_parent OnTile x s; it = type_at types s x in
         if isGroundTile it then
           (case t_ground (ts_tile s) of
              None \<Rightarrow> Some (flags_for types x (on_tile (\<lambda>t. t \<lparr> t_ground := Some x \<rparr>) s))
            | Some g \<Rightarrow>
                Some (flags_for types x (flags_without types g
                  (on_tile (\<lambda>t. t \<lparr> t_ground := Some x \<rparr>) (release g (set_parent NoParent g s))))))
         else if it_alwaysOnTop it then
           (let s = (if isSplash it
                     then (case find (\<lambda>y. isSplash (type_at types s y)) (topItems (ts_tile s)) of
                             None \<Rightarrow> s
                           | Some y \<Rightarrow> discard types y s)
                     else s);
                before = (\<lambda>y. it_alwaysOnTopOrder it \<le> it_alwaysOnTopOrder (type_at types s y))
            in Some (flags_for types x
                 (on_tile (with_top (insert_where before x (topItems (ts_tile s)))) s)))
         else
           (case (if isMagicField it then replace_fields types s else Some (s, True)) of
              None \<Rightarrow> None
            | Some (s, False) \<Rightarrow> Some (release x (set_parent NoParent x s))
            | Some (s, True) \<Rightarrow>
                Some (flags_for types x (on_tile (with_down (x # downItems (ts_tile s)) 1) s)))))"

definition tile_internalAddItem :: "item_types \<Rightarrow> nat \<Rightarrow> tile_state \<Rightarrow> tile_state" where
  "tile_internalAddItem types x s =
     (let s = set_parent OnTile x s; it = type_at types s x; t = ts_tile s in
      if isGroundTile it then
        (if t_ground t = None then flags_for types x (on_tile (\<lambda>t. t \<lparr> t_ground := Some x \<rparr>) s) else s)
      else if 0xFFFF \<le> length (t_items t) then s
      else flags_for types x
        (if it_alwaysOnTop it then
           on_tile (with_top (insert_where
             (\<lambda>y. it_alwaysOnTopOrder it < it_alwaysOnTopOrder (type_at types s y)) x (topItems t))) s
         else on_tile (with_down (x # downItems t) 1) s))"

definition tile_addCreature :: "nat \<Rightarrow> tile_state \<Rightarrow> tile_state" where
  "tile_addCreature c = on_tile (\<lambda>t. t \<lparr> t_creatures := t_creatures t @ [c] \<rparr>)"

definition tile_removeCreature :: "nat \<Rightarrow> tile_state \<Rightarrow> tile_state" where
  "tile_removeCreature c = on_tile (\<lambda>t. t \<lparr> t_creatures := remove1 c (t_creatures t) \<rparr>)"

subsection \<open>Changing and replacing\<close>

definition tile_updateItem :: "item_types \<Rightarrow> nat \<Rightarrow> u16 \<Rightarrow> u32 \<Rightarrow> tile_state \<Rightarrow> tile_state" where
  "tile_updateItem types x itemId n s =
     (case tile_getThingIndex types (ts_store s) (ThingItem x) (ts_tile s) of
        None \<Rightarrow> s
      | Some _ \<Rightarrow>
          flags_for types x
            (on_item (\<lambda>i. setSubType types (ucast n) (item_setID types itemId i)) x (flags_without types x s)))"

text \<open>The end of \<open>replaceThing\<close>, where the new item \<open>x\<close> has taken the place of \<open>y\<close>.\<close>

definition replaced :: "item_types \<Rightarrow> nat \<Rightarrow> nat \<Rightarrow> tile_state \<Rightarrow> tile_state" where
  "replaced types y x s =
     set_parent NoParent y (flags_for types x (flags_without types y (set_parent OnTile x s)))"

text \<open>The position is signed in the source; an index that is not a position of an \<^verbatim>\<open>int32_t\<close> would
  be an access in front of the vector.\<close>

definition tile_replaceItem :: "item_types \<Rightarrow> nat \<Rightarrow> nat \<Rightarrow> tile_state \<Rightarrow> tile_state option" where
  "tile_replaceItem types index x s =
     (if 2 ^ 31 \<le> index then None
      else
        (let t = ts_tile s in
         case (t_ground t, index) of
           (Some g, 0) \<Rightarrow> Some (replaced types g x (on_tile (\<lambda>t. t \<lparr> t_ground := Some x \<rparr>) s))
         | _ \<Rightarrow>
           (let pos = (if t_ground t = None then index else index - 1) in
            if pos < length (topItems t) then
              Some (replaced types (topItems t ! pos) x (on_tile (with_top ((topItems t)[pos := x])) s))
            else
              (let pos = pos - length (topItems t) in
               if pos < length (t_creatures t) then Some s
               else
                 (let pos = pos - length (t_creatures t) in
                  if pos < length (downItems t) then
                    Some (replaced types (downItems t ! pos) x (on_tile (with_down ((downItems t)[pos := x]) 0) s))
                  else Some s)))))"

definition tile_queryRemove :: "item_types \<Rightarrow> nat \<Rightarrow> u32 \<Rightarrow> bool \<Rightarrow> tile_state \<Rightarrow> return_value" where
  "tile_queryRemove types x n ignoreNotMoveable s =
     (if tile_getThingIndex types (ts_store s) (ThingItem x) (ts_tile s) = None then RETURNVALUE_NOTPOSSIBLE
      else
        (let i = item_at s x; it = type_at types s x in
         if n = 0 \<or> it_stackable it \<and> ucast (i_count i) < n then RETURNVALUE_NOTPOSSIBLE
         else if \<not> it_moveable it \<and> \<not> ignoreNotMoveable
         then RETURNVALUE_NOTMOVEABLE
         else RETURNVALUE_NOERROR))"

text \<open>\<open>Item::canRemove\<close> and \<open>canTransform\<close> with their overrides; \<open>ts_housed\<close> tells which beds belong to a
  house.\<close>

definition item_canRemove :: "bool \<Rightarrow> item \<Rightarrow> bool" where
  "item_canRemove housed i =
     (case i_class i of
        DepotLocker \<Rightarrow> False | DepotChest \<Rightarrow> False | RewardChest \<Rightarrow> False | Reward \<Rightarrow> False
      | BedItem \<Rightarrow> \<not> housed
      | _ \<Rightarrow> (case i_container i of None \<Rightarrow> True | Some c \<Rightarrow> \<not> c_inbox c))"

definition item_canTransform :: "item \<Rightarrow> bool" where
  "item_canTransform i \<longleftrightarrow> i_class i \<noteq> HouseTransferItem"

text \<open>\<open>Game::internalRemoveItem\<close> for an item on the tile.\<close>

definition tile_internalRemoveItem :: "item_types \<Rightarrow> nat \<Rightarrow> u32 \<Rightarrow> tile_state \<Rightarrow> tile_state \<times> return_value" where
  "tile_internalRemoveItem types x n s =
     (if i_parent (item_at s x) = NoParent then (s, RETURNVALUE_NOTPOSSIBLE)
      else case tile_queryRemove types x n True s of
        RETURNVALUE_NOERROR \<Rightarrow>
          if \<not> item_canRemove (ts_housed s x) (item_at s x) then (s, RETURNVALUE_NOTPOSSIBLE)
          else
            (let s = tile_removeItem types x n s
             in (if i_parent (item_at s x) = NoParent then release x s else s, RETURNVALUE_NOERROR))
      | ret \<Rightarrow> (s, ret))"


subsection \<open>Transforming\<close>

definition hasSubType :: "item_type \<Rightarrow> bool" where
  "hasSubType it \<longleftrightarrow> isFluidContainer it \<or> isSplash it \<or> it_stackable it \<or> it_charges it \<noteq> 0"

text \<open>A new item in the place of \<open>x\<close>; the result is its address.\<close>

definition tile_swap ::
    "item_types \<Rightarrow> nat \<Rightarrow> u16 \<Rightarrow> u16 \<Rightarrow> nat \<Rightarrow> tile_state \<Rightarrow> (tile_state \<times> nat option) option" where
  "tile_swap types index type n x s =
     (case createItem types type n of
        None \<Rightarrow> Some (s, None)
      | Some j \<Rightarrow>
          (let y = ts_next s in
           case tile_replaceItem types index y
                  (s \<lparr> ts_store := (ts_store s)(y := j), ts_next := Suc y \<rparr>) of
             None \<Rightarrow> None
           | Some s \<Rightarrow> Some (release x (set_parent NoParent x s), Some y)))"

text \<open>The branch for a change between a down item and a top item.\<close>

definition tile_move_side ::
    "item_types \<Rightarrow> nat \<Rightarrow> u16 \<Rightarrow> int \<Rightarrow> tile_state \<Rightarrow> (tile_state \<times> nat option) option" where
  "tile_move_side types x newId newCount s =
     (let s = tile_removeItem types x (ucast (i_count (item_at s x))) s;
          s = on_item (item_setID types newId) x s;
          s = (if newCount \<noteq> -1 then on_item (setSubType types (word_of_int newCount)) x s else s)
      in case tile_addItem types x s of
           None \<Rightarrow> None
         | Some s \<Rightarrow>
             if i_parent (item_at s x) = NoParent then Some (release x s, None) else Some (s, Some x))"

text \<open>The branch that keeps the object.\<close>

definition tile_retype :: "item_types \<Rightarrow> nat \<Rightarrow> u16 \<Rightarrow> int \<Rightarrow> tile_state \<Rightarrow> tile_state" where
  "tile_retype types x newId newCount s =
     (let curType = type_at types s x; newType = types newId;
          n = int (unat (getSubType types (item_at s x)));
          itemId = (if it_id curType \<noteq> it_id newType then newId else i_id (item_at s x));
          n = (if newCount \<noteq> -1 \<and> hasSubType newType then newCount else n)
      in tile_updateItem types x itemId (word_of_int n)
           (if it_id curType \<noteq> it_id newType \<and> it_group newType \<noteq> it_group curType
            then on_item (setDefaultSubtype types) x s else s))"

function tile_transformItem ::
    "item_types \<Rightarrow> nat \<Rightarrow> u16 \<Rightarrow> int \<Rightarrow> tile_state \<Rightarrow> (tile_state \<times> nat option) option" where
  "tile_transformItem types x newId newCount s =
     (let i = item_at s x; curType = type_at types s x; newType = types newId in
      if i_id i = newId
         \<and> (newCount = -1 \<or> newCount = int (unat (getSubType types i)) \<and> newCount \<noteq> 0) then Some (s, Some x)
      else if i_parent i = NoParent then Some (s, None)
      else case tile_getThingIndex types (ts_store s) (ThingItem x) (ts_tile s) of
        None \<Rightarrow> Some (s, Some x)
      | Some index \<Rightarrow>
          if \<not> item_canTransform i then Some (s, Some x)
          else if it_id newType = 0 then Some (s, Some x)
          else if it_alwaysOnTop curType \<noteq> it_alwaysOnTop newType then tile_move_side types x newId newCount s
          else if it_type curType = it_type newType then
            if newCount = 0 \<and> (it_stackable curType \<or> item_has ITEM_ATTRIBUTE_CHARGES i) then
              if it_stackable curType then
                Some (fst (tile_internalRemoveItem types x (ucast (i_count i)) s), None)
              else
                (let newItemId = (if it_id curType = it_id newType then sint (it_decayTo curType)
                                  else int (unat newId)) in
                 if newItemId < 0 then Some (fst (tile_internalRemoveItem types x (ucast (i_count i)) s), None)
                 else if newItemId \<noteq> int (unat newId) then tile_swap types index (word_of_int newItemId) 1 x s
                 else tile_transformItem types x (word_of_int newItemId) (-1) s)
            else Some (tile_retype types x newId newCount s, Some x)
          else tile_swap types index newId (if newCount = -1 then 0 else word_of_int newCount) x s)"
  by pat_completeness auto

termination tile_transformItem
  by (relation "measure (\<lambda>(types, x, newId, newCount, s). if newCount = 0 then 1 else 0)") auto

declare tile_transformItem.simps [simp del]

end
