(* ===== verification/Tile_Invariant.thy ===== *)
theory Tile_Invariant
  imports Tile_Ops
begin

text \<open>
  The invariants of a tile: the vector is split into down items and top items, nothing lies on it twice, the top
  items are in the order of \<open>alwaysOnTopOrder\<close>, and the flags for blocking say what the items say. Each operation
  is shown to keep them.
\<close>

subsection \<open>Splitting the vector\<close>

lemma items_split: "t_items t = downItems t @ topItems t"
  by (simp add: downItems_def topItems_def)

lemma with_down_parts:
  assumes "length xs = unat (t_downItemCount t + k)"
  shows "downItems (with_down xs k t) = xs" "topItems (with_down xs k t) = topItems t"
  using assms by (simp_all add: with_down_def downItems_def topItems_def)

lemma with_top_parts:
  assumes "unat (t_downItemCount t) \<le> length (t_items t)"
  shows "downItems (with_top xs t) = downItems t" "topItems (with_top xs t) = xs"
  using assms by (simp_all add: with_top_def downItems_def topItems_def min_def)

lemma with_parts [simp]:
  "t_ground (with_down xs k t) = t_ground t" "t_creatures (with_down xs k t) = t_creatures t"
  "t_flags (with_down xs k t) = t_flags t" "t_items (with_down xs k t) = xs @ topItems t"
  "t_downItemCount (with_down xs k t) = t_downItemCount t + k"
  "t_ground (with_top xs t) = t_ground t" "t_creatures (with_top xs t) = t_creatures t"
  "t_flags (with_top xs t) = t_flags t" "t_items (with_top xs t) = downItems t @ xs"
  "t_downItemCount (with_top xs t) = t_downItemCount t"
  by (simp_all add: with_down_def with_top_def)

lemma length_downItems: "unat (t_downItemCount t) \<le> length (t_items t) \<Longrightarrow> length (downItems t) = unat (t_downItemCount t)"
  by (simp add: downItems_def)

lemma length_topItems: "length (topItems t) = getTopItemCount t"
  by (simp add: topItems_def getTopItemCount_def)

lemma parts_update [simp]:
  "downItems (t \<lparr> t_ground := g \<rparr>) = downItems t" "topItems (t \<lparr> t_ground := g \<rparr>) = topItems t"
  "downItems (t \<lparr> t_creatures := cs \<rparr>) = downItems t" "topItems (t \<lparr> t_creatures := cs \<rparr>) = topItems t"
  "downItems (t \<lparr> t_flags := f \<rparr>) = downItems t" "topItems (t \<lparr> t_flags := f \<rparr>) = topItems t"
  by (simp_all add: downItems_def topItems_def)

lemma set_insert_where [simp]: "set (insert_where P x xs) = insert x (set xs)"
  by (induction xs) auto

lemma length_insert_where [simp]: "length (insert_where P x xs) = Suc (length xs)"
  by (induction xs) auto

lemma distinct_insert_where [simp]: "distinct (insert_where P x xs) \<longleftrightarrow> x \<notin> set xs \<and> distinct xs"
  by (induction xs) auto

text \<open>Both places at which a top item is inserted keep the order.\<close>

lemma insert_where_sorted:
  fixes f :: "'a \<Rightarrow> 'b :: linorder"
  assumes "sorted (map f xs)" and "\<And>y. f x < f y \<Longrightarrow> P y" "\<And>y. P y \<Longrightarrow> f x \<le> f y"
  shows "sorted (map f (insert_where P x xs))"
  using assms(1)
proof (induction xs)
  case Nil
  then show ?case by simp
next
  case (Cons y ys)
  show ?case
  proof (cases "P y")
    case True
    then have "f x \<le> f y" by (rule assms(3))
    with Cons.prems True show ?thesis by auto
  next
    case False
    then have "f y \<le> f x" using assms(2) [of y] by (meson not_le)
    with Cons False show ?thesis by auto
  qed
qed

subsection \<open>Flags\<close>

text \<open>The properties with a flag that says whether some item has it, by the number of its bit.\<close>

definition tracked_flags :: "(item_property \<times> nat) list" where
  "tracked_flags = [(CONST_PROP_BLOCKSOLID, 17), (CONST_PROP_BLOCKPATH, 18), (CONST_PROP_IMMOVABLEBLOCKSOLID, 19),
     (CONST_PROP_IMMOVABLENOFIELDBLOCKPATH, 21), (CONST_PROP_NOFIELDBLOCKPATH, 22)]"

text \<open>The other flags that items bring along: floor changes, teleports, fields, mailboxes, trash holders, beds,
  depots, hooks, and what blocks paths for good. The code clears them with any such item, even if another one stays
  (and never sets the last one), so they only tell that there is such an item when they are set. The four flags
  that are left mark zones; items do not touch them.\<close>

definition marker_bits :: "nat list" where
  "marker_bits = [0, 1, 2, 3, 4, 5, 6, 11, 12, 13, 14, 15, 16, 20, 23]"

definition marker :: "nat \<Rightarrow> item_types \<Rightarrow> item \<Rightarrow> bool" where
  "marker n types i =
     (if n < 7 then bit (it_floorChange (types (i_id i))) n
      else if n = 11 then i_class i = Teleport
      else if n = 12 then i_class i = MagicField
      else if n = 13 then i_class i = Mailbox
      else if n = 14 then i_class i = TrashHolder
      else if n = 15 then i_class i = BedItem
      else if n = 16 then i_class i = DepotLocker
      else if n = 20 then item_hasProperty types CONST_PROP_IMMOVABLEBLOCKPATH i
      else n = 23 \<and> item_hasProperty types CONST_PROP_SUPPORTHANGABLE i)"

definition tile_marked :: "item_types \<Rightarrow> item_store \<Rightarrow> tile \<Rightarrow> nat \<Rightarrow> bool" where
  "tile_marked types h t n \<longleftrightarrow>
     (case t_ground t of None \<Rightarrow> False | Some g \<Rightarrow> marker n types (h g)) \<or> list_ex (\<lambda>x. marker n types (h x)) (t_items t)"

definition tile_flags_ok :: "item_types \<Rightarrow> item_store \<Rightarrow> tile \<Rightarrow> bool" where
  "tile_flags_ok types h t \<longleftrightarrow>
     list_all (\<lambda>(p, n). bit (t_flags t) n = tile_hasProperty types h t p) tracked_flags
     \<and> list_all (\<lambda>n. bit (t_flags t) n \<longrightarrow> tile_marked types h t n) marker_bits"

lemma tracked_cases:
  assumes "(p, n) \<in> set tracked_flags"
  obtains "p = CONST_PROP_BLOCKSOLID" "n = 17" | "p = CONST_PROP_BLOCKPATH" "n = 18"
    | "p = CONST_PROP_IMMOVABLEBLOCKSOLID" "n = 19" | "p = CONST_PROP_IMMOVABLENOFIELDBLOCKPATH" "n = 21"
    | "p = CONST_PROP_NOFIELDBLOCKPATH" "n = 22"
  using assms by (auto simp: tracked_flags_def)

lemma bit_set_if: "bit (t_flags (set_if c f t)) n \<longleftrightarrow> bit (t_flags t) n \<or> c \<and> bit f n"
  by (auto simp: set_if_def setFlag_def bit_simps)

lemma bit_reset_if: "n < 32 \<Longrightarrow> bit (t_flags (reset_if c f t)) n \<longleftrightarrow> bit (t_flags t) n \<and> \<not> (c \<and> bit f n)"
  by (auto simp: reset_if_def resetFlag_def bit_simps)

lemma bit_power_flag: "n < 32 \<Longrightarrow> bit (push_bit k 1 :: u32) n \<longleftrightarrow> n = k"
  by (auto simp: bit_simps)

lemma bit_floor_flag: "8 \<le> n \<Longrightarrow> \<not> bit (ucast (fc :: u8) :: u32) n"
  using bit_imp_le_length [of fc n] by (auto simp: bit_simps)

lemma floorchange_mask: "TILESTATE_FLOORCHANGE = mask 7"
  by (simp add: TILESTATE_FLOORCHANGE_def tilestate_defs mask_eq_decr_exp)

lemma bit_floorchange: "8 \<le> n \<Longrightarrow> \<not> bit TILESTATE_FLOORCHANGE n"
  unfolding floorchange_mask bit_mask_iff by simp

lemma flags_part [simp]:
  "t_ground (set_if c f t) = t_ground t" "t_items (set_if c f t) = t_items t"
  "t_creatures (set_if c f t) = t_creatures t" "t_downItemCount (set_if c f t) = t_downItemCount t"
  "t_ground (reset_if c f t) = t_ground t" "t_items (reset_if c f t) = t_items t"
  "t_creatures (reset_if c f t) = t_creatures t" "t_downItemCount (reset_if c f t) = t_downItemCount t"
  by (simp_all add: set_if_def reset_if_def setFlag_def resetFlag_def)

lemma setTileFlags_part [simp]:
  "t_ground (setTileFlags types i t) = t_ground t" "t_items (setTileFlags types i t) = t_items t"
  "t_creatures (setTileFlags types i t) = t_creatures t"
  "t_downItemCount (setTileFlags types i t) = t_downItemCount t"
  by (simp_all add: setTileFlags_def Let_def)

lemma resetTileFlags_part [simp]:
  "t_ground (resetTileFlags types h x t) = t_ground t" "t_items (resetTileFlags types h x t) = t_items t"
  "t_creatures (resetTileFlags types h x t) = t_creatures t"
  "t_downItemCount (resetTileFlags types h x t) = t_downItemCount t"
  by (simp_all add: resetTileFlags_def Let_def)

lemma without_reset_if [simp]:
  "tile_hasProperty_without types h (reset_if c f t) x p = tile_hasProperty_without types h t x p"
  by (simp add: tile_hasProperty_without_def)

lemma set_tracked:
  assumes "(p, n) \<in> set tracked_flags"
  shows "bit (t_flags (setTileFlags types i t)) n \<longleftrightarrow> bit (t_flags t) n \<or> item_hasProperty types p i"
  using assms
  by (cases rule: tracked_cases)
    (auto simp: setTileFlags_def Let_def bit_set_if bit_power_flag bit_floor_flag tilestate_defs simp del: push_bit_of_1)

lemma reset_tracked:
  assumes "(p, n) \<in> set tracked_flags"
  shows "bit (t_flags (resetTileFlags types h x t)) n \<longleftrightarrow>
     bit (t_flags t) n \<and> \<not> (item_hasProperty types p (h x) \<and> \<not> tile_hasProperty_without types h t x p)"
  using assms
  by (cases rule: tracked_cases)
    (simp_all add: resetTileFlags_def Let_def bit_reset_if bit_power_flag bit_floorchange tilestate_defs del: push_bit_of_1)


lemma marker_cases:
  assumes "n \<in> set marker_bits"
  obtains "n < 7" | "n = 11" | "n = 12" | "n = 13" | "n = 14" | "n = 15" | "n = 16" | "n = 20" | "n = 23"
  using assms by (auto simp: marker_bits_def)

lemma bit_floor_low: "n < 7 \<Longrightarrow> bit (ucast (fc :: u8) :: u32) n \<longleftrightarrow> bit fc n"
  by (simp add: bit_simps)

lemma set_marker:
  assumes "n \<in> set marker_bits" "bit (t_flags (setTileFlags types i t)) n"
  shows "bit (t_flags t) n \<or> marker n types i"
  using assms(1)
proof (cases rule: marker_cases)
  case 1
  then show ?thesis using assms(2)
    by (auto simp: setTileFlags_def Let_def bit_set_if bit_power_flag bit_floor_low marker_def tilestate_defs
        simp del: push_bit_of_1)
qed (use assms(2) in \<open>auto simp: setTileFlags_def Let_def bit_set_if bit_power_flag bit_floor_flag marker_def tilestate_defs
        simp del: push_bit_of_1\<close>)

text \<open>The items on the tile as a set, and flags that tell the properties of a set of items.\<close>

definition lying_on :: "tile \<Rightarrow> nat set" where
  "lying_on t = set_option (t_ground t) \<union> set (t_items t)"

definition bits_are :: "item_types \<Rightarrow> item_store \<Rightarrow> u32 \<Rightarrow> nat set \<Rightarrow> bool" where
  "bits_are types h f A \<longleftrightarrow>
     (\<forall>(p, n) \<in> set tracked_flags. bit f n \<longleftrightarrow> (\<exists>x\<in>A. item_hasProperty types p (h x)))
     \<and> (\<forall>n \<in> set marker_bits. bit f n \<longrightarrow> (\<exists>x\<in>A. marker n types (h x)))"

lemma tile_hasProperty_iff: "tile_hasProperty types h t p \<longleftrightarrow> (\<exists>x\<in>lying_on t. item_hasProperty types p (h x))"
  by (cases "t_ground t") (auto simp: tile_hasProperty_def lying_on_def list_ex_iff)

lemma tile_hasProperty_without_iff:
  "tile_hasProperty_without types h t y p \<longleftrightarrow> (\<exists>x\<in>lying_on t - {y}. item_hasProperty types p (h x))"
  by (cases "t_ground t") (auto simp: tile_hasProperty_without_def lying_on_def list_ex_iff)

lemma tile_marked_iff: "tile_marked types h t n \<longleftrightarrow> (\<exists>x\<in>lying_on t. marker n types (h x))"
  by (cases "t_ground t") (auto simp: tile_marked_def lying_on_def list_ex_iff)

lemma flags_ok_iff: "tile_flags_ok types h t \<longleftrightarrow> bits_are types h (t_flags t) (lying_on t)"
  by (simp add: tile_flags_ok_def bits_are_def list_all_iff tile_hasProperty_iff tile_marked_iff)

lemma bits_areD:
  assumes "bits_are types h f A"
  shows "(p, n) \<in> set tracked_flags \<Longrightarrow> bit f n \<longleftrightarrow> (\<exists>x\<in>A. item_hasProperty types p (h x))"
    and "n \<in> set marker_bits \<Longrightarrow> bit f n \<Longrightarrow> \<exists>x\<in>A. marker n types (h x)"
  using assms by (auto simp: bits_are_def)

lemma bits_areI:
  assumes "\<And>p n. (p, n) \<in> set tracked_flags \<Longrightarrow> bit f n \<longleftrightarrow> (\<exists>x\<in>A. item_hasProperty types p (h x))"
    and "\<And>n. n \<in> set marker_bits \<Longrightarrow> bit f n \<Longrightarrow> \<exists>x\<in>A. marker n types (h x)"
  shows "bits_are types h f A"
  using assms by (auto simp: bits_are_def)

lemma reset_marker:
  assumes "n \<in> set marker_bits" "bit (t_flags (resetTileFlags types h y t)) n"
  shows "bit (t_flags t) n \<and> (marker n types (h y) \<longrightarrow> (\<exists>x\<in>lying_on t - {y}. marker n types (h x)))"
  using assms(1)
proof (cases rule: marker_cases)
  case 1
  then have "bit TILESTATE_FLOORCHANGE n" by (simp add: floorchange_mask bit_mask_iff)
  then show ?thesis using assms(2) 1
    by (auto simp: resetTileFlags_def Let_def bit_reset_if marker_def)
next
  case 8
  then show ?thesis using assms(2)
    by (auto simp: resetTileFlags_def Let_def bit_reset_if bit_power_flag bit_floorchange marker_def
        tile_hasProperty_without_iff tilestate_defs simp del: push_bit_of_1)
qed (use assms(2) in \<open>simp add: resetTileFlags_def Let_def bit_reset_if bit_power_flag bit_floorchange marker_def
        tilestate_defs del: push_bit_of_1\<close>)+

lemma bits_set:
  assumes "bits_are types h (t_flags t) A"
  shows "bits_are types h (t_flags (setTileFlags types (h x) t)) (insert x A)"
proof (rule bits_areI)
  show "bit (t_flags (setTileFlags types (h x) t)) n \<longleftrightarrow> (\<exists>y\<in>insert x A. item_hasProperty types p (h y))"
    if "(p, n) \<in> set tracked_flags" for p n
    using bits_areD(1) [OF assms that] set_tracked [OF that] by auto
  show "\<exists>y\<in>insert x A. marker n types (h y)"
    if "n \<in> set marker_bits" "bit (t_flags (setTileFlags types (h x) t)) n" for n
    using bits_areD(2) [OF assms that(1)] set_marker [OF that] by auto
qed

lemma bits_reset:
  assumes "bits_are types h (t_flags t) A" "A - {y} = lying_on t - {y}"
  shows "bits_are types h (t_flags (resetTileFlags types h y t)) (A - {y})"
proof (rule bits_areI)
  show "bit (t_flags (resetTileFlags types h y t)) n \<longleftrightarrow> (\<exists>x\<in>A - {y}. item_hasProperty types p (h x))"
    if p: "(p, n) \<in> set tracked_flags" for p n
    unfolding reset_tracked [OF p] tile_hasProperty_without_iff bits_areD(1) [OF assms(1) p] using assms(2) by blast
  show "\<exists>x\<in>A - {y}. marker n types (h x)"
    if n: "n \<in> set marker_bits" "bit (t_flags (resetTileFlags types h y t)) n" for n
    using bits_areD(2) [OF assms(1) n(1)] reset_marker [OF n] assms(2) by blast
qed

lemma bits_replace:
  assumes "bits_are types h (t_flags t) A" "lying_on t = insert x (A - {y})" "x \<noteq> y"
  shows "bits_are types h (t_flags (setTileFlags types (h x) (resetTileFlags types h y t))) (insert x (A - {y}))"
proof (rule bits_areI)
  show "bit (t_flags (setTileFlags types (h x) (resetTileFlags types h y t))) n
      \<longleftrightarrow> (\<exists>z\<in>insert x (A - {y}). item_hasProperty types p (h z))"
    if p: "(p, n) \<in> set tracked_flags" for p n
    unfolding set_tracked [OF p] reset_tracked [OF p] tile_hasProperty_without_iff bits_areD(1) [OF assms(1) p]
    using assms(2,3) by blast
  show "\<exists>z\<in>insert x (A - {y}). marker n types (h z)"
    if n: "n \<in> set marker_bits" "bit (t_flags (setTileFlags types (h x) (resetTileFlags types h y t))) n" for n
    using set_marker [OF n] reset_marker [OF n(1)] bits_areD(2) [OF assms(1) n(1)] assms(2) by blast
qed

text \<open>Only the type, the class and the unique number of an item matter.\<close>

lemma hasProperty_cong:
  "i_id i = i_id j \<Longrightarrow> i_attributes i = i_attributes j \<Longrightarrow> item_hasProperty types p i = item_hasProperty types p j"
  by (cases p) (simp_all add: item_has_def)

lemma bits_cong:
  assumes "bits_are types h f A"
    and "\<And>x. x \<in> A \<Longrightarrow> i_id (k x) = i_id (h x) \<and> i_attributes (k x) = i_attributes (h x) \<and> i_class (k x) = i_class (h x)"
  shows "bits_are types k f A"
proof -
  have same: "item_hasProperty types p (k x) = item_hasProperty types p (h x)" if "x \<in> A" for p x
    using assms(2) [OF that] by (intro hasProperty_cong) auto
  then have "marker n types (k x) = marker n types (h x)" if "x \<in> A" for n x
    using assms(2) [OF that] that by (simp add: marker_def del: item_hasProperty.simps)
  with same show ?thesis using assms(1) by (simp add: bits_are_def)
qed

subsection \<open>The invariant\<close>

definition tile_shape :: "item_types \<Rightarrow> item_store \<Rightarrow> tile \<Rightarrow> bool" where
  "tile_shape types h t \<longleftrightarrow>
     unat (t_downItemCount t) \<le> length (t_items t) \<and> length (t_items t) \<le> 0xFFFF
     \<and> distinct (t_items t) \<and> distinct (t_creatures t) \<and> list_all (\<lambda>x. t_ground t \<noteq> Some x) (t_items t)
     \<and> list_all (\<lambda>x. \<not> isAlwaysOnTop types h x) (downItems t) \<and> list_all (isAlwaysOnTop types h) (topItems t)"

definition top_order :: "item_types \<Rightarrow> item_store \<Rightarrow> nat \<Rightarrow> u8" where
  "top_order types h x = it_alwaysOnTopOrder (types (i_id (h x)))"

definition tile_sorted :: "item_types \<Rightarrow> tile_state \<Rightarrow> bool" where
  "tile_sorted types s \<longleftrightarrow> sorted (map (top_order types (ts_store s)) (topItems (ts_tile s)))"

definition tile_ok :: "item_types \<Rightarrow> tile_state \<Rightarrow> bool" where
  "tile_ok types s \<longleftrightarrow>
     tile_shape types (ts_store s) (ts_tile s) \<and> tile_flags_ok types (ts_store s) (ts_tile s)
     \<and> (\<forall>x\<in>lying_on (ts_tile s). i_parent (ts_store s x) = OnTile \<and> x < ts_next s)"

lemma tile_shape_parts:
  assumes "tile_shape types h t"
  shows "unat (t_downItemCount t) \<le> length (t_items t)" "length (downItems t) = unat (t_downItemCount t)"
    "length (t_items t) = length (downItems t) + length (topItems t)"
    "distinct (downItems t)" "distinct (topItems t)" "set (downItems t) \<inter> set (topItems t) = {}"
    "t_ground t = Some g \<Longrightarrow> g \<notin> set (t_items t)"
    "set (t_items t) = set (downItems t) \<union> set (topItems t)"
    "x \<in> set (downItems t) \<Longrightarrow> \<not> isAlwaysOnTop types h x"
    "x \<in> set (topItems t) \<Longrightarrow> isAlwaysOnTop types h x"
  using assms distinct_append [of "downItems t" "topItems t"]
  by (auto simp: tile_shape_def list_all_iff items_split [symmetric] length_downItems length_topItems getTopItemCount_def
      set_append [of "downItems t" "topItems t", symmetric] simp del: set_append)

text \<open>A tile is put together from its parts.\<close>

lemma tile_shapeI:
  assumes "t_items t = ds @ ts" "unat (t_downItemCount t) = length ds" "length ds + length ts \<le> 0xFFFF"
    and "distinct (ds @ ts)" "distinct (t_creatures t)" "\<And>g. t_ground t = Some g \<Longrightarrow> g \<notin> set ds \<union> set ts"
    and "\<And>x. x \<in> set ds \<Longrightarrow> \<not> isAlwaysOnTop types h x" "\<And>x. x \<in> set ts \<Longrightarrow> isAlwaysOnTop types h x"
  shows "tile_shape types h t"
  using assms by (auto simp: tile_shape_def downItems_def topItems_def list_all_iff)

end
