(* ===== verification/Tile_Safety.thy ===== *)
theory Tile_Safety
  imports Tile_Invariant
begin

text \<open>Every operation on a tile keeps its invariants, and the loop over the old fields ends.\<close>

subsection \<open>Pieces of the operations\<close>

lemma state_parts [simp]:
  "ts_tile (on_item f x s) = ts_tile s" "ts_store (on_item f x s) = (ts_store s)(x := f (ts_store s x))"
  "ts_released (on_item f x s) = ts_released s" "ts_next (on_item f x s) = ts_next s"
  "ts_tile (on_tile g s) = g (ts_tile s)" "ts_store (on_tile g s) = ts_store s"
  "ts_released (on_tile g s) = ts_released s" "ts_next (on_tile g s) = ts_next s"
  "ts_tile (release x s) = ts_tile s" "ts_store (release x s) = ts_store s"
  "ts_released (release x s) = ts_released s @ [x]" "ts_next (release x s) = ts_next s"
  by (simp_all add: on_item_def on_tile_def release_def)

lemma set_parent_parts [simp]:
  "ts_tile (set_parent p x s) = ts_tile s" "ts_released (set_parent p x s) = ts_released s"
  "ts_next (set_parent p x s) = ts_next s"
  "ts_store (set_parent p x s) = (ts_store s)(x := ts_store s x \<lparr> i_parent := p \<rparr>)"
  by (simp_all add: set_parent_def)

lemma flag_state_parts [simp]:
  "ts_store (flags_for types x s) = ts_store s" "ts_released (flags_for types x s) = ts_released s"
  "ts_next (flags_for types x s) = ts_next s"
  "ts_tile (flags_for types x s) = setTileFlags types (ts_store s x) (ts_tile s)"
  "ts_store (flags_without types x s) = ts_store s" "ts_released (flags_without types x s) = ts_released s"
  "ts_next (flags_without types x s) = ts_next s"
  "ts_tile (flags_without types x s) = resetTileFlags types (ts_store s) x (ts_tile s)"
  by (simp_all add: flags_for_def flags_without_def)

lemma flag_tile_parts [simp]:
  "lying_on (setTileFlags types i t) = lying_on t" "lying_on (resetTileFlags types h x t) = lying_on t"
  "downItems (setTileFlags types i t) = downItems t" "topItems (setTileFlags types i t) = topItems t"
  "downItems (resetTileFlags types h x t) = downItems t" "topItems (resetTileFlags types h x t) = topItems t"
  by (simp_all add: lying_on_def downItems_def topItems_def)

lemma shape_flags [simp]:
  "tile_shape types h (setTileFlags types i t) = tile_shape types h t"
  "tile_shape types h (resetTileFlags types k x t) = tile_shape types h t"
  by (simp_all add: tile_shape_def)

lemma shape_cong:
  assumes "tile_shape types h t" "\<And>x. x \<in> lying_on t \<Longrightarrow> i_id (k x) = i_id (h x)"
  shows "tile_shape types k t"
proof -
  have "isAlwaysOnTop types k x = isAlwaysOnTop types h x" if "x \<in> set (t_items t)" for x
    using assms(2) [of x] that by (simp add: isAlwaysOnTop_def lying_on_def)
  moreover have "set (downItems t) \<subseteq> set (t_items t)" "set (topItems t) \<subseteq> set (t_items t)"
    by (auto simp: downItems_def topItems_def dest: in_set_takeD in_set_dropD)
  ultimately show ?thesis using assms(1) by (auto simp: tile_shape_def list_all_iff)
qed

lemma tile_okI:
  assumes "tile_shape types (ts_store s) (ts_tile s)"
    and "bits_are types (ts_store s) (t_flags (ts_tile s)) (lying_on (ts_tile s))"
    and "\<And>x. x \<in> lying_on (ts_tile s) \<Longrightarrow> i_parent (ts_store s x) = OnTile \<and> x < ts_next s"
  shows "tile_ok types s"
  using assms by (simp add: tile_ok_def flags_ok_iff)

lemma tile_okD:
  assumes "tile_ok types s"
  shows "tile_shape types (ts_store s) (ts_tile s)"
    "bits_are types (ts_store s) (t_flags (ts_tile s)) (lying_on (ts_tile s))"
    "x \<in> lying_on (ts_tile s) \<Longrightarrow> i_parent (ts_store s x) = OnTile"
    "x \<in> lying_on (ts_tile s) \<Longrightarrow> x < ts_next s"
  using assms by (simp_all add: tile_ok_def flags_ok_iff)

lemma release_ok [simp]: "tile_ok types (release x s) = tile_ok types s"
  by (simp add: tile_ok_def)

text \<open>A change of an item elsewhere, or of the count of one that lies on the tile.\<close>

lemma on_item_ok:
  assumes "tile_ok types s"
    and "x \<in> lying_on (ts_tile s) \<Longrightarrow> i_id (f (ts_store s x)) = i_id (ts_store s x)
           \<and> i_attributes (f (ts_store s x)) = i_attributes (ts_store s x)
           \<and> i_class (f (ts_store s x)) = i_class (ts_store s x)
           \<and> i_parent (f (ts_store s x)) = i_parent (ts_store s x)"
  shows "tile_ok types (on_item f x s)"
proof (rule tile_okI)
  show "tile_shape types (ts_store (on_item f x s)) (ts_tile (on_item f x s))"
    unfolding state_parts by (rule shape_cong [OF tile_okD(1) [OF assms(1)]]) (use assms(2) in auto)
  show "bits_are types (ts_store (on_item f x s)) (t_flags (ts_tile (on_item f x s))) (lying_on (ts_tile (on_item f x s)))"
    unfolding state_parts by (rule bits_cong [OF tile_okD(2) [OF assms(1)]]) (use assms(2) in auto)
  show "i_parent (ts_store (on_item f x s) y) = OnTile \<and> y < ts_next (on_item f x s)"
    if "y \<in> lying_on (ts_tile (on_item f x s))" for y
    using that assms(2) tile_okD(3,4) [OF assms(1), of y] by auto
qed

lemma set_parent_ok: "tile_ok types s \<Longrightarrow> x \<notin> lying_on (ts_tile s) \<Longrightarrow> tile_ok types (set_parent p x s)"
  unfolding set_parent_def by (rule on_item_ok) auto

text \<open>An item leaves the tile, or comes to lie on it.\<close>

lemma detach_ok:
  assumes "tile_ok types s" and "tile_shape types (ts_store s) (f (ts_tile s))"
    and "t_flags (f (ts_tile s)) = t_flags (ts_tile s)"
    and "lying_on (f (ts_tile s)) = lying_on (ts_tile s) - {x}"
  shows "tile_ok types (flags_without types x (on_tile f (set_parent p x s)))"
proof (rule tile_okI)
  let ?h = "(ts_store s)(x := ts_store s x \<lparr> i_parent := p \<rparr>)"
  have "bits_are types ?h (t_flags (f (ts_tile s))) (lying_on (ts_tile s))"
    unfolding assms(3) by (rule bits_cong [OF tile_okD(2) [OF assms(1)]]) auto
  then have "bits_are types ?h (t_flags (resetTileFlags types ?h x (f (ts_tile s)))) (lying_on (ts_tile s) - {x})"
    by (rule bits_reset) (simp add: assms(4))
  then show "bits_are types (ts_store (flags_without types x (on_tile f (set_parent p x s))))
      (t_flags (ts_tile (flags_without types x (on_tile f (set_parent p x s)))))
      (lying_on (ts_tile (flags_without types x (on_tile f (set_parent p x s)))))"
    by (simp add: assms(4))
  show "tile_shape types (ts_store (flags_without types x (on_tile f (set_parent p x s))))
      (ts_tile (flags_without types x (on_tile f (set_parent p x s))))"
    using assms(2) by (auto intro: shape_cong)
  show "i_parent (ts_store (flags_without types x (on_tile f (set_parent p x s))) y) = OnTile
      \<and> y < ts_next (flags_without types x (on_tile f (set_parent p x s)))"
    if "y \<in> lying_on (ts_tile (flags_without types x (on_tile f (set_parent p x s))))" for y
    using that tile_okD(3,4) [OF assms(1), of y] by (simp add: assms(4))
qed

lemma attach_ok:
  assumes "tile_ok types s" and "tile_shape types (ts_store s) (f (ts_tile s))"
    and "t_flags (f (ts_tile s)) = t_flags (ts_tile s)"
    and "lying_on (f (ts_tile s)) = insert x (lying_on (ts_tile s))"
    and "i_parent (ts_store s x) = OnTile" "x < ts_next s"
  shows "tile_ok types (flags_for types x (on_tile f s))"
proof (rule tile_okI)
  have "bits_are types (ts_store s) (t_flags (f (ts_tile s))) (lying_on (ts_tile s))"
    using tile_okD(2) [OF assms(1)] by (simp add: assms(3))
  from bits_set [OF this, of x]
  show "bits_are types (ts_store (flags_for types x (on_tile f s))) (t_flags (ts_tile (flags_for types x (on_tile f s))))
      (lying_on (ts_tile (flags_for types x (on_tile f s))))"
    by (simp add: assms(4))
  show "tile_shape types (ts_store (flags_for types x (on_tile f s))) (ts_tile (flags_for types x (on_tile f s)))"
    using assms(2) by simp
  show "i_parent (ts_store (flags_for types x (on_tile f s)) y) = OnTile \<and> y < ts_next (flags_for types x (on_tile f s))"
    if "y \<in> lying_on (ts_tile (flags_for types x (on_tile f s)))" for y
    using that tile_okD(3,4) [OF assms(1), of y] assms(5,6) by (auto simp: assms(4))
qed

text \<open>An item takes the place of another.\<close>

lemma exchange_ok:
  assumes "bits_are types (ts_store s) (t_flags (ts_tile s)) (lying_on (ts_tile s))"
    and "\<And>z. z \<in> lying_on (ts_tile s) - {y} \<Longrightarrow> i_parent (ts_store s z) = OnTile \<and> z < ts_next s"
    and "tile_shape types (ts_store s) (f (ts_tile s))"
    and "t_flags (f (ts_tile s)) = t_flags (ts_tile s)"
    and "lying_on (f (ts_tile s)) = insert x (lying_on (ts_tile s) - {y})" "x \<noteq> y"
    and "i_parent (ts_store s x) = OnTile" "x < ts_next s"
  shows "tile_ok types (flags_for types x (flags_without types y (on_tile f s)))"
proof (rule tile_okI)
  let ?s = "flags_for types x (flags_without types y (on_tile f s))"
  have "bits_are types (ts_store s) (t_flags (f (ts_tile s))) (lying_on (ts_tile s))"
    using assms(1) by (simp add: assms(4))
  from bits_replace [OF this assms(5,6)]
  show "bits_are types (ts_store ?s) (t_flags (ts_tile ?s)) (lying_on (ts_tile ?s))" by (simp add: assms(5))
  show "tile_shape types (ts_store ?s) (ts_tile ?s)" using assms(3) by simp
  show "i_parent (ts_store ?s z) = OnTile \<and> z < ts_next ?s" if "z \<in> lying_on (ts_tile ?s)" for z
    using that assms(2) [of z] assms(7,8) by (auto simp: assms(5))
qed

subsection \<open>Removing\<close>

lemma index_item_None:
  assumes "tile_shape types h t"
  shows "tile_getThingIndex types h (ThingItem x) t = None \<longleftrightarrow> x \<notin> lying_on t"
  using tile_shape_parts(8) [OF assms] tile_shape_parts(9,10) [OF assms, of x]
  by (auto simp: tile_getThingIndex_def Let_def index_of_None lying_on_def)

lemma shape_ground: "tile_shape types h t \<Longrightarrow> tile_shape types h (t \<lparr> t_ground := None \<rparr>)"
  by (simp add: tile_shape_def list_all_iff)

lemma shape_with_top:
  assumes "tile_shape types h t" "distinct xs" "set xs \<inter> set (downItems t) = {}"
    and "\<And>g. t_ground t = Some g \<Longrightarrow> g \<notin> set xs" "\<And>x. x \<in> set xs \<Longrightarrow> isAlwaysOnTop types h x"
    and "length (downItems t) + length xs \<le> 0xFFFF"
  shows "tile_shape types h (with_top xs t)"
proof (rule tile_shapeI)
  show "t_items (with_top xs t) = downItems t @ xs" by simp
  show "g \<notin> set (downItems t) \<union> set xs" if "t_ground (with_top xs t) = Some g" for g
    using that assms(4) [of g] tile_shape_parts(7,8) [OF assms(1)] by auto
  show "unat (t_downItemCount (with_top xs t)) = length (downItems t)"
    using tile_shape_parts(2) [OF assms(1)] by simp
  show "length (downItems t) + length xs \<le> 0xFFFF" by (rule assms(6))
  show "distinct (downItems t @ xs)" using assms(2,3) tile_shape_parts(4) [OF assms(1)] by auto
  show "distinct (t_creatures (with_top xs t))" using assms(1) by (simp add: tile_shape_def)
qed (use assms(5) tile_shape_parts(9) [OF assms(1)] in blast)+

lemma shape_with_down:
  assumes "tile_shape types h t" "distinct xs" "set xs \<inter> set (topItems t) = {}"
    and "\<And>g. t_ground t = Some g \<Longrightarrow> g \<notin> set xs" "\<And>x. x \<in> set xs \<Longrightarrow> \<not> isAlwaysOnTop types h x"
    and "length xs + length (topItems t) \<le> 0xFFFF" "unat (t_downItemCount t + k) = length xs"
  shows "tile_shape types h (with_down xs k t)"
proof (rule tile_shapeI)
  show "t_items (with_down xs k t) = xs @ topItems t" by simp
  show "g \<notin> set xs \<union> set (topItems t)" if "t_ground (with_down xs k t) = Some g" for g
    using that assms(4) [of g] tile_shape_parts(7,8) [OF assms(1)] by auto
  show "unat (t_downItemCount (with_down xs k t)) = length xs" using assms(7) by simp
  show "length xs + length (topItems t) \<le> 0xFFFF" by (rule assms(6))
  show "distinct (xs @ topItems t)" using assms(2,3) tile_shape_parts(5) [OF assms(1)] by auto
  show "distinct (t_creatures (with_down xs k t))" using assms(1) by (simp add: tile_shape_def)
qed (use assms(5) tile_shape_parts(10) [OF assms(1)] in blast)+

lemma shape_length:
  assumes "tile_shape types h t"
  shows "length (downItems t) + length (topItems t) \<le> 0xFFFF"
proof -
  have "length (t_items t) \<le> 0xFFFF" using assms unfolding tile_shape_def by blast
  then show ?thesis unfolding tile_shape_parts(3) [OF assms] .
qed

lemma shape_remove_top:
  assumes "tile_shape types h t" "x \<in> set (topItems t)"
  shows "tile_shape types h (with_top (remove1 x (topItems t)) t)"
proof (rule shape_with_top [OF assms(1)])
  note parts = tile_shape_parts [OF assms(1)]
  have eq: "set (remove1 x (topItems t)) = set (topItems t) - {x}" using parts(5) by (rule set_remove1_eq)
  show "distinct (remove1 x (topItems t))" using parts(5) by (rule distinct_remove1)
  show "set (remove1 x (topItems t)) \<inter> set (downItems t) = {}" using parts(6) eq by blast
  show "g \<notin> set (remove1 x (topItems t))" if "t_ground t = Some g" for g
    using parts(7) [OF that] parts(8) eq by blast
  show "isAlwaysOnTop types h y" if "y \<in> set (remove1 x (topItems t))" for y
    using that parts(10) eq by blast
  show "length (downItems t) + length (remove1 x (topItems t)) \<le> 0xFFFF"
    using shape_length [OF assms(1)] assms(2) by (simp add: length_remove1)
qed

lemma count_minus_one: "0 < unat (c :: u16) \<Longrightarrow> unat (c + - 1) = unat c - 1"
  using unat_minus_one [of c] by (simp add: unat_gt_0)

lemma shape_remove_down:
  assumes "tile_shape types h t" "x \<in> set (downItems t)"
  shows "tile_shape types h (with_down (remove1 x (downItems t)) (- 1) t)"
proof (rule shape_with_down [OF assms(1)])
  note parts = tile_shape_parts [OF assms(1)]
  have eq: "set (remove1 x (downItems t)) = set (downItems t) - {x}" using parts(4) by (rule set_remove1_eq)
  have pos: "0 < unat (t_downItemCount t)" using assms(2) parts(2) by (metis length_pos_if_in_set)
  show "distinct (remove1 x (downItems t))" using parts(4) by (rule distinct_remove1)
  show "set (remove1 x (downItems t)) \<inter> set (topItems t) = {}" using parts(6) eq by blast
  show "g \<notin> set (remove1 x (downItems t))" if "t_ground t = Some g" for g
    using parts(7) [OF that] parts(8) eq by blast
  show "\<not> isAlwaysOnTop types h y" if "y \<in> set (remove1 x (downItems t))" for y
    using that parts(9) eq by blast
  show "length (remove1 x (downItems t)) + length (topItems t) \<le> 0xFFFF"
    using shape_length [OF assms(1)] assms(2) by (simp add: length_remove1)
  show "unat (t_downItemCount t + - 1) = length (remove1 x (downItems t))"
    using count_minus_one [OF pos] parts(2) assms(2) by (simp add: length_remove1)
qed

text \<open>Whether the whole item leaves.\<close>

definition whole_leaves :: "item_types \<Rightarrow> tile_state \<Rightarrow> nat \<Rightarrow> u32 \<Rightarrow> bool" where
  "whole_leaves types s x n \<longleftrightarrow>
     t_ground (ts_tile s) = Some x \<or> isAlwaysOnTop types (ts_store s) x
     \<or> \<not> it_stackable (type_at types s x) \<or> n = ucast (i_count (item_at s x))"

lemma removeItem_absent:
  assumes "tile_ok types s" "x \<notin> lying_on (ts_tile s)"
  shows "tile_removeItem types x n s = s"
  using index_item_None [OF tile_okD(1) [OF assms(1)], of x] assms(2) by (simp add: tile_removeItem_def Let_def)

lemma removeItem_count:
  assumes "tile_ok types s" "\<not> whole_leaves types s x n"
  shows "\<exists>k. tile_removeItem types x n s = (if x \<in> lying_on (ts_tile s) then on_item (\<lambda>i. i \<lparr> i_count := k \<rparr>) x s else s)"
proof (cases "x \<in> lying_on (ts_tile s)")
  case True
  have shape: "tile_shape types (ts_store s) (ts_tile s)" by (rule tile_okD(1) [OF assms(1)])
  have "tile_getThingIndex types (ts_store s) (ThingItem x) (ts_tile s) \<noteq> None"
    using index_item_None [OF shape] True by blast
  moreover have "x \<in> set (downItems (ts_tile s))"
    using True assms(2) tile_shape_parts(8) [OF shape] tile_shape_parts(10) [OF shape, of x]
    by (auto simp: lying_on_def whole_leaves_def)
  ultimately show ?thesis
    using True assms(2) by (auto simp: tile_removeItem_def Let_def whole_leaves_def)
next
  case False
  then show ?thesis using removeItem_absent [OF assms(1)] by simp
qed

text \<open>The tile without the item.\<close>

lemma removeItem_whole:
  assumes "tile_ok types s" "x \<in> lying_on (ts_tile s)" "whole_leaves types s x n"
  obtains f where "tile_removeItem types x n s = flags_without types x (on_tile f (set_parent NoParent x s))"
    "tile_shape types (ts_store s) (f (ts_tile s))" "t_flags (f (ts_tile s)) = t_flags (ts_tile s)"
    "lying_on (f (ts_tile s)) = lying_on (ts_tile s) - {x}"
    "t_creatures (f (ts_tile s)) = t_creatures (ts_tile s)"
    "downItems (f (ts_tile s)) = remove1 x (downItems (ts_tile s))"
    "topItems (f (ts_tile s)) = remove1 x (topItems (ts_tile s))"
proof -
  let ?t = "ts_tile s" and ?h = "ts_store s"
  have shape: "tile_shape types ?h ?t" by (rule tile_okD(1) [OF assms(1)])
  note parts = tile_shape_parts [OF shape]
  obtain k where idx: "tile_getThingIndex types ?h (ThingItem x) ?t = Some k"
    using index_item_None [OF shape, of x] assms(2) by auto
  consider (ground) "t_ground ?t = Some x" | (top) "t_ground ?t \<noteq> Some x" "x \<in> set (topItems ?t)"
    | (down) "t_ground ?t \<noteq> Some x" "x \<in> set (downItems ?t)"
    using assms(2) parts(8) by (auto simp: lying_on_def)
  then show thesis
  proof cases
    case ground
    have nin: "x \<notin> set (downItems ?t)" "x \<notin> set (topItems ?t)" using parts(7) [OF ground] parts(8) by auto
    show thesis
    proof (rule that [of "\<lambda>t. t \<lparr> t_ground := None \<rparr>"])
      show "tile_removeItem types x n s
          = flags_without types x (on_tile (\<lambda>t. t \<lparr> t_ground := None \<rparr>) (set_parent NoParent x s))"
        using ground idx by (simp add: tile_removeItem_def)
      show "lying_on (?t \<lparr> t_ground := None \<rparr>) = lying_on ?t - {x}"
        using ground parts(7) [OF ground] by (auto simp: lying_on_def)
    qed (use nin shape_ground [OF shape] in \<open>auto simp: remove1_idem\<close>)
  next
    case top
    have at: "isAlwaysOnTop types ?h x" using parts(10) top(2) by blast
    have nin: "x \<notin> set (downItems ?t)" using parts(6) top(2) by blast
    have eq: "set (remove1 x (topItems ?t)) = set (topItems ?t) - {x}" using parts(5) by (rule set_remove1_eq)
    show thesis
    proof (rule that [of "with_top (remove1 x (topItems ?t))"])
      show "tile_removeItem types x n s
          = flags_without types x (on_tile (with_top (remove1 x (topItems ?t))) (set_parent NoParent x s))"
        using top at idx by (simp add: tile_removeItem_def Let_def)
      show "lying_on (with_top (remove1 x (topItems ?t)) ?t) = lying_on ?t - {x}"
        using top(1) nin eq parts(8) by (auto simp: lying_on_def)
    qed (use nin shape_remove_top [OF shape top(2)] with_top_parts [OF parts(1)] in \<open>auto simp: remove1_idem\<close>)
  next
    case down
    have at: "\<not> isAlwaysOnTop types ?h x" using parts(9) down(2) by blast
    have nin: "x \<notin> set (topItems ?t)" using parts(6) down(2) by blast
    have eq: "set (remove1 x (downItems ?t)) = set (downItems ?t) - {x}" using parts(4) by (rule set_remove1_eq)
    have whole: "\<not> (it_stackable (type_at types s x) \<and> n \<noteq> ucast (i_count (item_at s x)))"
      using assms(3) down(1) at by (auto simp: whole_leaves_def)
    have pos: "0 < unat (t_downItemCount ?t)" using down(2) parts(2) by (metis length_pos_if_in_set)
    have len: "length (remove1 x (downItems ?t)) = unat (t_downItemCount ?t + - 1)"
      using count_minus_one [OF pos] parts(2) down(2) by (simp add: length_remove1)
    show thesis
    proof (rule that [of "with_down (remove1 x (downItems ?t)) (- 1)"])
      show "tile_removeItem types x n s
          = flags_without types x (on_tile (with_down (remove1 x (downItems ?t)) (- 1)) (set_parent NoParent x s))"
        using down at idx whole by (auto simp: tile_removeItem_def Let_def)
      show "lying_on (with_down (remove1 x (downItems ?t)) (- 1) ?t) = lying_on ?t - {x}"
        using down(1) nin eq parts(8) by (auto simp: lying_on_def)
    qed (use nin shape_remove_down [OF shape down(2)] with_down_parts [OF len] in \<open>auto simp: remove1_idem\<close>)
  qed
qed


lemma removeItem_ok:
  assumes "tile_ok types s"
  shows "tile_ok types (tile_removeItem types x n s)"
proof (cases "x \<in> lying_on (ts_tile s) \<and> whole_leaves types s x n")
  case True
  then obtain f where "tile_removeItem types x n s = flags_without types x (on_tile f (set_parent NoParent x s))"
    "tile_shape types (ts_store s) (f (ts_tile s))" "t_flags (f (ts_tile s)) = t_flags (ts_tile s)"
    "lying_on (f (ts_tile s)) = lying_on (ts_tile s) - {x}"
    using removeItem_whole [OF assms] by metis
  then show ?thesis using detach_ok [OF assms] by simp
next
  case False
  show ?thesis
  proof (cases "x \<in> lying_on (ts_tile s)")
    case True
    then obtain k where "tile_removeItem types x n s = on_item (\<lambda>i. i \<lparr> i_count := k \<rparr>) x s"
      using False removeItem_count [OF assms, of x n] by auto
    then show ?thesis using on_item_ok [OF assms] by simp
  qed (use assms removeItem_absent [OF assms] in simp)
qed

text \<open>What a complete removal leaves.\<close>

lemma removeItem_leaves:
  assumes "tile_ok types s" "x \<in> lying_on (ts_tile s)" "whole_leaves types s x n"
  defines "s' \<equiv> tile_removeItem types x n s"
  shows "lying_on (ts_tile s') = lying_on (ts_tile s) - {x}"
    "downItems (ts_tile s') = remove1 x (downItems (ts_tile s))"
    "topItems (ts_tile s') = remove1 x (topItems (ts_tile s))"
    "t_creatures (ts_tile s') = t_creatures (ts_tile s)"
    "ts_store s' = (ts_store s)(x := ts_store s x \<lparr> i_parent := NoParent \<rparr>)"
    "ts_released s' = ts_released s" "ts_next s' = ts_next s"
proof -
  obtain f where "s' = flags_without types x (on_tile f (set_parent NoParent x s))"
    "lying_on (f (ts_tile s)) = lying_on (ts_tile s) - {x}"
    "t_creatures (f (ts_tile s)) = t_creatures (ts_tile s)"
    "downItems (f (ts_tile s)) = remove1 x (downItems (ts_tile s))"
    "topItems (f (ts_tile s)) = remove1 x (topItems (ts_tile s))"
    unfolding s'_def using removeItem_whole [OF assms(1-3)] by metis
  then show "lying_on (ts_tile s') = lying_on (ts_tile s) - {x}"
    "downItems (ts_tile s') = remove1 x (downItems (ts_tile s))"
    "topItems (ts_tile s') = remove1 x (topItems (ts_tile s))"
    "t_creatures (ts_tile s') = t_creatures (ts_tile s)"
    "ts_store s' = (ts_store s)(x := ts_store s x \<lparr> i_parent := NoParent \<rparr>)"
    "ts_released s' = ts_released s" "ts_next s' = ts_next s"
    by simp_all
qed

lemma discard_ok:
  assumes "tile_ok types s" "x \<in> lying_on (ts_tile s)" "whole_leaves types s x 1"
  shows "tile_ok types (discard types x s)"
    "lying_on (ts_tile (discard types x s)) = lying_on (ts_tile s) - {x}"
    "downItems (ts_tile (discard types x s)) = remove1 x (downItems (ts_tile s))"
    "topItems (ts_tile (discard types x s)) = remove1 x (topItems (ts_tile s))"
    "t_creatures (ts_tile (discard types x s)) = t_creatures (ts_tile s)"
    "ts_store (discard types x s) = (ts_store s)(x := ts_store s x \<lparr> i_parent := NoParent \<rparr>)"
    "ts_released (discard types x s) = ts_released s @ [x]" "ts_next (discard types x s) = ts_next s"
proof -
  note l = removeItem_leaves [OF assms]
  have "tile_ok types (tile_removeItem types x 1 s)" by (rule removeItem_ok [OF assms(1)])
  from set_parent_ok [OF this, of x NoParent] show "tile_ok types (discard types x s)"
    by (simp add: discard_def l)
qed (simp_all add: discard_def removeItem_leaves [OF assms])

subsection \<open>Old fields\<close>

text \<open>A stackable field would be left behind by its replacement; the item types have none.\<close>

definition fields_single :: "item_types \<Rightarrow> tile_state \<Rightarrow> bool" where
  "fields_single types s \<longleftrightarrow>
     (\<forall>x\<in>lying_on (ts_tile s). i_class (item_at s x) = MagicField \<longrightarrow> \<not> it_stackable (type_at types s x))"

text \<open>What stays when some items are released.\<close>

definition released_some :: "tile_state \<Rightarrow> tile_state \<Rightarrow> bool" where
  "released_some s s' \<longleftrightarrow>
     (\<exists>ys. ts_released s' = ts_released s @ ys \<and> set ys \<subseteq> lying_on (ts_tile s)
           \<and> lying_on (ts_tile s') = lying_on (ts_tile s) - set ys
           \<and> ts_store s' = (\<lambda>y. if y \<in> set ys then ts_store s y \<lparr> i_parent := NoParent \<rparr> else ts_store s y))
     \<and> topItems (ts_tile s') = topItems (ts_tile s) \<and> t_creatures (ts_tile s') = t_creatures (ts_tile s)
     \<and> ts_next s' = ts_next s \<and> length (downItems (ts_tile s')) \<le> length (downItems (ts_tile s))"

lemma released_some_refl: "released_some s s"
  by (auto simp: released_some_def)

lemma down_lying: "tile_shape types h t \<Longrightarrow> x \<in> set (downItems t) \<Longrightarrow> x \<in> lying_on t"
  using tile_shape_parts(8) [of types h t] by (auto simp: lying_on_def)

lemma discard_down:
  assumes "tile_ok types s" "x \<in> set (downItems (ts_tile s))" "\<not> it_stackable (type_at types s x)"
    and "released_some (discard types x s) s'"
  shows "released_some s s'"
proof -
  have x: "x \<in> lying_on (ts_tile s)" "x \<notin> set (topItems (ts_tile s))"
    using down_lying [OF tile_okD(1) [OF assms(1)] assms(2)] tile_shape_parts(6) [OF tile_okD(1) [OF assms(1)]] assms(2)
    by auto
  have whole: "whole_leaves types s x 1" using assms(3) by (simp add: whole_leaves_def)
  note d = discard_ok [OF assms(1) x(1) whole]
  have top: "remove1 x (topItems (ts_tile s)) = topItems (ts_tile s)" using x(2) by (rule remove1_idem)
  obtain ys where ys: "ts_released s' = ts_released s @ x # ys" "set ys \<subseteq> lying_on (ts_tile s) - {x}"
    "lying_on (ts_tile s') = lying_on (ts_tile s) - {x} - set ys"
    "ts_store s' = (\<lambda>y. if y \<in> set ys then ((ts_store s)(x := ts_store s x \<lparr> i_parent := NoParent \<rparr>)) y \<lparr> i_parent := NoParent \<rparr>
        else ((ts_store s)(x := ts_store s x \<lparr> i_parent := NoParent \<rparr>)) y)"
    using assms(4) unfolding released_some_def d by auto
  have len: "length (remove1 x (downItems (ts_tile s))) \<le> length (downItems (ts_tile s))"
    by (simp add: length_remove1)
  have "\<exists>ys. ts_released s' = ts_released s @ ys \<and> set ys \<subseteq> lying_on (ts_tile s)
           \<and> lying_on (ts_tile s') = lying_on (ts_tile s) - set ys
           \<and> ts_store s' = (\<lambda>y. if y \<in> set ys then ts_store s y \<lparr> i_parent := NoParent \<rparr> else ts_store s y)"
    by (rule exI [of _ "x # ys"]) (use ys x in \<open>auto simp: fun_eq_iff\<close>)
  then show ?thesis using assms(4) len by (auto simp: released_some_def d top)
qed

lemma replace_fields_ok:
  assumes "tile_ok types s" "fields_single types s"
  shows "\<exists>s' b. replace_fields types s = Some (s', b) \<and> tile_ok types s' \<and> released_some s s'"
  using assms
proof (induction "length (downItems (ts_tile s))" arbitrary: s rule: less_induct)
  case less
  show ?case
  proof (cases "find (\<lambda>y. i_class (ts_store s y) = MagicField) (downItems (ts_tile s))")
    case None
    then have "replace_fields types s = Some (s, True)" by (subst replace_fields.simps) simp
    then show ?thesis using less.prems(1) released_some_refl by blast
  next
    case (Some y)
    then have y: "y \<in> set (downItems (ts_tile s))" "i_class (ts_store s y) = MagicField"
      by (auto simp: find_Some_iff)
    have lies: "y \<in> lying_on (ts_tile s)" by (rule down_lying [OF tile_okD(1) [OF less.prems(1)] y(1)])
    have ns: "\<not> it_stackable (type_at types s y)" using less.prems(2) lies y(2) by (auto simp: fields_single_def)
    have whole: "whole_leaves types s y 1" using ns by (simp add: whole_leaves_def)
    note d = discard_ok [OF less.prems(1) lies whole]
    show ?thesis
    proof (cases "it_replaceable (types (i_id (ts_store s y)))")
      case True
      have "length (downItems (ts_tile (discard types y s))) < length (downItems (ts_tile s))"
        using y(1) length_pos_if_in_set [OF y(1)] by (simp add: d length_remove1)
      moreover have "fields_single types (discard types y s)"
        using less.prems(2) by (auto simp: fields_single_def d)
      ultimately obtain s' b where s': "replace_fields types (discard types y s) = Some (s', b)" "tile_ok types s'"
        "released_some (discard types y s) s'"
        using less.hyps [of "discard types y s"] d(1) by blast
      have "replace_fields types s = Some (s', b)" using Some True s'(1) by (subst replace_fields.simps) simp
      then show ?thesis using s'(2) discard_down [OF less.prems(1) y(1) ns s'(3)] by blast
    next
      case False
      then have "replace_fields types s = Some (s, False)" using Some by (subst replace_fields.simps) simp
      then show ?thesis using less.prems(1) released_some_refl by blast
    qed
  qed
qed


subsection \<open>Adding\<close>

text \<open>Nothing is lost: what was on the tile and what is added lies on it afterwards or has been released, and
  nothing is both.\<close>

definition adds :: "nat \<Rightarrow> tile_state \<Rightarrow> tile_state \<Rightarrow> bool" where
  "adds x s s' \<longleftrightarrow>
     (\<exists>ys. ts_released s' = ts_released s @ ys \<and> set ys \<subseteq> insert x (lying_on (ts_tile s))
           \<and> lying_on (ts_tile s') = insert x (lying_on (ts_tile s)) - set ys
           \<and> (\<forall>y\<in>set ys. i_parent (ts_store s' y) = NoParent))
     \<and> t_creatures (ts_tile s') = t_creatures (ts_tile s) \<and> ts_next s' = ts_next s"

lemma shape_new_ground:
  assumes "tile_shape types h t" "x \<notin> set (t_items t)"
  shows "tile_shape types h (t \<lparr> t_ground := Some x \<rparr>)"
  using assms by (auto simp: tile_shape_def list_all_iff)

lemma shape_insert_top:
  assumes "tile_shape types h t" "x \<notin> lying_on t" "isAlwaysOnTop types h x" "length (t_items t) < 0xFFFF"
  shows "tile_shape types h (with_top (insert_where P x (topItems t)) t)"
proof (rule shape_with_top [OF assms(1)])
  note parts = tile_shape_parts [OF assms(1)]
  have x: "x \<notin> set (downItems t)" "x \<notin> set (topItems t)" "t_ground t \<noteq> Some x"
    using assms(2) parts(8) by (auto simp: lying_on_def)
  show "distinct (insert_where P x (topItems t))" using parts(5) x(2) by simp
  show "set (insert_where P x (topItems t)) \<inter> set (downItems t) = {}" using parts(6) x(1) by auto
  show "g \<notin> set (insert_where P x (topItems t))" if "t_ground t = Some g" for g
    using parts(7) [OF that] parts(8) x(3) that by auto
  show "isAlwaysOnTop types h y" if "y \<in> set (insert_where P x (topItems t))" for y
    using that parts(10) assms(3) by auto
  show "length (downItems t) + length (insert_where P x (topItems t)) \<le> 0xFFFF"
    using assms(4) unfolding parts(3) by simp
qed

lemma shape_insert_down:
  assumes "tile_shape types h t" "x \<notin> lying_on t" "\<not> isAlwaysOnTop types h x" "length (t_items t) < 0xFFFF"
  shows "tile_shape types h (with_down (x # downItems t) 1 t)"
proof (rule shape_with_down [OF assms(1)])
  note parts = tile_shape_parts [OF assms(1)]
  have x: "x \<notin> set (downItems t)" "x \<notin> set (topItems t)" "t_ground t \<noteq> Some x"
    using assms(2) parts(8) by (auto simp: lying_on_def)
  have len: "length (downItems t) < 0xFFFF" using assms(4) unfolding parts(3) by simp
  show "distinct (x # downItems t)" using parts(4) x(1) by simp
  show "set (x # downItems t) \<inter> set (topItems t) = {}" using parts(6) x(2) by auto
  show "g \<notin> set (x # downItems t)" if "t_ground t = Some g" for g
    using parts(7) [OF that] parts(8) x(3) that by auto
  show "\<not> isAlwaysOnTop types h y" if "y \<in> set (x # downItems t)" for y using that parts(9) assms(3) by auto
  show "length (x # downItems t) + length (topItems t) \<le> 0xFFFF" using assms(4) unfolding parts(3) by simp
  show "unat (t_downItemCount t + 1) = length (x # downItems t)"
    using len parts(2) by (simp add: unat_word_ariths)
qed

lemma lying_with_top: "lying_on (with_top xs t) = set_option (t_ground t) \<union> set (downItems t) \<union> set xs"
  by (auto simp: lying_on_def)

lemma lying_with_down: "lying_on (with_down xs k t) = set_option (t_ground t) \<union> set xs \<union> set (topItems t)"
  by (auto simp: lying_on_def)

lemma lying_parts: "lying_on t = set_option (t_ground t) \<union> set (downItems t) \<union> set (topItems t)"
  by (auto simp: lying_on_def items_split [of t] set_append [of "downItems t" "topItems t"] simp del: set_append)


text \<open>The last step of an addition, when the item already knows its parent.\<close>

definition arriving :: "item_types \<Rightarrow> nat \<Rightarrow> tile_state \<Rightarrow> bool" where
  "arriving types x s \<longleftrightarrow>
     tile_ok types s \<and> x \<notin> lying_on (ts_tile s) \<and> i_parent (ts_store s x) = OnTile \<and> x < ts_next s
     \<and> length (t_items (ts_tile s)) < 0xFFFF"

lemma place_top:
  fixes P :: "nat \<Rightarrow> bool"
  assumes "arriving types x s" "isAlwaysOnTop types (ts_store s) x"
  defines "s' \<equiv> flags_for types x (on_tile (with_top (insert_where P x (topItems (ts_tile s)))) s)"
  shows "tile_ok types s'" "lying_on (ts_tile s') = insert x (lying_on (ts_tile s))"
proof -
  have ok: "tile_ok types s" and x: "x \<notin> lying_on (ts_tile s)" "i_parent (ts_store s x) = OnTile" "x < ts_next s"
    and len: "length (t_items (ts_tile s)) < 0xFFFF"
    using assms(1) by (auto simp: arriving_def)
  have lying: "lying_on (with_top (insert_where P x (topItems (ts_tile s))) (ts_tile s)) = insert x (lying_on (ts_tile s))"
    by (auto simp: lying_with_top lying_parts [of "ts_tile s"])
  show "tile_ok types s'" unfolding s'_def
    by (rule attach_ok [OF ok]) (simp_all add: shape_insert_top [OF tile_okD(1) [OF ok] x(1) assms(2) len] lying x)
  show "lying_on (ts_tile s') = insert x (lying_on (ts_tile s))" by (simp add: s'_def lying)
qed

lemma place_down:
  assumes "arriving types x s" "\<not> isAlwaysOnTop types (ts_store s) x"
  defines "s' \<equiv> flags_for types x (on_tile (with_down (x # downItems (ts_tile s)) 1) s)"
  shows "tile_ok types s'" "lying_on (ts_tile s') = insert x (lying_on (ts_tile s))"
proof -
  have ok: "tile_ok types s" and x: "x \<notin> lying_on (ts_tile s)" "i_parent (ts_store s x) = OnTile" "x < ts_next s"
    and len: "length (t_items (ts_tile s)) < 0xFFFF"
    using assms(1) by (auto simp: arriving_def)
  have lying: "lying_on (with_down (x # downItems (ts_tile s)) 1 (ts_tile s)) = insert x (lying_on (ts_tile s))"
    by (auto simp: lying_with_down lying_parts [of "ts_tile s"])
  show "tile_ok types s'" unfolding s'_def
    by (rule attach_ok [OF ok]) (simp_all add: shape_insert_down [OF tile_okD(1) [OF ok] x(1) assms(2) len] lying x)
  show "lying_on (ts_tile s') = insert x (lying_on (ts_tile s))" by (simp add: s'_def lying)
qed

lemma place_ground:
  assumes "arriving types x s" "t_ground (ts_tile s) = None"
  defines "s' \<equiv> flags_for types x (on_tile (\<lambda>t. t \<lparr> t_ground := Some x \<rparr>) s)"
  shows "tile_ok types s'" "lying_on (ts_tile s') = insert x (lying_on (ts_tile s))"
proof -
  have ok: "tile_ok types s" and x: "x \<notin> lying_on (ts_tile s)" "i_parent (ts_store s x) = OnTile" "x < ts_next s"
    using assms(1) by (auto simp: arriving_def)
  have lying: "lying_on ((ts_tile s) \<lparr> t_ground := Some x \<rparr>) = insert x (lying_on (ts_tile s))"
    using assms(2) by (auto simp: lying_on_def)
  have nin: "x \<notin> set (t_items (ts_tile s))" using x(1) by (simp add: lying_on_def)
  show "tile_ok types s'" unfolding s'_def
    by (rule attach_ok [OF ok]) (simp_all add: shape_new_ground [OF tile_okD(1) [OF ok] nin] lying x)
  show "lying_on (ts_tile s') = insert x (lying_on (ts_tile s))" by (simp add: s'_def lying)
qed

lemma change_ground:
  assumes "arriving types x s" "t_ground (ts_tile s) = Some g"
  defines "s' \<equiv> flags_for types x (flags_without types g
      (on_tile (\<lambda>t. t \<lparr> t_ground := Some x \<rparr>) (release g (set_parent NoParent g s))))"
  shows "tile_ok types s'" "lying_on (ts_tile s') = insert x (lying_on (ts_tile s)) - {g}"
proof -
  have ok: "tile_ok types s" and x: "x \<notin> lying_on (ts_tile s)" "i_parent (ts_store s x) = OnTile" "x < ts_next s"
    using assms(1) by (auto simp: arriving_def)
  let ?s = "release g (set_parent NoParent g s)"
  have ne: "x \<noteq> g" using x(1) assms(2) by (auto simp: lying_on_def)
  have nin: "x \<notin> set (t_items (ts_tile s))" using x(1) by (simp add: lying_on_def)
  have lying: "lying_on ((ts_tile ?s) \<lparr> t_ground := Some x \<rparr>) = insert x (lying_on (ts_tile ?s) - {g})"
    using assms(2) tile_shape_parts(7) [OF tile_okD(1) [OF ok] assms(2)] by (auto simp: lying_on_def)
  show "tile_ok types s'" unfolding s'_def
  proof (rule exchange_ok)
    show "bits_are types (ts_store ?s) (t_flags (ts_tile ?s)) (lying_on (ts_tile ?s))"
      unfolding state_parts set_parent_parts by (rule bits_cong [OF tile_okD(2) [OF ok]]) auto
    show "i_parent (ts_store ?s z) = OnTile \<and> z < ts_next ?s" if "z \<in> lying_on (ts_tile ?s) - {g}" for z
      using that tile_okD(3,4) [OF ok, of z] by auto
    have "tile_shape types (ts_store s) ((ts_tile s) \<lparr> t_ground := Some x \<rparr>)"
      by (rule shape_new_ground [OF tile_okD(1) [OF ok] nin])
    then show "tile_shape types (ts_store ?s) ((ts_tile ?s) \<lparr> t_ground := Some x \<rparr>)"
      unfolding state_parts set_parent_parts by (rule shape_cong) auto
  qed (use lying ne x in auto)
  show "lying_on (ts_tile s') = insert x (lying_on (ts_tile s)) - {g}"
    using lying ne by (auto simp: s'_def)
qed


lemma arriving_start:
  assumes "tile_ok types s" "x \<notin> lying_on (ts_tile s)" "x < ts_next s" "length (t_items (ts_tile s)) < 0xFFFF"
  shows "arriving types x (set_parent OnTile x s)"
  using assms set_parent_ok [OF assms(1,2)] by (simp add: arriving_def)

lemma splash_gone:
  assumes "arriving types x s" "find P (topItems (ts_tile s)) = Some y"
  shows "arriving types x (discard types y s)"
    "lying_on (ts_tile (discard types y s)) = lying_on (ts_tile s) - {y}"
    "i_parent (ts_store (discard types y s) y) = NoParent" "y \<in> lying_on (ts_tile s)"
    "i_id (ts_store (discard types y s) z) = i_id (ts_store s z)"
    "ts_released (discard types y s) = ts_released s @ [y]" "ts_next (discard types y s) = ts_next s"
    "t_creatures (ts_tile (discard types y s)) = t_creatures (ts_tile s)"
proof -
  have ok: "tile_ok types s" and x: "x \<notin> lying_on (ts_tile s)" "i_parent (ts_store s x) = OnTile" "x < ts_next s"
    and len: "length (t_items (ts_tile s)) < 0xFFFF"
    using assms(1) by (auto simp: arriving_def)
  have y: "y \<in> set (topItems (ts_tile s))" using assms(2) by (auto simp: find_Some_iff)
  note parts = tile_shape_parts [OF tile_okD(1) [OF ok]]
  show lies: "y \<in> lying_on (ts_tile s)" using y by (simp add: lying_parts)
  have whole: "whole_leaves types s y 1" using parts(10) [OF y] by (simp add: whole_leaves_def)
  note d = discard_ok [OF ok lies whole]
  show "lying_on (ts_tile (discard types y s)) = lying_on (ts_tile s) - {y}"
    "i_parent (ts_store (discard types y s) y) = NoParent"
    "i_id (ts_store (discard types y s) z) = i_id (ts_store s z)"
    "ts_released (discard types y s) = ts_released s @ [y]" "ts_next (discard types y s) = ts_next s"
    "t_creatures (ts_tile (discard types y s)) = t_creatures (ts_tile s)"
    by (simp_all add: d)
  have "length (t_items (ts_tile (discard types y s))) \<le> length (t_items (ts_tile s))"
    unfolding tile_shape_parts(3) [OF tile_okD(1) [OF d(1)]] parts(3) d
    by (intro add_mono) (simp_all add: length_remove1)
  then show "arriving types x (discard types y s)"
    using x len d(1) lies by (auto simp: arriving_def d)
qed


lemma fields_gone:
  assumes "arriving types x s" "fields_single types s"
  obtains s' b where "replace_fields types s = Some (s', b)" "arriving types x s'" "released_some s s'"
    "i_id (ts_store s' x) = i_id (ts_store s x)"
proof -
  have ok: "tile_ok types s" and x: "x \<notin> lying_on (ts_tile s)" "i_parent (ts_store s x) = OnTile" "x < ts_next s"
    and len: "length (t_items (ts_tile s)) < 0xFFFF"
    using assms(1) by (auto simp: arriving_def)
  obtain s' b where s': "replace_fields types s = Some (s', b)" "tile_ok types s'" "released_some s s'"
    using replace_fields_ok [OF ok assms(2)] by blast
  have "length (t_items (ts_tile s')) \<le> length (t_items (ts_tile s))"
    unfolding tile_shape_parts(3) [OF tile_okD(1) [OF s'(2)]] tile_shape_parts(3) [OF tile_okD(1) [OF ok]]
    using s'(3) by (simp add: released_some_def)
  then have "arriving types x s'" using s'(2,3) x len by (auto simp: arriving_def released_some_def)
  moreover have "i_id (ts_store s' x) = i_id (ts_store s x)" using s'(3) by (auto simp: released_some_def)
  ultimately show thesis using that s'(1,3) by blast
qed

text \<open>An addition always ends, keeps the invariant and loses nothing.\<close>

lemma addItem_ok:
  assumes "tile_ok types s" "fields_single types s" "x \<notin> lying_on (ts_tile s)" "x < ts_next s"
    and "length (t_items (ts_tile s)) < 0xFFFF"
  shows "\<exists>s'. tile_addItem types x s = Some s' \<and> tile_ok types s' \<and> adds x s s'"
proof -
  let ?s = "set_parent OnTile x s" and ?it = "type_at types s x"
  have arr: "arriving types x ?s" by (rule arriving_start [OF assms(1,3-5)])
  have x: "i_id (ts_store ?s x) = i_id (ts_store s x)" by simp
  have len: "\<not> 0xFFFF \<le> length (t_items (ts_tile s))" using assms(5) by simp
  consider (new) "isGroundTile ?it" "t_ground (ts_tile s) = None"
    | (old) g where "isGroundTile ?it" "t_ground (ts_tile s) = Some g"
    | (top) "\<not> isGroundTile ?it" "it_alwaysOnTop ?it" | (down) "\<not> isGroundTile ?it" "\<not> it_alwaysOnTop ?it"
    by (cases "t_ground (ts_tile s)") blast+
  then show ?thesis
  proof cases
    case new
    let ?r = "flags_for types x (on_tile (\<lambda>t. t \<lparr> t_ground := Some x \<rparr>) ?s)"
    have "tile_addItem types x s = Some ?r" using new len by (simp add: tile_addItem_def Let_def)
    moreover have "adds x s ?r" using place_ground(2) [OF arr] new(2) by (auto simp: adds_def intro: exI [of _ "[]"])
    ultimately show ?thesis using place_ground(1) [OF arr] new(2) by auto
  next
    case (old g)
    let ?r = "flags_for types x (flags_without types g
       (on_tile (\<lambda>t. t \<lparr> t_ground := Some x \<rparr>) (release g (set_parent NoParent g ?s))))"
    have "tile_addItem types x s = Some ?r" using old len by (simp add: tile_addItem_def Let_def)
    moreover have "adds x s ?r"
      using change_ground(2) [OF arr, of g] old(2) by (auto simp: adds_def lying_on_def intro!: exI [of _ "[g]"])
    ultimately show ?thesis using change_ground(1) [OF arr, of g] old(2) by auto
  next
    case top
    define F where "F = find (\<lambda>y. isSplash (type_at types ?s y)) (topItems (ts_tile ?s))"
    define s2 where "s2 = (if isSplash ?it then (case F of
        None \<Rightarrow> ?s | Some y \<Rightarrow> discard types y ?s) else ?s)"
    define r where "r = flags_for types x (on_tile (with_top (insert_where
        (\<lambda>y. it_alwaysOnTopOrder ?it \<le> it_alwaysOnTopOrder (type_at types s2 y)) x (topItems (ts_tile s2)))) s2)"
    have run: "tile_addItem types x s = Some r"
      using top len by (simp add: tile_addItem_def Let_def s2_def r_def F_def)
    have s2: "arriving types x s2 \<and> i_id (ts_store s2 x) = i_id (ts_store s x)
        \<and> t_creatures (ts_tile s2) = t_creatures (ts_tile s) \<and> ts_next s2 = ts_next s
        \<and> (\<exists>ys. ts_released s2 = ts_released s @ ys \<and> set ys \<subseteq> lying_on (ts_tile s)
              \<and> lying_on (ts_tile s2) = lying_on (ts_tile s) - set ys \<and> (\<forall>y\<in>set ys. i_parent (ts_store s2 y) = NoParent))"
    proof (cases "s2 = ?s")
      case True
      then show ?thesis using arr by (auto intro: exI [of _ "[]"])
    next
      case False
      then obtain y where y: "F = Some y"
        and s2: "s2 = discard types y ?s"
        unfolding s2_def by (cases F) (auto split: if_splits)
      note g = splash_gone [OF arr y [unfolded F_def]]
      show ?thesis unfolding s2 using g x by (auto intro!: exI [of _ "[y]"])
    qed
    have at: "isAlwaysOnTop types (ts_store s2) x" using s2 top(2) by (simp add: isAlwaysOnTop_def)
    note p = place_top [OF _ at, folded r_def]
    have "tile_ok types r" "lying_on (ts_tile r) = insert x (lying_on (ts_tile s2))"
      unfolding r_def using place_top s2 at by blast+
    moreover have "ts_store r = ts_store s2" "ts_released r = ts_released s2" "ts_next r = ts_next s2"
      "t_creatures (ts_tile r) = t_creatures (ts_tile s2)" by (simp_all add: r_def)
    ultimately show ?thesis using run s2 assms(3) unfolding adds_def by fastforce
  next
    case down
    obtain s2 b where s2: "(if isMagicField ?it then replace_fields types ?s else Some (?s, True)) = Some (s2, b)"
      "arriving types x s2" "released_some ?s s2" "i_id (ts_store s2 x) = i_id (ts_store s x)"
    proof (cases "isMagicField ?it")
      case True
      have "fields_single types ?s" using assms(2,3) by (auto simp: fields_single_def)
      from fields_gone [OF arr this] obtain s2 b where "replace_fields types ?s = Some (s2, b)" "arriving types x s2"
        "released_some ?s s2" "i_id (ts_store s2 x) = i_id (ts_store ?s x)" .
      then show thesis using that [of s2 b] True by simp
    next
      case False
      then show thesis using that [of ?s True] arr released_some_refl by simp
    qed
    obtain ys where ys: "ts_released s2 = ts_released s @ ys" "set ys \<subseteq> lying_on (ts_tile s)"
      "lying_on (ts_tile s2) = lying_on (ts_tile s) - set ys" "\<forall>y\<in>set ys. i_parent (ts_store s2 y) = NoParent"
      "t_creatures (ts_tile s2) = t_creatures (ts_tile s)" "ts_next s2 = ts_next s"
      using s2(3) by (auto simp: released_some_def)
    have run: "tile_addItem types x s = Some (if b
        then flags_for types x (on_tile (with_down (x # downItems (ts_tile s2)) 1) s2)
        else release x (set_parent NoParent x s2))"
      using down len s2(1) by (simp add: tile_addItem_def Let_def split: option.split)
    show ?thesis
    proof (cases b)
      case True
      have at: "\<not> isAlwaysOnTop types (ts_store s2) x" using s2(4) down(2) by (simp add: isAlwaysOnTop_def)
      let ?r = "flags_for types x (on_tile (with_down (x # downItems (ts_tile s2)) 1) s2)"
      have "adds x s ?r" unfolding adds_def
        using place_down(2) [OF s2(2) at] ys assms(3) by (auto intro!: exI [of _ ys])
      then show ?thesis using run True place_down(1) [OF s2(2) at] by auto
    next
      case False
      let ?r = "release x (set_parent NoParent x s2)"
      have nx: "x \<notin> lying_on (ts_tile s2)" "tile_ok types s2" using s2(2) by (auto simp: arriving_def)
      have "adds x s ?r" unfolding adds_def using ys assms(3) by (auto intro!: exI [of _ "ys @ [x]"])
      then show ?thesis using run False set_parent_ok [OF nx(2,1)] by auto
    qed
  qed
qed

end
