(* ===== verification/Tile_Changes.thy ===== *)
theory Tile_Changes
  imports Tile_Safety
begin

text \<open>
  The operations of a tile that change or exchange an item in place, the operation of the map loader, and
  \<open>Game::transformItem\<close>, as steps of one relation, with their invariant; the positions of things on a tile.
\<close>

subsection \<open>Changing in place\<close>

lemma setSubType_parts [simp]:
  "i_id (setSubType types n i) = i_id i" "i_parent (setSubType types n i) = i_parent i"
  "i_class (setSubType types n i) = i_class i"
  by (simp_all add: setSubType_def Let_def setFluidType_def setCharges_def item_setInt_def)

lemma setDefaultSubtype_parts [simp]:
  "i_id (setDefaultSubtype types i) = i_id i" "i_parent (setDefaultSubtype types i) = i_parent i"
  "i_class (setDefaultSubtype types i) = i_class i"
  by (simp_all add: setDefaultSubtype_def Let_def setCharges_def item_setInt_def)

lemma setID_parts [simp]:
  "i_id (item_setID types n i) = n" "i_parent (item_setID types n i) = i_parent i"
  "i_class (item_setID types n i) = i_class i"
  by (simp_all add: item_setID_def Let_def setDuration_def setDecaying_def item_setInt_def item_remove_def)

lemma shape_cong_top:
  assumes "tile_shape types h t" "\<And>x. x \<in> set (t_items t) \<Longrightarrow> isAlwaysOnTop types k x = isAlwaysOnTop types h x"
  shows "tile_shape types k t"
proof -
  have "set (downItems t) \<subseteq> set (t_items t)" "set (topItems t) \<subseteq> set (t_items t)"
    by (auto simp: downItems_def topItems_def dest: in_set_takeD in_set_dropD)
  then show ?thesis using assms by (auto simp: tile_shape_def list_all_iff)
qed

text \<open>A change of an item that lies on the tile, between clearing and setting its flags.\<close>

lemma modify_ok:
  assumes "tile_ok types s" "x \<in> lying_on (ts_tile s)"
    and "i_parent (f (ts_store s x)) = OnTile"
    and "x \<in> set (t_items (ts_tile s)) \<Longrightarrow>
       it_alwaysOnTop (types (i_id (f (ts_store s x)))) = it_alwaysOnTop (type_at types s x)"
  shows "tile_ok types (flags_for types x (on_item f x (flags_without types x s)))"
proof (rule tile_okI)
  let ?s = "flags_for types x (on_item f x (flags_without types x s))" and ?t = "ts_tile s"
  let ?h = "(ts_store s)(x := f (ts_store s x))"
  have "bits_are types (ts_store s) (t_flags (resetTileFlags types (ts_store s) x ?t)) (lying_on ?t - {x})"
    by (rule bits_reset [OF tile_okD(2) [OF assms(1)]]) simp
  then have "bits_are types ?h (t_flags (resetTileFlags types (ts_store s) x ?t)) (lying_on ?t - {x})"
    by (rule bits_cong) auto
  from bits_set [OF this, of x]
  show "bits_are types (ts_store ?s) (t_flags (ts_tile ?s)) (lying_on (ts_tile ?s))"
    using assms(2) by (simp add: insert_absorb)
  have "tile_shape types ?h ?t"
    by (rule shape_cong_top [OF tile_okD(1) [OF assms(1)]]) (use assms(4) in \<open>auto simp: isAlwaysOnTop_def\<close>)
  then show "tile_shape types (ts_store ?s) (ts_tile ?s)" by simp
  show "i_parent (ts_store ?s y) = OnTile \<and> y < ts_next ?s" if "y \<in> lying_on (ts_tile ?s)" for y
    using that tile_okD(3,4) [OF assms(1), of y] assms(3) by auto
qed

text \<open>The side of the vector to which the type of an item belongs.\<close>

definition same_side :: "item_types \<Rightarrow> u16 \<Rightarrow> u16 \<Rightarrow> bool" where
  "same_side types a b \<longleftrightarrow> it_alwaysOnTop (types a) = it_alwaysOnTop (types b)"

lemma updateItem_ok:
  assumes "tile_ok types s" "same_side types itemId (i_id (item_at s x))"
  shows "tile_ok types (tile_updateItem types x itemId n s)"
proof (cases "x \<in> lying_on (ts_tile s)")
  case True
  have "tile_getThingIndex types (ts_store s) (ThingItem x) (ts_tile s) \<noteq> None"
    using index_item_None [OF tile_okD(1) [OF assms(1)]] True by blast
  then have "tile_updateItem types x itemId n s
      = flags_for types x (on_item (\<lambda>i. setSubType types (ucast n) (item_setID types itemId i)) x (flags_without types x s))"
    by (auto simp: tile_updateItem_def)
  moreover have "tile_ok types \<dots>"
    by (rule modify_ok [OF assms(1) True]) (use tile_okD(3) [OF assms(1) True] assms(2) in \<open>simp_all add: same_side_def\<close>)
  ultimately show ?thesis by simp
next
  case False
  then have "tile_getThingIndex types (ts_store s) (ThingItem x) (ts_tile s) = None"
    using index_item_None [OF tile_okD(1) [OF assms(1)]] by blast
  then show ?thesis using assms(1) by (simp add: tile_updateItem_def)
qed

subsection \<open>Exchanging\<close>

lemma replaced_ok:
  assumes "tile_ok types s" "x \<notin> lying_on (ts_tile s)" "x < ts_next s"
    and "tile_shape types (ts_store s) (f (ts_tile s))" "t_flags (f (ts_tile s)) = t_flags (ts_tile s)"
    and "lying_on (f (ts_tile s)) = insert x (lying_on (ts_tile s) - {y})" "x \<noteq> y"
  shows "tile_ok types (replaced types y x (on_tile f s))"
    "lying_on (ts_tile (replaced types y x (on_tile f s))) = insert x (lying_on (ts_tile s) - {y})"
proof -
  let ?s = "set_parent OnTile x s"
  have eq: "set_parent OnTile x (on_tile f s) = on_tile f ?s"
    by (simp add: set_parent_def on_item_def on_tile_def)
  have ok: "tile_ok types ?s" by (rule set_parent_ok [OF assms(1,2)])
  have "tile_ok types (flags_for types x (flags_without types y (on_tile f ?s)))"
  proof (rule exchange_ok)
    show "bits_are types (ts_store ?s) (t_flags (ts_tile ?s)) (lying_on (ts_tile ?s))" by (rule tile_okD(2) [OF ok])
    show "i_parent (ts_store ?s z) = OnTile \<and> z < ts_next ?s" if "z \<in> lying_on (ts_tile ?s) - {y}" for z
      using that tile_okD(3,4) [OF ok, of z] by blast
    show "tile_shape types (ts_store ?s) (f (ts_tile ?s))"
      using assms(4) by (auto intro: shape_cong)
  qed (use assms in simp_all)
  then show "tile_ok types (replaced types y x (on_tile f s))"
    unfolding replaced_def eq by (rule set_parent_ok) (use assms(6,7) in simp)
  show "lying_on (ts_tile (replaced types y x (on_tile f s))) = insert x (lying_on (ts_tile s) - {y})"
    using assms(6) by (simp add: replaced_def)
qed

lemma set_list_update_distinct:
  "distinct xs \<Longrightarrow> i < length xs \<Longrightarrow> set (xs[i := x]) = insert x (set xs - {xs ! i})"
  by (rule set_update_distinct)

lemma distinct_update: "distinct xs \<Longrightarrow> x \<notin> set xs \<Longrightarrow> distinct (xs[i := x])"
  by (cases "i < length xs") (auto simp: distinct_list_update)

lemma shape_swap_top:
  assumes "tile_shape types h t" "i < length (topItems t)" "x \<notin> lying_on t" "isAlwaysOnTop types h x"
  shows "tile_shape types h (with_top ((topItems t)[i := x]) t)"
    "lying_on (with_top ((topItems t)[i := x]) t) = insert x (lying_on t - {topItems t ! i})"
proof -
  note parts = tile_shape_parts [OF assms(1)]
  have x: "x \<notin> set (downItems t)" "x \<notin> set (topItems t)" "t_ground t \<noteq> Some x"
    using assms(3) parts(8) by (auto simp: lying_on_def)
  have eq: "set ((topItems t)[i := x]) = insert x (set (topItems t) - {topItems t ! i})"
    using parts(5) assms(2) by (rule set_list_update_distinct)
  have y: "topItems t ! i \<in> set (topItems t)" using assms(2) by simp
  show "tile_shape types h (with_top ((topItems t)[i := x]) t)"
  proof (rule shape_with_top [OF assms(1)])
    show "distinct ((topItems t)[i := x])" using parts(5) x(2) by (rule distinct_update)
    show "set ((topItems t)[i := x]) \<inter> set (downItems t) = {}" using parts(6) x(1) eq by auto
    show "g \<notin> set ((topItems t)[i := x])" if "t_ground t = Some g" for g
      using parts(7) [OF that] parts(8) x(3) that eq by auto
    show "isAlwaysOnTop types h y" if "y \<in> set ((topItems t)[i := x])" for y
      using that parts(10) assms(4) eq by auto
    show "length (downItems t) + length ((topItems t)[i := x]) \<le> 0xFFFF"
      using shape_length [OF assms(1)] by simp
  qed
  show "lying_on (with_top ((topItems t)[i := x]) t) = insert x (lying_on t - {topItems t ! i})"
    using y parts(6,8) parts(7) unfolding lying_with_top lying_parts [of t] eq by (cases "t_ground t") auto
qed

lemma shape_swap_down:
  assumes "tile_shape types h t" "i < length (downItems t)" "x \<notin> lying_on t" "\<not> isAlwaysOnTop types h x"
  shows "tile_shape types h (with_down ((downItems t)[i := x]) 0 t)"
    "lying_on (with_down ((downItems t)[i := x]) 0 t) = insert x (lying_on t - {downItems t ! i})"
proof -
  note parts = tile_shape_parts [OF assms(1)]
  have x: "x \<notin> set (downItems t)" "x \<notin> set (topItems t)" "t_ground t \<noteq> Some x"
    using assms(3) parts(8) by (auto simp: lying_on_def)
  have eq: "set ((downItems t)[i := x]) = insert x (set (downItems t) - {downItems t ! i})"
    using parts(4) assms(2) by (rule set_list_update_distinct)
  have y: "downItems t ! i \<in> set (downItems t)" using assms(2) by simp
  show "tile_shape types h (with_down ((downItems t)[i := x]) 0 t)"
  proof (rule shape_with_down [OF assms(1)])
    show "distinct ((downItems t)[i := x])" using parts(4) x(1) by (rule distinct_update)
    show "set ((downItems t)[i := x]) \<inter> set (topItems t) = {}" using parts(6) x(2) eq by auto
    show "g \<notin> set ((downItems t)[i := x])" if "t_ground t = Some g" for g
      using parts(7) [OF that] parts(8) x(3) that eq by auto
    show "\<not> isAlwaysOnTop types h y" if "y \<in> set ((downItems t)[i := x])" for y
      using that parts(9) assms(4) eq by auto
    show "length ((downItems t)[i := x]) + length (topItems t) \<le> 0xFFFF"
      using shape_length [OF assms(1)] by simp
    show "unat (t_downItemCount t + 0) = length ((downItems t)[i := x])" using parts(2) by simp
  qed
  show "lying_on (with_down ((downItems t)[i := x]) 0 t) = insert x (lying_on t - {downItems t ! i})"
    using y parts(6,8) parts(7) unfolding lying_with_down lying_parts [of t] eq by (cases "t_ground t") auto
qed


subsection \<open>Positions on the tile\<close>

text \<open>What is on a tile in the order of its indexes.\<close>

definition things :: "tile \<Rightarrow> thing list" where
  "things t = map ThingItem (case t_ground t of None \<Rightarrow> [] | Some g \<Rightarrow> [g]) @ map ThingItem (topItems t)
     @ map ThingCreature (t_creatures t) @ map ThingItem (downItems t)"

lemma getThing_things:
  assumes "tile_shape types h t"
  shows "tile_getThing n t = (if n < length (things t) then Some (things t ! n) else None)"
proof -
  define ds ts where "ds = downItems t" and "ts = topItems t"
  have "t_items t = ds @ ts" "unat (t_downItemCount t) = length ds" "getTopItemCount t = length ts"
    using tile_shape_parts(2) [OF assms] by (simp_all add: ds_def ts_def items_split [symmetric] length_topItems)
  then show ?thesis
    unfolding tile_getThing_def things_def ds_def [symmetric] ts_def [symmetric]
    by (cases "t_ground t") (auto simp: nth_append Let_def nth_Cons' diff_diff_left)
qed

lemma index_of_append:
  "index_of x (xs @ ys)
     = (case index_of x xs of Some i \<Rightarrow> Some i | None \<Rightarrow> map_option (\<lambda>k. length xs + k) (index_of x ys))"
proof (induction xs)
  case Nil
  then show ?case by (cases "index_of x ys") simp_all
next
  case (Cons y xs)
  then show ?case by (cases "index_of x ys") (auto split: option.split)
qed

lemma index_of_map: "inj f \<Longrightarrow> index_of (f x) (map f xs) = index_of x xs"
  by (induction xs) (auto dest: injD)

lemma index_of_absent: "x \<notin> set xs \<Longrightarrow> index_of x xs = None"
  by (simp add: index_of_None)

lemma inj_thing: "inj ThingItem" "inj ThingCreature"
  by (auto simp: inj_def)

lemma distinct_things:
  assumes "tile_shape types h t"
  shows "distinct (things t)"
proof -
  have "distinct (downItems t)" "distinct (topItems t)" "set (downItems t) \<inter> set (topItems t) = {}"
    "distinct (t_creatures t)"
    using tile_shape_parts(4-6) [OF assms] assms by (simp_all add: tile_shape_def)
  then have rest: "distinct (map ThingItem (topItems t) @ map ThingCreature (t_creatures t) @ map ThingItem (downItems t))"
    by (simp add: distinct_map inj_on_def disjoint_iff image_iff) blast
  show ?thesis
  proof (cases "t_ground t")
    case None
    then show ?thesis using rest by (simp add: things_def)
  next
    case (Some g)
    then have "g \<notin> set (topItems t)" "g \<notin> set (downItems t)"
      using tile_shape_parts(7) [OF assms Some] tile_shape_parts(8) [OF assms] by simp_all
    then show ?thesis using rest Some by (simp add: things_def image_iff)
  qed
qed

lemma index_of_distinct:
  assumes "distinct xs"
  shows "index_of x xs = Some n \<longleftrightarrow> n < length xs \<and> xs ! n = x"
proof
  assume "n < length xs \<and> xs ! n = x"
  moreover from this obtain m where "index_of x xs = Some m"
    using index_of_None [of x xs] nth_mem by fastforce
  ultimately show "index_of x xs = Some n"
    using index_of_Some [of x xs m] assms by (metis nth_eq_iff_index_eq)
qed (use index_of_Some in metis)

lemma getThingIndex_things:
  assumes "tile_shape types h t"
  shows "tile_getThingIndex types h th t = index_of th (things t)"
proof (cases th)
  case (ThingCreature c)
  have "ThingCreature c \<notin> set (map ThingItem xs)" for xs by auto
  then show ?thesis using ThingCreature
    by (cases "index_of c (t_creatures t)") (auto simp: tile_getThingIndex_def things_def index_of_append index_of_absent index_of_map [OF inj_thing(2)]
        length_topItems Let_def option.map_comp comp_def split: option.split)
next
  case (ThingItem x)
  note parts = tile_shape_parts [OF assms]
  have nc: "index_of (ThingItem x) (map ThingCreature cs) = None" for cs by (rule index_of_absent) auto
  show ?thesis
  proof (cases "isAlwaysOnTop types h x")
    case True
    then have "x \<notin> set (downItems t)" using parts(9) by blast
    then have "index_of x (downItems t) = None" by (rule index_of_absent)
    then show ?thesis using ThingItem True
      by (cases "index_of x (topItems t)") (auto simp: tile_getThingIndex_def things_def index_of_append nc index_of_map [OF inj_thing(1)]
          Let_def option.map_comp comp_def split: option.split)
  next
    case False
    then have "x \<notin> set (topItems t)" using parts(10) by blast
    then have "index_of x (topItems t) = None" by (rule index_of_absent)
    then show ?thesis using ThingItem False
      by (cases "index_of x (downItems t)") (auto simp: tile_getThingIndex_def things_def index_of_append nc index_of_map [OF inj_thing(1)]
          length_topItems Let_def option.map_comp comp_def add.assoc split: option.split)
  qed
qed

subsection \<open>Replacing by index\<close>

lemma replaceItem_ok:
  assumes "tile_ok types s" "x \<notin> lying_on (ts_tile s)" "x < ts_next s" "index < 2 ^ 31"
    and "\<And>y. tile_getThing index (ts_tile s) = Some (ThingItem y) \<Longrightarrow> y \<in> set (t_items (ts_tile s)) \<Longrightarrow>
       isAlwaysOnTop types (ts_store s) x = isAlwaysOnTop types (ts_store s) y"
  shows "\<exists>s'. tile_replaceItem types index x s = Some s' \<and> tile_ok types s'
     \<and> (case tile_getThing index (ts_tile s) of
            Some (ThingItem y) \<Rightarrow> lying_on (ts_tile s') = insert x (lying_on (ts_tile s) - {y})
          | _ \<Rightarrow> s' = s)"
proof -
  let ?t = "ts_tile s" and ?h = "ts_store s"
  have shape: "tile_shape types ?h ?t" by (rule tile_okD(1) [OF assms(1)])
  note parts = tile_shape_parts [OF shape]
  define g where "g = (case t_ground ?t of None \<Rightarrow> 0 | Some _ \<Rightarrow> (1 :: nat))"
  define pos where "pos = index - g"
  have idx: "\<not> 2 ^ 31 \<le> index" using assms(4) by simp
  consider (ground) y where "t_ground ?t = Some y" "index = 0"
    | (top) "g \<le> index" "pos < length (topItems ?t)"
    | (creature) "g \<le> index" "\<not> pos < length (topItems ?t)"
        "pos - length (topItems ?t) < length (t_creatures ?t)"
    | (down) "g \<le> index" "\<not> pos < length (topItems ?t)"
        "\<not> pos - length (topItems ?t) < length (t_creatures ?t)"
        "pos - length (topItems ?t) - length (t_creatures ?t) < length (downItems ?t)"
    | (none) "g \<le> index" "\<not> pos < length (topItems ?t)"
        "\<not> pos - length (topItems ?t) < length (t_creatures ?t)"
        "\<not> pos - length (topItems ?t) - length (t_creatures ?t) < length (downItems ?t)"
    by (cases "t_ground ?t"; cases index) (auto simp: g_def)
  then show ?thesis
  proof cases
    case ground
    let ?f = "\<lambda>t. t \<lparr> t_ground := Some x \<rparr>"
    have nx: "x \<notin> set (t_items ?t)" "x \<noteq> y" using assms(2) ground by (auto simp: lying_on_def)
    have lying: "lying_on (?f ?t) = insert x (lying_on ?t - {y})"
      using parts(7) [OF ground(1)] ground by (auto simp: lying_on_def)
    have "tile_replaceItem types index x s = Some (replaced types y x (on_tile ?f s))"
      using ground by (simp add: tile_replaceItem_def)
    moreover note replaced_ok [where f = ?f, OF assms(1-3) shape_new_ground [OF shape nx(1)] _ lying nx(2)]
    moreover have "tile_getThing index ?t = Some (ThingItem y)" using ground by (simp add: tile_getThing_def)
    ultimately show ?thesis by auto
  next
    case top
    let ?y = "topItems ?t ! pos" and ?f = "with_top ((topItems ?t)[pos := x])"
    have y: "tile_getThing index ?t = Some (ThingItem ?y)"
      using top getThing_things [OF shape, of index]
      by (auto simp: things_def nth_append g_def pos_def nth_Cons' split: option.splits)
    have mem: "?y \<in> set (topItems ?t)" using top by simp
    then have mem': "?y \<in> set (t_items ?t)" using parts(8) by blast
    have at: "isAlwaysOnTop types ?h x" using assms(5) [OF y mem'] parts(10) [OF mem] by simp
    have ne: "x \<noteq> ?y" using assms(2) mem' by (auto simp: lying_on_def)
    have "tile_replaceItem types index x s = Some (replaced types ?y x (on_tile ?f s))"
      using idx top by (auto simp: tile_replaceItem_def Let_def g_def pos_def split: option.splits nat.splits)
    moreover note replaced_ok [where f = ?f, OF assms(1-3) shape_swap_top(1) [OF shape top(2) assms(2) at] _
        shape_swap_top(2) [OF shape top(2) assms(2) at] ne]
    ultimately show ?thesis using y by auto
  next
    case down
    let ?p = "pos - length (topItems ?t) - length (t_creatures ?t)"
    let ?y = "downItems ?t ! ?p" and ?f = "with_down ((downItems ?t)[?p := x]) 0"
    have y: "tile_getThing index ?t = Some (ThingItem ?y)"
      using down getThing_things [OF shape, of index]
      by (auto simp: things_def nth_append g_def pos_def nth_Cons' split: option.splits)
    have mem: "?y \<in> set (downItems ?t)" using down(4) by simp
    then have mem': "?y \<in> set (t_items ?t)" using parts(8) by blast
    have at: "\<not> isAlwaysOnTop types ?h x" using assms(5) [OF y mem'] parts(9) [OF mem] by simp
    have ne: "x \<noteq> ?y" using assms(2) mem' by (auto simp: lying_on_def)
    have "tile_replaceItem types index x s = Some (replaced types ?y x (on_tile ?f s))"
      using idx down by (auto simp: tile_replaceItem_def Let_def g_def pos_def split: option.splits nat.splits)
    moreover note replaced_ok [where f = ?f, OF assms(1-3) shape_swap_down(1) [OF shape down(4) assms(2) at] _
        shape_swap_down(2) [OF shape down(4) assms(2) at] ne]
    ultimately show ?thesis using y by auto
  next
    case creature
    have "tile_getThing index ?t = Some (ThingCreature (t_creatures ?t ! (pos - length (topItems ?t))))"
      using creature getThing_things [OF shape, of index]
      by (auto simp: things_def nth_append g_def pos_def nth_Cons' split: option.splits)
    moreover have "tile_replaceItem types index x s = Some s"
      using idx creature by (auto simp: tile_replaceItem_def Let_def g_def pos_def split: option.splits nat.splits)
    ultimately show ?thesis using assms(1) by simp
  next
    case none
    have "tile_getThing index ?t = None"
      using none getThing_things [OF shape, of index] by (auto simp: things_def g_def pos_def split: option.splits)
    moreover have "tile_replaceItem types index x s = Some s"
      using idx none by (auto simp: tile_replaceItem_def Let_def g_def pos_def split: option.splits nat.splits)
    ultimately show ?thesis using assms(1) by simp
  qed
qed

end
