(* ===== verification/Tile_Steps.thy ===== *)
theory Tile_Steps
  imports Tile_Changes
begin

text \<open>
  All operations on a tile as steps, \<open>Game::transformItem\<close> included: each step ends and keeps the invariant, the
  top items stay in order while items are only added and removed, and the index and the thing at an index
  determine each other.
\<close>

subsection \<open>The order of the top items\<close>

lemma top_order_sorted:
  assumes "sorted (map (top_order types h) xs)" "\<And>y. y \<in> set xs \<Longrightarrow> i_id (k y) = i_id (h y)"
  shows "sorted (map (top_order types k) xs)"
proof -
  have "map (top_order types k) xs = map (top_order types h) xs" using assms(2) by (simp add: top_order_def)
  with assms(1) show ?thesis by (simp only:)
qed

lemma removeItem_sorted:
  assumes "tile_ok types s" "tile_sorted types s"
  shows "tile_sorted types (tile_removeItem types x n s)"
proof (cases "x \<in> lying_on (ts_tile s) \<and> whole_leaves types s x n")
  case True
  note l = removeItem_leaves [OF assms(1)]
  have "sorted (map (top_order types (ts_store s)) (remove1 x (topItems (ts_tile s))))"
    using assms(2) by (simp add: tile_sorted_def sorted_map_remove1)
  then show ?thesis using True unfolding tile_sorted_def by (auto simp: l intro: top_order_sorted)
next
  case False
  have "tile_sorted types (on_item (\<lambda>i. i \<lparr> i_count := k \<rparr>) x s)" for k
    using assms(2) unfolding tile_sorted_def state_parts by (rule top_order_sorted) simp
  then show ?thesis
    using False removeItem_count [OF assms(1), of x n] removeItem_absent [OF assms(1), of x n] assms(2)
    by (cases "x \<in> lying_on (ts_tile s)") auto
qed

lemma insert_top_sorted:
  assumes "sorted (map (top_order types h) xs)"
  shows "sorted (map (top_order types h)
           (insert_where (\<lambda>y. it_alwaysOnTopOrder (types (i_id (h x))) \<le> it_alwaysOnTopOrder (types (i_id (h y)))) x xs))"
    and "sorted (map (top_order types h)
           (insert_where (\<lambda>y. it_alwaysOnTopOrder (types (i_id (h x))) < it_alwaysOnTopOrder (types (i_id (h y)))) x xs))"
  by (rule insert_where_sorted [OF assms]; simp add: top_order_def)+

lemma addItem_sorted:
  assumes "tile_ok types s" "fields_single types s" "x \<notin> lying_on (ts_tile s)" "x < ts_next s"
    and "tile_sorted types s" "tile_addItem types x s = Some s'"
  shows "tile_sorted types s'"
proof (cases "0xFFFF \<le> length (t_items (ts_tile s))")
  case True
  then show ?thesis using assms(5,6) by (simp add: tile_addItem_def)
next
  case False
  let ?s = "set_parent OnTile x s" and ?it = "type_at types s x"
  have arr: "arriving types x ?s" by (rule arriving_start [OF assms(1,3,4)]) (use False in simp)
  have srt: "tile_sorted types ?s"
    using assms(5) unfolding tile_sorted_def set_parent_parts by (rule top_order_sorted) simp
  consider (ground) "isGroundTile ?it" | (top) "\<not> isGroundTile ?it" "it_alwaysOnTop ?it"
    | (down) "\<not> isGroundTile ?it" "\<not> it_alwaysOnTop ?it" by blast
  then show ?thesis
  proof cases
    case ground
    have ids: "i_id (ts_store s' y) = i_id (ts_store s y)" "topItems (ts_tile s') = topItems (ts_tile s)" for y
      using ground assms(6) False by (auto simp: tile_addItem_def Let_def split: option.splits)
    show ?thesis using assms(5) unfolding tile_sorted_def ids(2) by (rule top_order_sorted) (rule ids(1))
  next
    case top
    define F where "F = find (\<lambda>y. isSplash (type_at types ?s y)) (topItems (ts_tile ?s))"
    define s2 where "s2 = (if isSplash ?it then (case F of None \<Rightarrow> ?s | Some y \<Rightarrow> discard types y ?s) else ?s)"
    have "tile_addItem types x s = Some (flags_for types x (on_tile (with_top (insert_where
        (\<lambda>y. it_alwaysOnTopOrder ?it \<le> it_alwaysOnTopOrder (type_at types s2 y)) x (topItems (ts_tile s2)))) s2))"
      using top False by (simp add: tile_addItem_def Let_def s2_def F_def)
    then have s': "s' = flags_for types x (on_tile (with_top (insert_where
        (\<lambda>y. it_alwaysOnTopOrder ?it \<le> it_alwaysOnTopOrder (type_at types s2 y)) x (topItems (ts_tile s2)))) s2)"
      using assms(6) by simp
    have s2: "tile_ok types s2" "tile_sorted types s2" "i_id (ts_store s2 x) = i_id (ts_store s x)"
    proof (atomize (full), cases "s2 = ?s")
      case True
      then show "tile_ok types s2 \<and> tile_sorted types s2 \<and> i_id (ts_store s2 x) = i_id (ts_store s x)"
        using arr srt by (simp add: arriving_def)
    next
      case neq: False
      then obtain y where y: "F = Some y" and s2: "s2 = discard types y ?s"
        unfolding s2_def by (cases F) (auto split: if_splits)
      note g = splash_gone [OF arr y [unfolded F_def]]
      have "tile_sorted types (tile_removeItem types y 1 ?s)"
        using arr srt by (intro removeItem_sorted) (simp_all add: arriving_def)
      then have "tile_sorted types s2"
        unfolding s2 discard_def tile_sorted_def state_parts set_parent_parts by (rule top_order_sorted) simp
      then show "tile_ok types s2 \<and> tile_sorted types s2 \<and> i_id (ts_store s2 x) = i_id (ts_store s x)"
        using g(1,5) s2 by (simp add: arriving_def)
    qed
    have parts: "topItems (ts_tile s') = insert_where
        (\<lambda>y. it_alwaysOnTopOrder ?it \<le> it_alwaysOnTopOrder (type_at types s2 y)) x (topItems (ts_tile s2))"
      unfolding s' by (simp add: with_top_parts [OF tile_shape_parts(1) [OF tile_okD(1) [OF s2(1)]]])
    have "ts_store s' = ts_store s2" by (simp add: s')
    then show ?thesis
      using insert_top_sorted(1) [OF s2(2) [unfolded tile_sorted_def], of x] s2(3)
      unfolding tile_sorted_def parts by simp
  next
    case down
    obtain s2 b where s2: "(if isMagicField ?it then replace_fields types ?s else Some (?s, True)) = Some (s2, b)"
      "arriving types x s2" "released_some ?s s2"
    proof (cases "isMagicField ?it")
      case True
      have "fields_single types ?s" using assms(2,3) by (auto simp: fields_single_def)
      from fields_gone [OF arr this] show thesis using that True by auto
    next
      case nf: False
      then show thesis using that [of ?s True] arr released_some_refl by simp
    qed
    have "tile_ok types s2" using s2(2) by (simp add: arriving_def)
    then have len: "length (x # downItems (ts_tile s2)) = unat (t_downItemCount (ts_tile s2) + 1)"
      using s2(2) tile_shape_parts(2,3) [OF tile_okD(1) [of types s2]] by (simp add: arriving_def unat_word_ariths)
    have ids: "i_id (ts_store s2 y) = i_id (ts_store s y)" for y using s2(3) by (auto simp: released_some_def)
    have "topItems (ts_tile s') = topItems (ts_tile s2) \<and> (\<forall>y. i_id (ts_store s' y) = i_id (ts_store s2 y))"
      using down False assms(6) s2(1) with_down_parts(2) [OF len]
      by (cases b) (auto simp: tile_addItem_def Let_def)
    then have "topItems (ts_tile s') = topItems (ts_tile s)" "\<And>y. i_id (ts_store s' y) = i_id (ts_store s y)"
      using s2(3) ids by (auto simp: released_some_def)
    then show ?thesis using assms(5) top_order_sorted unfolding tile_sorted_def by metis
  qed
qed


subsection \<open>The map loader\<close>

lemma internalAddItem_ok:
  assumes "tile_ok types s" "x \<notin> lying_on (ts_tile s)" "x < ts_next s"
  shows "tile_ok types (tile_internalAddItem types x s)"
    and "lying_on (ts_tile (tile_internalAddItem types x s)) \<subseteq> insert x (lying_on (ts_tile s))"
proof -
  let ?s = "set_parent OnTile x s" and ?r = "tile_internalAddItem types x s" and ?it = "type_at types s x"
  have ok: "tile_ok types ?s" by (rule set_parent_ok [OF assms(1,2)])
  have nx: "x \<notin> lying_on (ts_tile ?s)" "i_parent (ts_store ?s x) = OnTile" "x < ts_next ?s" using assms(2,3) by simp_all
  have "tile_ok types ?r \<and> lying_on (ts_tile ?r) \<subseteq> insert x (lying_on (ts_tile s))"
  proof (cases "isGroundTile ?it")
    case True
    show ?thesis
    proof (cases "t_ground (ts_tile s)")
      case None
      have nin: "x \<notin> set (t_items (ts_tile s))" using assms(2) by (simp add: lying_on_def)
      have eq: "?r = flags_for types x (on_tile (\<lambda>t. t \<lparr> t_ground := Some x \<rparr>) ?s)"
        using True None by (simp add: tile_internalAddItem_def Let_def)
      have lying: "lying_on ((ts_tile ?s) \<lparr> t_ground := Some x \<rparr>) = insert x (lying_on (ts_tile ?s))"
        using None by (auto simp: lying_on_def)
      have "tile_ok types ?r" unfolding eq
        by (rule attach_ok [OF ok]) (use nx lying shape_new_ground [OF tile_okD(1) [OF ok], of x] nin in simp_all)
      then show ?thesis using lying unfolding eq by simp
    next
      case (Some g)
      then have "?r = ?s" using True by (simp add: tile_internalAddItem_def Let_def)
      then show ?thesis using ok by auto
    qed
  next
    case False
    show ?thesis
    proof (cases "0xFFFF \<le> length (t_items (ts_tile s))")
      case True
      then have "?r = ?s" using False by (simp add: tile_internalAddItem_def Let_def)
      then show ?thesis using ok by auto
    next
      case room: False
      then have arr: "arriving types x ?s" by (intro arriving_start [OF assms]) simp
      show ?thesis
      proof (cases "it_alwaysOnTop ?it")
        case True
        have at: "isAlwaysOnTop types (ts_store ?s) x" using True by (simp add: isAlwaysOnTop_def)
        have "?r = flags_for types x (on_tile (with_top (insert_where
            (\<lambda>y. it_alwaysOnTopOrder ?it < it_alwaysOnTopOrder (type_at types ?s y)) x (topItems (ts_tile ?s)))) ?s)"
          using False room True by (simp add: tile_internalAddItem_def Let_def)
        then show ?thesis using place_top [OF arr at] by simp
      next
        case down: False
        have at: "\<not> isAlwaysOnTop types (ts_store ?s) x" using down by (simp add: isAlwaysOnTop_def)
        have "?r = flags_for types x (on_tile (with_down (x # downItems (ts_tile ?s)) 1) ?s)"
          using False room down by (simp add: tile_internalAddItem_def Let_def)
        then show ?thesis using place_down [OF arr at] by simp
      qed
    qed
  qed
  then show "tile_ok types ?r" "lying_on (ts_tile ?r) \<subseteq> insert x (lying_on (ts_tile s))" by blast+
qed

subsection \<open>Transforming\<close>

text \<open>What is assumed of the table of item types (it comes from a file, nothing in the code checks it): no field is
  stackable, an item that is created for a type is of a type on the same side of the vector, and so is the type
  into which an item decays. The last part is not a formality: \<open>Tile_Properties\<close> shows what happens to a tile
  when a table breaks it.\<close>

definition table_ok :: "item_types \<Rightarrow> bool" where
  "table_ok types \<longleftrightarrow>
     (\<forall>id. it_type (types id) = ITEM_TYPE_MAGICFIELD \<longrightarrow> \<not> it_stackable (types id))
     \<and> (\<forall>id n j. createItem types id n = Some j \<longrightarrow> same_side types (i_id j) id)
     \<and> (\<forall>id. 0 \<le> sint (it_decayTo (types id)) \<longrightarrow> same_side types (word_of_int (sint (it_decayTo (types id)))) id)"

definition field_typed :: "item_types \<Rightarrow> item \<Rightarrow> bool" where
  "field_typed types i \<longleftrightarrow> (i_class i = MagicField \<longrightarrow> it_type (types (i_id i)) = ITEM_TYPE_MAGICFIELD)"

definition tile_inv :: "item_types \<Rightarrow> tile_state \<Rightarrow> bool" where
  "tile_inv types s \<longleftrightarrow> tile_ok types s \<and> (\<forall>x\<in>lying_on (ts_tile s). field_typed types (ts_store s x))"

lemma tile_inv_fields: "table_ok types \<Longrightarrow> tile_inv types s \<Longrightarrow> fields_single types s"
  by (auto simp: tile_inv_def table_ok_def fields_single_def field_typed_def)

lemma tile_invI:
  assumes "tile_ok types s'" "\<And>x. x \<in> lying_on (ts_tile s') \<Longrightarrow> field_typed types (ts_store s' x)"
  shows "tile_inv types s'"
  using assms by (simp add: tile_inv_def)

lemma field_typed_cong: "i_class i = i_class j \<Longrightarrow> i_id i = i_id j \<Longrightarrow> field_typed types i = field_typed types j"
  by (simp add: field_typed_def)

text \<open>Operations that leave class and type of every item as they are.\<close>

definition same_kinds :: "tile_state \<Rightarrow> tile_state \<Rightarrow> bool" where
  "same_kinds s s' \<longleftrightarrow> (\<forall>y. i_class (ts_store s' y) = i_class (ts_store s y) \<and> i_id (ts_store s' y) = i_id (ts_store s y))"

lemma removeItem_kinds: "same_kinds s (tile_removeItem types x n s)"
  by (auto simp: same_kinds_def tile_removeItem_def Let_def split: option.split)

lemma internalAddItem_kinds: "same_kinds s (tile_internalAddItem types x s)"
  by (auto simp: same_kinds_def tile_internalAddItem_def Let_def)

lemma same_kinds_trans: "same_kinds r s \<Longrightarrow> same_kinds s t \<Longrightarrow> same_kinds r t"
  by (simp add: same_kinds_def)

lemma release_kinds: "same_kinds s (release x s)" "same_kinds s (set_parent p x s)"
  by (simp_all add: same_kinds_def)

lemma released_kinds: "released_some s s' \<Longrightarrow> same_kinds s s'"
  by (auto simp: released_some_def same_kinds_def)

lemma addItem_kinds:
  assumes "tile_ok types s" "fields_single types s" "x \<notin> lying_on (ts_tile s)" "x < ts_next s"
    and "tile_addItem types x s = Some s'"
  shows "same_kinds s s'"
proof (cases "0xFFFF \<le> length (t_items (ts_tile s))")
  case True
  then show ?thesis using assms(5) by (simp add: tile_addItem_def same_kinds_def)
next
  case False
  let ?s = "set_parent OnTile x s" and ?it = "type_at types s x"
  have arr: "arriving types x ?s" by (rule arriving_start [OF assms(1,3,4)]) (use False in simp)
  have fs: "fields_single types ?s" using assms(2,3) by (auto simp: fields_single_def)
  obtain s2 b where s2: "replace_fields types ?s = Some (s2, b)" "released_some ?s s2"
    using fields_gone [OF arr fs] by blast
  have k: "same_kinds s s2" using released_kinds [OF s2(2)] by (simp add: same_kinds_def)
  have d: "same_kinds s (discard types y ?s)" for y
    using removeItem_kinds [of ?s types y 1] by (simp add: same_kinds_def discard_def)
  show ?thesis
    using assms(5) False s2(1) k d unfolding tile_addItem_def same_kinds_def
    by (auto simp: Let_def split: if_splits option.splits bool.splits)
qed

lemma addItem_inv:
  assumes "table_ok types" "tile_inv types s" "x \<notin> lying_on (ts_tile s)" "x < ts_next s"
    and "field_typed types (ts_store s x)"
  shows "\<exists>s'. tile_addItem types x s = Some s' \<and> tile_inv types s'"
proof (cases "0xFFFF \<le> length (t_items (ts_tile s))")
  case True
  then show ?thesis using assms(2) by (simp add: tile_addItem_def)
next
  case False
  have ok: "tile_ok types s" using assms(2) by (simp add: tile_inv_def)
  have fs: "fields_single types s" by (rule tile_inv_fields [OF assms(1,2)])
  obtain s' where s': "tile_addItem types x s = Some s'" "tile_ok types s'" "adds x s s'"
    using addItem_ok [OF ok fs assms(3,4)] False by auto
  have "lying_on (ts_tile s') \<subseteq> insert x (lying_on (ts_tile s))" using s'(3) by (auto simp: adds_def)
  then have "tile_inv types s'"
    using addItem_kinds [OF ok fs assms(3,4) s'(1)] assms(2,5) s'(2)
    by (auto simp: tile_inv_def same_kinds_def field_typed_def)
  with s'(1) show ?thesis by blast
qed

lemma removeItem_lying: "tile_ok types s \<Longrightarrow> lying_on (ts_tile (tile_removeItem types x n s)) \<subseteq> lying_on (ts_tile s)"
proof -
  assume ok: "tile_ok types s"
  show ?thesis
  proof (cases "x \<in> lying_on (ts_tile s) \<and> whole_leaves types s x n")
    case True
    then show ?thesis using removeItem_leaves(1) [OF ok] by auto
  next
    case False
    then show ?thesis
      using removeItem_count [OF ok, of x n] removeItem_absent [OF ok, of x n] by (cases "x \<in> lying_on (ts_tile s)") auto
  qed
qed

lemma removeItem_inv: "tile_inv types s \<Longrightarrow> tile_inv types (tile_removeItem types x n s)"
  using removeItem_ok [of types s x n] removeItem_lying [of types s x n] removeItem_kinds [of s types x n]
  by (auto simp: tile_inv_def same_kinds_def field_typed_def)

lemma inv_release [simp]: "tile_inv types (release x s) = tile_inv types s"
  by (simp add: tile_inv_def)

lemma internalRemoveItem_inv: "tile_inv types s \<Longrightarrow> tile_inv types (fst (tile_internalRemoveItem types x n s))"
  by (auto simp: tile_internalRemoveItem_def Let_def removeItem_inv split: return_value.splits)

text \<open>A new object is not on the tile.\<close>

lemma fresh_inv:
  assumes "tile_inv types s"
  shows "tile_inv types (s \<lparr> ts_store := (ts_store s)(ts_next s := j), ts_next := Suc (ts_next s) \<rparr>)" (is "tile_inv types ?s")
    and "ts_next s \<notin> lying_on (ts_tile s)"
proof -
  have ok: "tile_ok types s" using assms by (simp add: tile_inv_def)
  show new: "ts_next s \<notin> lying_on (ts_tile s)" using tile_okD(4) [OF ok, of "ts_next s"] by auto
  have "tile_ok types ?s"
  proof (rule tile_okI)
    show "tile_shape types (ts_store ?s) (ts_tile ?s)"
      using tile_okD(1) [OF ok] new by (auto intro: shape_cong)
    show "bits_are types (ts_store ?s) (t_flags (ts_tile ?s)) (lying_on (ts_tile ?s))"
      using new by (simp) (rule bits_cong [OF tile_okD(2) [OF ok]], auto)
    show "i_parent (ts_store ?s x) = OnTile \<and> x < ts_next ?s" if "x \<in> lying_on (ts_tile ?s)" for x
      using that new tile_okD(3,4) [OF ok, of x] by auto
  qed
  then show "tile_inv types ?s" using assms new by (auto simp: tile_inv_def)
qed

lemma replaceItem_kinds: "tile_replaceItem types index x s = Some s' \<Longrightarrow> same_kinds s s'"
  by (auto simp: tile_replaceItem_def replaced_def same_kinds_def Let_def split: if_splits option.splits nat.splits)

lemma replaceItem_inv:
  assumes "tile_inv types s" "x \<notin> lying_on (ts_tile s)" "x < ts_next s" "index < 2 ^ 31" "field_typed types (ts_store s x)"
    and "\<And>y. tile_getThing index (ts_tile s) = Some (ThingItem y) \<Longrightarrow> y \<in> set (t_items (ts_tile s)) \<Longrightarrow>
       same_side types (i_id (ts_store s x)) (i_id (ts_store s y))"
  shows "\<exists>s'. tile_replaceItem types index x s = Some s' \<and> tile_inv types s' \<and>
    (\<forall>y. tile_getThing index (ts_tile s) = Some (ThingItem y) \<longrightarrow> y \<notin> lying_on (ts_tile s'))"
proof -
  have ok: "tile_ok types s" using assms(1) by (simp add: tile_inv_def)
  obtain s' where s': "tile_replaceItem types index x s = Some s'" "tile_ok types s'"
    "case tile_getThing index (ts_tile s) of
       Some (ThingItem y) \<Rightarrow> lying_on (ts_tile s') = insert x (lying_on (ts_tile s) - {y}) | _ \<Rightarrow> s' = s"
    using replaceItem_ok [OF ok assms(2-4)] assms(6) by (auto simp: same_side_def isAlwaysOnTop_def)
  have "tile_inv types s'"
    using s'(2,3) assms(1,5) replaceItem_kinds [OF s'(1)]
    by (auto simp: tile_inv_def same_kinds_def field_typed_def split: option.splits thing.splits)
  moreover have "y \<notin> lying_on (ts_tile s')" if "tile_getThing index (ts_tile s) = Some (ThingItem y)" for y
  proof -
    have "y \<in> lying_on (ts_tile s)"
    proof -
      have "ThingItem y \<in> set (things (ts_tile s))"
        using that getThing_things [OF tile_okD(1) [OF ok], of index] by (metis nth_mem option.distinct(1) option.inject)
      then show ?thesis by (auto simp: things_def lying_parts split: option.splits)
    qed
    then show ?thesis using s'(3) that assms(2) by auto
  qed
  ultimately show ?thesis using s'(1) by blast
qed


lemma createItem_typed: "createItem types type n = Some j \<Longrightarrow> field_typed types j"
  by (auto simp: createItem_def field_typed_def Let_def container_new_def item_new_def setDuration_def setFluidType_def
      setCharges_def item_setInt_def split: if_splits)

lemma index_thing:
  assumes "tile_ok types s" "tile_getThingIndex types (ts_store s) (ThingItem x) (ts_tile s) = Some index"
  shows "tile_getThing index (ts_tile s) = Some (ThingItem x)" "x \<in> lying_on (ts_tile s)"
    "index < length (things (ts_tile s))"
proof -
  have i: "index_of (ThingItem x) (things (ts_tile s)) = Some index"
    using assms getThingIndex_things [OF tile_okD(1)] by metis
  then show "index < length (things (ts_tile s))" using index_of_Some by fastforce
  then show "tile_getThing index (ts_tile s) = Some (ThingItem x)"
    using getThing_things [OF tile_okD(1) [OF assms(1)], of index] index_of_Some [OF i] by simp
  show "x \<in> lying_on (ts_tile s)"
    using index_item_None [OF tile_okD(1) [OF assms(1)], of x] assms(2) by auto
qed

lemma index_bound:
  assumes "tile_ok types s" "index < length (things (ts_tile s))" "length (t_creatures (ts_tile s)) < 2 ^ 30"
  shows "index < 2 ^ 31"
proof -
  have "length (things (ts_tile s)) \<le> Suc (0xFFFF + length (t_creatures (ts_tile s)))"
    using shape_length [OF tile_okD(1) [OF assms(1)]] by (auto simp: things_def split: option.split)
  then show ?thesis using assms(2,3) by simp
qed

text \<open>The branches of \<open>transformItem\<close>.\<close>

lemma tile_swap_inv:
  assumes "table_ok types" "tile_inv types s" "length (t_creatures (ts_tile s)) < 2 ^ 30"
    and "tile_getThingIndex types (ts_store s) (ThingItem x) (ts_tile s) = Some index"
    and "same_side types type (i_id (ts_store s x))"
  shows "\<exists>s' r. tile_swap types index type n x s = Some (s', r) \<and> tile_inv types s'"
proof (cases "createItem types type n")
  case None
  then show ?thesis using assms(2) by (simp add: tile_swap_def)
next
  case (Some j)
  let ?s = "s \<lparr> ts_store := (ts_store s)(ts_next s := j), ts_next := Suc (ts_next s) \<rparr>"
  have ok: "tile_ok types s" using assms(2) by (simp add: tile_inv_def)
  note idx = index_thing [OF ok assms(4)]
  note fresh = fresh_inv(1) [OF assms(2), of j] fresh_inv(2) [OF assms(2)]
  have side: "same_side types (i_id j) type" using assms(1) Some unfolding table_ok_def by blast
  have "\<exists>s'. tile_replaceItem types index (ts_next s) ?s = Some s' \<and> tile_inv types s' \<and>
    (\<forall>y. tile_getThing index (ts_tile ?s) = Some (ThingItem y) \<longrightarrow> y \<notin> lying_on (ts_tile s'))"
  proof (rule replaceItem_inv)
    show "tile_inv types ?s" by (rule fresh(1))
    show "ts_next s \<notin> lying_on (ts_tile ?s)" using fresh(2) by simp
    show "index < 2 ^ 31" by (rule index_bound [OF ok idx(3) assms(3)])
    show "field_typed types (ts_store ?s (ts_next s))" using createItem_typed [OF Some] by simp
    show "same_side types (i_id (ts_store ?s (ts_next s))) (i_id (ts_store ?s y))"
      if "tile_getThing index (ts_tile ?s) = Some (ThingItem y)" for y
    proof -
      have "y = x" using that idx(1) by simp
      moreover have "x \<noteq> ts_next s" using fresh(2) idx(2) by auto
      ultimately show ?thesis using side assms(5) by (simp add: same_side_def)
    qed
  qed simp
  then obtain s' where s': "tile_replaceItem types index (ts_next s) ?s = Some s'" "tile_inv types s'"
    and nx: "x \<notin> lying_on (ts_tile s')"
    using idx(1) by auto
  have "tile_inv types (set_parent NoParent x s')"
    using set_parent_ok [of types s' x NoParent] s'(2) nx by (auto simp: tile_inv_def)
  then show ?thesis using Some s'(1) by (simp add: tile_swap_def Let_def)
qed


text \<open>New charges do not make an item unique.\<close>

lemma setCharges_unique: "item_has ITEM_ATTRIBUTE_UNIQUEID (setCharges n i) = item_has ITEM_ATTRIBUTE_UNIQUEID i"
proof -
  have "ITEM_ATTRIBUTE_UNIQUEID AND (b OR ITEM_ATTRIBUTE_CHARGES) = ITEM_ATTRIBUTE_UNIQUEID AND b" for b
    by (simp add: ITEM_ATTRIBUTE_UNIQUEID_def ITEM_ATTRIBUTE_CHARGES_def bit.conj_disj_distrib)
  then show ?thesis
    by (auto simp: setCharges_def item_setInt_def item_has_def item_getAttributes_def attr_has_def attrs_setInt_def
        assign_attr_def no_attributes_def split: option.splits)
qed

lemma setDefaultSubtype_unique:
  "item_has ITEM_ATTRIBUTE_UNIQUEID (setDefaultSubtype types i) = item_has ITEM_ATTRIBUTE_UNIQUEID i"
proof -
  have "item_has a (i \<lparr> i_count := n \<rparr>) = item_has a i" for a n by (simp add: item_has_def)
  then show ?thesis by (simp add: setDefaultSubtype_def Let_def setCharges_unique)
qed

lemma default_subtype_inv:
  assumes "tile_inv types s"
  shows "tile_inv types (on_item (setDefaultSubtype types) x s)" (is "tile_inv types ?s")
proof -
  have ok: "tile_ok types s" using assms by (simp add: tile_inv_def)
  have same: "item_hasProperty types p (ts_store ?s y) = item_hasProperty types p (ts_store s y)" for p y
    by (cases p) (simp_all add: setDefaultSubtype_unique)
  have same_marker: "marker n types (ts_store ?s y) = marker n types (ts_store s y)" for n y
    unfolding marker_def same by simp
  have "tile_ok types ?s"
  proof (rule tile_okI)
    show "tile_shape types (ts_store ?s) (ts_tile ?s)"
      using tile_okD(1) [OF ok] by (auto intro: shape_cong)
    show "bits_are types (ts_store ?s) (t_flags (ts_tile ?s)) (lying_on (ts_tile ?s))"
      using tile_okD(2) [OF ok] same same_marker by (simp add: bits_are_def)
    show "i_parent (ts_store ?s y) = OnTile \<and> y < ts_next ?s" if "y \<in> lying_on (ts_tile ?s)" for y
      using that tile_okD(3,4) [OF ok, of y] by auto
  qed
  then show ?thesis using assms by (auto simp: tile_inv_def field_typed_def)
qed

lemma updateItem_inv:
  assumes "tile_inv types s" "same_side types itemId (i_id (item_at s x))"
    and "i_class (item_at s x) = MagicField \<Longrightarrow> it_type (types itemId) = ITEM_TYPE_MAGICFIELD"
  shows "tile_inv types (tile_updateItem types x itemId n s)"
proof (rule tile_invI)
  show "tile_ok types (tile_updateItem types x itemId n s)"
    using assms(1,2) by (simp add: updateItem_ok tile_inv_def)
  have "lying_on (ts_tile (tile_updateItem types x itemId n s)) = lying_on (ts_tile s)"
    by (simp add: tile_updateItem_def split: option.split)
  then show "field_typed types (ts_store (tile_updateItem types x itemId n s) y)"
    if "y \<in> lying_on (ts_tile (tile_updateItem types x itemId n s))" for y
    using that assms(1,3) by (auto simp: tile_updateItem_def tile_inv_def field_typed_def split: option.split)
qed

lemma tile_retype_inv:
  assumes "tile_inv types s" "same_side types newId (i_id (item_at s x))"
    and "it_type (types newId) = it_type (type_at types s x)" "x \<in> lying_on (ts_tile s)"
  shows "tile_inv types (tile_retype types x newId newCount s)"
proof -
  let ?s = "on_item (setDefaultSubtype types) x s"
  have typed: "field_typed types (item_at s x)" using assms(1,4) by (simp add: tile_inv_def)
  have upd: "tile_inv types (tile_updateItem types x itemId n r)"
    if "r = s \<or> r = ?s" "itemId = newId \<or> itemId = i_id (item_at s x)" for itemId n r
  proof (rule updateItem_inv)
    show "tile_inv types r" using that(1) assms(1) default_subtype_inv [OF assms(1)] by auto
    show "same_side types itemId (i_id (item_at r x))" using that assms(2) by (auto simp: same_side_def)
    show "it_type (types itemId) = ITEM_TYPE_MAGICFIELD" if "i_class (item_at r x) = MagicField"
      using that \<open>r = s \<or> r = ?s\<close> \<open>itemId = newId \<or> _\<close> assms(3) typed by (auto simp: field_typed_def)
  qed
  show ?thesis unfolding tile_retype_def Let_def by (rule upd) auto
qed

lemma tile_move_side_inv:
  assumes "table_ok types" "tile_inv types s" "x \<in> lying_on (ts_tile s)"
    and "i_class (item_at s x) = MagicField \<Longrightarrow> it_type (types newId) = ITEM_TYPE_MAGICFIELD"
  shows "\<exists>s' r. tile_move_side types x newId newCount s = Some (s', r) \<and> tile_inv types s'"
proof -
  define s1 where "s1 = tile_removeItem types x (ucast (i_count (item_at s x))) s"
  define s2 where "s2 = on_item (item_setID types newId) x s1"
  define s3 where "s3 = (if newCount \<noteq> -1 then on_item (setSubType types (word_of_int newCount)) x s2 else s2)"
  have ok: "tile_ok types s" using assms(2) by (simp add: tile_inv_def)
  have whole: "whole_leaves types s x (ucast (i_count (item_at s x)))" by (simp add: whole_leaves_def)
  note l = removeItem_leaves [OF ok assms(3) whole, folded s1_def]
  have inv1: "tile_inv types s1" unfolding s1_def by (rule removeItem_inv [OF assms(2)])
  have off: "tile_inv types (on_item f x r)" if "tile_inv types r" "x \<notin> lying_on (ts_tile r)" for f r
    using on_item_ok [of types r x f] that by (auto simp: tile_inv_def)
  have nx: "x \<notin> lying_on (ts_tile s1)" by (simp add: l)
  have inv3: "tile_inv types s3" unfolding s3_def s2_def using off inv1 nx by simp
  have "\<exists>s'. tile_addItem types x s3 = Some s' \<and> tile_inv types s'"
  proof (rule addItem_inv [OF assms(1) inv3])
    show "x \<notin> lying_on (ts_tile s3)" using nx by (simp add: s3_def s2_def)
    show "x < ts_next s3" using tile_okD(4) [OF ok assms(3)] by (simp add: s3_def s2_def l)
    show "field_typed types (ts_store s3 x)"
      using assms(4) by (auto simp: s3_def s2_def l field_typed_def)
  qed
  then obtain s' where s': "tile_addItem types x s3 = Some s'" "tile_inv types s'" by blast
  have "tile_move_side types x newId newCount s
      = (if i_parent (item_at s' x) = NoParent then Some (release x s', None) else Some (s', Some x))"
    using s'(1) by (simp add: tile_move_side_def Let_def s3_def s2_def s1_def split: if_splits)
  then show ?thesis using s'(2) by auto
qed


lemma transformItem_inv:
  assumes "table_ok types" "tile_inv types s" "length (t_creatures (ts_tile s)) < 2 ^ 30"
    and "i_class (item_at s x) = MagicField \<Longrightarrow> it_type (types newId) = ITEM_TYPE_MAGICFIELD"
  shows "\<exists>s' r. tile_transformItem types x newId newCount s = Some (s', r) \<and> tile_inv types s'"
  using assms
proof (induction types x newId newCount s rule: tile_transformItem.induct)
  case (1 types x newId newCount s)
  let ?i = "item_at s x" and ?cur = "type_at types s x" and ?new = "types newId"
  let ?run = "tile_transformItem types x newId newCount s"
  have ok: "tile_ok types s" using "1.prems"(2) by (simp add: tile_inv_def)
  consider (same) "i_id ?i = newId \<and> (newCount = -1 \<or> newCount = int (unat (getSubType types ?i)) \<and> newCount \<noteq> 0)
        \<or> i_parent ?i = NoParent \<or> tile_getThingIndex types (ts_store s) (ThingItem x) (ts_tile s) = None
        \<or> \<not> item_canTransform ?i \<or> it_id ?new = 0"
    | (go) index where "\<not> (i_id ?i = newId \<and> (newCount = -1 \<or> newCount = int (unat (getSubType types ?i)) \<and> newCount \<noteq> 0))"
        "i_parent ?i \<noteq> NoParent" "tile_getThingIndex types (ts_store s) (ThingItem x) (ts_tile s) = Some index"
        "it_id ?new \<noteq> 0" "\<not> \<not> item_canTransform ?i"
    by (cases "tile_getThingIndex types (ts_store s) (ThingItem x) (ts_tile s)") blast+
  then show ?case
  proof cases
    case same
    then have "\<exists>r. ?run = Some (s, r)"
      by (subst tile_transformItem.simps) (auto simp: Let_def split: option.split)
    then show ?thesis using "1.prems"(2) by blast
  next
    case (go index)
    have lies: "x \<in> lying_on (ts_tile s)" by (rule index_thing(2) [OF ok go(3)])
    define rest where "rest = (if it_alwaysOnTop ?cur \<noteq> it_alwaysOnTop ?new then tile_move_side types x newId newCount s
          else if it_type ?cur = it_type ?new then
            if newCount = 0 \<and> (it_stackable ?cur \<or> item_has ITEM_ATTRIBUTE_CHARGES ?i) then
              if it_stackable ?cur then
                Some (fst (tile_internalRemoveItem types x (ucast (i_count ?i)) s), None)
              else
                (let newItemId = (if it_id ?cur = it_id ?new then sint (it_decayTo ?cur) else int (unat newId)) in
                 if newItemId < 0 then Some (fst (tile_internalRemoveItem types x (ucast (i_count ?i)) s), None)
                 else if newItemId \<noteq> int (unat newId) then tile_swap types index (word_of_int newItemId) 1 x s
                 else tile_transformItem types x (word_of_int newItemId) (-1) s)
            else Some (tile_retype types x newId newCount s, Some x)
          else tile_swap types index newId (if newCount = -1 then 0 else word_of_int newCount) x s)"
    have run: "?run = rest"
      unfolding rest_def by (subst tile_transformItem.simps)
        (simp only: Let_def if_not_P [OF go(1)] if_not_P [OF go(2)] if_not_P [OF go(4)] if_not_P [OF go(5)] go(3) option.case)
    have goal: "\<exists>s' r. rest = Some (s', r) \<and> tile_inv types s'"
    proof (cases "it_alwaysOnTop ?cur \<noteq> it_alwaysOnTop ?new")
      case True
      then show ?thesis using tile_move_side_inv [OF "1.prems"(1,2) lies "1.prems"(4)] by (simp add: rest_def)
    next
      case eq: False
      then have side: "same_side types newId (i_id ?i)" by (simp add: same_side_def)
      have rm: "tile_inv types (fst (tile_internalRemoveItem types x n s))" for n
        by (rule internalRemoveItem_inv [OF "1.prems"(2)])
      show ?thesis
      proof (cases "it_type ?cur = it_type ?new")
        case ty: True
        show ?thesis
        proof (cases "newCount = 0 \<and> (it_stackable ?cur \<or> item_has ITEM_ATTRIBUTE_CHARGES ?i)")
          case zero: True
          define k where "k = (if it_id ?cur = it_id ?new then sint (it_decayTo ?cur) else int (unat newId))"
          consider (stack) "it_stackable ?cur" | (gone) "\<not> it_stackable ?cur" "k < 0"
            | (decay) "\<not> it_stackable ?cur" "0 \<le> k" "k \<noteq> int (unat newId)"
            | (again) "\<not> it_stackable ?cur" "0 \<le> k" "k = int (unat newId)" by linarith
          then show ?thesis
          proof cases
            case decay
            then have "same_side types (word_of_int k) (i_id ?i)"
              using "1.prems"(1) by (auto simp: k_def table_ok_def split: if_splits)
            from tile_swap_inv [OF "1.prems"(1-3) go(3) this, of 1] show ?thesis
              using decay eq ty zero by (simp add: rest_def k_def [symmetric])
          next
            case again
            then have k: "word_of_int k = newId" by simp
            have "\<exists>s' r. tile_transformItem types x newId (-1) s = Some (s', r) \<and> tile_inv types s'"
              using "1.IH" [OF refl refl refl go(1,2,3,5,4) _ ty zero again(1) k_def] eq again "1.prems" k by simp
            then show ?thesis using again eq ty zero k by (simp add: rest_def k_def [symmetric])
          qed (use rm eq ty zero in \<open>auto simp: rest_def k_def [symmetric]\<close>)
        next
          case False
          have "rest = Some (tile_retype types x newId newCount s, Some x)"
            unfolding rest_def if_not_P [OF eq] if_P [OF ty] if_not_P [OF False] ..
          then show ?thesis using tile_retype_inv [OF "1.prems"(2) side ty [symmetric] lies] by simp
        qed
      next
        case False
        then show ?thesis
          using eq tile_swap_inv [OF "1.prems"(1-3) go(3) side] by (simp add: rest_def)
      qed
    qed
    then show ?thesis using run by simp
  qed
qed

end
