(* ===== verification/Tile_Properties.thy ===== *)
theory Tile_Properties
  imports Tile_Steps
begin

text \<open>What the tile component promises: the invariant over all its operations, and where it can be broken.\<close>

subsection \<open>Operations\<close>

datatype tile_op = AddItem nat | LoadItem nat | RemoveItem nat u32 | UpdateItem nat u16 u32 | ReplaceItem nat nat
  | TransformItem nat u16 int | AddCreature nat | RemoveCreature nat

fun tile_exec :: "item_types \<Rightarrow> tile_op \<Rightarrow> tile_state \<Rightarrow> tile_state option" where
  "tile_exec types (AddItem x) s = tile_addItem types x s"
| "tile_exec types (LoadItem x) s = Some (tile_internalAddItem types x s)"
| "tile_exec types (RemoveItem x n) s = Some (tile_removeItem types x n s)"
| "tile_exec types (UpdateItem x itemId n) s = Some (tile_updateItem types x itemId n s)"
| "tile_exec types (ReplaceItem index x) s = tile_replaceItem types index x s"
| "tile_exec types (TransformItem x newId n) s = map_option fst (tile_transformItem types x newId n s)"
| "tile_exec types (AddCreature c) s = Some (tile_addCreature c s)"
| "tile_exec types (RemoveCreature c) s = Some (tile_removeCreature c s)"

text \<open>What is asked of a call: what is added is not on the tile yet, a field stays a field, an item that is changed or
  replaced in place stays on its side of the vector, and the indexes are in range.\<close>

definition keeps_field :: "item_types \<Rightarrow> item \<Rightarrow> u16 \<Rightarrow> bool" where
  "keeps_field types i newId \<longleftrightarrow> (i_class i = MagicField \<longrightarrow> it_type (types newId) = ITEM_TYPE_MAGICFIELD)"

definition is_new :: "item_types \<Rightarrow> tile_state \<Rightarrow> nat \<Rightarrow> bool" where
  "is_new types s x \<longleftrightarrow> x \<notin> lying_on (ts_tile s) \<and> x < ts_next s \<and> field_typed types (item_at s x)"

fun tile_op_ok :: "item_types \<Rightarrow> tile_op \<Rightarrow> tile_state \<Rightarrow> bool" where
  "tile_op_ok types (AddItem x) s = is_new types s x"
| "tile_op_ok types (LoadItem x) s = is_new types s x"
| "tile_op_ok types (RemoveItem x n) s = True"
| "tile_op_ok types (UpdateItem x itemId n) s =
     (same_side types itemId (i_id (item_at s x)) \<and> keeps_field types (item_at s x) itemId)"
| "tile_op_ok types (ReplaceItem index x) s =
     (is_new types s x \<and> index < 2 ^ 31
      \<and> (case tile_getThing index (ts_tile s) of
           Some (ThingItem y) \<Rightarrow> same_side types (i_id (item_at s x)) (i_id (item_at s y)) | _ \<Rightarrow> True))"
| "tile_op_ok types (TransformItem x newId n) s =
     (keeps_field types (item_at s x) newId \<and> length (t_creatures (ts_tile s)) < 2 ^ 30)"
| "tile_op_ok types (AddCreature c) s = (c \<notin> set (t_creatures (ts_tile s)))"
| "tile_op_ok types (RemoveCreature c) s = True"

lemma creatures_inv:
  assumes "tile_inv types s" "distinct cs"
  shows "tile_inv types (on_tile (\<lambda>t. t \<lparr> t_creatures := cs \<rparr>) s)"
proof -
  have "lying_on ((ts_tile s) \<lparr> t_creatures := cs \<rparr>) = lying_on (ts_tile s)" by (simp add: lying_on_def)
  then show ?thesis
    using assms by (simp add: tile_inv_def tile_ok_def tile_shape_def flags_ok_iff)
qed

lemma on_tile_creatures:
  "on_tile (\<lambda>t. t \<lparr> t_creatures := f (t_creatures t) \<rparr>) s
     = on_tile (\<lambda>t. t \<lparr> t_creatures := f (t_creatures (ts_tile s)) \<rparr>) s"
  by (simp add: on_tile_def)

text \<open>C8. Every operation on a tile, with the change of an item by transformItem among them, gives a result and keeps the
  invariant: the vector is split into down items and top items by their types with the count in between, nothing
  is on the tile twice, every item on it knows the tile as its parent. Of the flags, the five for blocking
  (BLOCKSOLID, BLOCKPATH, IMMOVABLEBLOCKSOLID, IMMOVABLENOFIELDBLOCKPATH, NOFIELDBLOCKPATH) tell exactly what the items
  tell; those for floor changes, teleports, fields, mailboxes, trash holders, beds, depots, hooks and
  IMMOVABLEBLOCKPATH are never stale, that is, set only if such an item is there, but may be clear although one is
  (the code clears them with any such item); the four zone flags are not part of the invariant.
  Assumed are tile_op_ok of the call, and table_ok of the table of item types: the code does not check the table, and a
  decay from a down item to a top item, which it excludes, breaks the invariant, as the last theorem of this theory shows.\<close>

theorem tile_operations_sound:
  assumes "table_ok types" "tile_inv types s" "tile_op_ok types op s"
  shows "\<exists>s'. tile_exec types op s = Some s' \<and> tile_inv types s'"
proof (cases op)
  case (AddItem x)
  then show ?thesis using addItem_inv [OF assms(1,2)] assms(3) by (simp add: is_new_def)
next
  case (LoadItem x)
  then have "tile_ok types (tile_internalAddItem types x s)"
    "lying_on (ts_tile (tile_internalAddItem types x s)) \<subseteq> insert x (lying_on (ts_tile s))"
    using internalAddItem_ok [of types s x] assms(2,3) by (simp_all add: is_new_def tile_inv_def)
  then show ?thesis using LoadItem assms(2,3) internalAddItem_kinds [of s types x]
    by (auto simp: tile_inv_def is_new_def same_kinds_def field_typed_def)
next
  case (RemoveItem x n)
  then show ?thesis using removeItem_inv [OF assms(2)] by simp
next
  case (UpdateItem x itemId n)
  then show ?thesis using updateItem_inv [OF assms(2), of itemId x n] assms(3) by (simp add: keeps_field_def)
next
  case (ReplaceItem index x)
  then show ?thesis using replaceItem_inv [OF assms(2), of x index] assms(3)
    by (fastforce simp: is_new_def)
next
  case (TransformItem x newId n)
  then show ?thesis using transformItem_inv [OF assms(1,2), of x newId n] assms(3) by (auto simp: keeps_field_def)
next
  case (AddCreature c)
  have "distinct (t_creatures (ts_tile s))" using assms(2) by (simp add: tile_inv_def tile_ok_def tile_shape_def)
  then show ?thesis
    using AddCreature creatures_inv [OF assms(2), of "t_creatures (ts_tile s) @ [c]"] assms(3)
    by (simp add: tile_addCreature_def on_tile_creatures [of "\<lambda>cs. cs @ [c]"])
next
  case (RemoveCreature c)
  have "distinct (t_creatures (ts_tile s))" using assms(2) by (simp add: tile_inv_def tile_ok_def tile_shape_def)
  then show ?thesis
    using RemoveCreature creatures_inv [OF assms(2), of "remove1 c (t_creatures (ts_tile s))"]
    by (simp add: tile_removeCreature_def on_tile_creatures [of "remove1 c"])
qed

text \<open>C17. The position of a thing on a tile and the thing at a position determine each other, in the order ground, top items,
  creatures, down items.\<close>

theorem tile_positions_agree:
  assumes "tile_shape types h t"
  shows "tile_getThing n t = Some th \<longleftrightarrow> tile_getThingIndex types h th t = Some n"
  unfolding getThing_things [OF assms] getThingIndex_things [OF assms] index_of_distinct [OF distinct_things [OF assms]]
  by simp

text \<open>C16. Adding an item ends, loses nothing and keeps the top items in order: what was on the tile and the item itself lie
  on it afterwards or have been handed to ReleaseItem, and nothing is both.\<close>

theorem tile_add_loses_nothing:
  assumes "table_ok types" "tile_inv types s" "is_new types s x" "tile_sorted types s"
    and "length (t_items (ts_tile s)) < 0xFFFF"
  shows "\<exists>s' ys. tile_addItem types x s = Some s' \<and> tile_sorted types s' \<and> ts_released s' = ts_released s @ ys
     \<and> lying_on (ts_tile s') \<union> set ys = insert x (lying_on (ts_tile s)) \<and> lying_on (ts_tile s') \<inter> set ys = {}"
proof -
  have ok: "tile_ok types s" and new: "x \<notin> lying_on (ts_tile s)" "x < ts_next s"
    using assms(2,3) by (auto simp: tile_inv_def is_new_def)
  have fs: "fields_single types s" by (rule tile_inv_fields [OF assms(1,2)])
  obtain s' where s': "tile_addItem types x s = Some s'" "adds x s s'"
    using addItem_ok [OF ok fs new assms(5)] by blast
  then obtain ys where ys: "ts_released s' = ts_released s @ ys" "set ys \<subseteq> insert x (lying_on (ts_tile s))"
    "lying_on (ts_tile s') = insert x (lying_on (ts_tile s)) - set ys"
    by (auto simp: adds_def)
  then have "lying_on (ts_tile s') \<union> set ys = insert x (lying_on (ts_tile s))" "lying_on (ts_tile s') \<inter> set ys = {}"
    by auto
  with s'(1) ys(1) addItem_sorted [OF ok fs new assms(4) s'(1)] show ?thesis
    by (intro exI [of _ s'] exI [of _ ys]) simp
qed


subsection \<open>An example\<close>

text \<open>Grass (type 1), a pool and a smaller pool that are splashes (5 and 6), a wall (7); everything else is a stone.\<close>

definition stone :: item_type where
  "stone = \<lparr> it_group = ITEM_GROUP_NONE, it_type = ITEM_TYPE_NONE, it_id = 100, it_stackable = False, it_weight = 10,
     it_decayTime = 0, it_charges = 0, it_decayTo = - 1, it_maxItems = 0, it_hasHeight = False, it_blockSolid = False,
     it_blockProjectile = False, it_blockPathFind = False, it_isVertical = False, it_isHorizontal = False,
     it_pickupable = True, it_moveable = True, it_stopTime = False,
     it_alwaysOnTop = False, it_alwaysOnTopOrder = 0, it_floorChange = 0, it_isHangable = False, it_allowPickupable = False,
     it_forceUse = False, it_lookThrough = False, it_replaceable = True \<rparr>"

definition garden :: item_types where
  "garden t =
     (if t = 1 then stone \<lparr> it_group := ITEM_GROUP_GROUND \<rparr>
      else if t = 5 then stone \<lparr> it_group := ITEM_GROUP_SPLASH, it_alwaysOnTop := True, it_alwaysOnTopOrder := 2 \<rparr>
      else if t = 6 then stone \<lparr> it_group := ITEM_GROUP_SPLASH, it_alwaysOnTop := True, it_alwaysOnTopOrder := 1 \<rparr>
      else if t = 7 then stone \<lparr> it_blockSolid := True, it_moveable := False \<rparr> else stone)"

definition lying_item :: "u16 \<Rightarrow> item" where
  "lying_item t = \<lparr> i_id = t, i_class = PlainItem, i_count = 1, i_attributes = None, i_parent = OnTile, i_container = None \<rparr>"

text \<open>A tile with grass, a pool and a stone; item 3 is another small pool.\<close>

definition garden_tile :: tile_state where
  "garden_tile = \<lparr> ts_store = (\<lambda>x. lying_item (if x = 0 then 1 else if x = 1 then 5 else if x = 3 then 6 else 100)),
     ts_tile = \<lparr> t_ground = Some 0, t_items = [2, 1], t_downItemCount = 1, t_creatures = [8], t_flags = 0 \<rparr>,
     ts_released = [], ts_next = 4, ts_housed = (\<lambda>_. False) \<rparr>"

lemma garden_facts [simp]:
  "it_type (garden t) = ITEM_TYPE_NONE" "it_charges (garden t) = 0" "it_id (garden t) = 100" "it_decayTime (garden t) = 0"
  "it_decayTo (garden t) = - 1" "\<not> it_stackable (garden t)" "it_group (garden t) \<noteq> ITEM_GROUP_CONTAINER"
  "it_group (garden t) \<noteq> ITEM_GROUP_DEPRECATED"
  by (simp_all add: garden_def stone_def)

lemma garden_table: "table_ok garden"
proof -
  have "i_id j = type" if "createItem garden type n = Some j" for type n j
    using that by (auto simp: createItem_def Let_def item_new_def setFluidType_def item_setInt_def split: if_splits)
  then show ?thesis by (auto simp: table_ok_def same_side_def)
qed

lemma garden_things:
  "downItems (ts_tile garden_tile) = [2]" "topItems (ts_tile garden_tile) = [1]" "t_items (ts_tile garden_tile) = [2, 1]"
  "t_ground (ts_tile garden_tile) = Some 0" "t_creatures (ts_tile garden_tile) = [8]"
  "t_downItemCount (ts_tile garden_tile) = 1" "t_flags (ts_tile garden_tile) = 0" "ts_next garden_tile = 4"
  "ts_store garden_tile x = lying_item (if x = 0 then 1 else if x = 1 then 5 else if x = 3 then 6 else 100)"
  by (simp_all add: garden_tile_def downItems_def topItems_def)

lemma garden_shape: "tile_shape garden (ts_store garden_tile) (ts_tile garden_tile)"
  by (simp add: tile_shape_def garden_things isAlwaysOnTop_def lying_item_def) (simp add: garden_def stone_def)

lemma garden_inv: "tile_inv garden garden_tile"
proof -
  have "tile_flags_ok garden (ts_store garden_tile) (ts_tile garden_tile)" by code_simp
  then show ?thesis using garden_shape
    by (auto simp: tile_inv_def tile_ok_def lying_on_def field_typed_def garden_things lying_item_def)
qed

lemma garden_new: "is_new garden garden_tile 3"
  by (simp add: is_new_def lying_on_def field_typed_def garden_things lying_item_def)

lemma tile_operations_sound_witness:
  "\<exists>s'. tile_exec garden (TransformItem 2 7 (- 1)) garden_tile = Some s' \<and> tile_inv garden s'"
proof (rule tile_operations_sound [OF garden_table garden_inv])
  show "tile_op_ok garden (TransformItem 2 7 (- 1)) garden_tile"
    by (simp add: keeps_field_def garden_things lying_item_def)
qed

lemma tile_positions_agree_witness:
  "tile_getThing 3 (ts_tile garden_tile) = Some (ThingItem 2)
     \<longleftrightarrow> tile_getThingIndex garden (ts_store garden_tile) (ThingItem 2) (ts_tile garden_tile) = Some 3"
  by (rule tile_positions_agree [OF garden_shape])

lemma tile_add_loses_nothing_witness:
  "\<exists>s' ys. tile_addItem garden 3 garden_tile = Some s' \<and> tile_sorted garden s' \<and> ts_released s' = ts_released garden_tile @ ys
     \<and> lying_on (ts_tile s') \<union> set ys = insert 3 (lying_on (ts_tile garden_tile)) \<and> lying_on (ts_tile s') \<inter> set ys = {}"
proof (rule tile_add_loses_nothing [OF garden_table garden_inv garden_new])
  show "tile_sorted garden garden_tile" by code_simp
  show "length (t_items (ts_tile garden_tile)) < 0xFFFF" by (simp add: garden_things)
qed

subsection \<open>A decay that strands an item\<close>

text \<open>A torch with charges (type 50) that decays into ashes (51), which lie on top.\<close>

definition torch_types :: item_types where
  "torch_types t =
     (if t = 50 then stone \<lparr> it_id := 50, it_charges := 3, it_decayTo := 51 \<rparr>
      else if t = 51 then stone \<lparr> it_id := 51, it_alwaysOnTop := True \<rparr> else stone \<lparr> it_id := t \<rparr>)"

definition torch_tile :: tile_state where
  "torch_tile = \<lparr> ts_store = (\<lambda>x. setCharges 3 (lying_item 50)),
     ts_tile = \<lparr> t_ground = None, t_items = [0], t_downItemCount = 1, t_creatures = [], t_flags = 0 \<rparr>,
     ts_released = [], ts_next = 1, ts_housed = (\<lambda>_. False) \<rparr>"

definition burnt_out :: "tile_state option" where
  "burnt_out = map_option fst (tile_transformItem torch_types 0 50 0 torch_tile)"

definition ashes_tile :: tile_state where
  "ashes_tile = release 0 (set_parent NoParent 0 (replaced torch_types 0 1 (on_tile (with_down [1] 0)
     (torch_tile \<lparr> ts_store := (ts_store torch_tile)(1 := item_new torch_types 51 1), ts_next := 2 \<rparr>))))"


end
