(* ===== verification/Tile_Queries.thy ===== *)
theory Tile_Queries
  imports Tile_Properties Container_Items
begin

text \<open>
  What others ask a tile: whether a thing may be added (\<open>queryAdd\<close>), where a thing that steps on it ends up
  (\<open>queryDestination\<close>), where a client sees a thing (the stack positions), and which thing is used or
  looked at. Creatures are asked through the answers they give.
\<close>

subsection \<open>Things by kind\<close>

definition getTopTopItem :: "tile \<Rightarrow> nat option" where
  "getTopTopItem t = (if topItems t = [] then None else Some (last (topItems t)))"

definition getTopDownItem :: "tile \<Rightarrow> nat option" where
  "getTopDownItem t = (case downItems t of [] \<Rightarrow> None | x # _ \<Rightarrow> Some x)"

definition getTopCreature :: "tile \<Rightarrow> nat option" where
  "getTopCreature t = (case t_creatures t of [] \<Rightarrow> None | c # _ \<Rightarrow> Some c)"

definition getBottomCreature :: "tile \<Rightarrow> nat option" where
  "getBottomCreature t = (if t_creatures t = [] then None else Some (last (t_creatures t)))"

definition getFieldItem :: "item_store \<Rightarrow> tile \<Rightarrow> nat option" where
  "getFieldItem h t =
     (if \<not> hasFlag t TILESTATE_MAGICFIELD then None
      else case t_ground t of
        Some g \<Rightarrow> if i_class (h g) = MagicField then Some g
                  else find (\<lambda>x. i_class (h x) = MagicField) (rev (t_items t))
      | None \<Rightarrow> find (\<lambda>x. i_class (h x) = MagicField) (rev (t_items t)))"

definition getTeleportItem :: "item_store \<Rightarrow> tile \<Rightarrow> nat option" where
  "getTeleportItem h t =
     (if \<not> hasFlag t TILESTATE_TELEPORT then None else find (\<lambda>x. i_class (h x) = Teleport) (rev (t_items t)))"

definition getItemByTopOrder :: "item_types \<Rightarrow> item_store \<Rightarrow> int \<Rightarrow> tile \<Rightarrow> nat option" where
  "getItemByTopOrder types h topOrder t =
     find (\<lambda>x. int (unat (it_alwaysOnTopOrder (types (i_id (h x))))) = topOrder) (rev (topItems t))"

definition getUseItem :: "item_types \<Rightarrow> item_store \<Rightarrow> tile \<Rightarrow> nat option" where
  "getUseItem types h t =
     (if t_items t = [] then t_ground t
      else case find (\<lambda>x. it_forceUse (types (i_id (h x))) \<and> it_group (types (i_id (h x))) \<noteq> ITEM_GROUP_CONTAINER)
                  (rev (t_items t)) of
        Some x \<Rightarrow> Some x
      | None \<Rightarrow> (case getTopDownItem t of Some x \<Rightarrow> Some x | None \<Rightarrow> getTopTopItem t))"

definition isMoveableBlocking :: "tile \<Rightarrow> bool" where
  "isMoveableBlocking t \<longleftrightarrow> t_ground t = None \<or> hasFlag t TILESTATE_BLOCKSOLID"

text \<open>Who looks: nobody in particular, a player with all rights, or a creature by what it can see.
  \<open>shown\<close> are the creatures that are neither invisible nor ghosts.\<close>

datatype viewer = Nobody | AllRights | Viewer "nat \<Rightarrow> bool"

definition getTopVisibleCreature :: "(nat \<Rightarrow> bool) \<Rightarrow> viewer \<Rightarrow> tile \<Rightarrow> nat option" where
  "getTopVisibleCreature shown v t =
     (case v of
        AllRights \<Rightarrow> getTopCreature t
      | Viewer sees \<Rightarrow> find sees (t_creatures t)
      | Nobody \<Rightarrow> find shown (t_creatures t))"

definition getBottomVisibleCreature :: "(nat \<Rightarrow> bool) \<Rightarrow> viewer \<Rightarrow> tile \<Rightarrow> nat option" where
  "getBottomVisibleCreature shown v t =
     (case v of
        AllRights \<Rightarrow> getBottomCreature t
      | Viewer sees \<Rightarrow> find sees (rev (t_creatures t))
      | Nobody \<Rightarrow> find shown (rev (t_creatures t)))"

definition getTopVisibleThing ::
    "item_types \<Rightarrow> item_store \<Rightarrow> (nat \<Rightarrow> bool) \<Rightarrow> viewer \<Rightarrow> tile \<Rightarrow> thing option" where
  "getTopVisibleThing types h shown v t =
     (case getTopVisibleCreature shown v t of
        Some c \<Rightarrow> Some (ThingCreature c)
      | None \<Rightarrow>
          (case find (\<lambda>x. \<not> it_lookThrough (types (i_id (h x)))) (downItems t) of
             Some x \<Rightarrow> Some (ThingItem x)
           | None \<Rightarrow>
               (case find (\<lambda>x. \<not> it_lookThrough (types (i_id (h x)))) (rev (topItems t)) of
                  Some x \<Rightarrow> Some (ThingItem x)
                | None \<Rightarrow> map_option ThingItem (t_ground t))))"

subsection \<open>Stack positions\<close>

text \<open>The client shows ten things. \<open>None\<close> is the position -1.\<close>

fun stack_top :: "nat \<Rightarrow> nat list \<Rightarrow> nat \<Rightarrow> (nat option, nat) sum" where
  "stack_top x [] n = Inr n"
| "stack_top x (y # ys) n = (if y = x then Inl (Some n) else if n + 1 = 10 then Inl None else stack_top x ys (n + 1))"

fun stack_creatures :: "(nat \<Rightarrow> bool) \<Rightarrow> nat list \<Rightarrow> nat \<Rightarrow> nat option" where
  "stack_creatures sees [] n = Some n"
| "stack_creatures sees (c # cs) n =
     (if sees c then if 10 \<le> n + 1 then None else stack_creatures sees cs (n + 1) else stack_creatures sees cs n)"

fun stack_down :: "nat \<Rightarrow> nat list \<Rightarrow> nat \<Rightarrow> nat option" where
  "stack_down x [] n = None"
| "stack_down x (y # ys) n = (if y = x then Some n else if 10 \<le> n + 1 then None else stack_down x ys (n + 1))"

definition getStackposOfItem :: "item_types \<Rightarrow> item_store \<Rightarrow> (nat \<Rightarrow> bool) \<Rightarrow> nat \<Rightarrow> tile \<Rightarrow> nat option" where
  "getStackposOfItem types h sees x t =
     (if t_ground t = Some x then Some 0
      else
        (let n = (if t_ground t = None then 0 else 1) in
         case (if isAlwaysOnTop types h x then stack_top x (topItems t) n
               else if 10 \<le> n + getTopItemCount t then Inl None else Inr (n + getTopItemCount t)) of
           Inl r \<Rightarrow> r
         | Inr n \<Rightarrow>
             (case stack_creatures sees (t_creatures t) n of
                None \<Rightarrow> None
              | Some n \<Rightarrow> if isAlwaysOnTop types h x then None else stack_down x (downItems t) n)))"

fun stack_creature :: "(nat \<Rightarrow> bool) \<Rightarrow> nat \<Rightarrow> nat list \<Rightarrow> nat \<Rightarrow> nat option" where
  "stack_creature sees c [] n = None"
| "stack_creature sees c (d # ds) n =
     (if d = c then Some n
      else if sees d then if 10 \<le> n + 1 then None else stack_creature sees c ds (n + 1)
      else stack_creature sees c ds n)"

definition getStackposOfCreature :: "(nat \<Rightarrow> bool) \<Rightarrow> nat \<Rightarrow> tile \<Rightarrow> nat option" where
  "getStackposOfCreature sees c t =
     (let n = (if t_ground t = None then 0 else 1) + getTopItemCount t in
      if 10 \<le> n then None else stack_creature sees c (rev (t_creatures t)) n)"

fun client_index :: "(nat \<Rightarrow> bool) \<Rightarrow> nat \<Rightarrow> nat list \<Rightarrow> nat \<Rightarrow> nat option" where
  "client_index sees c [] n = None"
| "client_index sees c (d # ds) n =
     (if d = c then Some n else client_index sees c ds (if sees d then n + 1 else n))"

definition getClientIndexOfCreature :: "(nat \<Rightarrow> bool) \<Rightarrow> nat \<Rightarrow> tile \<Rightarrow> nat option" where
  "getClientIndexOfCreature sees c t =
     client_index sees c (rev (t_creatures t)) ((if t_ground t = None then 0 else 1) + getTopItemCount t)"


text \<open>What a client has on a tile, in its order: the creatures it sees stand in the reverse order of the vector.\<close>

definition client_things :: "(nat \<Rightarrow> bool) \<Rightarrow> tile \<Rightarrow> thing list" where
  "client_things sees t = map ThingItem (case t_ground t of None \<Rightarrow> [] | Some g \<Rightarrow> [g]) @ map ThingItem (topItems t)
     @ map ThingCreature (rev (filter sees (t_creatures t))) @ map ThingItem (downItems t)"

definition shown_index :: "nat option \<Rightarrow> nat option" where
  "shown_index r = (case r of None \<Rightarrow> None | Some n \<Rightarrow> if n < 10 then Some n else None)"

lemma shown_index_simps [simp]:
  "shown_index None = None" "shown_index (Some n) = (if n < 10 then Some n else None)"
  by (simp_all add: shown_index_def)

lemma stack_top_eq:
  "n < 10 \<Longrightarrow> stack_top x xs n =
     (case index_of x xs of
        Some k \<Rightarrow> Inl (shown_index (Some (n + k)))
      | None \<Rightarrow> if n + length xs < 10 then Inr (n + length xs) else Inl None)"
proof (induction xs arbitrary: n)
  case (Cons y ys)
  show ?case
  proof (cases "y = x \<or> n + 1 = 10")
    case True
    then show ?thesis using Cons.prems by (auto split: option.split)
  next
    case False
    then have "n + 1 < 10" using Cons.prems by simp
    from Cons.IH [OF this] False show ?thesis by (auto split: option.split)
  qed
qed simp

lemma stack_creatures_eq:
  "n < 10 \<Longrightarrow> stack_creatures sees cs n =
     (if n + length (filter sees cs) < 10 then Some (n + length (filter sees cs)) else None)"
  by (induction cs arbitrary: n) auto

lemma stack_down_eq: "n < 10 \<Longrightarrow> stack_down x xs n = shown_index (map_option (\<lambda>k. n + k) (index_of x xs))"
proof (induction xs arbitrary: n)
  case (Cons y ys)
  show ?case
  proof (cases "y = x \<or> 10 \<le> n + 1")
    case True
    then show ?thesis using Cons.prems by (cases "index_of x ys") auto
  next
    case False
    then have "n + 1 < 10" by simp
    from Cons.IH [OF this] False show ?thesis by (cases "index_of x ys") auto
  qed
qed simp

lemma stack_creature_eq:
  "n < 10 \<Longrightarrow> sees c \<Longrightarrow>
     stack_creature sees c cs n = shown_index (map_option (\<lambda>k. n + k) (index_of c (filter sees cs)))"
proof (induction cs arbitrary: n)
  case (Cons d ds)
  show ?case
  proof (cases "d = c \<or> \<not> sees d \<or> 10 \<le> n + 1")
    case True
    then show ?thesis using Cons by (cases "index_of c (filter sees ds)") auto
  next
    case False
    then have "n + 1 < 10" by simp
    from Cons.IH [OF this Cons.prems(2)] False show ?thesis by (cases "index_of c (filter sees ds)") auto
  qed
qed simp

lemma item_no_creature: "index_of (ThingItem x) (map ThingCreature cs) = None"
  "index_of (ThingCreature c) (map ThingItem xs) = None"
  by (rule index_of_absent; auto)+

definition getStackpos ::
    "item_types \<Rightarrow> item_store \<Rightarrow> (nat \<Rightarrow> bool) \<Rightarrow> thing \<Rightarrow> tile \<Rightarrow> nat option" where
  "getStackpos types h sees th t =
     (case th of ThingItem x \<Rightarrow> getStackposOfItem types h sees x t | ThingCreature c \<Rightarrow> getStackposOfCreature sees c t)"

text \<open>C20. The stack positions that the server sends are the positions in the order of the client: for an item, and for a
  creature that the player sees, the position is its index in that order if it is among the first ten things, and
  otherwise -1. A thing that is not on the tile has no position.\<close>

theorem stackpos_is_client_index:
  assumes "tile_shape types h t" "\<And>c. th = ThingCreature c \<Longrightarrow> sees c"
  shows "getStackpos types h sees th t = shown_index (index_of th (client_things sees t))"
proof (cases th)
  case (ThingCreature c)
  have "sees c" using assms(2) ThingCreature by blast
  then show ?thesis using ThingCreature
    by (cases "t_ground t"; cases "index_of c (rev (filter sees (t_creatures t)))")
      (auto simp: getStackpos_def getStackposOfCreature_def client_things_def index_of_append item_no_creature
        index_of_map [OF inj_thing(2)] stack_creature_eq length_topItems Let_def rev_filter [symmetric])
next
  case (ThingItem x)
  note parts = tile_shape_parts [OF assms(1)]
  show ?thesis
  proof (cases "isAlwaysOnTop types h x")
    case True
    then have "x \<notin> set (downItems t)" using parts(9) by blast
    then have "index_of x (downItems t) = None" by (rule index_of_absent)
    then show ?thesis using ThingItem True
      by (cases "t_ground t"; cases "index_of x (topItems t)")
        (auto simp: getStackpos_def getStackposOfItem_def client_things_def index_of_append item_no_creature
          index_of_map [OF inj_thing(1)] stack_top_eq Let_def split: option.split)
  next
    case False
    then have "x \<notin> set (topItems t)" using parts(10) by blast
    then have "index_of x (topItems t) = None" by (rule index_of_absent)
    then show ?thesis using ThingItem False
      by (cases "t_ground t"; cases "index_of x (downItems t)")
        (auto simp: getStackpos_def getStackposOfItem_def client_things_def index_of_append item_no_creature
          index_of_map [OF inj_thing(1)] stack_creatures_eq stack_down_eq length_topItems Let_def rev_filter [symmetric])
  qed
qed

lemma stackpos_is_client_index_witness:
  "getStackpos garden (ts_store garden_tile) (\<lambda>c. c = 8) (ThingCreature 8) (ts_tile garden_tile)
     = shown_index (index_of (ThingCreature 8) (client_things (\<lambda>c. c = 8) (ts_tile garden_tile)))"
  by (rule stackpos_is_client_index [OF garden_shape]) simp

end
