(* ===== verification/Tile_Entry.thy ===== *)
theory Tile_Entry
  imports Tile_Queries
begin

text \<open>
  Who may enter a tile and what may be put on it (\<open>Tile::queryAdd\<close>), and where a step on it leads
  (\<open>Tile::queryDestination\<close>), in \<^verbatim>\<open>src/src/tile.cpp\<close>. The creature that moves and those on the tile
  appear as what they answer.
\<close>

subsection \<open>Creatures\<close>

definition FLAG_IGNOREBLOCKITEM :: u32 where "FLAG_IGNOREBLOCKITEM = push_bit 1 1"
definition FLAG_IGNOREBLOCKCREATURE :: u32 where "FLAG_IGNOREBLOCKCREATURE = push_bit 2 1"
definition FLAG_PATHFINDING :: u32 where "FLAG_PATHFINDING = push_bit 4 1"
definition FLAG_IGNOREFIELDDAMAGE :: u32 where "FLAG_IGNOREFIELDDAMAGE = push_bit 5 1"

text \<open>A creature on the tile: a player or a monster, a ghost, pushable, the summon of a player.\<close>

record bystander =
  by_player :: bool
  by_monster :: bool
  by_ghost :: bool
  by_pushable :: bool
  by_playerSummon :: bool

text \<open>The creature that wants to enter. \<open>immune\<close> and \<open>afflicted\<close> are asked for the field on the tile.\<close>

record monster_mover =
  mm_pushCreatures :: bool
  mm_pushItems :: bool
  mm_summon :: bool
  mm_immune :: "nat \<Rightarrow> bool"
  mm_afflicted :: "nat \<Rightarrow> bool"

record player_mover =
  pm_access :: bool
  pm_tile :: "tile option"
  pm_pzLocked :: bool

datatype mover = MonsterMover monster_mover | PlayerMover player_mover | NpcMover

definition by_ghost_player :: "bystander \<Rightarrow> bool" where
  "by_ghost_player b \<longleftrightarrow> by_player b \<and> by_ghost b"

definition unpushable :: "bystander \<Rightarrow> bool" where
  "unpushable b \<longleftrightarrow> \<not> by_ghost_player b \<and> (\<not> by_monster b \<or> \<not> by_pushable b \<or> by_playerSummon b)"

definition in_the_way :: "(nat \<Rightarrow> bystander) \<Rightarrow> tile \<Rightarrow> bool" where
  "in_the_way who t \<longleftrightarrow> list_ex (\<lambda>c. \<not> by_ghost (who c)) (t_creatures t)"

definition queryAdd_monster ::
    "item_types \<Rightarrow> item_store \<Rightarrow> (nat \<Rightarrow> bystander) \<Rightarrow> monster_mover \<Rightarrow> u32 \<Rightarrow> tile \<Rightarrow> return_value" where
  "queryAdd_monster types h who m flags t =
     (if hasFlag t (TILESTATE_PROTECTIONZONE OR TILESTATE_FLOORCHANGE OR TILESTATE_TELEPORT) then RETURNVALUE_NOTPOSSIBLE
      else if mm_pushCreatures m \<and> \<not> mm_summon m \<and> list_ex (\<lambda>c. unpushable (who c)) (t_creatures t)
      then RETURNVALUE_NOTPOSSIBLE
      else if \<not> (mm_pushCreatures m \<and> \<not> mm_summon m) \<and> in_the_way who t then RETURNVALUE_NOTENOUGHROOM
      else if hasFlag t TILESTATE_IMMOVABLEBLOCKSOLID then RETURNVALUE_NOTPOSSIBLE
      else if hasBitSet FLAG_PATHFINDING flags \<and> hasFlag t TILESTATE_IMMOVABLENOFIELDBLOCKPATH
      then RETURNVALUE_NOTPOSSIBLE
      else if (hasFlag t TILESTATE_BLOCKSOLID
               \<or> hasBitSet FLAG_PATHFINDING flags \<and> hasFlag t TILESTATE_NOFIELDBLOCKPATH)
              \<and> \<not> (mm_pushItems m \<or> hasBitSet FLAG_IGNOREBLOCKITEM flags)
      then RETURNVALUE_NOTPOSSIBLE
      else case getFieldItem h t of
        None \<Rightarrow> RETURNVALUE_NOERROR
      | Some f \<Rightarrow>
          if \<not> it_blockSolid (types (i_id (h f))) \<and> \<not> mm_immune m f
             \<and> (hasBitSet FLAG_IGNOREFIELDDAMAGE flags \<longrightarrow> \<not> (mm_pushItems m \<or> mm_afflicted m f))
          then RETURNVALUE_NOTPOSSIBLE else RETURNVALUE_NOERROR)"

text \<open>The solid things that cannot be moved, for a query that ignores the others.\<close>

definition solid_fixed :: "item_types \<Rightarrow> item \<Rightarrow> bool" where
  "solid_fixed types i \<longleftrightarrow>
     it_blockSolid (types (i_id i)) \<and> (\<not> it_moveable (types (i_id i)) \<or> item_has ITEM_ATTRIBUTE_UNIQUEID i)"

definition queryAdd_solid :: "item_types \<Rightarrow> item_store \<Rightarrow> u32 \<Rightarrow> tile \<Rightarrow> return_value" where
  "queryAdd_solid types h flags t =
     (if \<not> hasBitSet FLAG_IGNOREBLOCKITEM flags then
        (if hasFlag t TILESTATE_BLOCKSOLID then RETURNVALUE_NOTENOUGHROOM else RETURNVALUE_NOERROR)
      else if (case t_ground t of None \<Rightarrow> False | Some g \<Rightarrow> solid_fixed types (h g))
              \<or> list_ex (\<lambda>x. solid_fixed types (h x)) (t_items t)
      then RETURNVALUE_NOTPOSSIBLE else RETURNVALUE_NOERROR)"

text \<open>The test of a player against the zones; \<open>None\<close> is no refusal. A player without a tile logs in.\<close>

definition pz_refusal :: "tile \<Rightarrow> tile \<Rightarrow> return_value option" where
  "pz_refusal from t =
     (if \<not> hasFlag from TILESTATE_PVPZONE \<and> hasFlag t TILESTATE_PVPZONE
      then Some RETURNVALUE_PLAYERISPZLOCKEDENTERPVPZONE
      else if hasFlag from TILESTATE_PVPZONE \<and> \<not> hasFlag t TILESTATE_PVPZONE
      then Some RETURNVALUE_PLAYERISPZLOCKEDLEAVEPVPZONE
      else if \<not> hasFlag from TILESTATE_NOPVPZONE \<and> hasFlag t TILESTATE_NOPVPZONE
              \<or> \<not> hasFlag from TILESTATE_PROTECTIONZONE \<and> hasFlag t TILESTATE_PROTECTIONZONE
      then Some RETURNVALUE_PLAYERISPZLOCKED
      else None)"

definition queryAdd_player ::
    "item_types \<Rightarrow> item_store \<Rightarrow> (nat \<Rightarrow> bystander) \<Rightarrow> player_mover \<Rightarrow> u32 \<Rightarrow> tile \<Rightarrow> return_value" where
  "queryAdd_player types h who p flags t =
     (if \<not> hasBitSet FLAG_IGNOREBLOCKCREATURE flags \<and> \<not> pm_access p \<and> in_the_way who t
      then RETURNVALUE_NOTPOSSIBLE
      else if pm_tile p = None \<and> hasFlag t TILESTATE_NOLOGOUT then RETURNVALUE_NOTPOSSIBLE
      else case (case pm_tile p of None \<Rightarrow> None
                 | Some from \<Rightarrow> if pm_pzLocked p then pz_refusal from t else None) of
        Some r \<Rightarrow> r
      | None \<Rightarrow> queryAdd_solid types h flags t)"

definition tile_queryAdd_creature ::
    "item_types \<Rightarrow> item_store \<Rightarrow> (nat \<Rightarrow> bystander) \<Rightarrow> mover \<Rightarrow> bool \<Rightarrow> u32 \<Rightarrow> tile \<Rightarrow> return_value" where
  "tile_queryAdd_creature types h who m moveLocked flags t =
     (if hasBitSet FLAG_NOLIMIT flags then RETURNVALUE_NOERROR
      else if hasBitSet FLAG_PATHFINDING flags \<and> hasFlag t (TILESTATE_FLOORCHANGE OR TILESTATE_TELEPORT)
      then RETURNVALUE_NOTPOSSIBLE
      else if moveLocked \<or> t_ground t = None then RETURNVALUE_NOTPOSSIBLE
      else case m of
        MonsterMover m \<Rightarrow> queryAdd_monster types h who m flags t
      | PlayerMover p \<Rightarrow> queryAdd_player types h who p flags t
      | NpcMover \<Rightarrow>
          if \<not> hasBitSet FLAG_IGNOREBLOCKCREATURE flags \<and> in_the_way who t then RETURNVALUE_NOTENOUGHROOM
          else queryAdd_solid types h flags t)"

subsection \<open>Items\<close>

text \<open>A solid thing refuses the item unless it lets pickupable things pass or carries them.\<close>

definition carries :: "item_type \<Rightarrow> item_type \<Rightarrow> bool" where
  "carries iiType it \<longleftrightarrow>
     \<not> it_blockSolid iiType
     \<or> it_allowPickupable iiType \<and> \<not> isMagicField it \<and> \<not> it_blockSolid it
     \<or> it_pickupable it \<and> \<not> (\<not> it_hasHeight iiType \<or> it_pickupable iiType \<or> isBed iiType)"

definition tile_queryAdd_item ::
    "item_types \<Rightarrow> item_store \<Rightarrow> (nat \<Rightarrow> bystander) \<Rightarrow> item \<Rightarrow> u32 \<Rightarrow> tile \<Rightarrow> return_value" where
  "tile_queryAdd_item types h who i flags t =
     (let it = types (i_id i) in
      if 0x3E8 \<le> length (t_items t) then RETURNVALUE_NOTPOSSIBLE
      else if hasBitSet FLAG_NOLIMIT flags then RETURNVALUE_NOERROR
      else if t_ground t = None \<and> \<not> it_isHangable it then RETURNVALUE_NOTPOSSIBLE
      else if it_blockSolid it \<and> \<not> hasBitSet FLAG_IGNOREBLOCKCREATURE flags \<and> in_the_way who t
      then RETURNVALUE_NOTENOUGHROOM
      else if it_isHangable it \<and> hasFlag t TILESTATE_SUPPORTS_HANGABLE then
        (if list_ex (\<lambda>x. it_isHangable (types (i_id (h x)))) (t_items t) then RETURNVALUE_NEEDEXCHANGE
         else RETURNVALUE_NOERROR)
      else if (case t_ground t of None \<Rightarrow> False | Some g \<Rightarrow> \<not> carries (types (i_id (h g))) it)
              \<or> list_ex (\<lambda>x. \<not> carries (types (i_id (h x))) it) (t_items t)
      then RETURNVALUE_NOTENOUGHROOM
      else RETURNVALUE_NOERROR)"

definition tile_queryMaxCount :: "u32 \<Rightarrow> return_value \<times> u32" where
  "tile_queryMaxCount n = (RETURNVALUE_NOERROR, max 1 n)"


subsection \<open>Changing the floor\<close>

type_synonym tile_map = "u16 \<Rightarrow> u16 \<Rightarrow> u8 \<Rightarrow> tile option"

definition flag_at :: "tile_map \<Rightarrow> u16 \<Rightarrow> u16 \<Rightarrow> u8 \<Rightarrow> u32 \<Rightarrow> bool" where
  "flag_at tiles x y z flag = (case tiles x y z of None \<Rightarrow> False | Some t \<Rightarrow> hasFlag t flag)"

text \<open>The coordinates of \<open>destTile\<close>, with the 16 bit arithmetic of the source; the shifts of the tile below and of the
  tile itself are added up.\<close>

definition below_shift :: "tile \<Rightarrow> u16 \<times> u16" where
  "below_shift d =
     ((if hasFlag d TILESTATE_FLOORCHANGE_EAST then - 1 else 0)
        + (if hasFlag d TILESTATE_FLOORCHANGE_EAST_ALT then - 2 else 0)
        + (if hasFlag d TILESTATE_FLOORCHANGE_WEST then 1 else 0),
      (if hasFlag d TILESTATE_FLOORCHANGE_NORTH then 1 else 0)
        + (if hasFlag d TILESTATE_FLOORCHANGE_SOUTH then - 1 else 0)
        + (if hasFlag d TILESTATE_FLOORCHANGE_SOUTH_ALT then - 2 else 0))"

definition above_shift :: "tile \<Rightarrow> u16 \<times> u16" where
  "above_shift t =
     ((if hasFlag t TILESTATE_FLOORCHANGE_EAST then 1 else 0)
        + (if hasFlag t TILESTATE_FLOORCHANGE_WEST then - 1 else 0)
        + (if hasFlag t TILESTATE_FLOORCHANGE_EAST_ALT then 2 else 0),
      (if hasFlag t TILESTATE_FLOORCHANGE_NORTH then - 1 else 0)
        + (if hasFlag t TILESTATE_FLOORCHANGE_SOUTH then 1 else 0)
        + (if hasFlag t TILESTATE_FLOORCHANGE_SOUTH_ALT then 2 else 0))"

definition floor_target :: "tile_map \<Rightarrow> u16 \<Rightarrow> u16 \<Rightarrow> u8 \<Rightarrow> tile \<Rightarrow> (u16 \<times> u16 \<times> u8) option" where
  "floor_target tiles x y z t =
     (if hasFlag t TILESTATE_FLOORCHANGE_DOWN then
        (let dz = z + 1 in
         if flag_at tiles x (y - 1) dz TILESTATE_FLOORCHANGE_SOUTH_ALT then Some (x, y - 2, dz)
         else if flag_at tiles (x - 1) y dz TILESTATE_FLOORCHANGE_EAST_ALT then Some (x - 2, y, dz)
         else case tiles x y dz of
           None \<Rightarrow> None
         | Some d \<Rightarrow> Some (x + fst (below_shift d), y + snd (below_shift d), dz))
      else if hasFlag t TILESTATE_FLOORCHANGE then
        Some (x + fst (above_shift t), y + snd (above_shift t), z - 1)
      else None)"

text \<open>The destination, the item on top of it, and the flags; \<open>None\<close> is the tile itself.\<close>

definition tile_queryDestination ::
    "tile_map \<Rightarrow> u16 \<Rightarrow> u16 \<Rightarrow> u8 \<Rightarrow> tile \<Rightarrow> u32 \<Rightarrow> (u16 \<times> u16 \<times> u8) option \<times> nat option \<times> u32" where
  "tile_queryDestination tiles x y z t flags =
     (case floor_target tiles x y z t of
        None \<Rightarrow> (None, getTopDownItem t, flags)
      | Some (dx, dy, dz) \<Rightarrow>
          (case tiles dx dy dz of
             None \<Rightarrow> (None, getTopDownItem t, flags)
           | Some d \<Rightarrow> (Some (dx, dy, dz), getTopDownItem d, flags OR FLAG_NOLIMIT)))"

subsection \<open>What a permission says\<close>

lemma has_flag_bit: "n < 32 \<Longrightarrow> hasFlag t (push_bit n 1) \<longleftrightarrow> bit (t_flags t) n"
  by (simp add: hasFlag_def and_exp_eq_0_iff_not_bit)

lemma tracked_flag:
  assumes "tile_ok types s" "(p, n) \<in> set tracked_flags" "f = push_bit n 1"
  shows "hasFlag (ts_tile s) f \<longleftrightarrow> (\<exists>x\<in>lying_on (ts_tile s). item_hasProperty types p (ts_store s x))"
proof -
  have "n < 32" using assms(2) by (cases rule: tracked_cases) simp_all
  then show ?thesis using tile_okD(2) [OF assms(1)] assms(2,3) has_flag_bit by (auto simp: bits_are_def)
qed

lemma solid_ok:
  assumes "tile_ok types s" "queryAdd_solid types (ts_store s) flags (ts_tile s) = RETURNVALUE_NOERROR"
    and "x \<in> lying_on (ts_tile s)"
  shows "\<not> solid_fixed types (ts_store s x)"
proof (cases "hasBitSet FLAG_IGNOREBLOCKITEM flags")
  case True
  then show ?thesis using assms(2,3)
    by (auto simp: queryAdd_solid_def lying_on_def list_ex_iff split: if_splits option.splits)
next
  case False
  then have "\<not> hasFlag (ts_tile s) TILESTATE_BLOCKSOLID" using assms(2) by (auto simp: queryAdd_solid_def split: if_splits)
  moreover have "hasFlag (ts_tile s) TILESTATE_BLOCKSOLID
      \<longleftrightarrow> (\<exists>x\<in>lying_on (ts_tile s). item_hasProperty types CONST_PROP_BLOCKSOLID (ts_store s x))"
    by (rule tracked_flag [OF assms(1) _ TILESTATE_BLOCKSOLID_def]) (simp add: tracked_flags_def)
  ultimately show ?thesis using assms(3) by (auto simp: solid_fixed_def)
qed

text \<open>C19. No creature is let onto a tile with a solid item that cannot be moved, or without ground: over the invariant of
  the tile, whatever the creature is and whatever the flags of the query are, except the one for no limits. A monster is
  also kept out of protection zones, stairs and teleports, and a player under a lock out of a protection zone he is
  not already in.\<close>

theorem entry_is_safe:
  assumes "tile_inv types s" "\<not> hasBitSet FLAG_NOLIMIT flags"
    and "tile_queryAdd_creature types (ts_store s) who m locked flags (ts_tile s) = RETURNVALUE_NOERROR"
  shows "t_ground (ts_tile s) \<noteq> None \<and> (\<forall>x\<in>lying_on (ts_tile s). \<not> solid_fixed types (ts_store s x))
     \<and> (case m of
          MonsterMover _ \<Rightarrow> \<not> hasFlag (ts_tile s) (TILESTATE_PROTECTIONZONE OR TILESTATE_FLOORCHANGE OR TILESTATE_TELEPORT)
        | PlayerMover p \<Rightarrow> (case pm_tile p of
            Some from \<Rightarrow> pm_pzLocked p \<and> hasFlag (ts_tile s) TILESTATE_PROTECTIONZONE
                          \<longrightarrow> hasFlag from TILESTATE_PROTECTIONZONE
          | None \<Rightarrow> True)
        | NpcMover \<Rightarrow> True)"
proof -
  let ?t = "ts_tile s" and ?h = "ts_store s"
  have ok: "tile_ok types s" using assms(1) by (simp add: tile_inv_def)
  have ground: "t_ground ?t \<noteq> None"
    using assms(2,3) by (auto simp: tile_queryAdd_creature_def split: if_splits)
  show ?thesis
  proof (cases m)
    case (MonsterMover mm)
    then have q: "queryAdd_monster types ?h who mm flags ?t = RETURNVALUE_NOERROR"
      using assms(2,3) by (auto simp: tile_queryAdd_creature_def split: if_splits)
    have z: "\<not> hasFlag ?t (TILESTATE_PROTECTIONZONE OR TILESTATE_FLOORCHANGE OR TILESTATE_TELEPORT)"
      by (rule notI) (use q in \<open>simp add: queryAdd_monster_def\<close>)
    have "\<not> hasFlag ?t TILESTATE_IMMOVABLEBLOCKSOLID"
      by (rule notI) (use q in \<open>simp add: queryAdd_monster_def split: if_splits\<close>)
    moreover have "hasFlag ?t TILESTATE_IMMOVABLEBLOCKSOLID
        \<longleftrightarrow> (\<exists>x\<in>lying_on ?t. item_hasProperty types CONST_PROP_IMMOVABLEBLOCKSOLID (?h x))"
      by (rule tracked_flag [OF ok _ TILESTATE_IMMOVABLEBLOCKSOLID_def]) (simp add: tracked_flags_def)
    ultimately show ?thesis using MonsterMover ground z by (auto simp: solid_fixed_def)
  next
    case (PlayerMover p)
    then have q: "queryAdd_player types ?h who p flags ?t = RETURNVALUE_NOERROR"
      using assms(2,3) by (auto simp: tile_queryAdd_creature_def split: if_splits)
    then have "queryAdd_solid types ?h flags ?t = RETURNVALUE_NOERROR"
      by (auto simp: queryAdd_player_def pz_refusal_def split: if_splits option.splits)
    moreover have "pm_pzLocked p \<and> hasFlag ?t TILESTATE_PROTECTIONZONE \<longrightarrow> hasFlag from TILESTATE_PROTECTIONZONE"
      if "pm_tile p = Some from" for "from"
      using q that by (auto simp: queryAdd_player_def pz_refusal_def split: if_splits option.splits)
    ultimately show ?thesis using PlayerMover ground solid_ok [OF ok] by (auto split: option.split)
  next
    case NpcMover
    then have "queryAdd_solid types ?h flags ?t = RETURNVALUE_NOERROR"
      using assms(2,3) by (auto simp: tile_queryAdd_creature_def split: if_splits)
    then show ?thesis using NpcMover ground solid_ok [OF ok] by auto
  qed
qed


text \<open>A monster that steps over a ghost.\<close>

definition ghost_only :: "nat \<Rightarrow> bystander" where
  "ghost_only c = \<lparr> by_player = True, by_monster = False, by_ghost = True, by_pushable = False, by_playerSummon = False \<rparr>"

definition rat :: monster_mover where
  "rat = \<lparr> mm_pushCreatures = False, mm_pushItems = False, mm_summon = False, mm_immune = (\<lambda>_. False),
     mm_afflicted = (\<lambda>_. False) \<rparr>"

lemma entry_is_safe_witness:
  "t_ground (ts_tile garden_tile) \<noteq> None
     \<and> \<not> hasFlag (ts_tile garden_tile) (TILESTATE_PROTECTIONZONE OR TILESTATE_FLOORCHANGE OR TILESTATE_TELEPORT)"
proof -
  have "tile_queryAdd_creature garden (ts_store garden_tile) ghost_only (MonsterMover rat) False 0 (ts_tile garden_tile)
      = RETURNVALUE_NOERROR"
    by (simp add: tile_queryAdd_creature_def queryAdd_monster_def hasBitSet_def hasFlag_def garden_things in_the_way_def
        ghost_only_def getFieldItem_def rat_def)
  from entry_is_safe [OF garden_inv _ this] show ?thesis by (simp add: hasBitSet_def)
qed

end
