(* ===== verification/Player_Progress.thy ===== *)
theory Player_Progress
  imports Otx_Prelude
begin

text \<open>
  The progress of a player: experience and levels, skills and magic level, and what a death takes
  (\<open>Player\<close> in \<^verbatim>\<open>src/src/player.h\<close>, \<^verbatim>\<open>player.cpp\<close>; \<open>Vocation\<close> in \<^verbatim>\<open>vocation.cpp\<close>). Parameters are the formulas that the
  server evaluates in floating point (\<open>std::pow\<close>, the share lost by a death) and the answers of scripts, which may
  change an amount. What the client is sent and the refreshed speed are not part of the state.
\<close>

subsection \<open>State\<close>

record vocation =
  vo_id :: u16
  vo_hp :: u32
  vo_mana :: u32
  vo_cap :: u32

text \<open>\<open>health\<close> and \<open>healthMax\<close> are signed.\<close>

record progress =
  pr_level :: u32
  pr_experience :: u64
  pr_levelPercent :: u8
  pr_health :: u32
  pr_healthMax :: u32
  pr_mana :: u32
  pr_manaMax :: u32
  pr_capacity :: u32
  pr_magLevel :: u32
  pr_manaSpent :: u64
  pr_magLevelPercent :: u8

record skill =
  sk_level :: u16
  sk_tries :: u64
  sk_percent :: u8

subsection \<open>Experience\<close>

definition getExpForLevel :: "u32 \<Rightarrow> u64" where
  "getExpForLevel lv =
     (let n = scast (lv - 1) :: u64 in (50 * n * n * n - 150 * n * n + 400 * n) div 3)"

definition getPercentLevel :: "u64 \<Rightarrow> u64 \<Rightarrow> u8" where
  "getPercentLevel n nextLevelCount =
     (if nextLevelCount = 0 then 0
      else let result = ucast ((n * 100) div nextLevelCount) in if 100 < result then 0 else result)"

definition gain_level :: "vocation \<Rightarrow> progress \<Rightarrow> progress" where
  "gain_level v p = p \<lparr> pr_level := pr_level p + 1,
     pr_healthMax := pr_healthMax p + vo_hp v, pr_health := pr_health p + vo_hp v,
     pr_manaMax := pr_manaMax p + vo_mana v, pr_mana := pr_mana p + vo_mana v,
     pr_capacity := pr_capacity p + vo_cap v \<rparr>"

text \<open>The loop over the levels; it stops at the last level, whose successor has no greater experience.\<close>

function level_up :: "vocation \<Rightarrow> progress \<Rightarrow> u64 \<Rightarrow> u64 \<Rightarrow> progress \<times> u64 \<times> u64" where
  "level_up v p cur nxt =
     (if pr_experience p < nxt then (p, cur, nxt)
      else
        (let p = gain_level v p; nxt' = getExpForLevel (pr_level p + 1)
         in if nxt' \<le> nxt then (p, nxt, nxt') else level_up v p nxt nxt'))"
  by pat_completeness auto

termination level_up
  by (relation "measure (\<lambda>(v, p, cur, nxt). 2 ^ 64 - unat nxt)")
    (auto simp: word_less_nat_alt not_le intro!: diff_less_mono2 intro: unat_lt2p [where 'a = 64, simplified])

declare level_up.simps [simp del]

definition level_percent :: "u64 \<Rightarrow> u64 \<Rightarrow> u64 \<Rightarrow> u8" where
  "level_percent experience cur nxt =
     (if cur < nxt then getPercentLevel (experience - cur) (nxt - cur) else 0)"

definition addExperience :: "(u64 \<Rightarrow> u64) \<Rightarrow> vocation \<Rightarrow> u64 \<Rightarrow> progress \<Rightarrow> progress" where
  "addExperience onGain v ex p =
     (let cur = getExpForLevel (pr_level p); nxt = getExpForLevel (pr_level p + 1) in
      if nxt \<le> cur then p \<lparr> pr_levelPercent := 0 \<rparr>
      else if onGain ex = 0 then p
      else
        (let (q, cur, nxt) = level_up v (p \<lparr> pr_experience := pr_experience p + onGain ex \<rparr>) cur nxt;
             q = (if pr_level q \<noteq> pr_level p then q \<lparr> pr_health := pr_healthMax q, pr_mana := pr_manaMax q \<rparr> else q)
         in q \<lparr> pr_levelPercent := level_percent (pr_experience q) cur nxt \<rparr>))"

text \<open>The difference is computed in 32 bits and then compared as a signed number.\<close>

definition sub_clamped :: "u32 \<Rightarrow> u32 \<Rightarrow> u32" where
  "sub_clamped a b = (if sint (a - b) < 0 then 0 else a - b)"

definition lose_level :: "vocation \<Rightarrow> progress \<Rightarrow> progress" where
  "lose_level v p = p \<lparr> pr_level := pr_level p - 1,
     pr_healthMax := sub_clamped (pr_healthMax p) (vo_hp v),
     pr_manaMax := sub_clamped (pr_manaMax p) (vo_mana v),
     pr_capacity := sub_clamped (pr_capacity p) (vo_cap v) \<rparr>"

lemma unat_pred_less: "0 < (w :: 'a :: len word) \<Longrightarrow> unat (w - 1) < unat w"
  using unat_minus_one [of w] unat_gt_0 [of w] by (auto simp: word_gt_0)

function level_down :: "vocation \<Rightarrow> progress \<Rightarrow> progress" where
  "level_down v p =
     (if 1 < pr_level p \<and> pr_experience p < getExpForLevel (pr_level p) then level_down v (lose_level v p) else p)"
  by pat_completeness auto

termination level_down
  by (relation "measure (\<lambda>(v, p). unat (pr_level p))")
    (auto simp: lose_level_def intro!: unat_pred_less elim: order_less_trans [rotated])


declare level_down.simps [simp del]

text \<open>What remains of the experience: the difference is compared as a signed 64 bit number.\<close>

definition removeExperience :: "(u64 \<Rightarrow> u64) \<Rightarrow> vocation \<Rightarrow> u64 \<Rightarrow> progress \<Rightarrow> progress" where
  "removeExperience onLose v ex p =
     (if pr_experience p = 0 \<or> ex = 0 \<or> onLose ex = 0 then p
      else
        (let rest = pr_experience p - onLose ex;
             q = level_down v (p \<lparr> pr_experience := (if sint rest < 0 then 0 else rest) \<rparr>);
             q = (if pr_level q \<noteq> pr_level p then q \<lparr> pr_health := pr_healthMax q, pr_mana := pr_manaMax q \<rparr> else q)
         in q \<lparr> pr_levelPercent := level_percent (pr_experience q) (getExpForLevel (pr_level q))
                  (getExpForLevel (pr_level q + 1)) \<rparr>))"

subsection \<open>Skills\<close>

definition SKILL_LAST :: u8 where "SKILL_LAST = 6"

text \<open>The tries for each level are computed once and then taken from a cache, whose entries have 32 bits.\<close>

type_synonym skill_cache = "u16 \<Rightarrow> u32 option"

definition getReqSkillTries ::
    "(u8 \<Rightarrow> u16 \<Rightarrow> u64) \<Rightarrow> u8 \<Rightarrow> u16 \<Rightarrow> skill_cache \<Rightarrow> u64 \<times> skill_cache" where
  "getReqSkillTries formula skill level cache =
     (if SKILL_LAST < skill then (0, cache)
      else case cache level of
        Some n \<Rightarrow> (ucast n, cache)
      | None \<Rightarrow> (formula skill level, cache(level \<mapsto> ucast (formula skill level))))"

function skill_up ::
    "(u8 \<Rightarrow> u16 \<Rightarrow> u64) \<Rightarrow> u8 \<Rightarrow> skill \<Rightarrow> u64 \<Rightarrow> u64 \<Rightarrow> u64 \<Rightarrow> skill_cache
       \<Rightarrow> skill \<times> u64 \<times> u64 \<times> u64 \<times> skill_cache" where
  "skill_up formula k sk n cur nxt cache =
     (if sk_tries sk + n < nxt then (sk, n, cur, nxt, cache)
      else
        (let n = n - (nxt - sk_tries sk);
             sk = sk \<lparr> sk_level := sk_level sk + 1, sk_tries := 0, sk_percent := 0 \<rparr>;
             r = getReqSkillTries formula k (sk_level sk + 1) cache
         in if fst r \<le> nxt then (sk, 0, nxt, fst r, snd r) else skill_up formula k sk n nxt (fst r) (snd r)))"
  by pat_completeness auto

termination skill_up
  by (relation "measure (\<lambda>(formula, k, sk, n, cur, nxt, cache). 2 ^ 64 - unat nxt)")
    (auto simp: case_prod_beta word_less_nat_alt not_le intro!: diff_less_mono2 intro: unat_lt2p [where 'a = 64, simplified])

declare skill_up.simps [simp del]

definition addSkillAdvance ::
    "(u64 \<Rightarrow> u64) \<Rightarrow> (u8 \<Rightarrow> u16 \<Rightarrow> u64) \<Rightarrow> u8 \<Rightarrow> u64 \<Rightarrow> skill \<Rightarrow> skill_cache \<Rightarrow> skill \<times> skill_cache" where
  "addSkillAdvance onGain formula k n sk cache =
     (let (cur, cache) = getReqSkillTries formula k (sk_level sk) cache;
          (nxt, cache) = getReqSkillTries formula k (sk_level sk + 1) cache in
      if nxt \<le> cur \<or> onGain n = 0 then (sk, cache)
      else
        (let (sk, n, cur, nxt, cache) = skill_up formula k sk (onGain n) cur nxt cache;
             sk = sk \<lparr> sk_tries := sk_tries sk + n \<rparr>
         in (sk \<lparr> sk_percent := (if cur < nxt then getPercentLevel (sk_tries sk) nxt else 0) \<rparr>, cache)))"

subsection \<open>Magic level\<close>

text \<open>The mana for a level, from the value of the floating point formula; the cache keeps all of its 64 bits.\<close>

definition getReqMana :: "(u32 \<Rightarrow> u64) \<Rightarrow> u32 \<Rightarrow> u64" where
  "getReqMana formula magLevel =
     (let reqMana = formula magLevel; modResult = reqMana mod 20
      in if modResult < 10 then reqMana - modResult else reqMana - (modResult + 20))"

text \<open>The flag tells that the last magic level was reached: the rest is dropped and the percentage stays.\<close>

function mana_up :: "(u32 \<Rightarrow> u64) \<Rightarrow> progress \<Rightarrow> u64 \<Rightarrow> u64 \<Rightarrow> u64 \<Rightarrow> (progress \<times> u64 \<times> u64 \<times> u64) \<times> bool" where
  "mana_up req p n cur nxt =
     (if pr_manaSpent p + n < nxt then ((p, n, cur, nxt), False)
      else
        (let n = n - (nxt - pr_manaSpent p);
             p = p \<lparr> pr_magLevel := pr_magLevel p + 1, pr_manaSpent := 0 \<rparr>;
             nxt' = req (pr_magLevel p + 1)
         in if nxt' \<le> nxt then ((p, n, nxt, nxt'), True) else mana_up req p n nxt nxt'))"
  by pat_completeness auto

termination mana_up
  by (relation "measure (\<lambda>(req, p, n, cur, nxt). 2 ^ 64 - unat nxt)")
    (auto simp: word_less_nat_alt not_le intro!: diff_less_mono2 intro: unat_lt2p [where 'a = 64, simplified])

declare mana_up.simps [simp del]

definition addManaSpent :: "bool \<Rightarrow> (u64 \<Rightarrow> u64) \<Rightarrow> (u32 \<Rightarrow> u64) \<Rightarrow> u64 \<Rightarrow> progress \<Rightarrow> progress" where
  "addManaSpent noGain onGain req n p =
     (let cur = req (pr_magLevel p); nxt = req (pr_magLevel p + 1) in
      if noGain \<or> nxt \<le> cur \<or> onGain n = 0 then p
      else case mana_up req p (onGain n) cur nxt of
        ((q, n, cur, nxt), True) \<Rightarrow> q
      | ((q, n, cur, nxt), False) \<Rightarrow>
          (let q = q \<lparr> pr_manaSpent := pr_manaSpent q + n \<rparr>
           in q \<lparr> pr_magLevelPercent := (if cur < nxt then getPercentLevel (pr_manaSpent q) nxt else 0) \<rparr>))"

subsection \<open>Death\<close>

text \<open>The sum over the levels with the counter of the loop.\<close>

definition mana_total :: "(u32 \<Rightarrow> u64) \<Rightarrow> progress \<Rightarrow> u64" where
  "mana_total req p = sum_list (map req (map of_nat [1 ..< Suc (unat (pr_magLevel p))])) + pr_manaSpent p"

function mana_down :: "(u32 \<Rightarrow> u64) \<Rightarrow> u64 \<Rightarrow> progress \<Rightarrow> progress \<times> u64" where
  "mana_down req lost p =
     (if pr_manaSpent p < lost \<and> 0 < pr_magLevel p
      then mana_down req (lost - pr_manaSpent p)
             (p \<lparr> pr_manaSpent := req (pr_magLevel p), pr_magLevel := pr_magLevel p - 1 \<rparr>)
      else (p, lost))"
  by pat_completeness auto

termination mana_down
  by (relation "measure (\<lambda>(req, lost, p). unat (pr_magLevel p))") (auto intro!: unat_pred_less)

declare mana_down.simps [simp del]

definition death_mana :: "(u64 \<Rightarrow> u64) \<Rightarrow> (u32 \<Rightarrow> u64) \<Rightarrow> progress \<Rightarrow> progress" where
  "death_mana loss req p =
     (let (q, lost) = mana_down req (loss (mana_total req p)) p;
          q = q \<lparr> pr_manaSpent := pr_manaSpent q - lost \<rparr>
      in q \<lparr> pr_magLevelPercent := (if req (pr_magLevel q) < req (pr_magLevel q + 1)
             then getPercentLevel (pr_manaSpent q) (req (pr_magLevel q + 1)) else 0) \<rparr>)"

text \<open>The loss of a skill has 32 bits; what remains of the tries is compared as a signed 32 bit number.\<close>

function skill_down ::
    "(u8 \<Rightarrow> u16 \<Rightarrow> u64) \<Rightarrow> u8 \<Rightarrow> u32 \<Rightarrow> skill \<Rightarrow> skill_cache \<Rightarrow> u32 \<times> skill \<times> skill_cache" where
  "skill_down formula k lost sk cache =
     (if sk_tries sk < ucast lost then
        (let lost = ucast (ucast lost - sk_tries sk) in
         if sk_level sk \<le> 10 then (0, sk \<lparr> sk_level := 10, sk_tries := 0 \<rparr>, cache)
         else (let r = getReqSkillTries formula k (sk_level sk) cache
               in skill_down formula k lost (sk \<lparr> sk_tries := fst r, sk_level := sk_level sk - 1 \<rparr>) (snd r)))
      else (lost, sk, cache))"
  by pat_completeness auto

termination skill_down
  by (relation "measure (\<lambda>(formula, k, lost, sk, cache). unat (sk_level sk))")
    (auto intro!: unat_pred_less simp: not_le elim: order_less_trans [rotated])

declare skill_down.simps [simp del]

fun skill_sum :: "(u8 \<Rightarrow> u16 \<Rightarrow> u64) \<Rightarrow> u8 \<Rightarrow> u16 list \<Rightarrow> u64 \<Rightarrow> skill_cache \<Rightarrow> u64 \<times> skill_cache" where
  "skill_sum formula k [] acc cache = (acc, cache)"
| "skill_sum formula k (c # cs) acc cache =
     (let (n, cache) = getReqSkillTries formula k c cache in skill_sum formula k cs (acc + n) cache)"

definition death_skill ::
    "(u64 \<Rightarrow> u64) \<Rightarrow> (u8 \<Rightarrow> u16 \<Rightarrow> u64) \<Rightarrow> u8 \<Rightarrow> skill \<Rightarrow> skill_cache \<Rightarrow> skill \<times> skill_cache" where
  "death_skill loss formula k sk cache =
     (let (total, cache) = skill_sum formula k (map of_nat [11 ..< Suc (unat (sk_level sk))]) 0 cache;
          lost = ucast (loss (total + sk_tries sk)) :: u32;
          (lost, sk, cache) = skill_down formula k lost sk cache;
          rest = ucast (sk_tries sk - ucast lost) :: u32;
          sk = sk \<lparr> sk_tries := (if sint rest < 0 then 0 else ucast rest) \<rparr>;
          (req, cache) = getReqSkillTries formula k (sk_level sk) cache
      in (sk \<lparr> sk_percent := getPercentLevel (sk_tries sk) req \<rparr>, cache))"

definition death_experience :: "(u64 \<Rightarrow> u64) \<Rightarrow> (u64 \<Rightarrow> u64) \<Rightarrow> vocation \<Rightarrow> progress \<Rightarrow> progress" where
  "death_experience loss onLose v p =
     (let expLoss = onLose (loss (pr_experience p)) in
      if expLoss = 0 then p
      else
        (let q = (if vo_id v = 0 \<or> 7 < pr_level p
                  then p \<lparr> pr_experience := pr_experience p - expLoss \<rparr> else p);
             q = level_down v q
         in q \<lparr> pr_levelPercent := level_percent (pr_experience q) (getExpForLevel (pr_level q))
                  (getExpForLevel (pr_level q + 1)) \<rparr>))"

end
