(* ===== verification/Progress_Properties.thy ===== *)
theory Progress_Properties
  imports Player_Progress
begin

text \<open>
  The level is a function of the experience: the formula of \<open>getExpForLevel\<close> against its recursive
  reading, the loops that gain and lose levels, and what a death takes from the magic level.
\<close>

subsection \<open>The formula\<close>

text \<open>The experience at which level \<open>n + 1\<close> begins.\<close>

primrec exp_of :: "nat \<Rightarrow> nat" where
  "exp_of 0 = 0"
| "exp_of (Suc n) = exp_of n + 50 * (n * n + 2 - n)"

definition MAX_LEVEL :: nat where "MAX_LEVEL = 717217"

lemma square_slack: "n \<le> n * n + 2" for n :: nat
  by (cases n) simp_all

lemma exp_of_closed: "3 * exp_of n + 150 * n\<^sup>2 = 50 * n ^ 3 + 400 * n"
proof (induction n)
  case (Suc n)
  have a: "int (exp_of (Suc n)) = int (exp_of n) + 50 * (int n * int n + 2 - int n)"
    using square_slack [of n] by (simp add: of_nat_diff)
  have b: "3 * int (exp_of n) + 150 * (int n)\<^sup>2 = 50 * int n ^ 3 + 400 * int n"
    using arg_cong [OF Suc, of int] by simp
  have "3 * int (exp_of (Suc n)) + 150 * (int n + 1)\<^sup>2 = 50 * (int n + 1) ^ 3 + 400 * (int n + 1)"
    using a b by algebra
  then have "int (3 * exp_of (Suc n) + 150 * (Suc n)\<^sup>2) = int (50 * Suc n ^ 3 + 400 * Suc n)"
    by (simp add: add.commute)
  then show ?case by (simp only: of_nat_eq_iff)
qed simp

lemma exp_of_step: "exp_of n + 100 \<le> exp_of (Suc n)"
proof -
  have "n + 2 \<le> n * n + 2" by (cases n) simp_all
  then have "2 \<le> n * n + 2 - n" by linarith
  then show ?thesis by simp
qed

lemma exp_of_less: "m < n \<Longrightarrow> exp_of m < exp_of n"
  using lift_Suc_mono_less [of exp_of m n] exp_of_step by (metis add_gr_0 less_add_same_cancel1 order_less_le_trans zero_less_numeral)

lemma exp_of_mono: "m \<le> n \<Longrightarrow> exp_of m \<le> exp_of n"
  using exp_of_less [of m n] by (cases "m = n") auto

lemma exp_of_max: "3 * exp_of 717216 < 2 ^ 64" "exp_of 717216 < 2 ^ 63"
  using exp_of_closed [of 717216] by (simp_all add: power2_eq_square)

lemma level_word: "n < 2 ^ 31 \<Longrightarrow> (scast ((of_nat (Suc n) :: u32) - 1) :: u64) = of_nat n"
  by (simp add: scast_eq signed_of_nat signed_take_bit_int_eq_self)

text \<open>Up to the last level nothing overflows.\<close>

lemma level_formula_exact:
  assumes "n < MAX_LEVEL"
  shows "unat (getExpForLevel (of_nat (Suc n))) = exp_of n"
proof -
  have n: "n \<le> 717216" using assms by (simp add: MAX_LEVEL_def)
  have "(50 * of_nat n * of_nat n * of_nat n - 150 * of_nat n * of_nat n + 400 * of_nat n :: u64)
      = of_nat (50 * n ^ 3 + 400 * n) - of_nat (150 * n\<^sup>2)"
    by (simp add: power3_eq_cube power2_eq_square algebra_simps)
  also have "\<dots> = of_nat (3 * exp_of n)"
    unfolding exp_of_closed [of n, symmetric] by simp
  finally have eq: "(50 * of_nat n * of_nat n * of_nat n - 150 * of_nat n * of_nat n + 400 * of_nat n :: u64)
      = of_nat (3 * exp_of n)" .
  have "3 * exp_of n < 2 ^ 64" using exp_of_max(1) exp_of_mono [OF n] by simp
  then have "unat (of_nat (3 * exp_of n) :: u64) = 3 * exp_of n"
    unfolding unsigned_of_nat by (simp add: take_bit_nat_eq_self)
  then show ?thesis
    using n level_word [of n] unfolding getExpForLevel_def Let_def
    by (simp add: eq unat_div del: of_nat_Suc)
qed

text \<open>After it the formula wraps around, and the code takes the level for the last one.\<close>

lemma level_formula_wraps: "getExpForLevel 717218 < getExpForLevel 717217"
  by (simp add: getExpForLevel_def scast_eq)


subsection \<open>Gaining and losing levels\<close>

text \<open>The level of a player belongs to the experience.\<close>

definition settled :: "progress \<Rightarrow> bool" where
  "settled p \<longleftrightarrow> 1 \<le> unat (pr_level p) \<and> unat (pr_level p) < MAX_LEVEL
     \<and> exp_of (unat (pr_level p) - 1) \<le> unat (pr_experience p) \<and> unat (pr_experience p) < exp_of (unat (pr_level p))"

definition gained :: "vocation \<Rightarrow> nat \<Rightarrow> progress \<Rightarrow> progress" where
  "gained v k p = (gain_level v ^^ k) p"

lemma exp_for_level:
  assumes "1 \<le> unat l" "unat l \<le> MAX_LEVEL"
  shows "unat (getExpForLevel l) = exp_of (unat l - 1)"
  using level_formula_exact [of "unat l - 1"] assms by simp

lemma level_Suc: "unat l \<le> MAX_LEVEL \<Longrightarrow> unat (l + 1 :: u32) = Suc (unat l)"
  by (simp add: unat_word_ariths MAX_LEVEL_def)

lemma exp_for_next:
  assumes "unat l < MAX_LEVEL"
  shows "unat (getExpForLevel (l + 1)) = exp_of (unat l)"
  using exp_for_level [of "l + 1"] level_Suc [of l] assms by simp

lemma gain_level_parts [simp]:
  "pr_level (gain_level v p) = pr_level p + 1" "pr_experience (gain_level v p) = pr_experience p"
  by (simp_all add: gain_level_def)

lemma level_up_result:
  assumes "cur = getExpForLevel (pr_level p)" "nxt = getExpForLevel (pr_level p + 1)"
    and "1 \<le> unat (pr_level p)" "unat (pr_level p) < MAX_LEVEL"
    and "exp_of (unat (pr_level p) - 1) \<le> unat (pr_experience p)" "unat (pr_experience p) < exp_of 717216"
  shows "\<exists>k. level_up v p cur nxt
       = (gained v k p, getExpForLevel (pr_level p + of_nat k), getExpForLevel (pr_level p + of_nat k + 1))
     \<and> unat (pr_level p) + k < MAX_LEVEL
     \<and> exp_of (unat (pr_level p) + k - 1) \<le> unat (pr_experience p)
     \<and> unat (pr_experience p) < exp_of (unat (pr_level p) + k)"
  using assms
proof (induction v p cur nxt rule: level_up.induct)
  case (1 v p cur nxt)
  let ?l = "pr_level p" and ?q = "gain_level v p"
  have nxt: "unat nxt = exp_of (unat ?l)" using exp_for_next [OF "1.prems"(4)] "1.prems"(2) by simp
  show ?case
  proof (cases "pr_experience p < nxt")
    case True
    then have "level_up v p cur nxt = (p, cur, nxt)" by (subst level_up.simps) simp
    moreover have "unat (pr_experience p) < exp_of (unat ?l)" using True nxt by (simp add: word_less_nat_alt)
    ultimately show ?thesis using "1.prems" by (intro exI [of _ 0]) (simp add: gained_def)
  next
    case False
    then have reach: "exp_of (unat ?l) \<le> unat (pr_experience p)" using nxt by (simp add: word_less_nat_alt)
    have l: "unat ?l < 717216"
    proof (rule ccontr)
      assume "\<not> unat ?l < 717216"
      then have "exp_of 717216 \<le> exp_of (unat ?l)" by (intro exp_of_mono) simp
      then show False using reach "1.prems"(6) by simp
    qed
    have l': "unat (?l + 1) = Suc (unat ?l)" "unat (?l + 1) < MAX_LEVEL"
      using l level_Suc [of ?l] by (simp_all add: MAX_LEVEL_def)
    have nxt': "unat (getExpForLevel (pr_level ?q + 1)) = exp_of (Suc (unat ?l))"
      using exp_for_next [OF l'(2)] l'(1) by simp
    have more: "nxt < getExpForLevel (pr_level ?q + 1)"
      unfolding word_less_nat_alt nxt nxt' by (rule exp_of_less) simp
    have more': "\<not> getExpForLevel (pr_level ?q + 1) \<le> nxt" using more by simp
    have run: "level_up v p cur nxt = level_up v ?q nxt (getExpForLevel (pr_level ?q + 1))"
      by (subst level_up.simps) (simp only: Let_def if_not_P [OF False] if_not_P [OF more'])
    have "\<exists>k. level_up v ?q nxt (getExpForLevel (pr_level ?q + 1))
       = (gained v k ?q, getExpForLevel (pr_level ?q + of_nat k), getExpForLevel (pr_level ?q + of_nat k + 1))
     \<and> unat (pr_level ?q) + k < MAX_LEVEL
     \<and> exp_of (unat (pr_level ?q) + k - 1) \<le> unat (pr_experience ?q)
     \<and> unat (pr_experience ?q) < exp_of (unat (pr_level ?q) + k)"
    proof (rule "1.IH" [OF False refl refl])
      show "\<not> getExpForLevel (pr_level ?q + 1) \<le> nxt" by (rule more')
      show "nxt = getExpForLevel (pr_level ?q)" using "1.prems"(2) by simp
    qed (use l' reach "1.prems"(6) in simp_all)
    then obtain k where k: "level_up v p cur nxt
       = (gained v k ?q, getExpForLevel (pr_level ?q + of_nat k), getExpForLevel (pr_level ?q + of_nat k + 1))"
      "unat (pr_level ?q) + k < MAX_LEVEL" "exp_of (unat (pr_level ?q) + k - 1) \<le> unat (pr_experience ?q)"
      "unat (pr_experience ?q) < exp_of (unat (pr_level ?q) + k)"
      using run by auto
    have "gained v k ?q = gained v (Suc k) p" by (simp only: gained_def funpow_Suc_right o_apply)
    then show ?thesis using k l' by (intro exI [of _ "Suc k"]) (simp add: algebra_simps)
  qed
qed

lemma gained_parts:
  "pr_level (gained v k p) = pr_level p + of_nat k" "pr_experience (gained v k p) = pr_experience p"
  "pr_healthMax (gained v k p) = pr_healthMax p + of_nat k * vo_hp v"
  "pr_manaMax (gained v k p) = pr_manaMax p + of_nat k * vo_mana v"
  "pr_capacity (gained v k p) = pr_capacity p + of_nat k * vo_cap v"
  by (induction k) (simp_all add: gained_def gain_level_def algebra_simps)


text \<open>The inverse of a gain, while the numbers stay positive as signed ones.\<close>

lemma sub_clamped_gain:
  assumes "unat a + unat g < 2 ^ 31"
  shows "sub_clamped (a + g) g = a"
proof -
  have "unat a < 2 ^ 31" using assms by linarith
  then have "uint a < 2 ^ 31" by (simp flip: of_nat_less_iff [where 'a = int])
  moreover have "- (2 ^ 31) \<le> uint a" by (rule order_trans [OF _ uint_nonnegative]) simp
  ultimately have "sint a = uint a" by (simp add: sint_uint signed_take_bit_int_eq_self)
  then show ?thesis by (simp add: sub_clamped_def)
qed

lemma lose_gained:
  assumes "unat (pr_healthMax p) + Suc k * unat (vo_hp v) < 2 ^ 31"
    and "unat (pr_manaMax p) + Suc k * unat (vo_mana v) < 2 ^ 31"
    and "unat (pr_capacity p) + Suc k * unat (vo_cap v) < 2 ^ 31"
  shows "pr_level (lose_level v q) = pr_level q - 1"
    and "pr_healthMax q = pr_healthMax p + of_nat (Suc k) * vo_hp v
           \<Longrightarrow> pr_healthMax (lose_level v q) = pr_healthMax p + of_nat k * vo_hp v"
    and "pr_manaMax q = pr_manaMax p + of_nat (Suc k) * vo_mana v
           \<Longrightarrow> pr_manaMax (lose_level v q) = pr_manaMax p + of_nat k * vo_mana v"
    and "pr_capacity q = pr_capacity p + of_nat (Suc k) * vo_cap v
           \<Longrightarrow> pr_capacity (lose_level v q) = pr_capacity p + of_nat k * vo_cap v"
proof -
  have step: "sub_clamped (a + of_nat (Suc k) * g) g = a + of_nat k * g"
    if b: "unat a + Suc k * unat g < 2 ^ 31" for a g :: u32
  proof -
    have "unat (of_nat n :: u32) \<le> n" for n unfolding unsigned_of_nat by (simp add: take_bit_nat_less_eq_self)
    from this [of "unat a + k * unat g"] have "unat (a + of_nat k * g) \<le> unat a + k * unat g" by simp
    then have "unat (a + of_nat k * g) + unat g < 2 ^ 31" using b by simp
    from sub_clamped_gain [OF this] show ?thesis by (simp add: algebra_simps)
  qed
  have parts: "pr_healthMax (lose_level v q) = sub_clamped (pr_healthMax q) (vo_hp v)"
    "pr_manaMax (lose_level v q) = sub_clamped (pr_manaMax q) (vo_mana v)"
    "pr_capacity (lose_level v q) = sub_clamped (pr_capacity q) (vo_cap v)"
    by (simp_all add: lose_level_def)
  show "pr_level (lose_level v q) = pr_level q - 1" by (simp add: lose_level_def)
  show "pr_healthMax q = pr_healthMax p + of_nat (Suc k) * vo_hp v
           \<Longrightarrow> pr_healthMax (lose_level v q) = pr_healthMax p + of_nat k * vo_hp v"
    and "pr_manaMax q = pr_manaMax p + of_nat (Suc k) * vo_mana v
           \<Longrightarrow> pr_manaMax (lose_level v q) = pr_manaMax p + of_nat k * vo_mana v"
    and "pr_capacity q = pr_capacity p + of_nat (Suc k) * vo_cap v
           \<Longrightarrow> pr_capacity (lose_level v q) = pr_capacity p + of_nat k * vo_cap v"
    using step [OF assms(1)] step [OF assms(2)] step [OF assms(3)] by (simp_all only: parts)
qed


text \<open>Health, mana and capacity with \<open>k\<close> levels more.\<close>

definition stats_above :: "vocation \<Rightarrow> nat \<Rightarrow> progress \<Rightarrow> progress \<Rightarrow> bool" where
  "stats_above v k p q \<longleftrightarrow> pr_level q = pr_level p + of_nat k
     \<and> pr_healthMax q = pr_healthMax p + of_nat k * vo_hp v \<and> pr_manaMax q = pr_manaMax p + of_nat k * vo_mana v
     \<and> pr_capacity q = pr_capacity p + of_nat k * vo_cap v"

definition stats_bounded :: "vocation \<Rightarrow> nat \<Rightarrow> progress \<Rightarrow> bool" where
  "stats_bounded v k p \<longleftrightarrow> unat (pr_healthMax p) + k * unat (vo_hp v) < 2 ^ 31
     \<and> unat (pr_manaMax p) + k * unat (vo_mana v) < 2 ^ 31 \<and> unat (pr_capacity p) + k * unat (vo_cap v) < 2 ^ 31"

lemma stats_bounded_mono:
  assumes "stats_bounded v k p" "j \<le> k"
  shows "stats_bounded v j p"
proof -
  have "a + j * n < 2 ^ 31" if "a + k * n < 2 ^ 31" for a n :: nat
    using that mult_le_mono1 [OF assms(2), of n] by linarith
  then show ?thesis using assms(1) by (simp only: stats_bounded_def)
qed

lemma level_plus: "unat l + k < MAX_LEVEL \<Longrightarrow> unat (l + of_nat k :: u32) = unat l + k"
proof -
  assume "unat l + k < MAX_LEVEL"
  then have "unat l + k < 2 ^ 32" by (simp add: MAX_LEVEL_def)
  moreover have "l + of_nat k = of_nat (unat l + k)" by simp
  ultimately show ?thesis unfolding \<open>l + of_nat k = _\<close> unsigned_of_nat by (simp add: take_bit_nat_eq_self)
qed

lemma level_down_gained:
  assumes "settled p" "stats_bounded v k p" "unat (pr_level p) + k < MAX_LEVEL"
    and "stats_above v k p q" "pr_experience q = pr_experience p"
  shows "stats_above v 0 p (level_down v q) \<and> pr_experience (level_down v q) = pr_experience p"
  using assms(2-5)
proof (induction k arbitrary: q)
  case 0
  have l: "pr_level q = pr_level p" using 0 by (simp add: stats_above_def)
  have "unat (getExpForLevel (pr_level p)) = exp_of (unat (pr_level p) - 1)"
    using exp_for_level [of "pr_level p"] assms(1) by (simp add: settled_def)
  then have "\<not> pr_experience q < getExpForLevel (pr_level q)"
    using assms(1) 0 l by (simp add: settled_def word_less_nat_alt)
  then have "level_down v q = q" by (subst level_down.simps) simp
  then show ?case using 0 by simp
next
  case (Suc k)
  have lq: "unat (pr_level q) = unat (pr_level p) + Suc k"
    using Suc.prems(2,3) level_plus [of "pr_level p" "Suc k"] by (simp add: stats_above_def)
  have one: "1 \<le> unat (pr_level p)" using assms(1) by (simp add: settled_def)
  have "unat (getExpForLevel (pr_level q)) = exp_of (unat (pr_level p) + k)"
    using exp_for_level [of "pr_level q"] lq Suc.prems(2) by simp
  moreover have "unat (pr_experience p) < exp_of (unat (pr_level p) + k)"
    using assms(1) exp_of_mono [of "unat (pr_level p)" "unat (pr_level p) + k"] by (simp add: settled_def)
  ultimately have "1 < pr_level q \<and> pr_experience q < getExpForLevel (pr_level q)"
    using lq one Suc.prems(4) by (simp add: word_less_nat_alt)
  then have run: "level_down v q = level_down v (lose_level v q)" by (subst level_down.simps) simp
  have b: "unat (pr_healthMax p) + Suc k * unat (vo_hp v) < 2 ^ 31"
    "unat (pr_manaMax p) + Suc k * unat (vo_mana v) < 2 ^ 31"
    "unat (pr_capacity p) + Suc k * unat (vo_cap v) < 2 ^ 31"
    using Suc.prems(1) by (simp_all add: stats_bounded_def)
  note lose = lose_gained [OF b, of q]
  have "stats_above v k p (lose_level v q)"
    unfolding stats_above_def using Suc.prems(3) lose by (simp add: stats_above_def)
  moreover have "pr_experience (lose_level v q) = pr_experience p" using Suc.prems(4) by (simp add: lose_level_def)
  ultimately show ?case
    unfolding run using Suc.IH stats_bounded_mono [OF Suc.prems(1), of k] Suc.prems(2) by simp
qed

subsection \<open>What the operations do\<close>

lemma addExperience_result:
  assumes "settled p" "onGain ex \<noteq> 0" "unat (pr_experience p) + unat (onGain ex) < exp_of 717216"
  shows "\<exists>k. let q = addExperience onGain v ex p in
     settled q \<and> unat (pr_experience q) = unat (pr_experience p) + unat (onGain ex)
     \<and> stats_above v k p q \<and> unat (pr_level p) + k < MAX_LEVEL \<and> (k \<noteq> 0 \<longrightarrow> pr_health q = pr_healthMax q)
     \<and> pr_levelPercent q = level_percent (pr_experience q) (getExpForLevel (pr_level q)) (getExpForLevel (pr_level q + 1))"
proof -
  let ?l = "pr_level p" and ?p = "p \<lparr> pr_experience := pr_experience p + onGain ex \<rparr>"
  have l: "1 \<le> unat ?l" "unat ?l < MAX_LEVEL" "exp_of (unat ?l - 1) \<le> unat (pr_experience p)"
    using assms(1) by (simp_all add: settled_def)
  have e: "unat (pr_experience p + onGain ex) = unat (pr_experience p) + unat (onGain ex)"
    using assms(3) exp_of_max(2) by (simp add: unat_word_ariths)
  have lt: "\<not> getExpForLevel (?l + 1) \<le> getExpForLevel ?l"
    unfolding not_le word_less_nat_alt using exp_for_level [of ?l] exp_for_next [OF l(2)] l
    by (simp add: exp_of_less)
  obtain k where k: "level_up v ?p (getExpForLevel ?l) (getExpForLevel (?l + 1))
       = (gained v k ?p, getExpForLevel (?l + of_nat k), getExpForLevel (?l + of_nat k + 1))"
     "unat ?l + k < MAX_LEVEL" "exp_of (unat ?l + k - 1) \<le> unat (pr_experience ?p)"
     "unat (pr_experience ?p) < exp_of (unat ?l + k)"
    using level_up_result [of "getExpForLevel ?l" ?p "getExpForLevel (?l + 1)" v] l e assms(3) by auto
  have lk: "unat (?l + of_nat k) = unat ?l + k" by (rule level_plus [OF k(2)])
  have neq: "pr_level (gained v k ?p) \<noteq> ?l \<longleftrightarrow> k \<noteq> 0"
    unfolding gained_parts using lk by (cases k) (auto simp: word_unat_eq_iff)
  have "let q = addExperience onGain v ex p in
     settled q \<and> unat (pr_experience q) = unat (pr_experience p) + unat (onGain ex)
     \<and> stats_above v k p q \<and> unat (pr_level p) + k < MAX_LEVEL \<and> (k \<noteq> 0 \<longrightarrow> pr_health q = pr_healthMax q)
     \<and> pr_levelPercent q = level_percent (pr_experience q) (getExpForLevel (pr_level q)) (getExpForLevel (pr_level q + 1))"
    using lt assms(2) k lk neq l e
    by (cases k) (simp_all add: addExperience_def Let_def settled_def stats_above_def gained_parts)
  then show ?thesis by blast
qed


text \<open>C21. The level of a player is decided by the experience: a gain that stays below the last level leads to the level
  whose bounds hold the new experience, with that many times the gains of the vocation for health, mana and
  capacity, full health after an advance, and the percentage of the way to the next level; no step overflows.\<close>

theorem experience_decides_level:
  assumes "settled p" "onGain ex \<noteq> 0" "unat (pr_experience p) + unat (onGain ex) < exp_of 717216"
  shows "let q = addExperience onGain v ex p in
     unat (pr_experience q) = unat (pr_experience p) + unat (onGain ex)
     \<and> exp_of (unat (pr_level q) - 1) \<le> unat (pr_experience q) \<and> unat (pr_experience q) < exp_of (unat (pr_level q))
     \<and> unat (pr_level p) \<le> unat (pr_level q)
     \<and> stats_above v (unat (pr_level q) - unat (pr_level p)) p q
     \<and> (pr_level q \<noteq> pr_level p \<longrightarrow> pr_health q = pr_healthMax q)"
proof -
  define q where "q = addExperience onGain v ex p"
  obtain k where k: "settled q" "unat (pr_experience q) = unat (pr_experience p) + unat (onGain ex)"
    "stats_above v k p q" "unat (pr_level p) + k < MAX_LEVEL" "k \<noteq> 0 \<longrightarrow> pr_health q = pr_healthMax q"
    using addExperience_result [where v = v and onGain = onGain and ex = ex and p = p, OF assms] unfolding q_def Let_def by blast
  have "unat (pr_level q) = unat (pr_level p) + k" using k(3) level_plus [OF k(4)] by (simp add: stats_above_def)
  then show ?thesis using k unfolding q_def [symmetric] Let_def by (auto simp: settled_def word_unat_eq_iff)
qed

text \<open>C22. Losing what was gained restores the player: the level, the experience and the maxima for health, mana and
  capacity are as before, if the scripts leave the amounts alone and the maxima stay within signed 32 bits.\<close>

theorem experience_roundtrip:
  assumes "settled p" "g \<noteq> 0" "unat (pr_experience p) + unat g < exp_of 717216" "0 < unat (pr_experience p) + unat g"
    and "stats_bounded v MAX_LEVEL p"
  shows "let r = removeExperience (\<lambda>n. n) v g (addExperience (\<lambda>n. n) v g p) in
     pr_level r = pr_level p \<and> pr_experience r = pr_experience p \<and> pr_healthMax r = pr_healthMax p
     \<and> pr_manaMax r = pr_manaMax p \<and> pr_capacity r = pr_capacity p"
proof -
  define q where "q = addExperience (\<lambda>n. n) v g p"
  obtain k where k: "settled q" "unat (pr_experience q) = unat (pr_experience p) + unat g"
    "stats_above v k p q" "unat (pr_level p) + k < MAX_LEVEL"
    using addExperience_result [where v = v and onGain = "\<lambda>n. n" and ex = g and p = p, OF assms(1-3)] unfolding q_def Let_def by blast
  have e: "pr_experience q - g = pr_experience p"
    using arg_cong [OF k(2), of "of_nat :: nat \<Rightarrow> u64"] by simp
  have pos: "\<not> sint (pr_experience p) < 0"
  proof -
    have "unat (pr_experience p) < 2 ^ 63" using assms(3) exp_of_max(2) by linarith
    then have "uint (pr_experience p) < 2 ^ 63" by (simp flip: of_nat_less_iff [where 'a = int])
    moreover have "- (2 ^ 63) \<le> uint (pr_experience p)" by (rule order_trans [OF _ uint_nonnegative]) simp
    ultimately have "sint (pr_experience p) = uint (pr_experience p)"
      by (simp add: sint_uint signed_take_bit_int_eq_self)
    then show ?thesis by simp
  qed
  have nz: "pr_experience q \<noteq> 0" using k(2) assms(4) by (metis less_nat_zero_code unat_0)
  let ?q = "q \<lparr> pr_experience := pr_experience p \<rparr>"
  have "stats_above v 0 p (level_down v ?q) \<and> pr_experience (level_down v ?q) = pr_experience p"
  proof (rule level_down_gained [OF assms(1) _ k(4)])
    show "stats_bounded v k p" by (rule stats_bounded_mono [OF assms(5)]) (use k(4) in simp)
    show "stats_above v k p ?q" using k(3) by (simp add: stats_above_def)
  qed simp
  then show ?thesis
    using nz assms(2) e pos unfolding q_def [symmetric] Let_def
    by (simp add: removeExperience_def Let_def stats_above_def)
qed

subsection \<open>Requirements of skills and the magic level\<close>

text \<open>C24. The cache of the tries for a skill level keeps 32 bits of a 64 bit number: a requirement of 4294967296 tries or
  more is answered in full the first time and cut off every time after that.\<close>

theorem skill_requirement_cut:
  assumes "k \<le> SKILL_LAST" "cache level = None" "2 ^ 32 \<le> unat (formula k level)"
  shows "let (first, cache1) = getReqSkillTries formula k level cache;
             (second, cache2) = getReqSkillTries formula k level cache1
         in first = formula k level \<and> unat second = unat (formula k level) mod 2 ^ 32 \<and> second < first"
proof -
  have "unat (ucast (ucast (formula k level) :: u32) :: u64) = unat (formula k level) mod 2 ^ 32"
    by (simp only: unsigned_ucast_eq unsigned_take_bit_eq take_bit_eq_mod) (simp add: unat_mod)
  moreover from this have "(ucast (ucast (formula k level) :: u32) :: u64) < formula k level"
    unfolding word_less_nat_alt using assms(3) mod_less_divisor [of "2 ^ 32" "unat (formula k level)"] by simp
  ultimately show ?thesis
    using assms by (auto simp: getReqSkillTries_def)
qed

definition mana_sum :: "(u32 \<Rightarrow> u64) \<Rightarrow> progress \<Rightarrow> nat" where
  "mana_sum req p = sum_list (map (\<lambda>i. unat (req (of_nat i))) [1 ..< Suc (unat (pr_magLevel p))]) + unat (pr_manaSpent p)"

lemma mana_sum_word: "mana_total req p = of_nat (mana_sum req p)"
proof -
  have "sum_list (map req (map of_nat xs)) = of_nat (sum_list (map (\<lambda>i. unat (req (of_nat i))) xs))" for xs
    by (induction xs) simp_all
  then show ?thesis by (simp add: mana_total_def mana_sum_def)
qed

lemma mana_down_result:
  assumes "mana_down req lost p = (q, rest)" "unat lost \<le> mana_sum req p"
  shows "unat rest \<le> unat (pr_manaSpent q) \<and> mana_sum req p = mana_sum req q + (unat lost - unat rest)
    \<and> unat rest \<le> unat lost"
  using assms
proof (induction req lost p rule: mana_down.induct)
  case (1 req lost p)
  show ?case
  proof (cases "pr_manaSpent p < lost \<and> 0 < pr_magLevel p")
    case True
    let ?p = "p \<lparr> pr_manaSpent := req (pr_magLevel p), pr_magLevel := pr_magLevel p - 1 \<rparr>"
    have l: "unat (pr_magLevel p) = Suc (unat (pr_magLevel p - 1))"
      using True unat_minus_one [of "pr_magLevel p"] by (auto simp: word_gt_0 unat_gt_0)
    have le: "unat (lost - pr_manaSpent p) = unat lost - unat (pr_manaSpent p)"
      using True by (intro unat_sub) (simp add: less_imp_le)
    have "of_nat (Suc (unat (pr_magLevel p - 1))) = pr_magLevel p" unfolding l [symmetric] by simp
    then have s: "mana_sum req p = mana_sum req ?p + unat (pr_manaSpent p)"
      unfolding mana_sum_def l by (simp del: of_nat_Suc)
    have "mana_down req (lost - pr_manaSpent p) ?p = (q, rest)"
      using "1.prems"(1) True by (subst (asm) mana_down.simps) simp
    moreover have "unat (lost - pr_manaSpent p) \<le> mana_sum req ?p" using "1.prems"(2) s le by linarith
    ultimately have ih: "unat rest \<le> unat (pr_manaSpent q)" "unat rest \<le> unat lost - unat (pr_manaSpent p)"
      "mana_sum req ?p = mana_sum req q + (unat lost - unat (pr_manaSpent p) - unat rest)"
      using "1.IH" [OF True] unfolding le by auto
    have "unat (pr_manaSpent p) < unat lost" using True by (simp add: word_less_nat_alt)
    then have "unat rest \<le> unat lost"
      "mana_sum req p = mana_sum req q + (unat lost - unat rest)" using ih(2,3) s by linarith+
    then show ?thesis using ih(1) by blast
  next
    case False
    then have "q = p" "rest = lost" using "1.prems"(1) by (subst (asm) mana_down.simps, simp)+
    moreover have "unat lost \<le> unat (pr_manaSpent p)"
    proof (cases "pr_magLevel p = 0")
      case True
      then show ?thesis using "1.prems"(2) by (simp add: mana_sum_def)
    next
      case nz: False
      then show ?thesis using False by (simp add: word_less_nat_alt unat_eq_0 not_less)
    qed
    ultimately show ?thesis by simp
  qed
qed

text \<open>C23. A death takes from the magic level exactly the share that was computed: all the mana spent, over the levels and
  on the way to the next, is less by that share, and no subtraction wraps around.\<close>

theorem death_mana_exact:
  assumes "unat (loss (mana_total req p)) \<le> mana_sum req p"
  shows "mana_sum req (death_mana loss req p) = mana_sum req p - unat (loss (mana_total req p))"
proof -
  obtain q rest where q: "mana_down req (loss (mana_total req p)) p = (q, rest)" by force
  note r = mana_down_result [OF q assms]
  have "unat (pr_manaSpent q - rest) = unat (pr_manaSpent q) - unat rest"
    using r by (intro unat_sub) (simp add: word_le_nat_alt)
  then show ?thesis using r assms unfolding death_mana_def Let_def q
    by (simp add: mana_sum_def)
qed


subsection \<open>An example\<close>

definition knight :: vocation where
  "knight = \<lparr> vo_id = 4, vo_hp = 15, vo_mana = 5, vo_cap = 25 \<rparr>"

definition rookie :: progress where
  "rookie = \<lparr> pr_level = 1, pr_experience = 0, pr_levelPercent = 0, pr_health = 100, pr_healthMax = 150, pr_mana = 0,
     pr_manaMax = 30, pr_capacity = 400, pr_magLevel = 3, pr_manaSpent = 50, pr_magLevelPercent = 0 \<rparr>"

lemma rookie_settled: "settled rookie"
  by (simp add: settled_def rookie_def MAX_LEVEL_def)

lemma some_experience: "4200 < exp_of 717216"
proof -
  have "4200 < exp_of 9" by (simp add: eval_nat_numeral)
  also have "\<dots> \<le> exp_of 717216" by (rule exp_of_mono) simp
  finally show ?thesis .
qed

lemma experience_decides_level_witness:
  "let q = addExperience (\<lambda>n. 2 * n) knight 2100 rookie in
     unat (pr_experience q) = unat (pr_experience rookie) + unat ((\<lambda>n. 2 * n) 2100 :: u64)
     \<and> exp_of (unat (pr_level q) - 1) \<le> unat (pr_experience q) \<and> unat (pr_experience q) < exp_of (unat (pr_level q))
     \<and> unat (pr_level rookie) \<le> unat (pr_level q)
     \<and> stats_above knight (unat (pr_level q) - unat (pr_level rookie)) rookie q
     \<and> (pr_level q \<noteq> pr_level rookie \<longrightarrow> pr_health q = pr_healthMax q)"
proof (rule experience_decides_level [where onGain = "\<lambda>n. 2 * n" and ex = 2100, OF rookie_settled])
  show "2 * 2100 \<noteq> (0 :: u64)" by simp
  show "unat (pr_experience rookie) + unat (2 * 2100 :: u64) < exp_of 717216"
    using some_experience by (simp add: rookie_def)
qed

lemma experience_roundtrip_witness:
  "let r = removeExperience (\<lambda>n. n) knight 4200 (addExperience (\<lambda>n. n) knight 4200 rookie) in
     pr_level r = pr_level rookie \<and> pr_experience r = pr_experience rookie \<and> pr_healthMax r = pr_healthMax rookie
     \<and> pr_manaMax r = pr_manaMax rookie \<and> pr_capacity r = pr_capacity rookie"
proof (rule experience_roundtrip [OF rookie_settled])
  show "unat (pr_experience rookie) + unat (4200 :: u64) < exp_of 717216"
    using some_experience by (simp add: rookie_def)
qed (simp_all add: rookie_def stats_bounded_def knight_def MAX_LEVEL_def)

lemma skill_requirement_cut_witness:
  "let (first, cache1) = getReqSkillTries (\<lambda>_ _. 6710886400) 1 38 (\<lambda>_. None);
       (second, cache2) = getReqSkillTries (\<lambda>_ _. 6710886400) 1 38 cache1
   in first = 6710886400 \<and> unat second = unat (6710886400 :: u64) mod 2 ^ 32 \<and> second < first"
  by (rule skill_requirement_cut) (simp_all add: SKILL_LAST_def)

lemma death_mana_exact_witness:
  "mana_sum (\<lambda>_. 100) (death_mana (\<lambda>_. 120) (\<lambda>_. 100) rookie) = mana_sum (\<lambda>_. 100) rookie - unat (120 :: u64)"
  by (rule death_mana_exact [where loss = "\<lambda>_. 120"]) (simp add: mana_sum_def rookie_def upt_rec)

end
