(* ===== verification/Spec2Isabelle.thy ===== *)
theory Spec2Isabelle
  imports Positions Connection_Flow Otb_Loader Player_Registry Wait_List Connection_Ban Event_Scheduler Spectators Walk_Cache Party_Commands Move_Properties Item_Roundtrip Tile_Entry Progress_Properties
begin

text \<open>
  A model of the game server OTX (\<^verbatim>\<open>src/src\<close>), and what can be proved of it.

  \<^bold>\<open>The program.\<close> A server for a massively multiplayer role playing game. A network thread
  reads and writes framed, encrypted messages (\<open>Connection\<close>, \<open>NetworkMessage\<close>, \<open>Protocol\<close>); what a
  client asks for becomes a task of the dispatcher thread, delayed work is kept by the scheduler thread. The
  dispatcher works on the state of the game: the map (a quad tree of leaves with floors of tiles), creatures and
  players with their indexes, items in containers, parties, the login queue. Worlds and item tables are read from
  binary node files.

  \<^bold>\<open>Conventions.\<close> Integers have the width of the source (\<open>u8\<close> \<dots> \<open>u64\<close> are machine words) where
  they can wrap around, and are \<open>int\<close> or \<open>nat\<close> elsewhere. Objects live in stores (maps or lists) and pointers
  are addresses. A result of an option type that is \<open>None\<close> is undefined behaviour of the C++ program: an access
  outside an array, a dangling pointer, \<open>top()\<close> of an empty queue; the theorems say where it cannot happen,
  and the properties of kind \<open>error\<close> where it does. Loops over data are structural recursions; those over
  positions and buffers have measures; the climbs along parent pointers are \<open>partial_function\<close>s whose value
  \<open>None\<close> also covers the case that they do not end.

  \<^bold>\<open>Theories, in the order of the layers.\<close>

  \<^item> \<open>Otx_Prelude\<close>, \<open>Otx_Enums\<close>: words, memory images of integers (locale \<open>byte_codec\<close>), checked array
    accesses, \<open>ReturnValue\<close>.
  \<^item> \<open>Positions\<close> (\<^verbatim>\<open>position.h\<close>, \<^verbatim>\<open>tools.cpp\<close>): positions, directions, distances, the order.
  \<^item> \<open>Net_Message\<close> (\<^verbatim>\<open>networkmessage.h/.cpp\<close>): the buffer with its guards; no access leaves the array,
    fields are read back.
  \<^item> \<open>Protocol_Crypto\<close> (\<^verbatim>\<open>protocol.h/.cpp\<close>): XTEA, padding, the frame of a message, sending and receiving.
  \<^item> \<open>Connection_Flow\<close> (\<^verbatim>\<open>connection.cpp\<close>): the states of a connection, the queue of writes, closing.
  \<^item> \<open>Connection_Ban\<close> (\<^verbatim>\<open>ban.cpp\<close>), \<open>Wait_List\<close> (\<^verbatim>\<open>waitlist.cpp\<close>): admission.
  \<^item> \<open>Event_Scheduler\<close> (\<^verbatim>\<open>scheduler.cpp\<close>, \<^verbatim>\<open>tasks.cpp\<close>): the two threads as interleavings of their locked regions.
  \<^item> \<open>Otb_Loader\<close> (\<^verbatim>\<open>fileloader.h/.cpp\<close>): node files and property streams.
  \<^item> \<open>Wildcard_Tree\<close> (\<^verbatim>\<open>wildcardtree.cpp\<close>), \<open>Player_Registry\<close> (\<^verbatim>\<open>game.cpp\<close>): online players by id, name, prefix.
  \<^item> \<open>Quad_Tree\<close>, \<open>World_Map\<close>, \<open>Spectators\<close>, \<open>Sight_Line\<close> (\<^verbatim>\<open>map.h/.cpp\<close>): the tree and its leaves, the lists of
    creatures, the scan for spectators with its caches, lines of sight.
  \<^item> \<open>Path_Finding\<close>, \<open>Path_Search\<close> (\<^verbatim>\<open>map.cpp\<close>, \<^verbatim>\<open>creature.cpp\<close>): the search with its store of nodes, the walk cache;
    \<open>Walk_Cache\<close>: the shift of the cache with a step and the handlers that refresh it.
  \<^item> \<open>Party_State\<close>, \<open>Party_Safety\<close>, \<open>Party_Commands\<close> (\<^verbatim>\<open>party.cpp\<close>, \<^verbatim>\<open>game.cpp\<close>, \<^verbatim>\<open>player.cpp\<close>): parties with both sides
    of membership and invitation.
  \<^item> \<open>Item_Attributes\<close>, \<open>Items\<close> (\<^verbatim>\<open>item.h/.cpp\<close>, \<^verbatim>\<open>items.h\<close>): attribute lists, items, their types;
    \<open>Item_Serial\<close>, \<open>Item_Roundtrip\<close>: saving and loading them.
  \<^item> \<open>Container_Items\<close> (\<^verbatim>\<open>container.cpp\<close>, \<^verbatim>\<open>inbox.cpp\<close>, \<^verbatim>\<open>game.cpp\<close>): the heap of items, queries and changes
    of containers, moves and removals. \<open>Container_Forest\<close>, \<open>Item_Moves\<close>, \<open>Item_Conservation\<close>, \<open>Move_Item\<close>,
    \<open>Move_Properties\<close>: the invariant of the heap and the conservation of items.
  \<^item> \<open>Tile_Things\<close>, \<open>Tile_Ops\<close> (\<^verbatim>\<open>tile.h/.cpp\<close>, \<^verbatim>\<open>game.cpp\<close>): ground, top items, down items, creatures and flags of a tile,
    the operations on them and \<open>transformItem\<close>; \<open>Tile_Invariant\<close>, \<open>Tile_Safety\<close>, \<open>Tile_Changes\<close>, \<open>Tile_Steps\<close>,
    \<open>Tile_Properties\<close>: their invariant. \<open>Tile_Queries\<close>, \<open>Tile_Entry\<close>: stack positions, who may enter, floor changes.
  \<^item> \<open>Player_Progress\<close>, \<open>Progress_Properties\<close> (\<^verbatim>\<open>player.cpp\<close>, \<^verbatim>\<open>vocation.cpp\<close>): experience, levels, skills, magic level, deaths.

  \<^bold>\<open>What the lemmas show.\<close> For each part an invariant of its state that every operation keeps (\<open>world_ok\<close>,
  \<open>registry_ok\<close>, \<open>parties_ok\<close>, \<open>heap_ok\<close>, \<open>attrs_ok\<close> \<dots>), the results of its operations on every branch, and a refinement to the
  abstract object that it implements: the quad tree to a map of coordinates, the prefix tree to a set of names, the
  attribute list to a map of types, the write queue to the sequence of accepted messages, the node file to a tree.
  This theory holds the end to end property of the message layer.

  \<^bold>\<open>Bounds and fuel.\<close> \<open>internalMoveItem\<close> asks for its destination at most sixteen times, as the code
  does. The path search opens at most 512 nodes, which is its measure. The line of sight is bounded by
  the 32 bit products, shown not to overflow for positions of the map. No fuel is used elsewhere.

  \<^bold>\<open>Parameters.\<close> What a tile answers to the path search, the answers of scripts (the \<open>on...\<close> events of parties),
  the weight a player can carry, and the clock are arguments of the definitions.

  \<^bold>\<open>Not modelled.\<close> The Lua interface, the databases and XML files, the sending of single game packets, RSA and the
  first message of a connection, combat and spells, monsters and npcs, houses and guilds, equipment and depots of a
  player, offline training, random numbers, floating point arithmetic (experience shares), input and output, and the
  memory management of C++ beyond the pointers above and the lists of released items.
\<close>

section \<open>Properties that span components\<close>

text \<open>
  C1. End to end delivery: a message built from fields, completed and encrypted by
  \<open>onSendMessage\<close>, is a byte string that a receiving connection with the same key accepts
  (whatever its buffer held before, as long as its packet rate allows another packet): the header
  passes \<open>parseHeader\<close>, decryption succeeds, and the parser reads back exactly the fields that were
  written, without an overrun.
\<close>

theorem packet_end_to_end:
  assumes "length mem = NETWORKMESSAGE_MAXSIZE" "\<forall>f \<in> set fs. field_ok f" "fields_size fs \<le> 24566"
    and "pr_encryptionEnabled p" "\<not> pr_rawMessages p"
    and "pr_encryptionEnabled q" "pr_key q = pr_key p"
    and "nm_wf (cn_msg c)" "\<not> nm_overrun (cn_msg c)" "cn_open c" "rate_ok now max_pps c"
  shows "\<exists>m m' w r r'. write_fields fs (new_outmsg mem) = Some m
    \<and> onSendMessage p m = Some m' \<and> om_output m' = Some w
    \<and> receive_frame now max_pps q c w = Some (Some r)
    \<and> read_fields fs r = Some (fs, r') \<and> \<not> nm_overrun r'"
proof -
  let ?body = "concat (map field_bytes fs)"
  have lb: "length ?body \<le> 24566" using assms(3) by (simp add: fields_size_def)
  obtain m where m: "write_fields fs (new_outmsg mem) = Some m" "holds_body ?body m"
    using write_fields_holds [of mem fs] assms(1-3) by auto
  obtain m' where s: "onSendMessage p m = Some m'" "om_output m' = Some (frame_wire (pr_key p) ?body)"
    using onSendMessage_frame [OF m(2) lb assms(5,4)] by blast
  obtain r where r: "receive_frame now max_pps q c (frame_wire (pr_key q) ?body) = Some (Some r)"
    "nm_length r = of_nat (length ?body)" "nm_position r = 4"
    "read_at 4 (length ?body) (nm_buffer r) = Some ?body" "\<not> nm_overrun r"
    using receive_frame_wire [OF assms(8-11) lb assms(6)] by blast
  have "unat (nm_length r) = length ?body" unfolding r(2) using lb by (intro u16_of_nat_small) simp
  then have "img_at ?body r" using r(3,4) lb by (simp add: img_at_def)
  then have "read_fields fs r = Some (fs, advance (fields_size fs) r)"
    using assms(2) by (rule read_fields_img)
  moreover have "\<not> nm_overrun (advance (fields_size fs) r)" using r(5) by (simp add: advance_def)
  ultimately show ?thesis using m s r(1) unfolding assms(7) by blast
qed

theorem packet_end_to_end_witness:
  "\<exists>m m' w r r'. write_fields [FU8 10, FString [72, 105]] (new_outmsg (replicate 24590 0)) = Some m
    \<and> onSendMessage example_protocol m = Some m' \<and> om_output m' = Some w
    \<and> receive_frame 0 25 example_protocol (idle_connection (Some example_protocol) (replicate 24590 7)) w
        = Some (Some r)
    \<and> read_fields [FU8 10, FString [72, 105]] r = Some ([FU8 10, FString [72, 105]], r')
    \<and> \<not> nm_overrun r'"
  by (rule packet_end_to_end)
    (simp_all add: fields_size_def example_protocol_def idle_connection_def nm_wf_def rate_ok_def)

end
